(* ===== verification/Prelude.thy ===== *)
theory Prelude
  imports
    Main
    "HOL-Library.Char_ord"
    "HOL-Library.List_Lexorder"
    "HOL-Library.Product_Lexorder"
    "HOL-Library.Multiset"
    "HOL-Library.Word"
begin

text \<open>
  Shared vocabulary of the development: Go's \<open>error\<close> values and the early-return
  style of its validators, slices that may be nil, sorted and duplicate-free
  lists, the in-place removal of adjacent duplicates, and the decimal printing
  of integers.  Strings are byte strings (\<open>char list\<close>) and are compared
  bytewise, as Go compares them.
\<close>

section \<open>Collections of facts\<close>

named_theorems validate_defs \<open>definitions of the Validate methods\<close>
named_theorems enum_defs \<open>value lists and texts of the string enumerations\<close>

section \<open>Errors\<close>

text \<open>
  A Go \<open>error\<close> as a value.  \<open>Errorf\<close> is a message (its format arguments are
  appended as text where the source prints them), \<open>Wrapf\<close> the wrapping verb
  \<open>%w\<close>, and the two context errors are the sentinels of the standard library
  that \<open>errors.Is\<close> looks for.
\<close>

datatype goerr =
    Errorf string
  | Wrapf string goerr
  | ContextCanceled
  | ContextDeadlineExceeded

text \<open>
  A validator returns \<open>None\<close> for Go's nil error.  Its body is a sequence of
  checks with early return: the first error of the sequence is the result.
\<close>

definition require :: "bool \<Rightarrow> goerr \<Rightarrow> goerr option" where
  "require ok e = (if ok then None else Some e)"

primrec first_error :: "goerr option list \<Rightarrow> goerr option" where
  "first_error [] = None"
| "first_error (e # es) = (case e of None \<Rightarrow> first_error es | Some x \<Rightarrow> Some x)"

definition wrap_error :: "string \<Rightarrow> goerr option \<Rightarrow> goerr option" where
  "wrap_error text e = map_option (Wrapf text) e"

definition validate_pointer :: "('a \<Rightarrow> goerr option) \<Rightarrow> 'a option \<Rightarrow> goerr option" where
  "validate_pointer f p = (case p of None \<Rightarrow> None | Some v \<Rightarrow> f v)"

lemma require_None [simp]: "require ok e = None \<longleftrightarrow> ok"
  by (simp add: require_def)

lemma require_Some [simp]: "require ok e = Some x \<longleftrightarrow> \<not> ok \<and> x = e"
  by (auto simp: require_def)

declare first_error.simps(2) [simp del]

lemma first_error_None [simp]: "first_error (e # es) = None \<longleftrightarrow> e = None \<and> first_error es = None"
  by (simp add: first_error.simps(2) split: option.split)

lemma first_error_Some: "first_error (e # es) = Some x \<longleftrightarrow> e = Some x \<or> e = None \<and> first_error es = Some x"
  by (cases e) (simp_all add: first_error.simps(2))

lemma first_error_None_iff: "first_error es = None \<longleftrightarrow> (\<forall>e \<in> set es. e = None)"
  by (induction es) auto

lemma first_error_map_None [simp]:
  "first_error (map f xs) = None \<longleftrightarrow> (\<forall>x \<in> set xs. f x = None)"
  by (auto simp: first_error_None_iff)

lemma first_error_append_None [simp]:
  "first_error (xs @ ys) = None \<longleftrightarrow> first_error xs = None \<and> first_error ys = None"
  by (auto simp: first_error_None_iff)

lemma wrap_error_None [simp]: "wrap_error t e = None \<longleftrightarrow> e = None"
  by (simp add: wrap_error_def)

lemma validate_pointer_None [simp]:
  "validate_pointer f p = None \<longleftrightarrow> (\<forall>v. p = Some v \<longrightarrow> f v = None)"
  by (auto simp: validate_pointer_def split: option.split)

text \<open>\<open>errors.Is\<close> against one of the two context sentinels follows the wrapping.\<close>

primrec is_context_error :: "goerr \<Rightarrow> bool" where
  "is_context_error (Errorf s) = False"
| "is_context_error (Wrapf s e) = is_context_error e"
| "is_context_error ContextCanceled = True"
| "is_context_error ContextDeadlineExceeded = True"

section \<open>Slices\<close>

text \<open>
  A Go slice that distinguishes nil from an empty slice.  Ranging over a nil
  slice visits nothing and its length is 0.
\<close>

type_synonym 'a slice = "'a list option"

definition elems :: "'a slice \<Rightarrow> 'a list" where
  "elems s = (case s of None \<Rightarrow> [] | Some xs \<Rightarrow> xs)"

lemma elems_simps [simp]: "elems None = []" "elems (Some xs) = xs"
  by (simp_all add: elems_def)

section \<open>Strictly sorted lists\<close>

abbreviation strictly_sorted :: "'a::linorder list \<Rightarrow> bool" where
  "strictly_sorted xs \<equiv> sorted_wrt (<) xs"

lemma strictly_sorted_iff: "strictly_sorted xs \<longleftrightarrow> sorted xs \<and> distinct xs"
  by (rule strict_sorted_iff)

lemma strictly_sorted_set_eq:
  fixes xs ys :: "'a::linorder list"
  assumes "strictly_sorted xs" and "strictly_sorted ys" and "set xs = set ys"
  shows "xs = ys"
  using assms by (metis strict_sorted_equal)

text \<open>The adjacent comparison \<open>ids[index-1] >= id\<close> of the source's loops.\<close>

fun adjacent_ok :: "('a \<Rightarrow> 'a \<Rightarrow> bool) \<Rightarrow> 'a list \<Rightarrow> bool" where
  "adjacent_ok r (x # y # zs) = (r x y \<and> adjacent_ok r (y # zs))"
| "adjacent_ok r _ = True"

lemma adjacent_ok_strict [simp]:
  fixes xs :: "'a::linorder list"
  shows "adjacent_ok (<) xs = strictly_sorted xs"
proof (induction xs rule: induct_list012)
  case (3 x y zs)
  then show ?case by (auto dest: less_trans)
qed simp_all

lemma adjacent_ok_map:
  "adjacent_ok (\<lambda>x y. r (f x) (f y)) xs = adjacent_ok r (map f xs)"
  by (induction xs rule: induct_list012) simp_all

section \<open>Removing adjacent duplicates in place\<close>

text \<open>
  The loop shared by \<open>deduplicateEvidenceIDs\<close> and \<open>SortCoverageAssessmentIDs\<close>:
  a read and a write position over one array; an element equal to the last one
  written is skipped.
\<close>

function compact_from :: "'a list \<Rightarrow> nat \<Rightarrow> nat \<Rightarrow> 'a list" where
  "compact_from ids rd wr =
     (if rd < length ids
      then if ids ! rd = ids ! (wr - 1)
           then compact_from ids (Suc rd) wr
           else compact_from (ids[wr := ids ! rd]) (Suc rd) (Suc wr)
      else take wr ids)"
  by pat_completeness auto
termination
  by (relation "measure (\<lambda>(ids, rd, wr). length ids - rd)") auto

declare compact_from.simps [simp del]

definition compact :: "'a list \<Rightarrow> 'a list" where
  "compact ids = (if ids = [] then ids else compact_from ids 1 1)"

lemma remdups_adj_snoc:
  "remdups_adj (xs @ [y]) =
     (if xs \<noteq> [] \<and> last xs = y then remdups_adj xs else remdups_adj xs @ [y])"
proof (cases xs rule: rev_cases)
  case (snoc zs z)
  then show ?thesis by (simp add: remdups_adj_append_two)
qed simp

text \<open>The part already written is the compacted prefix read so far; the part not yet read is untouched.\<close>

lemma compact_from_eq:
  assumes "0 < wr" and "wr \<le> rd" and "rd \<le> length ids"
    and "length orig = length ids" and "drop rd ids = drop rd orig"
    and "take wr ids = remdups_adj (take rd orig)"
  shows "compact_from ids rd wr = remdups_adj orig"
  using assms
proof (induction ids rd wr rule: compact_from.induct)
  case (1 ids rd wr)
  show ?case
  proof (cases "rd < length ids")
    case False
    with "1.prems" show ?thesis by (simp add: compact_from.simps[of ids])
  next
    case True
    have same: "ids ! rd = orig ! rd"
      using "1.prems" True by (metis hd_drop_conv_nth)
    have next_drop: "drop (Suc rd) ids = drop (Suc rd) orig"
      using "1.prems"(5) by (metis drop_Suc tl_drop)
    have "take wr ids \<noteq> []" using "1.prems" True by auto
    moreover have "wr \<le> length ids" using "1.prems"(2) True by simp
    ultimately have "ids ! (wr - 1) = last (take wr ids)"
      using "1.prems"(1) by (simp add: last_conv_nth)
    then have last: "ids ! (wr - 1) = last (take rd orig)"
      using "1.prems"(6) last_remdups_adj by metis
    have nonempty: "take rd orig \<noteq> []" using "1.prems" True by auto
    have step: "remdups_adj (take (Suc rd) orig) =
        (if last (take rd orig) = orig ! rd then take wr ids else take wr ids @ [orig ! rd])"
      using True "1.prems" nonempty by (simp add: take_Suc_conv_app_nth remdups_adj_snoc)
    show ?thesis
    proof (cases "ids ! rd = ids ! (wr - 1)")
      case eq: True
      have "compact_from ids (Suc rd) wr = remdups_adj orig"
        using "1.IH"(1)[OF True eq] "1.prems" True next_drop step same last eq by simp
      then show ?thesis using True eq by (simp add: compact_from.simps[of ids rd])
    next
      case ne: False
      have "take (Suc wr) (ids[wr := ids ! rd]) = remdups_adj (take (Suc rd) orig)"
        using step same last ne "1.prems" True
        by (simp add: take_Suc_conv_app_nth)
      moreover have "drop (Suc rd) (ids[wr := ids ! rd]) = drop (Suc rd) orig"
        using next_drop "1.prems" by simp
      ultimately have "compact_from (ids[wr := ids ! rd]) (Suc rd) (Suc wr) = remdups_adj orig"
        using "1.IH"(2)[OF True ne] "1.prems" True by simp
      then show ?thesis using True ne by (simp add: compact_from.simps[of ids rd])
    qed
  qed
qed

lemma compact_eq_remdups_adj: "compact ids = remdups_adj ids"
proof (cases ids)
  case (Cons x xs)
  then show ?thesis
    unfolding compact_def using compact_from_eq[of 1 1 ids ids] by simp
qed (simp add: compact_def)

lemma strictly_sorted_remdups_adj:
  fixes xs :: "'a::linorder list"
  shows "sorted xs \<Longrightarrow> strictly_sorted (remdups_adj xs)"
  by (induction xs rule: remdups_adj.induct) (auto simp: less_le)

lemma strictly_sorted_compact_sort:
  fixes xs :: "'a::linorder list"
  shows "strictly_sorted (compact (sort xs))"
  by (simp add: compact_eq_remdups_adj strictly_sorted_remdups_adj)

lemma set_compact [simp]: "set (compact xs) = set xs"
  by (simp add: compact_eq_remdups_adj)

section \<open>Sums\<close>

lemma map_sum_Inr [simp]: "map_sum f g r = Inr y \<longleftrightarrow> (\<exists>x. r = Inr x \<and> y = g x)"
  by (cases r) auto

end
