(* ===== verification/Go_Text.thy ===== *)
theory Go_Text
  imports Prelude
begin

text \<open>
  The parts of Go's string library that CIRewind's identity checks use: bytes and
  UTF-8 decoding as \<open>range\<close> over a string performs it, ASCII case, hexadecimal,
  prefix and suffix tests, splitting, \<open>path.Clean\<close>, and decimal formatting.
\<close>

section \<open>Bytes\<close>

definition byte :: "char \<Rightarrow> nat" where
  "byte c = of_char c"

lemma byte_less: "byte c < 256"
  by (simp add: byte_def)

lemma byte_inject [simp]: "byte c = byte d \<longleftrightarrow> c = d"
  by (simp add: byte_def)

definition HasPrefix :: "string \<Rightarrow> string \<Rightarrow> bool" where
  "HasPrefix s p \<longleftrightarrow> take (length p) s = p"

definition HasSuffix :: "string \<Rightarrow> string \<Rightarrow> bool" where
  "HasSuffix s p \<longleftrightarrow> length p \<le> length s \<and> drop (length s - length p) s = p"

lemma HasSuffix_iff: "HasSuffix s p \<longleftrightarrow> (\<exists>r. s = r @ p)"
proof
  assume "HasSuffix s p"
  then have "s = take (length s - length p) s @ p"
    unfolding HasSuffix_def by (metis append_take_drop_id)
  then show "\<exists>r. s = r @ p" ..
qed (auto simp: HasSuffix_def)

lemma HasPrefix_iff: "HasPrefix s p \<longleftrightarrow> (\<exists>r. s = p @ r)"
  by (metis HasPrefix_def append_eq_conv_conj append_take_drop_id)

text \<open>\<open>strings.Split\<close> with a one-byte separator.\<close>

fun split_on :: "char \<Rightarrow> string \<Rightarrow> string list" where
  "split_on c [] = [[]]"
| "split_on c (x # xs) =
     (if x = c then [] # split_on c xs
      else case split_on c xs of [] \<Rightarrow> [[x]] | p # ps \<Rightarrow> (x # p) # ps)"

fun join_with :: "char \<Rightarrow> string list \<Rightarrow> string" where
  "join_with c [] = []"
| "join_with c [p] = p"
| "join_with c (p # ps) = p @ c # join_with c ps"

lemma split_on_nonempty [simp]: "split_on c s \<noteq> []"
  by (induction s) (auto split: list.split)

lemma join_with_Cons: "ps \<noteq> [] \<Longrightarrow> join_with c (p # ps) = p @ c # join_with c ps"
  by (cases ps) simp_all

lemma join_with_head: "join_with c ((x # p) # ps) = x # join_with c (p # ps)"
  by (cases ps) simp_all

lemma join_split_on: "join_with c (split_on c s) = s"
proof (induction s)
  case (Cons x xs)
  then show ?case
    by (auto simp: join_with_Cons join_with_head split: list.split)
qed simp

lemma split_on_no_sep: "p \<in> set (split_on c s) \<Longrightarrow> c \<notin> set p"
  by (induction s arbitrary: p) (auto split: if_splits list.splits)

lemma split_on_single: "c \<notin> set p \<Longrightarrow> split_on c p = [p]"
  by (induction p) auto

lemma split_on_append: "c \<notin> set p \<Longrightarrow> split_on c (p @ c # s) = p # split_on c s"
  by (induction p) auto

text \<open>Two strings cut at a separator that one side does not contain.\<close>

lemma append_slash_eq:
  "c \<notin> set a \<Longrightarrow> c \<notin> set a' \<Longrightarrow> a @ c # r = a' @ c # r' \<longleftrightarrow> a = a' \<and> r = r'"
proof (induction a arbitrary: a')
  case Nil
  then show ?case by (cases a') auto
next
  case (Cons x a)
  then show ?case by (cases a') auto
qed

lemma append_slash_eq_right:
  assumes "c \<notin> set b" and "c \<notin> set b'"
  shows "a @ c # b = a' @ c # b' \<longleftrightarrow> a = a' \<and> b = b'"
proof -
  have "a @ c # b = a' @ c # b' \<longleftrightarrow> rev (a @ c # b) = rev (a' @ c # b')"
    by (simp only: rev_is_rev_conv)
  also have "\<dots> \<longleftrightarrow> rev b @ c # rev a = rev b' @ c # rev a'" by simp
  finally show ?thesis using assms append_slash_eq[of c "rev b" "rev b'"] by auto
qed
section \<open>UTF-8\<close>

text \<open>
  One step of \<open>utf8.DecodeRuneInString\<close> on a non-empty string: the rune and the
  number of bytes consumed.  A malformed, overlong, surrogate or truncated
  sequence is \<open>RuneError\<close> with size 1.
\<close>

definition rune_error :: nat where
  "rune_error = 0xFFFD"

definition cont_byte :: "char \<Rightarrow> bool" where
  "cont_byte c \<longleftrightarrow> 0x80 \<le> byte c \<and> byte c \<le> 0xBF"

definition decode_two :: "nat \<Rightarrow> string \<Rightarrow> nat \<times> nat" where
  "decode_two b0 r =
     (case r of
        c1 # _ \<Rightarrow> if cont_byte c1 then ((b0 - 0xC0) * 64 + (byte c1 - 0x80), 2) else (rune_error, 1)
      | [] \<Rightarrow> (rune_error, 1))"

definition decode_three :: "nat \<Rightarrow> string \<Rightarrow> nat \<times> nat" where
  "decode_three b0 r =
     (case r of
        c1 # c2 # _ \<Rightarrow>
          if cont_byte c1 \<and> cont_byte c2 \<and> (b0 = 0xE0 \<longrightarrow> 0xA0 \<le> byte c1) \<and> (b0 = 0xED \<longrightarrow> byte c1 \<le> 0x9F)
          then ((b0 - 0xE0) * 4096 + (byte c1 - 0x80) * 64 + (byte c2 - 0x80), 3)
          else (rune_error, 1)
      | _ \<Rightarrow> (rune_error, 1))"

definition decode_four :: "nat \<Rightarrow> string \<Rightarrow> nat \<times> nat" where
  "decode_four b0 r =
     (case r of
        c1 # c2 # c3 # _ \<Rightarrow>
          if cont_byte c1 \<and> cont_byte c2 \<and> cont_byte c3 \<and>
             (b0 = 0xF0 \<longrightarrow> 0x90 \<le> byte c1) \<and> (b0 = 0xF4 \<longrightarrow> byte c1 \<le> 0x8F)
          then ((b0 - 0xF0) * 262144 + (byte c1 - 0x80) * 4096 + (byte c2 - 0x80) * 64 + (byte c3 - 0x80), 4)
          else (rune_error, 1)
      | _ \<Rightarrow> (rune_error, 1))"

definition decode_rune :: "string \<Rightarrow> nat \<times> nat" where
  "decode_rune s =
     (case s of
        [] \<Rightarrow> (rune_error, 0)
      | c0 # r \<Rightarrow>
          if byte c0 < 0x80 then (byte c0, 1)
          else if 0xC2 \<le> byte c0 \<and> byte c0 \<le> 0xDF then decode_two (byte c0) r
          else if 0xE0 \<le> byte c0 \<and> byte c0 \<le> 0xEF then decode_three (byte c0) r
          else if 0xF0 \<le> byte c0 \<and> byte c0 \<le> 0xF4 then decode_four (byte c0) r
          else (rune_error, 1))"

lemma decode_two_size: "1 \<le> snd (decode_two b r) \<and> snd (decode_two b r) \<le> Suc (length r)"
  by (simp add: decode_two_def split: list.split)

lemma decode_three_size: "1 \<le> snd (decode_three b r) \<and> snd (decode_three b r) \<le> Suc (length r)"
  by (simp add: decode_three_def split: list.split)

lemma decode_four_size: "1 \<le> snd (decode_four b r) \<and> snd (decode_four b r) \<le> Suc (length r)"
  by (simp add: decode_four_def split: list.split)

lemma decode_rune_size: "s \<noteq> [] \<Longrightarrow> 1 \<le> snd (decode_rune s) \<and> snd (decode_rune s) \<le> length s"
  using decode_two_size decode_three_size decode_four_size
  by (auto simp: decode_rune_def split: list.split)

text \<open>\<open>for _, r := range s\<close>: the runes of a string together with their sizes.\<close>

function runes :: "string \<Rightarrow> (nat \<times> nat) list" where
  "runes s = (if s = [] then [] else decode_rune s # runes (drop (snd (decode_rune s)) s))"
  by pat_completeness auto
termination
  by (relation "measure length") (use decode_rune_size in fastforce)+

declare runes.simps [simp del]

lemma runes_Nil [simp]: "runes [] = []"
  by (simp add: runes.simps)

text \<open>\<open>utf8.ValidString\<close>: no position decodes to a one-byte \<open>RuneError\<close>.\<close>

definition ValidUTF8 :: "string \<Rightarrow> bool" where
  "ValidUTF8 s = (\<forall>r \<in> set (runes s). r \<noteq> (rune_error, 1))"

text \<open>
  A byte below 0x80 is always a rune of its own, and a multi-byte or malformed
  sequence never yields a rune below 0x80, so tests on ASCII runes can be read
  off the bytes.
\<close>

lemma decode_rune_ascii: "byte c < 0x80 \<Longrightarrow> decode_rune (c # s) = (byte c, 1)"
  by (simp add: decode_rune_def)

lemma rune_error_not_ascii: "0x80 \<le> rune_error"
  by (simp add: rune_error_def)

lemma decode_two_not_ascii: "0xC2 \<le> b \<Longrightarrow> 0x80 \<le> fst (decode_two b r)"
  using rune_error_not_ascii by (auto simp: decode_two_def split: list.split)

lemma decode_three_not_ascii:
  assumes "0xE0 \<le> b"
  shows "0x80 \<le> fst (decode_three b r)"
proof -
  have "b = 0xE0 \<and> 0xA0 \<le> x \<or> 0xE1 \<le> b \<Longrightarrow> 0x80 \<le> (b - 0xE0) * 4096 + (x - 0x80) * 64 + (y - 0x80)" for x y
    by auto
  then show ?thesis
    using rune_error_not_ascii assms by (auto simp: decode_three_def split: list.split)
qed

lemma decode_four_not_ascii:
  assumes "0xF0 \<le> b"
  shows "0x80 \<le> fst (decode_four b r)"
proof -
  have "b = 0xF0 \<and> 0x90 \<le> x \<or> 0xF1 \<le> b \<Longrightarrow>
      0x80 \<le> (b - 0xF0) * 262144 + (x - 0x80) * 4096 + (y - 0x80) * 64 + (z - 0x80)" for x y z
    by auto
  then show ?thesis
    using rune_error_not_ascii assms by (auto simp: decode_four_def split: list.split)
qed

lemma decode_rune_not_ascii: "0x80 \<le> byte c \<Longrightarrow> 0x80 \<le> fst (decode_rune (c # s))"
  using decode_two_not_ascii decode_three_not_ascii decode_four_not_ascii rune_error_not_ascii
  by (simp add: decode_rune_def)

lemma decode_two_bytes: "\<forall>d \<in> set (take (snd (decode_two b r) - 1) r). 0x80 \<le> byte d"
  by (simp add: decode_two_def cont_byte_def split: list.split)

lemma decode_three_bytes: "\<forall>d \<in> set (take (snd (decode_three b r) - 1) r). 0x80 \<le> byte d"
  by (simp add: decode_three_def cont_byte_def split: list.split)

lemma decode_four_bytes: "\<forall>d \<in> set (take (snd (decode_four b r) - 1) r). 0x80 \<le> byte d"
  by (simp add: decode_four_def cont_byte_def split: list.split)

lemma decode_rune_bytes:
  assumes "0x80 \<le> byte c"
  shows "\<forall>d \<in> set (take (snd (decode_rune (c # s))) (c # s)). 0x80 \<le> byte d"
proof -
  have "take n (c # s) = c # take (n - 1) s" if "1 \<le> n" for n
    using that by (cases n) simp_all
  moreover have "1 \<le> snd (decode_rune (c # s))" using decode_rune_size[of "c # s"] by simp
  moreover have "\<forall>d \<in> set (take (snd (decode_rune (c # s)) - 1) s). 0x80 \<le> byte d"
    using assms decode_two_bytes decode_three_bytes decode_four_bytes by (simp add: decode_rune_def)
  ultimately show ?thesis using assms by simp
qed

lemma runes_ascii_iff:
  "(\<exists>r \<in> set (runes s). fst r < 0x80 \<and> P (fst r)) \<longleftrightarrow> (\<exists>c \<in> set s. byte c < 0x80 \<and> P (byte c))"
proof (induction s rule: runes.induct)
  case (1 s)
  show ?case
  proof (cases s)
    case (Cons c t)
    let ?n = "snd (decode_rune s)"
    have IH: "(\<exists>r \<in> set (runes (drop ?n s)). fst r < 0x80 \<and> P (fst r)) \<longleftrightarrow>
        (\<exists>c \<in> set (drop ?n s). byte c < 0x80 \<and> P (byte c))"
      using "1" Cons by simp
    have split: "set s = set (take ?n s) \<union> set (drop ?n s)"
      by (metis append_take_drop_id set_append)
    have head: "(fst (decode_rune s) < 0x80 \<and> P (fst (decode_rune s))) \<longleftrightarrow>
        (\<exists>c \<in> set (take ?n s). byte c < 0x80 \<and> P (byte c))"
    proof (cases "byte c < 0x80")
      case True
      then show ?thesis by (simp add: Cons decode_rune_ascii)
    next
      case False
      then show ?thesis using decode_rune_not_ascii[of c t] decode_rune_bytes[of c t] Cons by fastforce
    qed
    have "set (runes s) = insert (decode_rune s) (set (runes (drop ?n s)))"
      by (subst runes.simps) (simp add: Cons)
    then show ?thesis using IH head split by auto
  qed simp
qed

lemma runes_ascii_all: "\<forall>c \<in> set s. byte c < 0x80 \<Longrightarrow> runes s = map (\<lambda>c. (byte c, 1)) s"
  by (induction s) (auto simp: runes.simps[of "_ # _"] decode_rune_ascii)

lemma ValidUTF8_ascii: "\<forall>c \<in> set s. byte c < 0x80 \<Longrightarrow> ValidUTF8 s"
  by (auto simp: ValidUTF8_def runes_ascii_all rune_error_def)

section \<open>ASCII letters and hexadecimal\<close>

text \<open>
  \<open>strings.ToLower\<close> on ASCII letters.  Bytes from 0x80 on are kept: the only
  callers modelled with it reject every non-ASCII string by the checks next to it.
\<close>

definition lower_byte :: "char \<Rightarrow> char" where
  "lower_byte c = (if 0x41 \<le> byte c \<and> byte c \<le> 0x5A then char_of (byte c + 32) else c)"

definition ToLower :: "string \<Rightarrow> string" where
  "ToLower s = map lower_byte s"

definition lower_hex_digit :: "char \<Rightarrow> bool" where
  "lower_hex_digit c \<longleftrightarrow> (0x30 \<le> byte c \<and> byte c \<le> 0x39) \<or> (0x61 \<le> byte c \<and> byte c \<le> 0x66)"

definition hex_digit :: "char \<Rightarrow> bool" where
  "hex_digit c \<longleftrightarrow> lower_hex_digit c \<or> (0x41 \<le> byte c \<and> byte c \<le> 0x46)"

text \<open>\<open>hex.DecodeString\<close> succeeds on an even number of hexadecimal digits.\<close>

definition hex_decodes :: "string \<Rightarrow> bool" where
  "hex_decodes s \<longleftrightarrow> even (length s) \<and> list_all hex_digit s"

lemma hex_lower_digit: "hex_digit c \<and> lower_byte c = c \<longleftrightarrow> lower_hex_digit c"
proof
  assume h: "hex_digit c \<and> lower_byte c = c"
  have "\<not> (0x41 \<le> byte c \<and> byte c \<le> 0x46)"
  proof
    assume a: "0x41 \<le> byte c \<and> byte c \<le> 0x46"
    then have "lower_byte c = char_of (byte c + 32)" by (simp add: lower_byte_def)
    with h have "byte c = byte (char_of (byte c + 32))" by simp
    also have "\<dots> = byte c + 32" using a by (simp add: byte_def)
    finally show False by simp
  qed
  with h show "lower_hex_digit c" by (auto simp: hex_digit_def)
qed (auto simp: hex_digit_def lower_byte_def lower_hex_digit_def)

lemma lower_hex_iff:
  "s = ToLower s \<and> hex_decodes s \<longleftrightarrow> even (length s) \<and> list_all lower_hex_digit s"
proof -
  have "s = ToLower s \<longleftrightarrow> (\<forall>c \<in> set s. lower_byte c = c)"
    unfolding ToLower_def using map_eq_conv[of id s lower_byte] by (auto simp: eq_commute)
  then show ?thesis using hex_lower_digit by (auto simp: hex_decodes_def list_all_iff)
qed

section \<open>Cleaning paths\<close>

text \<open>
  \<open>path.Clean\<close>, by components: empty and \<open>.\<close> components vanish, a \<open>..\<close> removes
  the component before it, is kept when there is none to remove, and is dropped
  at the root.  The stack holds the components written so far, last one first.
\<close>

definition clean_step :: "bool \<Rightarrow> string \<Rightarrow> string list \<Rightarrow> string list" where
  "clean_step rooted c stack =
     (if c = [] \<or> c = ''.'' then stack
      else if c = ''..'' then
        (if stack \<noteq> [] \<and> hd stack \<noteq> ''..'' then tl stack
         else if rooted then stack else ''..'' # stack)
      else c # stack)"

definition path_Clean :: "string \<Rightarrow> string" where
  "path_Clean s =
     (let rooted = HasPrefix s ''/'';
          stack = fold (clean_step rooted) (split_on CHR ''/'' s) [];
          out = (if rooted then ''/'' else []) @ join_with CHR ''/'' (rev stack)
      in if out = [] then ''.'' else out)"

definition plain_component :: "string \<Rightarrow> bool" where
  "plain_component c \<longleftrightarrow> c \<noteq> [] \<and> c \<noteq> ''.'' \<and> c \<noteq> ''..'' \<and> CHR ''/'' \<notin> set c"

definition clean_stack :: "string list \<Rightarrow> bool" where
  "clean_stack stack \<longleftrightarrow> (\<exists>ps k. stack = ps @ replicate k ''..'' \<and> list_all plain_component ps)"

lemma clean_stackI: "list_all plain_component ps \<Longrightarrow> clean_stack (ps @ replicate k ''..'')"
  unfolding clean_stack_def by blast

lemma clean_step_stack:
  assumes "CHR ''/'' \<notin> set c" and "clean_stack stack"
  shows "clean_stack (clean_step rooted c stack)"
proof -
  obtain ps k where st: "stack = ps @ replicate k ''..''" "list_all plain_component ps"
    using assms(2) by (auto simp: clean_stack_def)
  consider "c = [] \<or> c = ''.''" | "c = ''..''" "ps = []" | "c = ''..''" "ps \<noteq> []" | "plain_component c"
    using assms(1) by (auto simp: plain_component_def)
  then show ?thesis
  proof cases
    case 1
    then show ?thesis using assms(2) by (auto simp: clean_step_def)
  next
    case 2
    have "clean_stack (replicate k ''..'')" "clean_stack (''..'' # replicate k ''..'')"
      using clean_stackI[of "[]" k] clean_stackI[of "[]" "Suc k"] by simp_all
    then show ?thesis using 2 st by (cases k) (auto simp: clean_step_def)
  next
    case 3
    then obtain q qs where "ps = q # qs" by (cases ps) auto
    then have "clean_step rooted c stack = qs @ replicate k ''..''" "list_all plain_component qs"
      using 3 st by (auto simp: clean_step_def plain_component_def)
    then show ?thesis by (auto simp: clean_stack_def)
  next
    case 4
    then have "clean_step rooted c stack = (c # ps) @ replicate k ''..''" "list_all plain_component (c # ps)"
      using st by (auto simp: clean_step_def plain_component_def)
    then show ?thesis unfolding clean_stack_def by blast
  qed
qed

lemma clean_fold_stack:
  "\<forall>c \<in> set cs. CHR ''/'' \<notin> set c \<Longrightarrow> clean_stack stack \<Longrightarrow> clean_stack (fold (clean_step rooted) cs stack)"
  by (induction cs arbitrary: stack) (auto simp: clean_step_stack)

lemma split_join: "ps \<noteq> [] \<Longrightarrow> \<forall>p \<in> set ps. c \<notin> set p \<Longrightarrow> split_on c (join_with c ps) = ps"
proof (induction ps rule: induct_list012)
  case (3 p q qs)
  then show ?case by (simp add: split_on_append)
qed (simp_all add: split_on_single)

text \<open>
  A relative path that \<open>path.Clean\<close> leaves alone, other than \<open>.\<close>, is a number
  of leading \<open>..\<close> components followed by ordinary ones.
\<close>

lemma path_Clean_fixed_components:
  assumes "path_Clean s = s" and "\<not> HasPrefix s ''/''" and "s \<noteq> ''.''"
  obtains k ps where "split_on CHR ''/'' s = replicate k ''..'' @ ps" and "list_all plain_component ps"
proof -
  define stack where "stack = fold (clean_step False) (split_on CHR ''/'' s) []"
  have "clean_stack stack"
    unfolding stack_def by (rule clean_fold_stack) (auto simp: split_on_no_sep clean_stack_def)
  then obtain ps k where st: "stack = ps @ replicate k ''..''" "list_all plain_component ps"
    by (auto simp: clean_stack_def)
  have "path_Clean s = (if join_with CHR ''/'' (rev stack) = [] then ''.'' else join_with CHR ''/'' (rev stack))"
    using assms(2) by (simp add: path_Clean_def stack_def)
  then have s: "join_with CHR ''/'' (rev stack) = s" and ne: "rev stack \<noteq> []"
    using assms(1,3) by (metis, metis join_with.simps(1))
  have "\<forall>p \<in> set (rev stack). CHR ''/'' \<notin> set p"
  proof
    fix p
    assume "p \<in> set (rev stack)"
    then have "p \<in> set ps \<or> p = ''..''" using st(1) by auto
    then show "CHR ''/'' \<notin> set p"
    proof
      assume "p \<in> set ps"
      with st(2) have "plain_component p" by (simp add: list_all_iff)
      then show ?thesis by (simp add: plain_component_def)
    qed simp
  qed
  then have "split_on CHR ''/'' s = rev stack"
    using split_join[OF ne] s by metis
  then have "split_on CHR ''/'' s = replicate k ''..'' @ rev ps" using st by simp
  with st(2) show thesis by (intro that[of k "rev ps"]) (simp_all add: list_all_iff)
qed

section \<open>Decimal numbers\<close>

text \<open>\<open>strconv.FormatInt(v, 10)\<close> and \<open>FormatUint\<close>.\<close>

definition digit_char :: "nat \<Rightarrow> char" where
  "digit_char d = char_of (48 + d)"

fun show_nat :: "nat \<Rightarrow> string" where
  "show_nat n = (if n < 10 then [digit_char n] else show_nat (n div 10) @ [digit_char (n mod 10)])"

declare show_nat.simps [simp del]

definition show_int :: "int \<Rightarrow> string" where
  "show_int i = (if i < 0 then CHR ''-'' # show_nat (nat (- i)) else show_nat (nat i))"

definition read_nat :: "string \<Rightarrow> nat" where
  "read_nat s = foldl (\<lambda>acc c. acc * 10 + (byte c - 48)) 0 s"

lemma byte_digit_char: "d < 10 \<Longrightarrow> byte (digit_char d) = 48 + d"
  by (simp add: byte_def digit_char_def)

lemma read_show_nat [simp]: "read_nat (show_nat n) = n"
proof (induction n rule: show_nat.induct)
  case (1 n)
  show ?case
  proof (cases "n < 10")
    case True
    then show ?thesis by (simp add: show_nat.simps[of n] read_nat_def byte_digit_char)
  next
    case False
    then have "read_nat (show_nat n) = read_nat (show_nat (n div 10)) * 10 + (byte (digit_char (n mod 10)) - 48)"
      by (simp add: show_nat.simps[of n] read_nat_def)
    with 1 False show ?thesis by (simp add: byte_digit_char)
  qed
qed

lemma show_nat_digits: "c \<in> set (show_nat n) \<Longrightarrow> 48 \<le> byte c \<and> byte c \<le> 57"
proof (induction n rule: show_nat.induct)
  case (1 n)
  show ?case
  proof (cases "n < 10")
    case True
    with "1.prems" show ?thesis by (simp add: show_nat.simps[of n] byte_digit_char)
  next
    case False
    have "n mod 10 < 10" by simp
    from byte_digit_char[OF this] False "1" show ?thesis
      by (auto simp: show_nat.simps[of n])
  qed
qed

lemma show_nat_nonempty [simp]: "show_nat n \<noteq> []"
  by (subst show_nat.simps) simp

lemma show_nat_inject [simp]: "show_nat m = show_nat n \<longleftrightarrow> m = n"
  by (metis read_show_nat)

lemma show_nat_no_minus: "hd (show_nat n) \<noteq> CHR ''-''"
proof
  assume "hd (show_nat n) = CHR ''-''"
  then have "CHR ''-'' \<in> set (show_nat n)" by (metis hd_in_set show_nat_nonempty)
  from show_nat_digits[OF this] show False by (simp add: byte_def)
qed

lemma show_int_inject [simp]: "show_int i = show_int j \<longleftrightarrow> i = j"
proof
  assume "show_int i = show_int j"
  then show "i = j"
    using show_nat_no_minus[of "nat i"] show_nat_no_minus[of "nat j"]
    by (auto simp: show_int_def split: if_splits) (metis list.sel(1))+
qed simp

lemma show_nat_no_slash [simp]: "CHR ''/'' \<notin> set (show_nat n)"
  using show_nat_digits[of "CHR ''/''" n] by (auto simp: byte_def)

lemma show_int_no_slash [simp]: "CHR ''/'' \<notin> set (show_int i)"
  by (simp add: show_int_def)

end
