(* ===== verification/Model_Enums.thy ===== *)
theory Model_Enums
  imports Go_Text
begin

text \<open>
  \<open>internal/model/enums.go\<close>: the closed string vocabularies of the data model.
  A Go string enumeration admits every string, so each datatype has the source's
  constants as constructors and one constructor for any other text; \<open>X_text\<close> is
  the underlying string, \<open>X_of\<close> the conversion \<open>X(value)\<close> and \<open>X_Valid\<close> the
  \<open>Valid\<close> method.  All of them are decoded by \<open>unmarshalStringEnum\<close>; what that
  promises is the locale \<open>string_enum\<close>, interpreted for every enumeration.
\<close>

section \<open>Decoded JSON\<close>

text \<open>
  The value \<open>encoding/json\<close> decodes; \<open>None\<close> where a decoder is given a text
  that is not JSON.  Numbers keep their literal.
\<close>

datatype json =
    JNull
  | JBool bool
  | JNumber string
  | JString string
  | JArray "json list"
  | JObject "(string \<times> json) list"

definition unmarshalStringEnum :: "json option \<Rightarrow> (string \<Rightarrow> bool) \<Rightarrow> string \<Rightarrow> goerr + string" where
  "unmarshalStringEnum data valid name =
     (case data of
        Some JNull \<Rightarrow> Inl (Errorf (name @ '' cannot be null''))
      | Some (JString value) \<Rightarrow>
          if \<not> valid value then Inl (Errorf (''unknown '' @ name @ '' '' @ value)) else Inr value
      | _ \<Rightarrow> Inl (Wrapf (''decode '' @ name) (Errorf ''json'')))"

section \<open>The contract of a string enumeration\<close>

definition enum_of :: "('e \<Rightarrow> string) \<Rightarrow> 'e list \<Rightarrow> (string \<Rightarrow> 'e) \<Rightarrow> string \<Rightarrow> 'e" where
  "enum_of repr canon other s = (case find (\<lambda>e. repr e = s) canon of Some e \<Rightarrow> e | None \<Rightarrow> other s)"

locale string_enum =
  fixes repr :: "'e \<Rightarrow> string" and of_string :: "string \<Rightarrow> 'e"
    and valid :: "'e \<Rightarrow> bool" and canon :: "'e list"
  assumes repr_of_string: "repr (of_string s) = s"
    and of_string_repr: "valid e \<Longrightarrow> of_string (repr e) = e"
    and valid_iff: "valid e \<longleftrightarrow> e \<in> set canon"
begin

lemma decode_encode: "valid e \<Longrightarrow>
    map_sum id of_string (unmarshalStringEnum (Some (JString (repr e))) (\<lambda>v. valid (of_string v)) name) = Inr e"
  by (simp add: unmarshalStringEnum_def of_string_repr)

lemma decode_sound:
  assumes "map_sum id of_string (unmarshalStringEnum data (\<lambda>v. valid (of_string v)) name) = Inr e"
  shows "valid e \<and> data = Some (JString (repr e))"
  using assms
  by (auto simp: unmarshalStringEnum_def repr_of_string split: option.splits json.splits if_splits)

lemma decode_iff:
  "map_sum id of_string (unmarshalStringEnum data (\<lambda>v. valid (of_string v)) name) = Inr e \<longleftrightarrow>
     e \<in> set canon \<and> data = Some (JString (repr e))"
  using decode_sound decode_encode valid_iff by auto

lemma valid_of_string: "valid (of_string s) \<longleftrightarrow> s \<in> repr ` set canon"
  using repr_of_string of_string_repr valid_iff by (metis image_iff)

lemma repr_inject: "valid d \<Longrightarrow> valid e \<Longrightarrow> repr d = repr e \<longleftrightarrow> d = e"
  by (metis of_string_repr)

end

lemma enum_of_repr: "distinct (map repr canon) \<Longrightarrow> e \<in> set canon \<Longrightarrow> enum_of repr canon other (repr e) = e"
  unfolding enum_of_def
  by (auto simp: distinct_map inj_on_def find_None_iff find_Some_iff split: option.split)

lemma repr_enum_of: "(\<And>s. repr (other s) = s) \<Longrightarrow> repr (enum_of repr canon other s) = s"
  by (auto simp: enum_of_def find_Some_iff split: option.split)

lemma string_enumI:
  assumes "\<And>s. repr (other s) = s" and "distinct (map repr canon)"
    and "\<And>s. of_string s = enum_of repr canon other s" and "\<And>e. valid e \<longleftrightarrow> e \<in> set canon"
  shows "string_enum repr of_string valid canon"
  using assms by unfold_locales (auto simp: enum_of_repr repr_enum_of)


section \<open>Finding states\<close>

text \<open>
  The complete conclusion vocabulary; it is not an ordering.
\<close>

datatype FindingState =
    ConfirmedExecuted
  | ConfirmedDownloaded
  | ConfirmedCalledWorkflow
  | DeclaredAtRunSHA
  | RunInWindowMutableRef
  | PotentialTransitive
  | CurrentReferenceOnly
  | NoMatchConfirmed
  | UnknownEvidenceGap
  | ContradictoryEvidence
  | OtherFindingState string

primrec FindingState_text :: "FindingState \<Rightarrow> string" where
  "FindingState_text ConfirmedExecuted = ''CONFIRMED_EXECUTED''"
| "FindingState_text ConfirmedDownloaded = ''CONFIRMED_DOWNLOADED''"
| "FindingState_text ConfirmedCalledWorkflow = ''CONFIRMED_CALLED_WORKFLOW''"
| "FindingState_text DeclaredAtRunSHA = ''DECLARED_AT_RUN_SHA''"
| "FindingState_text RunInWindowMutableRef = ''RUN_IN_WINDOW_MUTABLE_REF''"
| "FindingState_text PotentialTransitive = ''POTENTIAL_TRANSITIVE''"
| "FindingState_text CurrentReferenceOnly = ''CURRENT_REFERENCE_ONLY''"
| "FindingState_text NoMatchConfirmed = ''NO_MATCH_CONFIRMED''"
| "FindingState_text UnknownEvidenceGap = ''UNKNOWN_EVIDENCE_GAP''"
| "FindingState_text ContradictoryEvidence = ''CONTRADICTORY_EVIDENCE''"
| "FindingState_text (OtherFindingState s) = s"

definition findingStates :: "FindingState list" where
  "findingStates =
    [ConfirmedExecuted, ConfirmedDownloaded, ConfirmedCalledWorkflow,
     DeclaredAtRunSHA, RunInWindowMutableRef, PotentialTransitive,
     CurrentReferenceOnly, NoMatchConfirmed, UnknownEvidenceGap,
     ContradictoryEvidence]"

definition FindingState_of :: "string \<Rightarrow> FindingState" where
  "FindingState_of s = enum_of FindingState_text findingStates OtherFindingState s"

definition FindingState_Valid :: "FindingState \<Rightarrow> bool" where
  "FindingState_Valid s = list_ex (\<lambda>candidate. s = candidate) findingStates"

definition FindingState_UnmarshalJSON :: "json option \<Rightarrow> goerr + FindingState" where
  "FindingState_UnmarshalJSON data =
     map_sum id FindingState_of (unmarshalStringEnum data (\<lambda>value. FindingState_Valid (FindingState_of value)) ''finding state'')"

lemmas FindingState_defs [enum_defs] = findingStates_def FindingState_of_def FindingState_Valid_def

interpretation FindingState_enum: string_enum FindingState_text FindingState_of FindingState_Valid findingStates
  by (rule string_enumI[where other = OtherFindingState]) (auto simp: enum_defs)

section \<open>Provenance levels\<close>

text \<open>Support for a proposition, not its severity.\<close>

datatype ProvenanceLevel =
    L4Certain
  | L3Strong
  | L2Probable
  | L1Possible
  | L0Unknown
  | OtherProvenanceLevel string

primrec ProvenanceLevel_text :: "ProvenanceLevel \<Rightarrow> string" where
  "ProvenanceLevel_text L4Certain = ''L4_CERTAIN''"
| "ProvenanceLevel_text L3Strong = ''L3_STRONG''"
| "ProvenanceLevel_text L2Probable = ''L2_PROBABLE''"
| "ProvenanceLevel_text L1Possible = ''L1_POSSIBLE''"
| "ProvenanceLevel_text L0Unknown = ''L0_UNKNOWN''"
| "ProvenanceLevel_text (OtherProvenanceLevel s) = s"

definition provenanceLevels :: "ProvenanceLevel list" where
  "provenanceLevels =
    [L4Certain, L3Strong, L2Probable,
     L1Possible, L0Unknown]"

definition ProvenanceLevel_of :: "string \<Rightarrow> ProvenanceLevel" where
  "ProvenanceLevel_of s = enum_of ProvenanceLevel_text provenanceLevels OtherProvenanceLevel s"

definition ProvenanceLevel_Valid :: "ProvenanceLevel \<Rightarrow> bool" where
  "ProvenanceLevel_Valid s = list_ex (\<lambda>candidate. s = candidate) provenanceLevels"

definition ProvenanceLevel_UnmarshalJSON :: "json option \<Rightarrow> goerr + ProvenanceLevel" where
  "ProvenanceLevel_UnmarshalJSON data =
     map_sum id ProvenanceLevel_of (unmarshalStringEnum data (\<lambda>value. ProvenanceLevel_Valid (ProvenanceLevel_of value)) ''provenance level'')"

lemmas ProvenanceLevel_defs [enum_defs] = provenanceLevels_def ProvenanceLevel_of_def ProvenanceLevel_Valid_def

interpretation ProvenanceLevel_enum: string_enum ProvenanceLevel_text ProvenanceLevel_of ProvenanceLevel_Valid provenanceLevels
  by (rule string_enumI[where other = OtherProvenanceLevel]) (auto simp: enum_defs)

section \<open>Runtime stages\<close>

text \<open>The public lifecycle summary of the observation kinds below.\<close>

datatype RuntimeStage =
    StageDeclared
  | StageResolved
  | StageDownloaded
  | StageStepStarted
  | StageStepCompleted
  | StageRuntimeIOCObserved
  | OtherRuntimeStage string

primrec RuntimeStage_text :: "RuntimeStage \<Rightarrow> string" where
  "RuntimeStage_text StageDeclared = ''DECLARED''"
| "RuntimeStage_text StageResolved = ''RESOLVED''"
| "RuntimeStage_text StageDownloaded = ''DOWNLOADED''"
| "RuntimeStage_text StageStepStarted = ''STEP_STARTED''"
| "RuntimeStage_text StageStepCompleted = ''STEP_COMPLETED''"
| "RuntimeStage_text StageRuntimeIOCObserved = ''RUNTIME_IOC_OBSERVED''"
| "RuntimeStage_text (OtherRuntimeStage s) = s"

definition runtimeStages :: "RuntimeStage list" where
  "runtimeStages =
    [StageDeclared, StageResolved, StageDownloaded,
     StageStepStarted, StageStepCompleted, StageRuntimeIOCObserved]"

definition RuntimeStage_of :: "string \<Rightarrow> RuntimeStage" where
  "RuntimeStage_of s = enum_of RuntimeStage_text runtimeStages OtherRuntimeStage s"

definition RuntimeStage_Valid :: "RuntimeStage \<Rightarrow> bool" where
  "RuntimeStage_Valid s = list_ex (\<lambda>candidate. s = candidate) runtimeStages"

definition RuntimeStage_UnmarshalJSON :: "json option \<Rightarrow> goerr + RuntimeStage" where
  "RuntimeStage_UnmarshalJSON data =
     map_sum id RuntimeStage_of (unmarshalStringEnum data (\<lambda>value. RuntimeStage_Valid (RuntimeStage_of value)) ''runtime stage'')"

lemmas RuntimeStage_defs [enum_defs] = runtimeStages_def RuntimeStage_of_def RuntimeStage_Valid_def

interpretation RuntimeStage_enum: string_enum RuntimeStage_text RuntimeStage_of RuntimeStage_Valid runtimeStages
  by (rule string_enumI[where other = OtherRuntimeStage]) (auto simp: enum_defs)

section \<open>Runtime observation kinds\<close>

text \<open>The evidence boundaries that a runtime stage summarizes.\<close>

datatype RuntimeObservationKind =
    ObservationDeclared
  | ObservationResolutionObserved
  | ObservationDownloadAnnounced
  | ObservationPreparationComplete
  | ObservationPreparationFailed
  | ObservationConditionSkipped
  | ObservationLifecycleStarted
  | ObservationLifecycleCompleted
  | ObservationRuntimeIOCObserved
  | OtherRuntimeObservationKind string

primrec RuntimeObservationKind_text :: "RuntimeObservationKind \<Rightarrow> string" where
  "RuntimeObservationKind_text ObservationDeclared = ''DECLARED''"
| "RuntimeObservationKind_text ObservationResolutionObserved = ''RESOLUTION_OBSERVED''"
| "RuntimeObservationKind_text ObservationDownloadAnnounced = ''DOWNLOAD_ANNOUNCED''"
| "RuntimeObservationKind_text ObservationPreparationComplete = ''PREPARATION_COMPLETED''"
| "RuntimeObservationKind_text ObservationPreparationFailed = ''PREPARATION_FAILED''"
| "RuntimeObservationKind_text ObservationConditionSkipped = ''CONDITION_SKIPPED''"
| "RuntimeObservationKind_text ObservationLifecycleStarted = ''LIFECYCLE_STARTED''"
| "RuntimeObservationKind_text ObservationLifecycleCompleted = ''LIFECYCLE_COMPLETED''"
| "RuntimeObservationKind_text ObservationRuntimeIOCObserved = ''RUNTIME_IOC_OBSERVED''"
| "RuntimeObservationKind_text (OtherRuntimeObservationKind s) = s"

definition runtimeObservationKinds :: "RuntimeObservationKind list" where
  "runtimeObservationKinds =
    [ObservationDeclared, ObservationResolutionObserved, ObservationDownloadAnnounced,
     ObservationPreparationComplete, ObservationPreparationFailed, ObservationConditionSkipped,
     ObservationLifecycleStarted, ObservationLifecycleCompleted, ObservationRuntimeIOCObserved]"

definition RuntimeObservationKind_of :: "string \<Rightarrow> RuntimeObservationKind" where
  "RuntimeObservationKind_of s = enum_of RuntimeObservationKind_text runtimeObservationKinds OtherRuntimeObservationKind s"

definition RuntimeObservationKind_Valid :: "RuntimeObservationKind \<Rightarrow> bool" where
  "RuntimeObservationKind_Valid s = list_ex (\<lambda>candidate. s = candidate) runtimeObservationKinds"

definition RuntimeObservationKind_UnmarshalJSON :: "json option \<Rightarrow> goerr + RuntimeObservationKind" where
  "RuntimeObservationKind_UnmarshalJSON data =
     map_sum id RuntimeObservationKind_of (unmarshalStringEnum data (\<lambda>value. RuntimeObservationKind_Valid (RuntimeObservationKind_of value)) ''runtime observation kind'')"

lemmas RuntimeObservationKind_defs [enum_defs] = runtimeObservationKinds_def RuntimeObservationKind_of_def RuntimeObservationKind_Valid_def

interpretation RuntimeObservationKind_enum: string_enum RuntimeObservationKind_text RuntimeObservationKind_of RuntimeObservationKind_Valid runtimeObservationKinds
  by (rule string_enumI[where other = OtherRuntimeObservationKind]) (auto simp: enum_defs)

text \<open>
  \<open>Stage\<close> returns the empty stage for an unknown kind.  A download announcement
  alone stays \<open>RESOLVED\<close>, and a skipped condition \<open>DECLARED\<close>.
\<close>

fun RuntimeObservationKind_Stage :: "RuntimeObservationKind \<Rightarrow> RuntimeStage" where
  "RuntimeObservationKind_Stage ObservationDeclared = StageDeclared"
| "RuntimeObservationKind_Stage ObservationResolutionObserved = StageResolved"
| "RuntimeObservationKind_Stage ObservationDownloadAnnounced = StageResolved"
| "RuntimeObservationKind_Stage ObservationPreparationFailed = StageResolved"
| "RuntimeObservationKind_Stage ObservationPreparationComplete = StageDownloaded"
| "RuntimeObservationKind_Stage ObservationConditionSkipped = StageDeclared"
| "RuntimeObservationKind_Stage ObservationLifecycleStarted = StageStepStarted"
| "RuntimeObservationKind_Stage ObservationLifecycleCompleted = StageStepCompleted"
| "RuntimeObservationKind_Stage ObservationRuntimeIOCObserved = StageRuntimeIOCObserved"
| "RuntimeObservationKind_Stage (OtherRuntimeObservationKind s) = OtherRuntimeStage []"

definition SupportsDownloaded :: "RuntimeObservationKind \<Rightarrow> bool" where
  "SupportsDownloaded k \<longleftrightarrow>
     k = ObservationPreparationComplete \<or> k = ObservationLifecycleStarted \<or> k = ObservationLifecycleCompleted"

definition SupportsExecuted :: "RuntimeObservationKind \<Rightarrow> bool" where
  "SupportsExecuted k \<longleftrightarrow> k = ObservationLifecycleStarted \<or> k = ObservationLifecycleCompleted"

text \<open>
  The predicates and the public stage agree: a kind supports execution exactly
  when its stage is a started or completed step, and preparation is supported by
  those stages and \<open>DOWNLOADED\<close> only.
\<close>

lemma stage_of_downloaded_kind:
  "SupportsDownloaded k \<longleftrightarrow> RuntimeObservationKind_Stage k \<in> {StageDownloaded, StageStepStarted, StageStepCompleted}"
  by (cases k) (simp_all add: SupportsDownloaded_def)

lemma stage_of_executed_kind:
  "SupportsExecuted k \<longleftrightarrow> RuntimeObservationKind_Stage k \<in> {StageStepStarted, StageStepCompleted}"
  by (cases k) (simp_all add: SupportsExecuted_def)


section \<open>Lifecycle phases\<close>

text \<open>The phase of a step.\<close>

datatype LifecyclePhase =
    LifecyclePre
  | LifecycleMain
  | LifecyclePost
  | OtherLifecyclePhase string

primrec LifecyclePhase_text :: "LifecyclePhase \<Rightarrow> string" where
  "LifecyclePhase_text LifecyclePre = ''PRE''"
| "LifecyclePhase_text LifecycleMain = ''MAIN''"
| "LifecyclePhase_text LifecyclePost = ''POST''"
| "LifecyclePhase_text (OtherLifecyclePhase s) = s"

definition LifecyclePhase_values :: "LifecyclePhase list" where
  "LifecyclePhase_values =
    [LifecyclePre, LifecycleMain, LifecyclePost]"

definition LifecyclePhase_of :: "string \<Rightarrow> LifecyclePhase" where
  "LifecyclePhase_of s = enum_of LifecyclePhase_text LifecyclePhase_values OtherLifecyclePhase s"

definition LifecyclePhase_Valid :: "LifecyclePhase \<Rightarrow> bool" where
  "LifecyclePhase_Valid s \<longleftrightarrow> s = LifecyclePre \<or> s = LifecycleMain \<or> s = LifecyclePost"

definition LifecyclePhase_UnmarshalJSON :: "json option \<Rightarrow> goerr + LifecyclePhase" where
  "LifecyclePhase_UnmarshalJSON data =
     map_sum id LifecyclePhase_of (unmarshalStringEnum data (\<lambda>value. LifecyclePhase_Valid (LifecyclePhase_of value)) ''lifecycle phase'')"

lemmas LifecyclePhase_defs [enum_defs] = LifecyclePhase_values_def LifecyclePhase_of_def LifecyclePhase_Valid_def

interpretation LifecyclePhase_enum: string_enum LifecyclePhase_text LifecyclePhase_of LifecyclePhase_Valid LifecyclePhase_values
  by (rule string_enumI[where other = OtherLifecyclePhase]) (auto simp: enum_defs)

section \<open>Coverage\<close>

text \<open>Status and kind of a coverage unit, and the reason of a gap.\<close>

datatype CoverageStatus =
    CoverageExpected
  | CoverageCollected
  | CoverageNotApplicable
  | CoverageGap
  | OtherCoverageStatus string

primrec CoverageStatus_text :: "CoverageStatus \<Rightarrow> string" where
  "CoverageStatus_text CoverageExpected = ''EXPECTED''"
| "CoverageStatus_text CoverageCollected = ''COLLECTED''"
| "CoverageStatus_text CoverageNotApplicable = ''NOT_APPLICABLE''"
| "CoverageStatus_text CoverageGap = ''GAP''"
| "CoverageStatus_text (OtherCoverageStatus s) = s"

definition CoverageStatus_values :: "CoverageStatus list" where
  "CoverageStatus_values =
    [CoverageExpected, CoverageCollected, CoverageNotApplicable,
     CoverageGap]"

definition CoverageStatus_of :: "string \<Rightarrow> CoverageStatus" where
  "CoverageStatus_of s = enum_of CoverageStatus_text CoverageStatus_values OtherCoverageStatus s"

definition CoverageStatus_Valid :: "CoverageStatus \<Rightarrow> bool" where
  "CoverageStatus_Valid s \<longleftrightarrow> s = CoverageExpected \<or> s = CoverageCollected \<or> s = CoverageNotApplicable \<or> s = CoverageGap"

definition CoverageStatus_UnmarshalJSON :: "json option \<Rightarrow> goerr + CoverageStatus" where
  "CoverageStatus_UnmarshalJSON data =
     map_sum id CoverageStatus_of (unmarshalStringEnum data (\<lambda>value. CoverageStatus_Valid (CoverageStatus_of value)) ''coverage status'')"

lemmas CoverageStatus_defs [enum_defs] = CoverageStatus_values_def CoverageStatus_of_def CoverageStatus_Valid_def

interpretation CoverageStatus_enum: string_enum CoverageStatus_text CoverageStatus_of CoverageStatus_Valid CoverageStatus_values
  by (rule string_enumI[where other = OtherCoverageStatus]) (auto simp: enum_defs)

definition CoverageStatus_Terminal :: "CoverageStatus \<Rightarrow> bool" where
  "CoverageStatus_Terminal s \<longleftrightarrow> s \<noteq> CoverageExpected \<and> CoverageStatus_Valid s"

datatype CoverageKind =
    CoverageRepositoryVisibility
  | CoverageRunPartition
  | CoverageWorkflowRun
  | CoverageRunAttempt
  | CoverageJob
  | CoverageAttemptLog
  | CoverageJobLog
  | CoverageWorkflowDefinition
  | CoverageActionDefinition
  | CoverageEnrichment
  | CoverageParserGrammar
  | CoverageSearchableLiteral
  | OtherCoverageKind string

primrec CoverageKind_text :: "CoverageKind \<Rightarrow> string" where
  "CoverageKind_text CoverageRepositoryVisibility = ''REPOSITORY_VISIBILITY''"
| "CoverageKind_text CoverageRunPartition = ''RUN_PARTITION''"
| "CoverageKind_text CoverageWorkflowRun = ''WORKFLOW_RUN''"
| "CoverageKind_text CoverageRunAttempt = ''RUN_ATTEMPT''"
| "CoverageKind_text CoverageJob = ''JOB''"
| "CoverageKind_text CoverageAttemptLog = ''ATTEMPT_LOG''"
| "CoverageKind_text CoverageJobLog = ''JOB_LOG''"
| "CoverageKind_text CoverageWorkflowDefinition = ''WORKFLOW_DEFINITION''"
| "CoverageKind_text CoverageActionDefinition = ''ACTION_DEFINITION''"
| "CoverageKind_text CoverageEnrichment = ''ENRICHMENT''"
| "CoverageKind_text CoverageParserGrammar = ''PARSER_GRAMMAR''"
| "CoverageKind_text CoverageSearchableLiteral = ''SEARCHABLE_LITERAL''"
| "CoverageKind_text (OtherCoverageKind s) = s"

definition coverageKinds :: "CoverageKind list" where
  "coverageKinds =
    [CoverageRepositoryVisibility, CoverageRunPartition, CoverageWorkflowRun,
     CoverageRunAttempt, CoverageJob, CoverageAttemptLog,
     CoverageJobLog, CoverageWorkflowDefinition, CoverageActionDefinition,
     CoverageEnrichment, CoverageParserGrammar, CoverageSearchableLiteral]"

definition CoverageKind_of :: "string \<Rightarrow> CoverageKind" where
  "CoverageKind_of s = enum_of CoverageKind_text coverageKinds OtherCoverageKind s"

definition CoverageKind_Valid :: "CoverageKind \<Rightarrow> bool" where
  "CoverageKind_Valid s = list_ex (\<lambda>candidate. s = candidate) coverageKinds"

definition CoverageKind_UnmarshalJSON :: "json option \<Rightarrow> goerr + CoverageKind" where
  "CoverageKind_UnmarshalJSON data =
     map_sum id CoverageKind_of (unmarshalStringEnum data (\<lambda>value. CoverageKind_Valid (CoverageKind_of value)) ''coverage kind'')"

lemmas CoverageKind_defs [enum_defs] = coverageKinds_def CoverageKind_of_def CoverageKind_Valid_def

interpretation CoverageKind_enum: string_enum CoverageKind_text CoverageKind_of CoverageKind_Valid coverageKinds
  by (rule string_enumI[where other = OtherCoverageKind]) (auto simp: enum_defs)

datatype GapReason =
    GapUnauthorized
  | GapForbidden
  | GapNotFound
  | GapRetentionOrDeletion
  | GapRateLimited
  | GapSecondaryLimit
  | GapTransientNetwork
  | GapRedirectExpired
  | GapSizeLimit
  | GapFileCountLimit
  | GapMalformedArchive
  | GapMalformedYAML
  | GapUnsupportedGrammar
  | GapAmbiguousCorrelation
  | GapDynamicReference
  | GapDensityCeiling
  | GapLiveStateRace
  | GapCancelled
  | GapIntegrityFailure
  | GapEvidenceTruncated
  | GapHistoricalContentGone
  | OtherGapReason string

primrec GapReason_text :: "GapReason \<Rightarrow> string" where
  "GapReason_text GapUnauthorized = ''UNAUTHORIZED''"
| "GapReason_text GapForbidden = ''FORBIDDEN''"
| "GapReason_text GapNotFound = ''NOT_FOUND''"
| "GapReason_text GapRetentionOrDeletion = ''RETENTION_OR_DELETION''"
| "GapReason_text GapRateLimited = ''RATE_LIMITED''"
| "GapReason_text GapSecondaryLimit = ''SECONDARY_LIMIT''"
| "GapReason_text GapTransientNetwork = ''TRANSIENT_NETWORK''"
| "GapReason_text GapRedirectExpired = ''REDIRECT_EXPIRED''"
| "GapReason_text GapSizeLimit = ''SIZE_LIMIT''"
| "GapReason_text GapFileCountLimit = ''FILE_COUNT_LIMIT''"
| "GapReason_text GapMalformedArchive = ''MALFORMED_ARCHIVE''"
| "GapReason_text GapMalformedYAML = ''MALFORMED_YAML''"
| "GapReason_text GapUnsupportedGrammar = ''UNSUPPORTED_GRAMMAR''"
| "GapReason_text GapAmbiguousCorrelation = ''AMBIGUOUS_CORRELATION''"
| "GapReason_text GapDynamicReference = ''DYNAMIC_REFERENCE''"
| "GapReason_text GapDensityCeiling = ''DENSITY_CEILING''"
| "GapReason_text GapLiveStateRace = ''LIVE_STATE_RACE''"
| "GapReason_text GapCancelled = ''CANCELLED''"
| "GapReason_text GapIntegrityFailure = ''INTEGRITY_FAILURE''"
| "GapReason_text GapEvidenceTruncated = ''EVIDENCE_TRUNCATED''"
| "GapReason_text GapHistoricalContentGone = ''HISTORICAL_CONTENT_MISSING''"
| "GapReason_text (OtherGapReason s) = s"

definition gapReasons :: "GapReason list" where
  "gapReasons =
    [GapUnauthorized, GapForbidden, GapNotFound,
     GapRetentionOrDeletion, GapRateLimited, GapSecondaryLimit,
     GapTransientNetwork, GapRedirectExpired, GapSizeLimit,
     GapFileCountLimit, GapMalformedArchive, GapMalformedYAML,
     GapUnsupportedGrammar, GapAmbiguousCorrelation, GapDynamicReference,
     GapDensityCeiling, GapLiveStateRace, GapCancelled,
     GapIntegrityFailure, GapEvidenceTruncated, GapHistoricalContentGone]"

definition GapReason_of :: "string \<Rightarrow> GapReason" where
  "GapReason_of s = enum_of GapReason_text gapReasons OtherGapReason s"

definition GapReason_Valid :: "GapReason \<Rightarrow> bool" where
  "GapReason_Valid s = list_ex (\<lambda>candidate. s = candidate) gapReasons"

definition GapReason_UnmarshalJSON :: "json option \<Rightarrow> goerr + GapReason" where
  "GapReason_UnmarshalJSON data =
     map_sum id GapReason_of (unmarshalStringEnum data (\<lambda>value. GapReason_Valid (GapReason_of value)) ''coverage gap reason'')"

lemmas GapReason_defs [enum_defs] = gapReasons_def GapReason_of_def GapReason_Valid_def

interpretation GapReason_enum: string_enum GapReason_text GapReason_of GapReason_Valid gapReasons
  by (rule string_enumI[where other = OtherGapReason]) (auto simp: enum_defs)

section \<open>Statements over the enumerations\<close>

lemma RuntimeObservationKind_stage_valid:
  "RuntimeStage_Valid (RuntimeObservationKind_Stage k) \<longleftrightarrow> RuntimeObservationKind_Valid k"
  by (cases k) (simp_all add: enum_defs)

end
