(* ===== verification/Model_Ids.thy ===== *)
theory Model_Ids
  imports Model_Enums
begin

text \<open>
  \<open>internal/model/ids.go\<close>: the typed identities of runs, attempts, jobs, steps,
  Git objects, digests and content-addressed records, their validators and the
  textual keys built from them.  Signed 64- and 32-bit identifiers are integers
  (the code only compares and prints them), unsigned 32-bit ones are words.
\<close>

section \<open>Numeric identifiers\<close>

type_synonym OrganizationID = int
type_synonym RepositoryID = int
type_synonym WorkflowRunID = int
type_synonym RunAttempt = "32 word"
type_synonym JobID = int
type_synonym ActorID = int
type_synonym APIStepNumber = int
type_synonym ASTOrdinal = "32 word"
type_synonym Occurrence = "32 word"

definition validatePositive :: "int \<Rightarrow> string \<Rightarrow> goerr option" where
  [validate_defs]: "validatePositive value name = (if value \<le> 0 then Some (Errorf (name @ '' must be positive'')) else None)"

definition OrganizationID_Validate :: "OrganizationID \<Rightarrow> goerr option" where
  [validate_defs]: "OrganizationID_Validate i = validatePositive i ''organization ID''"

definition RepositoryID_Validate :: "RepositoryID \<Rightarrow> goerr option" where
  [validate_defs]: "RepositoryID_Validate i = validatePositive i ''repository ID''"

definition WorkflowRunID_Validate :: "WorkflowRunID \<Rightarrow> goerr option" where
  [validate_defs]: "WorkflowRunID_Validate i = validatePositive i ''workflow run ID''"

definition RunAttempt_Validate :: "RunAttempt \<Rightarrow> goerr option" where
  [validate_defs]: "RunAttempt_Validate i = validatePositive (uint i) ''run attempt''"

definition JobID_Validate :: "JobID \<Rightarrow> goerr option" where
  [validate_defs]: "JobID_Validate i = validatePositive i ''job ID''"

definition ActorID_Validate :: "ActorID \<Rightarrow> goerr option" where
  [validate_defs]: "ActorID_Validate i = validatePositive i ''actor ID''"

definition APIStepNumber_Validate :: "APIStepNumber \<Rightarrow> goerr option" where
  [validate_defs]: "APIStepNumber_Validate i = validatePositive i ''API step number''"

definition ASTOrdinal_Validate :: "ASTOrdinal \<Rightarrow> goerr option" where
  [validate_defs]: "ASTOrdinal_Validate i = validatePositive (uint i) ''AST ordinal''"

definition Occurrence_Validate :: "Occurrence \<Rightarrow> goerr option" where
  [validate_defs]: "Occurrence_Validate i = validatePositive (uint i) ''occurrence''"

section \<open>Bounded text\<close>

definition hasASCIIControl :: "string \<Rightarrow> bool" where
  "hasASCIIControl value = list_ex (\<lambda>(char, _). char < 0x20 \<or> char = 0x7F) (runes value)"

definition validBoundedIdentityText :: "string \<Rightarrow> nat \<Rightarrow> bool" where
  "validBoundedIdentityText value limit \<longleftrightarrow>
     value \<noteq> [] \<and> length value \<le> limit \<and> ValidUTF8 value \<and> \<not> hasASCIIControl value"

lemma hasASCIIControl_bytes:
  "hasASCIIControl s \<longleftrightarrow> (\<exists>c \<in> set s. byte c < 0x20 \<or> byte c = 0x7F)"
proof -
  have "hasASCIIControl s \<longleftrightarrow> (\<exists>r \<in> set (runes s). fst r < 0x80 \<and> (fst r < 0x20 \<or> fst r = 0x7F))"
    unfolding hasASCIIControl_def list_ex_iff by (rule bex_cong) auto
  also have "\<dots> \<longleftrightarrow> (\<exists>c \<in> set s. byte c < 0x80 \<and> (byte c < 0x20 \<or> byte c = 0x7F))"
    by (rule runes_ascii_iff)
  also have "\<dots> \<longleftrightarrow> (\<exists>c \<in> set s. byte c < 0x20 \<or> byte c = 0x7F)" by (rule bex_cong) auto
  finally show ?thesis .
qed

section \<open>Paths and repository names\<close>

datatype WorkflowPath = WorkflowPath (WorkflowPath_string: string)

definition NewWorkflowPath :: "string \<Rightarrow> goerr + WorkflowPath" where
  "NewWorkflowPath value =
     (if value = [] then Inl (Errorf ''workflow path is empty'')
      else if \<not> ValidUTF8 value \<or> length value > 4096 \<or> hasASCIIControl value
        then Inl (Errorf ''workflow path is not a bounded UTF-8 path'')
      else if CHR 0x5C \<in> set value \<or> HasPrefix value ''/'' \<or> path_Clean value \<noteq> value \<or>
              value = ''.'' \<or> HasPrefix value ''../''
        then Inl (Errorf (''workflow path '' @ value @ '' is not canonical repository-relative syntax''))
      else Inr (WorkflowPath value))"

definition WorkflowPath_Validate :: "WorkflowPath \<Rightarrow> goerr option" where
  [validate_defs]: "WorkflowPath_Validate p =
     (case NewWorkflowPath (WorkflowPath_string p) of Inl e \<Rightarrow> Some e | Inr _ \<Rightarrow> None)"

definition WorkflowPath_UnmarshalJSON :: "json option \<Rightarrow> goerr + WorkflowPath" where
  "WorkflowPath_UnmarshalJSON data =
     (case data of
        Some (JString value) \<Rightarrow> NewWorkflowPath value
      | Some JNull \<Rightarrow> NewWorkflowPath []
      | _ \<Rightarrow> Inl (Wrapf ''decode workflow path'' (Errorf ''json'')))"

datatype RepositorySlug = RepositorySlug (RepositorySlug_string: string)

definition NewRepositorySlug :: "string \<Rightarrow> goerr + RepositorySlug" where
  "NewRepositorySlug value =
     (if \<not> ValidUTF8 value \<or> length value = 0 \<or> length value > 512 \<or> hasASCIIControl value
        then Inl (Errorf ''repository name must be bounded UTF-8'')
      else case split_on CHR ''/'' value of
             [owner, name] \<Rightarrow>
               if owner = [] \<or> name = [] \<or> owner = ''.'' \<or> name = ''.'' \<or> owner = ''..'' \<or> name = ''..''
               then Inl (Errorf (''repository '' @ value @ '' must have owner/name form''))
               else Inr (RepositorySlug value)
           | _ \<Rightarrow> Inl (Errorf (''repository '' @ value @ '' must have owner/name form'')))"

definition RepositorySlug_Validate :: "RepositorySlug \<Rightarrow> goerr option" where
  [validate_defs]: "RepositorySlug_Validate r =
     (case NewRepositorySlug (RepositorySlug_string r) of Inl e \<Rightarrow> Some e | Inr _ \<Rightarrow> None)"

section \<open>Git objects and digests\<close>

datatype HashAlgorithm =
    HashSHA1
  | HashSHA256
  | OtherHashAlgorithm string

primrec HashAlgorithm_text :: "HashAlgorithm \<Rightarrow> string" where
  "HashAlgorithm_text HashSHA1 = ''sha1''"
| "HashAlgorithm_text HashSHA256 = ''sha256''"
| "HashAlgorithm_text (OtherHashAlgorithm s) = s"

definition HashAlgorithm_values :: "HashAlgorithm list" where
  "HashAlgorithm_values =
    [HashSHA1, HashSHA256]"

definition HashAlgorithm_of :: "string \<Rightarrow> HashAlgorithm" where
  "HashAlgorithm_of s = enum_of HashAlgorithm_text HashAlgorithm_values OtherHashAlgorithm s"

definition HashAlgorithm_Valid :: "HashAlgorithm \<Rightarrow> bool" where
  "HashAlgorithm_Valid s \<longleftrightarrow> s = HashSHA1 \<or> s = HashSHA256"

definition HashAlgorithm_UnmarshalJSON :: "json option \<Rightarrow> goerr + HashAlgorithm" where
  "HashAlgorithm_UnmarshalJSON data =
     map_sum id HashAlgorithm_of (unmarshalStringEnum data (\<lambda>value. HashAlgorithm_Valid (HashAlgorithm_of value)) ''hash algorithm'')"

lemmas HashAlgorithm_defs [enum_defs] = HashAlgorithm_values_def HashAlgorithm_of_def HashAlgorithm_Valid_def

interpretation HashAlgorithm_enum: string_enum HashAlgorithm_text HashAlgorithm_of HashAlgorithm_Valid HashAlgorithm_values
  by (rule string_enumI[where other = OtherHashAlgorithm]) (auto simp: enum_defs)

text \<open>\<open>hashAlgorithmPattern\<close>: \<open>^[a-z][a-z0-9-]{0,31}$\<close>.\<close>

definition lower_letter :: "char \<Rightarrow> bool" where
  "lower_letter c \<longleftrightarrow> 0x61 \<le> byte c \<and> byte c \<le> 0x7A"

definition decimal_digit :: "char \<Rightarrow> bool" where
  "decimal_digit c \<longleftrightarrow> 0x30 \<le> byte c \<and> byte c \<le> 0x39"

definition hashAlgorithmPattern :: "string \<Rightarrow> bool" where
  "hashAlgorithmPattern s =
     (case s of [] \<Rightarrow> False
      | c # r \<Rightarrow> lower_letter c \<and> length r \<le> 31 \<and>
                 list_all (\<lambda>d. lower_letter d \<or> decimal_digit d \<or> d = CHR ''-'') r)"

fun expectedHexLength :: "HashAlgorithm \<Rightarrow> nat" where
  "expectedHexLength HashSHA1 = 40"
| "expectedHexLength HashSHA256 = 64"
| "expectedHexLength (OtherHashAlgorithm s) = 0"

record GitObjectID =
  oid_Algorithm :: HashAlgorithm
  oid_Value :: string

definition GitObjectID_Validate :: "GitObjectID \<Rightarrow> goerr option" where
  [validate_defs]: "GitObjectID_Validate i =
     first_error
      [require (hashAlgorithmPattern (HashAlgorithm_text (oid_Algorithm i)) \<and> HashAlgorithm_Valid (oid_Algorithm i))
         (Errorf (''unsupported Git object algorithm '' @ HashAlgorithm_text (oid_Algorithm i))),
       require (length (oid_Value i) = expectedHexLength (oid_Algorithm i))
         (Errorf ''Git object ID must contain the expected number of lowercase hexadecimal characters''),
       require (oid_Value i = ToLower (oid_Value i)) (Errorf ''Git object ID must be lowercase hexadecimal''),
       require (hex_decodes (oid_Value i)) (Errorf ''Git object ID is not hexadecimal'')]"

definition NewGitObjectID :: "HashAlgorithm \<Rightarrow> string \<Rightarrow> goerr + GitObjectID" where
  "NewGitObjectID algorithm value =
     (let i = \<lparr>oid_Algorithm = algorithm, oid_Value = value\<rparr>
      in case GitObjectID_Validate i of Some e \<Rightarrow> Inl e | None \<Rightarrow> Inr i)"

text \<open>
  The semantic wrappers: one Git identity per historical role, each a type of
  its own, so that no role can be assigned to another.
\<close>

datatype WorkflowDefinitionObjectID = WorkflowDefinitionObjectID (WorkflowDefinitionObjectID_object: GitObjectID)

definition NewWorkflowDefinitionObjectID :: "GitObjectID \<Rightarrow> goerr + WorkflowDefinitionObjectID" where
  "NewWorkflowDefinitionObjectID i = (case GitObjectID_Validate i of Some e \<Rightarrow> Inl e | None \<Rightarrow> Inr (WorkflowDefinitionObjectID i))"

definition WorkflowDefinitionObjectID_Validate :: "WorkflowDefinitionObjectID \<Rightarrow> goerr option" where
  [validate_defs]: "WorkflowDefinitionObjectID_Validate i = GitObjectID_Validate (WorkflowDefinitionObjectID_object i)"

datatype TriggerObjectID = TriggerObjectID (TriggerObjectID_object: GitObjectID)

definition NewTriggerObjectID :: "GitObjectID \<Rightarrow> goerr + TriggerObjectID" where
  "NewTriggerObjectID i = (case GitObjectID_Validate i of Some e \<Rightarrow> Inl e | None \<Rightarrow> Inr (TriggerObjectID i))"

definition TriggerObjectID_Validate :: "TriggerObjectID \<Rightarrow> goerr option" where
  [validate_defs]: "TriggerObjectID_Validate i = GitObjectID_Validate (TriggerObjectID_object i)"

datatype CallerWorkflowObjectID = CallerWorkflowObjectID (CallerWorkflowObjectID_object: GitObjectID)

definition NewCallerWorkflowObjectID :: "GitObjectID \<Rightarrow> goerr + CallerWorkflowObjectID" where
  "NewCallerWorkflowObjectID i = (case GitObjectID_Validate i of Some e \<Rightarrow> Inl e | None \<Rightarrow> Inr (CallerWorkflowObjectID i))"

definition CallerWorkflowObjectID_Validate :: "CallerWorkflowObjectID \<Rightarrow> goerr option" where
  [validate_defs]: "CallerWorkflowObjectID_Validate i = GitObjectID_Validate (CallerWorkflowObjectID_object i)"

datatype CalledWorkflowObjectID = CalledWorkflowObjectID (CalledWorkflowObjectID_object: GitObjectID)

definition NewCalledWorkflowObjectID :: "GitObjectID \<Rightarrow> goerr + CalledWorkflowObjectID" where
  "NewCalledWorkflowObjectID i = (case GitObjectID_Validate i of Some e \<Rightarrow> Inl e | None \<Rightarrow> Inr (CalledWorkflowObjectID i))"

definition CalledWorkflowObjectID_Validate :: "CalledWorkflowObjectID \<Rightarrow> goerr option" where
  [validate_defs]: "CalledWorkflowObjectID_Validate i = GitObjectID_Validate (CalledWorkflowObjectID_object i)"

datatype ActionSourceObjectID = ActionSourceObjectID (ActionSourceObjectID_object: GitObjectID)

definition NewActionSourceObjectID :: "GitObjectID \<Rightarrow> goerr + ActionSourceObjectID" where
  "NewActionSourceObjectID i = (case GitObjectID_Validate i of Some e \<Rightarrow> Inl e | None \<Rightarrow> Inr (ActionSourceObjectID i))"

definition ActionSourceObjectID_Validate :: "ActionSourceObjectID \<Rightarrow> goerr option" where
  [validate_defs]: "ActionSourceObjectID_Validate i = GitObjectID_Validate (ActionSourceObjectID_object i)"

datatype DigestSubject =
    DigestGitHubActionPackage
  | DigestOCIManifest
  | DigestExecutableFile
  | DigestReleaseAsset
  | DigestWorkflowArtifact
  | OtherDigestSubject string

primrec DigestSubject_text :: "DigestSubject \<Rightarrow> string" where
  "DigestSubject_text DigestGitHubActionPackage = ''github-action-package''"
| "DigestSubject_text DigestOCIManifest = ''oci-manifest''"
| "DigestSubject_text DigestExecutableFile = ''executable-file''"
| "DigestSubject_text DigestReleaseAsset = ''release-asset''"
| "DigestSubject_text DigestWorkflowArtifact = ''workflow-artifact''"
| "DigestSubject_text (OtherDigestSubject s) = s"

definition DigestSubject_values :: "DigestSubject list" where
  "DigestSubject_values =
    [DigestGitHubActionPackage, DigestOCIManifest, DigestExecutableFile,
     DigestReleaseAsset, DigestWorkflowArtifact]"

definition DigestSubject_of :: "string \<Rightarrow> DigestSubject" where
  "DigestSubject_of s = enum_of DigestSubject_text DigestSubject_values OtherDigestSubject s"

definition DigestSubject_Valid :: "DigestSubject \<Rightarrow> bool" where
  "DigestSubject_Valid s \<longleftrightarrow> s = DigestGitHubActionPackage \<or> s = DigestOCIManifest \<or> s = DigestExecutableFile \<or> s = DigestReleaseAsset \<or> s = DigestWorkflowArtifact"

lemmas DigestSubject_defs [enum_defs] = DigestSubject_values_def DigestSubject_of_def DigestSubject_Valid_def

interpretation DigestSubject_enum: string_enum DigestSubject_text DigestSubject_of DigestSubject_Valid DigestSubject_values
  by (rule string_enumI[where other = OtherDigestSubject]) (auto simp: enum_defs)

record PackageDigest =
  dig_Subject :: DigestSubject
  dig_Algorithm :: HashAlgorithm
  dig_Value :: string

definition PackageDigest_Validate :: "PackageDigest \<Rightarrow> goerr option" where
  [validate_defs]: "PackageDigest_Validate d =
     first_error
      [require (DigestSubject_Valid (dig_Subject d))
         (Errorf (''unsupported digest subject '' @ DigestSubject_text (dig_Subject d))),
       require (dig_Algorithm d = HashSHA256)
         (Errorf (''unsupported v0.1 digest algorithm '' @ HashAlgorithm_text (dig_Algorithm d))),
       require (length (dig_Value d) = expectedHexLength (dig_Algorithm d) \<and> dig_Value d = ToLower (dig_Value d))
         (Errorf ''digest must be complete lowercase hexadecimal''),
       require (hex_decodes (dig_Value d)) (Errorf ''digest is not hexadecimal'')]"

definition NewPackageDigest :: "DigestSubject \<Rightarrow> HashAlgorithm \<Rightarrow> string \<Rightarrow> goerr + PackageDigest" where
  "NewPackageDigest subject algorithm value =
     (let digest = \<lparr>dig_Subject = subject, dig_Algorithm = algorithm, dig_Value = value\<rparr>
      in case PackageDigest_Validate digest of Some e \<Rightarrow> Inl e | None \<Rightarrow> Inr digest)"

section \<open>Execution identities\<close>

record RunAttemptIdentity =
  rai_RepositoryID :: RepositoryID
  rai_RunID :: WorkflowRunID
  rai_RunAttempt :: RunAttempt

definition RunAttemptIdentity_Validate :: "RunAttemptIdentity \<Rightarrow> goerr option" where
  [validate_defs]: "RunAttemptIdentity_Validate i =
     first_error [RepositoryID_Validate (rai_RepositoryID i), WorkflowRunID_Validate (rai_RunID i),
       RunAttempt_Validate (rai_RunAttempt i)]"

definition RunAttemptIdentity_String :: "RunAttemptIdentity \<Rightarrow> string" where
  "RunAttemptIdentity_String i =
     ''repo:'' @ show_int (rai_RepositoryID i) @ ''/run:'' @ show_int (rai_RunID i) @
     ''/attempt:'' @ show_nat (unat (rai_RunAttempt i))"

record JobExecutionIdentity =
  jid_RepositoryID :: RepositoryID
  jid_RunID :: WorkflowRunID
  jid_RunAttempt :: RunAttempt
  jid_JobID :: JobID

definition JobExecutionIdentity_Validate :: "JobExecutionIdentity \<Rightarrow> goerr option" where
  [validate_defs]: "JobExecutionIdentity_Validate i =
     first_error
      [RunAttemptIdentity_Validate
         \<lparr>rai_RepositoryID = jid_RepositoryID i, rai_RunID = jid_RunID i, rai_RunAttempt = jid_RunAttempt i\<rparr>,
       JobID_Validate (jid_JobID i)]"

definition JobExecutionIdentity_String :: "JobExecutionIdentity \<Rightarrow> string" where
  "JobExecutionIdentity_String i =
     show_int (jid_RepositoryID i) @ ''/'' @ show_int (jid_RunID i) @ ''/'' @
     show_nat (unat (jid_RunAttempt i)) @ ''/'' @ show_int (jid_JobID i)"

record StepIdentity =
  sid_Job :: JobExecutionIdentity
  sid_TimelineRecordID :: string
  sid_APIStepNumber :: "APIStepNumber option"
  sid_ASTOrdinal :: "ASTOrdinal option"
  sid_LifecyclePhase :: LifecyclePhase
  sid_Occurrence :: Occurrence

definition StepIdentity_Validate :: "StepIdentity \<Rightarrow> goerr option" where
  [validate_defs]: "StepIdentity_Validate i =
     first_error
      [JobExecutionIdentity_Validate (sid_Job i),
       require (LifecyclePhase_Valid (sid_LifecyclePhase i)) (Errorf ''invalid lifecycle phase''),
       Occurrence_Validate (sid_Occurrence i),
       if sid_TimelineRecordID i \<noteq> [] then
         require (validBoundedIdentityText (sid_TimelineRecordID i) 256) (Errorf ''timeline record ID is invalid'')
       else case sid_APIStepNumber i of
          None \<Rightarrow> Some (Errorf ''step requires a timeline record ID or API step number'')
        | Some number \<Rightarrow>
            first_error [APIStepNumber_Validate number, validate_pointer ASTOrdinal_Validate (sid_ASTOrdinal i)]]"

text \<open>
  \<open>Key\<close> dereferences the step number when there is no timeline record; a nil
  pointer there is a panic, the result \<open>None\<close>.
\<close>

definition StepIdentity_Key :: "StepIdentity \<Rightarrow> string option" where
  "StepIdentity_Key i =
     (let base = JobExecutionIdentity_String (sid_Job i);
          tail = ''/'' @ LifecyclePhase_text (sid_LifecyclePhase i) @ ''/'' @ show_nat (unat (sid_Occurrence i))
      in if sid_TimelineRecordID i \<noteq> [] then Some (base @ ''/timeline:'' @ sid_TimelineRecordID i @ tail)
         else map_option (\<lambda>number. base @ ''/step:'' @ show_int number @ tail) (sid_APIStepNumber i))"

section \<open>Content-addressed and opaque identifiers\<close>

text \<open>\<open>versionedIDPattern\<close>: \<open>^[a-z][a-z0-9]*1:[0-9a-f]{64}$\<close>.\<close>

definition versionedIDPattern :: "string \<Rightarrow> bool" where
  "versionedIDPattern s =
     (let digest = drop (length s - 64) s; head = take (length s - 64) s; body = take (length head - 2) head
      in length digest = 64 \<and> list_all lower_hex_digit digest \<and> HasSuffix head ''1:'' \<and>
         body \<noteq> [] \<and> lower_letter (hd body) \<and> list_all (\<lambda>c. lower_letter c \<or> decimal_digit c) (tl body))"

definition validateVersionedID :: "string \<Rightarrow> string \<Rightarrow> goerr option" where
  [validate_defs]: "validateVersionedID value prefix =
     require (HasPrefix value prefix \<and> versionedIDPattern value)
       (Errorf (''identifier must have '' @ prefix @ '' followed by 64 lowercase hexadecimal characters''))"

definition validateOpaqueID :: "string \<Rightarrow> string \<Rightarrow> goerr option" where
  [validate_defs]: "validateOpaqueID value name =
     require (validBoundedIdentityText value 256) (Errorf (name @ '' is invalid''))"

definition validateSHA256 :: "string \<Rightarrow> string \<Rightarrow> goerr option" where
  [validate_defs]: "validateSHA256 value name =
     first_error
      [require (length value = 64 \<and> value = ToLower value)
         (Errorf (name @ '' must be 64 lowercase hexadecimal characters'')),
       require (hex_decodes value) (Errorf (name @ '' is not hexadecimal''))]"

datatype LogicalSourceID = LogicalSourceID (LogicalSourceID_string: string)

definition LogicalSourceID_Validate :: "LogicalSourceID \<Rightarrow> goerr option" where
  [validate_defs]: "LogicalSourceID_Validate i = validateVersionedID (LogicalSourceID_string i) ''src1:''"

datatype EvidenceID = EvidenceID (EvidenceID_string: string)

definition EvidenceID_Validate :: "EvidenceID \<Rightarrow> goerr option" where
  [validate_defs]: "EvidenceID_Validate i = validateVersionedID (EvidenceID_string i) ''ev1:''"

datatype CollectionObservationID = CollectionObservationID (CollectionObservationID_string: string)

definition CollectionObservationID_Validate :: "CollectionObservationID \<Rightarrow> goerr option" where
  [validate_defs]: "CollectionObservationID_Validate i = validateVersionedID (CollectionObservationID_string i) ''obs1:''"

datatype RuntimeObservationID = RuntimeObservationID (RuntimeObservationID_string: string)

definition RuntimeObservationID_Validate :: "RuntimeObservationID \<Rightarrow> goerr option" where
  [validate_defs]: "RuntimeObservationID_Validate i = validateVersionedID (RuntimeObservationID_string i) ''rtobs1:''"

datatype CoverageUnitID = CoverageUnitID (CoverageUnitID_string: string)

definition CoverageUnitID_Validate :: "CoverageUnitID \<Rightarrow> goerr option" where
  [validate_defs]: "CoverageUnitID_Validate i = validateVersionedID (CoverageUnitID_string i) ''cov1:''"

datatype CoverageAssessmentID = CoverageAssessmentID (CoverageAssessmentID_string: string)

definition CoverageAssessmentID_Validate :: "CoverageAssessmentID \<Rightarrow> goerr option" where
  [validate_defs]: "CoverageAssessmentID_Validate i = validateVersionedID (CoverageAssessmentID_string i) ''cova1:''"

datatype CoverageObservationID = CoverageObservationID (CoverageObservationID_string: string)

definition CoverageObservationID_Validate :: "CoverageObservationID \<Rightarrow> goerr option" where
  [validate_defs]: "CoverageObservationID_Validate i = validateVersionedID (CoverageObservationID_string i) ''covobs1:''"

datatype FindingID = FindingID (FindingID_string: string)

definition FindingID_Validate :: "FindingID \<Rightarrow> goerr option" where
  [validate_defs]: "FindingID_Validate i = validateVersionedID (FindingID_string i) ''find1:''"

datatype FindingRevisionID = FindingRevisionID (FindingRevisionID_string: string)

definition FindingRevisionID_Validate :: "FindingRevisionID \<Rightarrow> goerr option" where
  [validate_defs]: "FindingRevisionID_Validate i = validateVersionedID (FindingRevisionID_string i) ''frev1:''"

datatype CollectionSessionID = CollectionSessionID (CollectionSessionID_string: string)

definition CollectionSessionID_Validate :: "CollectionSessionID \<Rightarrow> goerr option" where
  [validate_defs]: "CollectionSessionID_Validate i = validateOpaqueID (CollectionSessionID_string i) ''collection session ID''"

datatype RequestID = RequestID (RequestID_string: string)

definition RequestID_Validate :: "RequestID \<Rightarrow> goerr option" where
  [validate_defs]: "RequestID_Validate i = validateOpaqueID (RequestID_string i) ''request ID''"

datatype AnalysisSessionID = AnalysisSessionID (AnalysisSessionID_string: string)

definition AnalysisSessionID_Validate :: "AnalysisSessionID \<Rightarrow> goerr option" where
  [validate_defs]: "AnalysisSessionID_Validate i = validateOpaqueID (AnalysisSessionID_string i) ''analysis session ID''"

text \<open>Evidence and assessment identifiers are compared as strings when they are sorted.\<close>

instantiation EvidenceID :: linorder
begin

definition less_eq_EvidenceID :: "EvidenceID \<Rightarrow> EvidenceID \<Rightarrow> bool" where
  "less_eq_EvidenceID a b \<longleftrightarrow> EvidenceID_string a \<le> EvidenceID_string b"

definition less_EvidenceID :: "EvidenceID \<Rightarrow> EvidenceID \<Rightarrow> bool" where
  "less_EvidenceID a b \<longleftrightarrow> EvidenceID_string a < EvidenceID_string b"

instance
  by standard (auto simp: less_eq_EvidenceID_def less_EvidenceID_def EvidenceID.expand)

end

instantiation CoverageAssessmentID :: linorder
begin

definition less_eq_CoverageAssessmentID :: "CoverageAssessmentID \<Rightarrow> CoverageAssessmentID \<Rightarrow> bool" where
  "less_eq_CoverageAssessmentID a b \<longleftrightarrow> CoverageAssessmentID_string a \<le> CoverageAssessmentID_string b"

definition less_CoverageAssessmentID :: "CoverageAssessmentID \<Rightarrow> CoverageAssessmentID \<Rightarrow> bool" where
  "less_CoverageAssessmentID a b \<longleftrightarrow> CoverageAssessmentID_string a < CoverageAssessmentID_string b"

instance
  by standard (auto simp: less_eq_CoverageAssessmentID_def less_CoverageAssessmentID_def CoverageAssessmentID.expand)

end

section \<open>What the identity validators accept\<close>

lemma hex_digest_iff:
  "length v = 2 * n \<and> v = ToLower v \<and> hex_decodes v \<longleftrightarrow> length v = 2 * n \<and> list_all lower_hex_digit v"
  using lower_hex_iff[of v] by auto

text \<open>
  A Git object identity is accepted exactly when it is a complete lowercase
  hexadecimal SHA-1 (40 digits) or SHA-256 (64 digits) under its own algorithm;
  an abbreviated, upper-case or mistyped identity is refused.
\<close>

theorem git_object_accepted:
  "GitObjectID_Validate i = None \<longleftrightarrow>
     (oid_Algorithm i = HashSHA1 \<and> length (oid_Value i) = 40 \<or>
      oid_Algorithm i = HashSHA256 \<and> length (oid_Value i) = 64) \<and>
     list_all lower_hex_digit (oid_Value i)"
proof (cases "oid_Algorithm i")
  case HashSHA1
  have "hashAlgorithmPattern ''sha1''"
    by (simp add: hashAlgorithmPattern_def lower_letter_def decimal_digit_def byte_def)
  with HashSHA1 hex_digest_iff[of "oid_Value i" 20] show ?thesis
    by (simp add: GitObjectID_Validate_def HashAlgorithm_Valid_def)
next
  case HashSHA256
  have "hashAlgorithmPattern ''sha256''"
    by (simp add: hashAlgorithmPattern_def lower_letter_def decimal_digit_def byte_def)
  with HashSHA256 hex_digest_iff[of "oid_Value i" 32] show ?thesis
    by (simp add: GitObjectID_Validate_def HashAlgorithm_Valid_def)
qed (simp add: GitObjectID_Validate_def HashAlgorithm_Valid_def)
lemma versionedIDPattern_iff:
  "versionedIDPattern s \<longleftrightarrow>
     (\<exists>body h. s = body @ ''1:'' @ h \<and> length h = 64 \<and> list_all lower_hex_digit h \<and>
        body \<noteq> [] \<and> lower_letter (hd body) \<and> list_all (\<lambda>c. lower_letter c \<or> decimal_digit c) (tl body))"
    (is "_ \<longleftrightarrow> (\<exists>body h. ?P body h)")
proof
  assume v: "versionedIDPattern s"
  let ?h = "drop (length s - 64) s" and ?head = "take (length s - 64) s"
  obtain body where head: "?head = body @ ''1:''"
    using v by (auto simp: versionedIDPattern_def Let_def HasSuffix_iff)
  have s: "s = body @ ''1:'' @ ?h"
    using append_take_drop_id[of "length s - 64" s] by (simp only: head append.assoc)
  have tk: "take (length ?head - 2) ?head = body" by (simp only: head) simp
  have "length ?h = 64 \<and> list_all lower_hex_digit ?h \<and> body \<noteq> [] \<and> lower_letter (hd body) \<and>
      list_all (\<lambda>c. lower_letter c \<or> decimal_digit c) (tl body)"
    using v unfolding versionedIDPattern_def Let_def tk by blast
  with s have "?P body ?h" by blast
  then show "\<exists>body h. ?P body h" by blast
next
  assume "\<exists>body h. ?P body h"
  then obtain body h where s: "s = (body @ ''1:'') @ h" and P: "?P body h" by auto
  have "drop (length s - 64) s = h" "take (length s - 64) s = body @ ''1:''"
    using s P by simp_all
  then show "versionedIDPattern s"
    using P by (simp add: versionedIDPattern_def HasSuffix_iff)
qed

lemma lower_hex_no_colon: "list_all lower_hex_digit h \<Longrightarrow> CHR '':'' \<notin> set h"
  by (auto simp: list_all_iff lower_hex_digit_def byte_def)

lemma alnum_no_colon: "list_all (\<lambda>c. lower_letter c \<or> decimal_digit c) b \<Longrightarrow> CHR '':'' \<notin> set b"
  by (auto simp: list_all_iff lower_letter_def decimal_digit_def byte_def)

lemma validateVersionedID_iff:
  assumes p: "p = q @ ''1:''" "q \<noteq> []" "list_all (\<lambda>c. lower_letter c \<or> decimal_digit c) q" "lower_letter (hd q)"
  shows "validateVersionedID v p = None \<longleftrightarrow> (\<exists>h. v = p @ h \<and> length h = 64 \<and> list_all lower_hex_digit h)"
proof
  assume "validateVersionedID v p = None"
  then have pre: "HasPrefix v p" and pat: "versionedIDPattern v" by (simp_all add: validateVersionedID_def)
  obtain r where r: "v = (q @ ''1'') @ CHR '':'' # r" using pre p(1) by (auto simp: HasPrefix_iff)
  obtain body h where b: "v = (body @ ''1'') @ CHR '':'' # h" and h: "length h = 64" "list_all lower_hex_digit h"
    and body: "body \<noteq> []" "lower_letter (hd body)" "list_all (\<lambda>c. lower_letter c \<or> decimal_digit c) (tl body)"
    using pat unfolding versionedIDPattern_iff by auto
  have "list_all (\<lambda>c. lower_letter c \<or> decimal_digit c) body" using body by (cases body) auto
  then have nb: "CHR '':'' \<notin> set (body @ ''1'')" using alnum_no_colon by auto
  have nq: "CHR '':'' \<notin> set (q @ ''1'')" using alnum_no_colon p(3) by auto
  have "(q @ ''1'') @ CHR '':'' # r = (body @ ''1'') @ CHR '':'' # h" using r b by metis
  then have "r = h" using append_slash_eq[OF nq nb] by blast
  then show "\<exists>h. v = p @ h \<and> length h = 64 \<and> list_all lower_hex_digit h"
    using r h p(1) by auto
next
  assume "\<exists>h. v = p @ h \<and> length h = 64 \<and> list_all lower_hex_digit h"
  then obtain h where h: "v = q @ ''1:'' @ h" "length h = 64" "list_all lower_hex_digit h" using p(1) by auto
  have "list_all (\<lambda>c. lower_letter c \<or> decimal_digit c) (tl q)" using p(3) by (cases q) auto
  then have "versionedIDPattern v" using h p(2,4) unfolding versionedIDPattern_iff by blast
  then show "validateVersionedID v p = None"
    using h p(1) by (simp add: validateVersionedID_def HasPrefix_iff)
qed

text \<open>
  The content-addressed identifiers are accepted exactly when they are their
  own type's prefix followed by 64 lowercase hexadecimal digits.
\<close>

theorem versioned_identifiers_accepted:
  "(EvidenceID_Validate (EvidenceID v) = None \<longleftrightarrow>
      (\<exists>h. v = ''ev1:'' @ h \<and> length h = 64 \<and> list_all lower_hex_digit h)) \<and>
   (CoverageUnitID_Validate (CoverageUnitID v) = None \<longleftrightarrow>
      (\<exists>h. v = ''cov1:'' @ h \<and> length h = 64 \<and> list_all lower_hex_digit h)) \<and>
   (CoverageAssessmentID_Validate (CoverageAssessmentID v) = None \<longleftrightarrow>
      (\<exists>h. v = ''cova1:'' @ h \<and> length h = 64 \<and> list_all lower_hex_digit h)) \<and>
   (FindingID_Validate (FindingID v) = None \<longleftrightarrow>
      (\<exists>h. v = ''find1:'' @ h \<and> length h = 64 \<and> list_all lower_hex_digit h))"
proof -
  have ev: "validateVersionedID v ''ev1:'' = None \<longleftrightarrow>
      (\<exists>h. v = ''ev1:'' @ h \<and> length h = 64 \<and> list_all lower_hex_digit h)"
    by (rule validateVersionedID_iff[of _ "''ev''"]) (simp_all add: lower_letter_def byte_def)
  have cov: "validateVersionedID v ''cov1:'' = None \<longleftrightarrow>
      (\<exists>h. v = ''cov1:'' @ h \<and> length h = 64 \<and> list_all lower_hex_digit h)"
    by (rule validateVersionedID_iff[of _ "''cov''"]) (simp_all add: lower_letter_def byte_def)
  have cova: "validateVersionedID v ''cova1:'' = None \<longleftrightarrow>
      (\<exists>h. v = ''cova1:'' @ h \<and> length h = 64 \<and> list_all lower_hex_digit h)"
    by (rule validateVersionedID_iff[of _ "''cova''"]) (simp_all add: lower_letter_def byte_def)
  have find1: "validateVersionedID v ''find1:'' = None \<longleftrightarrow>
      (\<exists>h. v = ''find1:'' @ h \<and> length h = 64 \<and> list_all lower_hex_digit h)"
    by (rule validateVersionedID_iff[of _ "''find''"]) (simp_all add: lower_letter_def byte_def)
  show ?thesis
    unfolding EvidenceID_Validate_def CoverageUnitID_Validate_def CoverageAssessmentID_Validate_def
      FindingID_Validate_def EvidenceID.sel CoverageUnitID.sel CoverageAssessmentID.sel FindingID.sel
    using ev cov cova find1 by blast
qed
section \<open>Textual keys\<close>

lemma JobExecutionIdentity_String_prefix:
  "JobExecutionIdentity_String i @ CHR ''/'' # r = JobExecutionIdentity_String j @ CHR ''/'' # s \<longleftrightarrow> i = j \<and> r = s"
  by (cases i, cases j) (auto simp: JobExecutionIdentity_String_def append_slash_eq word_unat_eq_iff)

text \<open>
  The textual form of a job-execution identity determines the repository,
  run, attempt and job: no two executions share it.
\<close>

theorem job_execution_string_injective:
  "JobExecutionIdentity_String i = JobExecutionIdentity_String j \<longleftrightarrow> i = j"
  by (cases i, cases j) (auto simp: JobExecutionIdentity_String_def append_slash_eq word_unat_eq_iff)

lemma lifecycle_text_no_slash: "LifecyclePhase_Valid p \<Longrightarrow> CHR ''/'' \<notin> set (LifecyclePhase_text p)"
  by (auto simp: LifecyclePhase_Valid_def)

lemma StepIdentity_Key_parts:
  "StepIdentity_Key i = map_option (\<lambda>m. JobExecutionIdentity_String (sid_Job i) @ CHR ''/'' # m @ CHR ''/'' # LifecyclePhase_text (sid_LifecyclePhase i) @ CHR ''/'' # show_nat (unat (sid_Occurrence i)))
     (if sid_TimelineRecordID i \<noteq> [] then Some (''timeline:'' @ sid_TimelineRecordID i)
      else map_option (\<lambda>n. ''step:'' @ show_int n) (sid_APIStepNumber i))"
  by (simp add: StepIdentity_Key_def Let_def option.map_comp comp_def)

text \<open>
  On validated step identities \<open>Key\<close> never dereferences a missing step
  number, and two of them share a key exactly when they agree on the job, the
  phase, the occurrence and the timeline record or, without one, the step number.
\<close>

theorem step_key_identifies:
  assumes "StepIdentity_Validate i = None" and "StepIdentity_Validate j = None"
  shows "StepIdentity_Key i \<noteq> None \<and>
    (StepIdentity_Key i = StepIdentity_Key j \<longleftrightarrow>
      sid_Job i = sid_Job j \<and> sid_LifecyclePhase i = sid_LifecyclePhase j \<and>
      sid_Occurrence i = sid_Occurrence j \<and> sid_TimelineRecordID i = sid_TimelineRecordID j \<and>
      (sid_TimelineRecordID i = [] \<longrightarrow> sid_APIStepNumber i = sid_APIStepNumber j))"
proof -
  have phases: "LifecyclePhase_Valid (sid_LifecyclePhase i)" "LifecyclePhase_Valid (sid_LifecyclePhase j)"
    using assms by (simp_all add: StepIdentity_Validate_def)
  have numbers: "sid_TimelineRecordID k = [] \<Longrightarrow> \<exists>n. sid_APIStepNumber k = Some n"
    if "StepIdentity_Validate k = None" for k
    using that by (auto simp: StepIdentity_Validate_def split: option.splits)
  note text_eq = LifecyclePhase_enum.repr_inject[OF phases]
  have tail_eq: "m @ CHR ''/'' # LifecyclePhase_text (sid_LifecyclePhase i) @ CHR ''/'' # show_nat (unat (sid_Occurrence i)) =
      m' @ CHR ''/'' # LifecyclePhase_text (sid_LifecyclePhase j) @ CHR ''/'' # show_nat (unat (sid_Occurrence j)) \<longleftrightarrow>
      m = m' \<and> sid_LifecyclePhase i = sid_LifecyclePhase j \<and> sid_Occurrence i = sid_Occurrence j" for m m'
    using append_slash_eq_right[of "CHR ''/''" "show_nat (unat (sid_Occurrence i))" "show_nat (unat (sid_Occurrence j))"
        "m @ CHR ''/'' # LifecyclePhase_text (sid_LifecyclePhase i)" "m' @ CHR ''/'' # LifecyclePhase_text (sid_LifecyclePhase j)"]
      append_slash_eq_right[OF lifecycle_text_no_slash[OF phases(1)] lifecycle_text_no_slash[OF phases(2)]]
    by (auto simp: text_eq word_unat_eq_iff)
  show ?thesis
    using numbers[OF assms(1)] numbers[OF assms(2)]
    by (cases "sid_TimelineRecordID i = []"; cases "sid_TimelineRecordID j = []")
       (auto simp: StepIdentity_Key_parts JobExecutionIdentity_String_prefix tail_eq simp del: append.assoc)
qed

theorem step_key_identifies_witness:
  "let i = \<lparr>sid_Job = \<lparr>jid_RepositoryID = 1, jid_RunID = 2, jid_RunAttempt = 3, jid_JobID = 4\<rparr>,
        sid_TimelineRecordID = [], sid_APIStepNumber = Some 5, sid_ASTOrdinal = None,
        sid_LifecyclePhase = LifecycleMain, sid_Occurrence = 1\<rparr>;
      j = i\<lparr>sid_LifecyclePhase := LifecyclePost\<rparr>
   in StepIdentity_Key i \<noteq> None \<and> StepIdentity_Key i \<noteq> StepIdentity_Key j"
proof -
  let ?i = "\<lparr>sid_Job = \<lparr>jid_RepositoryID = 1, jid_RunID = 2, jid_RunAttempt = 3, jid_JobID = 4\<rparr>,
        sid_TimelineRecordID = [], sid_APIStepNumber = Some 5, sid_ASTOrdinal = None,
        sid_LifecyclePhase = LifecycleMain, sid_Occurrence = 1\<rparr>"
  have "StepIdentity_Validate ?i = None"
    and "StepIdentity_Validate (?i\<lparr>sid_LifecyclePhase := LifecyclePost\<rparr>) = None"
    by (simp_all add: validate_defs LifecyclePhase_Valid_def)
  from step_key_identifies[OF this] show ?thesis by (simp add: Let_def)
qed

section \<open>Paths and names\<close>

text \<open>
  A workflow path the constructor accepts is kept unchanged, and unless it is
  the single component \<open>..\<close> each of its components is an ordinary name: no empty,
  \<open>.\<close> or \<open>..\<close> component and no leading slash survives.
\<close>

theorem workflow_path_stays_inside:
  assumes "NewWorkflowPath v = Inr p"
  shows "WorkflowPath_string p = v \<and>
    (v = ''..'' \<or> (\<forall>c \<in> set (split_on CHR ''/'' v). plain_component c))"
proof -
  have w: "p = WorkflowPath v" "path_Clean v = v" "\<not> HasPrefix v ''/''" "v \<noteq> ''.''"
      "\<not> HasPrefix v ''../''"
    using assms by (auto simp: NewWorkflowPath_def split: if_splits)
  obtain k ps where comps: "split_on CHR ''/'' v = replicate k ''..'' @ ps" "list_all plain_component ps"
    using path_Clean_fixed_components[OF w(2-4)] by blast
  show ?thesis
  proof (cases k)
    case 0
    then show ?thesis using comps w(1) by (simp add: list_all_iff)
  next
    case (Suc n)
    have joined: "v = join_with CHR ''/'' (''..'' # replicate n ''..'' @ ps)"
      using join_split_on[of "CHR ''/''" v] comps(1) Suc by simp
    have "replicate n ''..'' @ ps = []"
      using joined w(5) by (cases "replicate n ''..'' @ ps") (auto simp: HasPrefix_iff)
    with joined w(1) show ?thesis by simp
  qed
qed

theorem workflow_path_stays_inside_witness:
  "list_all plain_component (split_on CHR ''/'' ''.github/ci.yml'')"
proof -
  have "NewWorkflowPath ''.github/ci.yml'' = Inr (WorkflowPath ''.github/ci.yml'')"
    by (simp add: NewWorkflowPath_def ValidUTF8_ascii hasASCIIControl_bytes byte_def HasPrefix_def
        path_Clean_def clean_step_def)
  from workflow_path_stays_inside[OF this] show ?thesis by (simp add: list_all_iff)
qed

text \<open>
  The parent directory \<open>..\<close> itself is accepted as a canonical
  repository-relative path: it is its own cleaned form and only the prefix
  \<open>../\<close> is refused.
\<close>

theorem workflow_path_accepts_parent: "NewWorkflowPath ''..'' = Inr (WorkflowPath ''..'')"
  by (simp add: NewWorkflowPath_def ValidUTF8_ascii hasASCIIControl_bytes byte_def HasPrefix_def path_Clean_def clean_step_def)

text \<open>
  An accepted repository name is exactly an owner and a name, each an
  ordinary component, joined by one slash.
\<close>

theorem repository_slug_form:
  assumes "NewRepositorySlug v = Inr s"
  shows "RepositorySlug_string s = v \<and> (\<exists>owner name. v = owner @ ''/'' @ name \<and> plain_component owner \<and> plain_component name)"
proof -
  obtain a b where ab: "split_on CHR ''/'' v = [a, b]" "a \<noteq> []" "b \<noteq> []" "a \<noteq> ''.''" "b \<noteq> ''.''" "a \<noteq> ''..''" "b \<noteq> ''..''" "s = RepositorySlug v"
    using assms by (auto simp: NewRepositorySlug_def split: if_splits list.splits)
  have "v = a @ ''/'' @ b" using join_split_on[of "CHR ''/''" v] ab(1) by simp
  moreover have "plain_component a" "plain_component b"
    using ab split_on_no_sep[of _ "CHR ''/''" v] by (simp_all add: plain_component_def)
  ultimately show ?thesis using ab(8) by auto
qed

theorem repository_slug_form_witness:
  "\<exists>owner name. ''acme/service'' = owner @ ''/'' @ name \<and> plain_component owner \<and> plain_component name"
proof -
  have "NewRepositorySlug ''acme/service'' = Inr (RepositorySlug ''acme/service'')"
    by (simp add: NewRepositorySlug_def ValidUTF8_ascii hasASCIIControl_bytes byte_def)
  from repository_slug_form[OF this] show ?thesis by simp
qed

end
