(* ===== verification/Go_Time.thy ===== *)
theory Go_Time
  imports Go_Text
begin

text \<open>
  Go's \<open>time.Time\<close> as the code uses it: an instant in nanoseconds counted from
  the zero time (0001-01-01 00:00:00 UTC) and whether its location is UTC.
  Comparisons look at the instant only.  Durations are integers of nanoseconds;
  the difference of two times saturates at the bounds of \<open>int64\<close>.  Instants
  outside the range of Go's 64-bit second counter are not represented.
\<close>

section \<open>Times and durations\<close>

record gotime =
  ns :: int
  utc :: bool

definition zero_time :: gotime where
  "zero_time = \<lparr>ns = 0, utc = True\<rparr>"

definition IsZero :: "gotime \<Rightarrow> bool" where
  "IsZero t \<longleftrightarrow> ns t = 0"

definition Before :: "gotime \<Rightarrow> gotime \<Rightarrow> bool" where
  "Before t u \<longleftrightarrow> ns t < ns u"

definition After :: "gotime \<Rightarrow> gotime \<Rightarrow> bool" where
  "After t u \<longleftrightarrow> ns u < ns t"

definition EqualTime :: "gotime \<Rightarrow> gotime \<Rightarrow> bool" where
  "EqualTime t u \<longleftrightarrow> ns t = ns u"

definition UTC :: "gotime \<Rightarrow> gotime" where
  "UTC t = t\<lparr>utc := True\<rparr>"

definition AddDur :: "gotime \<Rightarrow> int \<Rightarrow> gotime" where
  "AddDur t d = t\<lparr>ns := ns t + d\<rparr>"

definition SubTime :: "gotime \<Rightarrow> gotime \<Rightarrow> int" where
  "SubTime t u = max (- (2 ^ 63)) (min (2 ^ 63 - 1) (ns t - ns u))"

abbreviation Second :: int where
  "Second \<equiv> 1000000000"

text \<open>\<open>Truncate(d)\<close> for a positive \<open>d\<close> rounds down to a multiple of \<open>d\<close> since the zero time.\<close>

definition TruncateTo :: "gotime \<Rightarrow> int \<Rightarrow> gotime" where
  "TruncateTo t d = t\<lparr>ns := ns t - ns t mod d\<rparr>"

lemmas time_defs = IsZero_def Before_def After_def EqualTime_def UTC_def AddDur_def TruncateTo_def

lemma ns_UTC [simp]: "ns (UTC t) = ns t"
  by (simp add: UTC_def)

lemma utc_UTC [simp]: "utc (UTC t) = True"
  by (simp add: UTC_def)

lemma ns_AddDur [simp]: "ns (AddDur t d) = ns t + d"
  by (simp add: AddDur_def)

lemma ns_TruncateTo: "ns (TruncateTo t d) = ns t - ns t mod d"
  by (simp add: TruncateTo_def)

lemma gotime_eqI: "ns t = ns u \<Longrightarrow> utc t = utc u \<Longrightarrow> t = (u :: gotime)"
  by simp

section \<open>RFC 3339\<close>

text \<open>\<open>Format(time.RFC3339)\<close> of a UTC time: the calendar date of the day number and the time of day.\<close>

definition civil_from_days :: "int \<Rightarrow> int \<times> int \<times> int" where
  "civil_from_days days =
     (let z = days + 306;
          era = z div 146097;
          doe = z mod 146097;
          yoe = (doe - doe div 1460 + doe div 36524 - doe div 146096) div 365;
          doy = doe - (365 * yoe + yoe div 4 - yoe div 100);
          mp = (5 * doy + 2) div 153;
          d = doy - (153 * mp + 2) div 5 + 1;
          m = (if mp < 10 then mp + 3 else mp - 9);
          y = yoe + era * 400 + (if m \<le> 2 then 1 else 0)
      in (y, m, d))"

definition pad_int :: "nat \<Rightarrow> int \<Rightarrow> string" where
  "pad_int width i =
     (let digits = show_nat (nat \<bar>i\<bar>)
      in (if i < 0 then ''-'' else []) @ replicate (width - length digits) CHR ''0'' @ digits)"

definition FormatRFC3339 :: "gotime \<Rightarrow> string" where
  "FormatRFC3339 t =
     (let secs = ns t div Second;
          days = secs div 86400;
          sod = secs mod 86400;
          (y, m, d) = civil_from_days days
      in pad_int 4 y @ ''-'' @ pad_int 2 m @ ''-'' @ pad_int 2 d @ ''T'' @
         pad_int 2 (sod div 3600) @ '':'' @ pad_int 2 (sod mod 3600 div 60) @ '':'' @ pad_int 2 (sod mod 60) @ ''Z'')"

end
