(* ===== verification/Model_Time.thy ===== *)
theory Model_Time
  imports Model_Enums Go_Time
begin

text \<open>
  \<open>internal/model/time.go\<close>: instants normalized to UTC, event intervals that keep
  an unknown event time apart from an instant and a range, and collection windows.
\<close>

section \<open>Instants\<close>

type_synonym Instant = gotime

definition NewInstant :: "gotime \<Rightarrow> goerr + Instant" where
  "NewInstant value = (if IsZero value then Inl (Errorf ''timestamp is zero'') else Inr (UTC value))"

text \<open>\<open>MustInstant\<close> panics on the zero time: the result \<open>None\<close>.\<close>

definition MustInstant :: "gotime \<Rightarrow> Instant option" where
  "MustInstant value = (case NewInstant value of Inl _ \<Rightarrow> None | Inr instant \<Rightarrow> Some instant)"

definition Instant_Validate :: "Instant \<Rightarrow> goerr option" where
  [validate_defs]: "Instant_Validate i =
     first_error [require (\<not> IsZero i) (Errorf ''timestamp is zero''),
       require (utc i) (Errorf ''timestamp must be normalized to UTC'')]"

section \<open>Event intervals\<close>

datatype IntervalBounds =
    BoundsClosedOpen
  | BoundsClosed
  | BoundsOpen
  | BoundsOpenClosed
  | OtherIntervalBounds string

primrec IntervalBounds_text :: "IntervalBounds \<Rightarrow> string" where
  "IntervalBounds_text BoundsClosedOpen = ''[)''"
| "IntervalBounds_text BoundsClosed = ''[]''"
| "IntervalBounds_text BoundsOpen = ''()''"
| "IntervalBounds_text BoundsOpenClosed = ''(]''"
| "IntervalBounds_text (OtherIntervalBounds s) = s"

definition IntervalBounds_values :: "IntervalBounds list" where
  "IntervalBounds_values =
    [BoundsClosedOpen, BoundsClosed, BoundsOpen,
     BoundsOpenClosed]"

definition IntervalBounds_of :: "string \<Rightarrow> IntervalBounds" where
  "IntervalBounds_of s = enum_of IntervalBounds_text IntervalBounds_values OtherIntervalBounds s"

definition IntervalBounds_Valid :: "IntervalBounds \<Rightarrow> bool" where
  "IntervalBounds_Valid s \<longleftrightarrow> s = BoundsClosedOpen \<or> s = BoundsClosed \<or> s = BoundsOpen \<or> s = BoundsOpenClosed"

definition IntervalBounds_UnmarshalJSON :: "json option \<Rightarrow> goerr + IntervalBounds" where
  "IntervalBounds_UnmarshalJSON data =
     map_sum id IntervalBounds_of (unmarshalStringEnum data (\<lambda>value. IntervalBounds_Valid (IntervalBounds_of value)) ''interval bounds'')"

lemmas IntervalBounds_defs [enum_defs] = IntervalBounds_values_def IntervalBounds_of_def IntervalBounds_Valid_def

interpretation IntervalBounds_enum: string_enum IntervalBounds_text IntervalBounds_of IntervalBounds_Valid IntervalBounds_values
  by (rule string_enumI[where other = OtherIntervalBounds]) (auto simp: enum_defs)

datatype SourcePrecision =
    PrecisionSecond
  | PrecisionMinute
  | PrecisionHour
  | PrecisionDay
  | PrecisionUnknown
  | OtherSourcePrecision string

primrec SourcePrecision_text :: "SourcePrecision \<Rightarrow> string" where
  "SourcePrecision_text PrecisionSecond = ''second''"
| "SourcePrecision_text PrecisionMinute = ''minute''"
| "SourcePrecision_text PrecisionHour = ''hour''"
| "SourcePrecision_text PrecisionDay = ''day''"
| "SourcePrecision_text PrecisionUnknown = ''unknown''"
| "SourcePrecision_text (OtherSourcePrecision s) = s"

definition SourcePrecision_values :: "SourcePrecision list" where
  "SourcePrecision_values =
    [PrecisionSecond, PrecisionMinute, PrecisionHour,
     PrecisionDay, PrecisionUnknown]"

definition SourcePrecision_of :: "string \<Rightarrow> SourcePrecision" where
  "SourcePrecision_of s = enum_of SourcePrecision_text SourcePrecision_values OtherSourcePrecision s"

definition SourcePrecision_Valid :: "SourcePrecision \<Rightarrow> bool" where
  "SourcePrecision_Valid s \<longleftrightarrow> s = PrecisionSecond \<or> s = PrecisionMinute \<or> s = PrecisionHour \<or> s = PrecisionDay \<or> s = PrecisionUnknown"

definition SourcePrecision_UnmarshalJSON :: "json option \<Rightarrow> goerr + SourcePrecision" where
  "SourcePrecision_UnmarshalJSON data =
     map_sum id SourcePrecision_of (unmarshalStringEnum data (\<lambda>value. SourcePrecision_Valid (SourcePrecision_of value)) ''source precision'')"

lemmas SourcePrecision_defs [enum_defs] = SourcePrecision_values_def SourcePrecision_of_def SourcePrecision_Valid_def

interpretation SourcePrecision_enum: string_enum SourcePrecision_text SourcePrecision_of SourcePrecision_Valid SourcePrecision_values
  by (rule string_enumI[where other = OtherSourcePrecision]) (auto simp: enum_defs)

datatype TimeApproximation =
    ApproximationExact
  | ApproximationSourceRounded
  | ApproximationConservativeExpanded
  | ApproximationUnknown
  | OtherTimeApproximation string

primrec TimeApproximation_text :: "TimeApproximation \<Rightarrow> string" where
  "TimeApproximation_text ApproximationExact = ''exact''"
| "TimeApproximation_text ApproximationSourceRounded = ''source-rounded''"
| "TimeApproximation_text ApproximationConservativeExpanded = ''conservative-expanded''"
| "TimeApproximation_text ApproximationUnknown = ''unknown''"
| "TimeApproximation_text (OtherTimeApproximation s) = s"

definition TimeApproximation_values :: "TimeApproximation list" where
  "TimeApproximation_values =
    [ApproximationExact, ApproximationSourceRounded, ApproximationConservativeExpanded,
     ApproximationUnknown]"

definition TimeApproximation_of :: "string \<Rightarrow> TimeApproximation" where
  "TimeApproximation_of s = enum_of TimeApproximation_text TimeApproximation_values OtherTimeApproximation s"

definition TimeApproximation_Valid :: "TimeApproximation \<Rightarrow> bool" where
  "TimeApproximation_Valid s \<longleftrightarrow> s = ApproximationExact \<or> s = ApproximationSourceRounded \<or> s = ApproximationConservativeExpanded \<or> s = ApproximationUnknown"

definition TimeApproximation_UnmarshalJSON :: "json option \<Rightarrow> goerr + TimeApproximation" where
  "TimeApproximation_UnmarshalJSON data =
     map_sum id TimeApproximation_of (unmarshalStringEnum data (\<lambda>value. TimeApproximation_Valid (TimeApproximation_of value)) ''time approximation'')"

lemmas TimeApproximation_defs [enum_defs] = TimeApproximation_values_def TimeApproximation_of_def TimeApproximation_Valid_def

interpretation TimeApproximation_enum: string_enum TimeApproximation_text TimeApproximation_of TimeApproximation_Valid TimeApproximation_values
  by (rule string_enumI[where other = OtherTimeApproximation]) (auto simp: enum_defs)

datatype EventTimeBasis =
    TimeBasisAPIField
  | TimeBasisLogTimestamp
  | TimeBasisDefinitionCommit
  | TimeBasisProxyInterval
  | TimeBasisUnknown
  | OtherEventTimeBasis string

primrec EventTimeBasis_text :: "EventTimeBasis \<Rightarrow> string" where
  "EventTimeBasis_text TimeBasisAPIField = ''api_field''"
| "EventTimeBasis_text TimeBasisLogTimestamp = ''log_timestamp''"
| "EventTimeBasis_text TimeBasisDefinitionCommit = ''definition_commit''"
| "EventTimeBasis_text TimeBasisProxyInterval = ''proxy_interval''"
| "EventTimeBasis_text TimeBasisUnknown = ''unknown''"
| "EventTimeBasis_text (OtherEventTimeBasis s) = s"

definition EventTimeBasis_values :: "EventTimeBasis list" where
  "EventTimeBasis_values =
    [TimeBasisAPIField, TimeBasisLogTimestamp, TimeBasisDefinitionCommit,
     TimeBasisProxyInterval, TimeBasisUnknown]"

definition EventTimeBasis_of :: "string \<Rightarrow> EventTimeBasis" where
  "EventTimeBasis_of s = enum_of EventTimeBasis_text EventTimeBasis_values OtherEventTimeBasis s"

definition EventTimeBasis_Valid :: "EventTimeBasis \<Rightarrow> bool" where
  "EventTimeBasis_Valid s \<longleftrightarrow> s = TimeBasisAPIField \<or> s = TimeBasisLogTimestamp \<or> s = TimeBasisDefinitionCommit \<or> s = TimeBasisProxyInterval \<or> s = TimeBasisUnknown"

definition EventTimeBasis_UnmarshalJSON :: "json option \<Rightarrow> goerr + EventTimeBasis" where
  "EventTimeBasis_UnmarshalJSON data =
     map_sum id EventTimeBasis_of (unmarshalStringEnum data (\<lambda>value. EventTimeBasis_Valid (EventTimeBasis_of value)) ''event-time basis'')"

lemmas EventTimeBasis_defs [enum_defs] = EventTimeBasis_values_def EventTimeBasis_of_def EventTimeBasis_Valid_def

interpretation EventTimeBasis_enum: string_enum EventTimeBasis_text EventTimeBasis_of EventTimeBasis_Valid EventTimeBasis_values
  by (rule string_enumI[where other = OtherEventTimeBasis]) (auto simp: enum_defs)

record EventInterval =
  ei_Start :: "Instant option"
  ei_End :: "Instant option"
  ei_Bounds :: "IntervalBounds option"
  ei_Precision :: SourcePrecision
  ei_Approximation :: TimeApproximation
  ei_Basis :: EventTimeBasis

definition EventInterval_Validate :: "EventInterval \<Rightarrow> goerr option" where
  [validate_defs]: "EventInterval_Validate i =
     first_error
      [require (SourcePrecision_Valid (ei_Precision i)) (Errorf ''invalid event-time precision''),
       require (TimeApproximation_Valid (ei_Approximation i)) (Errorf ''invalid event-time approximation''),
       require (EventTimeBasis_Valid (ei_Basis i)) (Errorf ''invalid event-time basis''),
       (case (ei_Start i, ei_End i) of
          (None, None) \<Rightarrow>
            first_error
             [require (ei_Bounds i = None) (Errorf ''unknown event time cannot have interval bounds''),
              require (ei_Precision i = PrecisionUnknown \<and> ei_Approximation i = ApproximationUnknown \<and>
                       ei_Basis i = TimeBasisUnknown)
                (Errorf ''missing event time must explicitly use unknown precision, approximation, and basis'')]
        | (None, Some _) \<Rightarrow> Some (Errorf ''event-time end requires a start'')
        | (Some start, None) \<Rightarrow>
            first_error
             [wrap_error ''event-time start'' (Instant_Validate start),
              require (ei_Bounds i = None) (Errorf ''an event instant cannot have range bounds'')]
        | (Some start, Some finish) \<Rightarrow>
            first_error
             [wrap_error ''event-time start'' (Instant_Validate start),
              wrap_error ''event-time end'' (Instant_Validate finish),
              require (case ei_Bounds i of None \<Rightarrow> False | Some b \<Rightarrow> IntervalBounds_Valid b)
                (Errorf ''event-time range requires valid explicit bounds''),
              require (\<not> Before finish start) (Errorf ''event-time end precedes start''),
              require (\<not> (EqualTime finish start \<and> ei_Bounds i \<noteq> Some BoundsClosed))
                (Errorf ''zero-width event interval must use closed bounds'')])]"

section \<open>Collection windows\<close>

record CollectionWindow =
  cw_StartedAt :: Instant
  cw_EndedAt :: Instant

definition CollectionWindow_Validate :: "CollectionWindow \<Rightarrow> goerr option" where
  [validate_defs]: "CollectionWindow_Validate w =
     first_error
      [wrap_error ''collection start'' (Instant_Validate (cw_StartedAt w)),
       wrap_error ''collection end'' (Instant_Validate (cw_EndedAt w)),
       require (\<not> Before (cw_EndedAt w) (cw_StartedAt w)) (Errorf ''collection end precedes start'')]"

section \<open>Statements\<close>

text \<open>The three shapes of event time: unknown, an instant, a non-empty range.\<close>

definition unknown_event_time :: "EventInterval \<Rightarrow> bool" where
  "unknown_event_time i \<longleftrightarrow>
     i = \<lparr>ei_Start = None, ei_End = None, ei_Bounds = None, ei_Precision = PrecisionUnknown,
          ei_Approximation = ApproximationUnknown, ei_Basis = TimeBasisUnknown\<rparr>"

definition normalized :: "Instant \<Rightarrow> bool" where
  "normalized t \<longleftrightarrow> ns t \<noteq> 0 \<and> utc t"

lemma Instant_Validate_iff [simp]: "Instant_Validate t = None \<longleftrightarrow> normalized t"
  by (simp add: Instant_Validate_def normalized_def IsZero_def)

text \<open>
  An accepted event interval has exactly one of three shapes: the wholly
  unknown time, with every field unknown; a single normalized instant without
  bounds; or a range of normalized instants with valid bounds whose end comes
  after its start, or equals it under closed bounds.
\<close>

theorem event_interval_shapes:
  "EventInterval_Validate i = None \<longleftrightarrow>
     SourcePrecision_Valid (ei_Precision i) \<and> TimeApproximation_Valid (ei_Approximation i) \<and>
     EventTimeBasis_Valid (ei_Basis i) \<and>
     (unknown_event_time i \<or>
      (\<exists>t. ei_Start i = Some t \<and> normalized t \<and> ei_End i = None \<and> ei_Bounds i = None) \<or>
      (\<exists>t u b. ei_Start i = Some t \<and> ei_End i = Some u \<and> ei_Bounds i = Some b \<and> normalized t \<and>
         normalized u \<and> IntervalBounds_Valid b \<and> (ns t < ns u \<or> ns t = ns u \<and> b = BoundsClosed)))"
  by (cases i)
     (auto simp: EventInterval_Validate_def unknown_event_time_def time_defs split: option.splits)

lemma NewInstant_normalized: "NewInstant t = Inr i \<longleftrightarrow> ns t \<noteq> 0 \<and> i = UTC t"
  by (auto simp: NewInstant_def IsZero_def)

lemma NewInstant_validates: "NewInstant t = Inr i \<Longrightarrow> Instant_Validate i = None"
  by (auto simp: NewInstant_normalized normalized_def)

end
