(* ===== verification/Model_Coverage.thy ===== *)
theory Model_Coverage
  imports Model_Ids Model_Time
begin

text \<open>
  \<open>internal/model/coverage.go\<close>: coverage units, their assessments and the
  reconciliation that decides whether a negative conclusion is allowed, with the
  canonical sorting of identifier lists and the text checks of \<open>finding.go\<close> that
  every record uses.  A Go map that is only filled, looked up and counted is an
  association list; the counters are 64-bit words.
\<close>

section \<open>Text checks\<close>

definition machine_rune :: "nat \<Rightarrow> bool" where
  "machine_rune c \<longleftrightarrow>
     (0x61 \<le> c \<and> c \<le> 0x7A) \<or> (0x41 \<le> c \<and> c \<le> 0x5A) \<or> (0x30 \<le> c \<and> c \<le> 0x39) \<or>
     c = 0x5F \<or> c = 0x2D \<or> c = 0x2E \<or> c = 0x3A \<or> c = 0x2F"

definition validMachineName :: "string \<Rightarrow> nat \<Rightarrow> bool" where
  "validMachineName value limit \<longleftrightarrow>
     \<not> (value = [] \<or> length value > limit) \<and> list_all (\<lambda>(char, _). machine_rune char) (runes value)"

definition validateBoundedText :: "string \<Rightarrow> nat \<Rightarrow> string \<Rightarrow> goerr option" where
  [validate_defs]: "validateBoundedText value limit label =
     require (\<not> (length value > limit \<or> \<not> ValidUTF8 value \<or> CHR 0x00 \<in> set value))
       (Errorf (label @ '' must be bounded UTF-8 without NUL''))"

section \<open>Canonical identifier lists\<close>

primrec sorted_unique_from ::
    "('a::linorder \<Rightarrow> goerr option) \<Rightarrow> goerr \<Rightarrow> 'a option \<Rightarrow> 'a list \<Rightarrow> goerr option" where
  "sorted_unique_from validate e prev [] = None"
| "sorted_unique_from validate e prev (v # vs) =
     (case validate v of
        Some x \<Rightarrow> Some x
      | None \<Rightarrow>
          if (case prev of None \<Rightarrow> False | Some p \<Rightarrow> v \<le> p) then Some e
          else sorted_unique_from validate e (Some v) vs)"

definition validateSortedUniqueEvidenceIDs :: "EvidenceID list \<Rightarrow> goerr option" where
  "validateSortedUniqueEvidenceIDs ids =
     sorted_unique_from EvidenceID_Validate (Errorf ''evidence IDs must be strictly bytewise sorted and unique'') None ids"

definition validateSortedUniqueCoverageAssessmentIDs :: "CoverageAssessmentID list \<Rightarrow> goerr option" where
  "validateSortedUniqueCoverageAssessmentIDs ids =
     sorted_unique_from CoverageAssessmentID_Validate
       (Errorf ''coverage assessment IDs must be strictly bytewise sorted and unique'') None ids"

definition deduplicateEvidenceIDs :: "EvidenceID list \<Rightarrow> EvidenceID list" where
  "deduplicateEvidenceIDs ids = compact ids"

definition SortEvidenceIDs :: "EvidenceID list \<Rightarrow> EvidenceID list" where
  "SortEvidenceIDs ids = deduplicateEvidenceIDs (sort ids)"

definition SortCoverageAssessmentIDs :: "CoverageAssessmentID list \<Rightarrow> CoverageAssessmentID list" where
  "SortCoverageAssessmentIDs ids = compact (sort ids)"

lemma sorted_unique_from_None:
  "sorted_unique_from validate e prev vs = None \<longleftrightarrow>
     (\<forall>v \<in> set vs. validate v = None) \<and> strictly_sorted (case prev of None \<Rightarrow> vs | Some p \<Rightarrow> p # vs)"
proof (induction vs arbitrary: prev)
  case (Cons v vs)
  show ?case
    by (cases prev) (auto simp: Cons.IH split: option.splits)
qed (simp split: option.split)

text \<open>
  The contract of a canonical list: sorting gives the one strictly increasing
  list of the same elements, and the check accepts exactly valid lists of that
  form.
\<close>

locale canonical_list =
  fixes canon :: "'a::linorder list \<Rightarrow> 'a list" and validate :: "'a \<Rightarrow> goerr option"
    and check :: "'a list \<Rightarrow> goerr option"
  assumes set_canon: "set (canon xs) = set xs"
    and sorted_canon: "strictly_sorted (canon xs)"
    and check_iff: "check xs = None \<longleftrightarrow> (\<forall>x \<in> set xs. validate x = None) \<and> strictly_sorted xs"
begin

lemma canon_eq_iff: "canon xs = canon ys \<longleftrightarrow> set xs = set ys"
  using strictly_sorted_set_eq sorted_canon set_canon by metis

lemma canon_fixed: "strictly_sorted xs \<Longrightarrow> canon xs = xs"
  using strictly_sorted_set_eq sorted_canon set_canon by blast

lemma canon_idem: "canon (canon xs) = canon xs"
  by (simp add: canon_fixed sorted_canon)

lemma canon_accepted: "check (canon xs) = None \<longleftrightarrow> (\<forall>x \<in> set xs. validate x = None)"
  by (simp add: check_iff set_canon sorted_canon)

lemma accepted_canonical: "check xs = None \<Longrightarrow> canon xs = xs"
  by (simp add: check_iff canon_fixed)

end

interpretation evidence_list: canonical_list SortEvidenceIDs EvidenceID_Validate validateSortedUniqueEvidenceIDs
  by unfold_locales
    (simp_all add: SortEvidenceIDs_def deduplicateEvidenceIDs_def strictly_sorted_compact_sort
      validateSortedUniqueEvidenceIDs_def sorted_unique_from_None)

interpretation coverage_list: canonical_list SortCoverageAssessmentIDs CoverageAssessmentID_Validate
    validateSortedUniqueCoverageAssessmentIDs
  by unfold_locales
    (simp_all add: SortCoverageAssessmentIDs_def strictly_sorted_compact_sort
      validateSortedUniqueCoverageAssessmentIDs_def sorted_unique_from_None)

section \<open>Coverage records\<close>

record CoverageScope =
  cs_RepositoryID :: "RepositoryID option"
  cs_WorkflowPath :: "WorkflowPath option"
  cs_RunID :: "WorkflowRunID option"
  cs_RunAttempt :: "RunAttempt option"
  cs_JobID :: "JobID option"
  cs_StepKey :: string

definition CoverageScope_Validate :: "CoverageScope \<Rightarrow> goerr option" where
  [validate_defs]: "CoverageScope_Validate s =
     first_error
      [validate_pointer RepositoryID_Validate (cs_RepositoryID s),
       validate_pointer WorkflowPath_Validate (cs_WorkflowPath s),
       validate_pointer (\<lambda>run. first_error
          [require (cs_RepositoryID s \<noteq> None) (Errorf ''coverage run scope requires repository ID''),
           WorkflowRunID_Validate run]) (cs_RunID s),
       validate_pointer (\<lambda>attempt. first_error
          [require (cs_RunID s \<noteq> None) (Errorf ''coverage attempt scope requires run ID''),
           RunAttempt_Validate attempt]) (cs_RunAttempt s),
       validate_pointer (\<lambda>job. first_error
          [require (cs_RunAttempt s \<noteq> None) (Errorf ''coverage job scope requires run attempt''),
           JobID_Validate job]) (cs_JobID s),
       require (\<not> (cs_StepKey s \<noteq> [] \<and> (cs_JobID s = None \<or> \<not> validBoundedIdentityText (cs_StepKey s) 1024)))
         (Errorf ''coverage step key requires a job and bounded identity'')]"

record CoverageUnit =
  cu_ID :: CoverageUnitID
  cu_Kind :: CoverageKind
  cu_Scope :: CoverageScope
  cu_LogicalKey :: string
  cu_RequiredForNegative :: bool

definition CoverageUnit_Validate :: "CoverageUnit \<Rightarrow> goerr option" where
  [validate_defs]: "CoverageUnit_Validate u =
     first_error
      [CoverageUnitID_Validate (cu_ID u),
       require (CoverageKind_Valid (cu_Kind u)) (Errorf ''invalid coverage kind''),
       wrap_error ''coverage scope'' (CoverageScope_Validate (cu_Scope u)),
       require (validBoundedIdentityText (cu_LogicalKey u) 2048) (Errorf ''coverage logical key is invalid'')]"

record CoverageGapDetail =
  gd_Reason :: GapReason
  gd_Retryable :: bool
  gd_Material :: bool
  gd_PermissionRelated :: "bool option"
  gd_SanitizedMessage :: string

definition CoverageGapDetail_Validate :: "CoverageGapDetail \<Rightarrow> goerr option" where
  [validate_defs]: "CoverageGapDetail_Validate g =
     first_error
      [require (GapReason_Valid (gd_Reason g)) (Errorf ''invalid gap reason''),
       require (\<not> (length (gd_SanitizedMessage g) > 2048 \<or> \<not> ValidUTF8 (gd_SanitizedMessage g) \<or>
                   CHR 0x00 \<in> set (gd_SanitizedMessage g)))
         (Errorf ''gap message is not bounded UTF-8'')]"

record CoverageAssessment =
  ca_ID :: CoverageAssessmentID
  ca_UnitID :: CoverageUnitID
  ca_Status :: CoverageStatus
  ca_ExpectedCount :: "64 word option"
  ca_ObservedCount :: "64 word"
  ca_Gap :: "CoverageGapDetail option"
  ca_EvidenceIDs :: "EvidenceID list"

definition CoverageAssessment_Validate :: "CoverageAssessment \<Rightarrow> goerr option" where
  [validate_defs]: "CoverageAssessment_Validate a =
     first_error
      [CoverageAssessmentID_Validate (ca_ID a),
       CoverageUnitID_Validate (ca_UnitID a),
       require (CoverageStatus_Valid (ca_Status a)) (Errorf ''invalid coverage status''),
       require (\<not> (\<exists>e \<in> set_option (ca_ExpectedCount a). ca_ObservedCount a > e \<and> ca_Status a \<noteq> CoverageGap))
         (Errorf ''coverage observed count exceeds expected count''),
       (if ca_Status a = CoverageGap then
          (case ca_Gap a of
             None \<Rightarrow> Some (Errorf ''gap coverage requires gap detail'')
           | Some g \<Rightarrow> CoverageGapDetail_Validate g)
        else require (ca_Gap a = None) (Errorf ''non-gap coverage cannot carry gap detail'')),
       validateSortedUniqueEvidenceIDs (ca_EvidenceIDs a)]"

record CoverageObservation =
  co_ID :: CoverageObservationID
  co_AssessmentID :: CoverageAssessmentID
  co_CollectionSessionID :: CollectionSessionID
  co_ObservedAt :: Instant

definition CoverageObservation_Validate :: "CoverageObservation \<Rightarrow> goerr option" where
  [validate_defs]: "CoverageObservation_Validate ob =
     first_error
      [CoverageObservationID_Validate (co_ID ob), CoverageAssessmentID_Validate (co_AssessmentID ob),
       CollectionSessionID_Validate (co_CollectionSessionID ob), Instant_Validate (co_ObservedAt ob)]"

section \<open>Reconciliation\<close>

record CoverageSummary =
  sum_Expected :: "64 word"
  sum_Collected :: "64 word"
  sum_NotApplicable :: "64 word"
  sum_Gaps :: "64 word"
  sum_Open :: "64 word"
  sum_MaterialGaps :: "64 word"

definition empty_summary :: CoverageSummary where
  "empty_summary = \<lparr>sum_Expected = 0, sum_Collected = 0, sum_NotApplicable = 0, sum_Gaps = 0,
     sum_Open = 0, sum_MaterialGaps = 0\<rparr>"

definition Closed :: "CoverageSummary \<Rightarrow> bool" where
  "Closed s \<longleftrightarrow> sum_Open s = 0 \<and> sum_Expected s = sum_Collected s + sum_NotApplicable s + sum_Gaps s"

definition AllowsNoMatchConfirmed :: "CoverageSummary \<Rightarrow> bool" where
  "AllowsNoMatchConfirmed s \<longleftrightarrow> Closed s \<and> sum_MaterialGaps s = 0"

text \<open>
  Filling a map by key, with the validation of each element and the refusal of a
  repeated key: the loops over units and assessments differ only in their errors.
\<close>

primrec index_by ::
    "('v \<Rightarrow> goerr option) \<Rightarrow> ('v \<Rightarrow> 'k) \<Rightarrow> ('v \<Rightarrow> goerr) \<Rightarrow> 'v list \<Rightarrow> ('k \<times> 'v) list \<Rightarrow>
     goerr + ('k \<times> 'v) list" where
  "index_by validate key duplicate [] m = Inr m"
| "index_by validate key duplicate (v # vs) m =
     (case validate v of
        Some e \<Rightarrow> Inl e
      | None \<Rightarrow>
          if map_of m (key v) \<noteq> None then Inl (duplicate v)
          else index_by validate key duplicate vs (m @ [(key v, v)]))"

definition count_status :: "CoverageUnit \<Rightarrow> CoverageAssessment \<Rightarrow> CoverageSummary \<Rightarrow> CoverageSummary" where
  "count_status u a s =
     (case ca_Status a of
        CoverageExpected \<Rightarrow> s\<lparr>sum_Open := sum_Open s + 1\<rparr>
      | CoverageCollected \<Rightarrow> s\<lparr>sum_Collected := sum_Collected s + 1\<rparr>
      | CoverageNotApplicable \<Rightarrow> s\<lparr>sum_NotApplicable := sum_NotApplicable s + 1\<rparr>
      | CoverageGap \<Rightarrow>
          (let s' = s\<lparr>sum_Gaps := sum_Gaps s + 1\<rparr>
           in if cu_RequiredForNegative u \<and> (\<exists>g \<in> set_option (ca_Gap a). gd_Material g)
              then s'\<lparr>sum_MaterialGaps := sum_MaterialGaps s' + 1\<rparr> else s')
      | OtherCoverageStatus t \<Rightarrow> s)"

fun reconcile_assessments ::
    "(CoverageUnitID \<times> CoverageUnit) list \<Rightarrow> CoverageAssessment list \<Rightarrow>
     (CoverageUnitID \<times> CoverageAssessment) list \<Rightarrow> CoverageAssessmentID list \<Rightarrow> CoverageSummary \<Rightarrow>
     CoverageSummary \<times> (goerr + (CoverageUnitID \<times> CoverageAssessment) list)" where
  "reconcile_assessments units [] byUnit ids s = (s, Inr byUnit)"
| "reconcile_assessments units (a # as) byUnit ids s =
     (case CoverageAssessment_Validate a of
        Some e \<Rightarrow> (s, Inl (Wrapf ''coverage assessment'' e))
      | None \<Rightarrow>
          case map_of units (ca_UnitID a) of
            None \<Rightarrow> (s, Inl (Errorf (''assessment '' @ CoverageAssessmentID_string (ca_ID a) @
                       '' references unknown coverage unit '' @ CoverageUnitID_string (ca_UnitID a))))
          | Some u \<Rightarrow>
              if map_of byUnit (ca_UnitID a) \<noteq> None then
                (s, Inl (Errorf (''coverage unit '' @ CoverageUnitID_string (ca_UnitID a) @ '' has multiple assessments'')))
              else if ca_ID a \<in> set ids then
                (s, Inl (Errorf (''coverage assessment '' @ CoverageAssessmentID_string (ca_ID a) @ '' counted twice'')))
              else reconcile_assessments units as ((ca_UnitID a, a) # byUnit) (ca_ID a # ids) (count_status u a s))"

primrec count_unassessed ::
    "(CoverageUnitID \<times> CoverageAssessment) list \<Rightarrow> CoverageUnitID list \<Rightarrow> CoverageSummary \<Rightarrow> CoverageSummary" where
  "count_unassessed byUnit [] s = s"
| "count_unassessed byUnit (i # is) s =
     count_unassessed byUnit is (if map_of byUnit i = None then s\<lparr>sum_Open := sum_Open s + 1\<rparr> else s)"

definition ReconcileCoverage ::
    "CoverageUnit list \<Rightarrow> CoverageAssessment list \<Rightarrow> bool \<Rightarrow> CoverageSummary \<times> goerr option" where
  "ReconcileCoverage units assessments requireTerminal =
     (case index_by (\<lambda>u. wrap_error ''coverage unit'' (CoverageUnit_Validate u)) cu_ID
             (\<lambda>u. Errorf (''coverage unit '' @ CoverageUnitID_string (cu_ID u) @ '' counted twice'')) units [] of
        Inl e \<Rightarrow> (empty_summary, Some e)
      | Inr unitByID \<Rightarrow>
          case reconcile_assessments unitByID assessments [] []
                 (empty_summary\<lparr>sum_Expected := of_nat (length unitByID)\<rparr>) of
            (s, Inl e) \<Rightarrow> (s, Some e)
          | (s, Inr byUnit) \<Rightarrow>
              (let t = count_unassessed byUnit (map fst unitByID) s
               in if requireTerminal \<and> sum_Open t \<noteq> 0 then
                    (t, Some (Errorf (''coverage has '' @ show_nat (unat (sum_Open t)) @ '' open expected units'')))
                  else if sum_Expected t \<noteq> sum_Collected t + sum_NotApplicable t + sum_Gaps t + sum_Open t then
                    (t, Some (Errorf ''coverage reconciliation invariant failed''))
                  else (t, None)))"

lemma index_by_Inr:
  "index_by validate key duplicate vs m = Inr m' \<longleftrightarrow>
     (\<forall>v \<in> set vs. validate v = None) \<and> distinct (map key vs) \<and>
     (\<forall>v \<in> set vs. key v \<notin> fst ` set m) \<and> m' = m @ map (\<lambda>v. (key v, v)) vs"
proof (induction vs arbitrary: m)
  case (Cons v vs)
  have "map_of m (key v) = None \<longleftrightarrow> key v \<notin> fst ` set m" by (rule map_of_eq_None_iff)
  then show ?case by (auto simp: Cons.IH split: option.splits) (metis imageI)+
qed auto

definition material_gap :: "(CoverageUnitID \<times> CoverageUnit) list \<Rightarrow> CoverageAssessment \<Rightarrow> bool" where
  "material_gap units a \<longleftrightarrow> ca_Status a = CoverageGap \<and>
     (\<exists>u \<in> set_option (map_of units (ca_UnitID a)). cu_RequiredForNegative u) \<and>
     (\<exists>g \<in> set_option (ca_Gap a). gd_Material g)"

definition tally :: "(CoverageAssessment \<Rightarrow> bool) \<Rightarrow> CoverageAssessment list \<Rightarrow> 64 word" where
  "tally P as = of_nat (length (filter P as))"

lemma tally_simps [simp]: "tally P [] = 0" "tally P (a # as) = (if P a then 1 else 0) + tally P as"
  by (simp_all add: tally_def)

abbreviation has_status :: "CoverageStatus \<Rightarrow> CoverageAssessment \<Rightarrow> bool" where
  "has_status st a \<equiv> ca_Status a = st"

lemma reconcile_assessments_Inr:
  assumes "reconcile_assessments units as byUnit ids s = (t, Inr byUnit')"
  shows "byUnit' = rev (map (\<lambda>a. (ca_UnitID a, a)) as) @ byUnit"
    and "distinct (map ca_UnitID as)" and "\<forall>a \<in> set as. ca_UnitID a \<in> fst ` set units \<and> ca_UnitID a \<notin> fst ` set byUnit"
    and "\<forall>a \<in> set as. CoverageAssessment_Validate a = None"
    and "sum_Expected t = sum_Expected s" and "sum_Collected t = sum_Collected s + tally (has_status CoverageCollected) as"
    and "sum_NotApplicable t = sum_NotApplicable s + tally (has_status CoverageNotApplicable) as"
    and "sum_Gaps t = sum_Gaps s + tally (has_status CoverageGap) as"
    and "sum_Open t = sum_Open s + tally (has_status CoverageExpected) as"
    and "sum_MaterialGaps t = sum_MaterialGaps s + tally (material_gap units) as"
proof -
  have "byUnit' = rev (map (\<lambda>a. (ca_UnitID a, a)) as) @ byUnit \<and> distinct (map ca_UnitID as) \<and>
    (\<forall>a \<in> set as. ca_UnitID a \<in> fst ` set units \<and> ca_UnitID a \<notin> fst ` set byUnit) \<and>
    (\<forall>a \<in> set as. CoverageAssessment_Validate a = None) \<and>
    sum_Expected t = sum_Expected s \<and> sum_Collected t = sum_Collected s + tally (has_status CoverageCollected) as \<and>
    sum_NotApplicable t = sum_NotApplicable s + tally (has_status CoverageNotApplicable) as \<and>
    sum_Gaps t = sum_Gaps s + tally (has_status CoverageGap) as \<and>
    sum_Open t = sum_Open s + tally (has_status CoverageExpected) as \<and>
    sum_MaterialGaps t = sum_MaterialGaps s + tally (material_gap units) as"
    using assms
  proof (induction units as byUnit ids s rule: reconcile_assessments.induct)
    case (2 units a as byUnit ids s)
    from "2.prems" obtain u where u: "CoverageAssessment_Validate a = None" "map_of units (ca_UnitID a) = Some u"
        "map_of byUnit (ca_UnitID a) = None" "ca_ID a \<notin> set ids"
      and rest: "reconcile_assessments units as ((ca_UnitID a, a) # byUnit) (ca_ID a # ids) (count_status u a s) = (t, Inr byUnit')"
      by (auto split: option.splits if_splits)
    have IH: "byUnit' = rev (map (\<lambda>a. (ca_UnitID a, a)) as) @ (ca_UnitID a, a) # byUnit \<and> distinct (map ca_UnitID as) \<and>
      (\<forall>b \<in> set as. ca_UnitID b \<in> fst ` set units \<and> ca_UnitID b \<notin> fst ` set ((ca_UnitID a, a) # byUnit)) \<and>
      (\<forall>a \<in> set as. CoverageAssessment_Validate a = None) \<and>
      sum_Expected t = sum_Expected (count_status u a s) \<and>
      sum_Collected t = sum_Collected (count_status u a s) + tally (has_status CoverageCollected) as \<and>
      sum_NotApplicable t = sum_NotApplicable (count_status u a s) + tally (has_status CoverageNotApplicable) as \<and>
      sum_Gaps t = sum_Gaps (count_status u a s) + tally (has_status CoverageGap) as \<and>
      sum_Open t = sum_Open (count_status u a s) + tally (has_status CoverageExpected) as \<and>
      sum_MaterialGaps t = sum_MaterialGaps (count_status u a s) + tally (material_gap units) as"
      by (rule "2.IH"[OF u(1,2)]) (use u rest in auto)
    have "ca_UnitID a \<in> fst ` set units" using u(2) by (force dest: map_of_SomeD)
    moreover have "ca_UnitID a \<notin> fst ` set byUnit" using u(3) by (simp add: map_of_eq_None_iff)
    moreover have "material_gap units a \<longleftrightarrow> ca_Status a = CoverageGap \<and> cu_RequiredForNegative u \<and>
        (\<exists>g \<in> set_option (ca_Gap a). gd_Material g)"
      by (auto simp: material_gap_def u(2))
    ultimately show ?case using IH u(1)
      by (cases "ca_Status a") (auto simp: count_status_def Let_def)
  qed simp
  then show "byUnit' = rev (map (\<lambda>a. (ca_UnitID a, a)) as) @ byUnit"
    and "distinct (map ca_UnitID as)" and "\<forall>a \<in> set as. ca_UnitID a \<in> fst ` set units \<and> ca_UnitID a \<notin> fst ` set byUnit"
    and "\<forall>a \<in> set as. CoverageAssessment_Validate a = None"
    and "sum_Expected t = sum_Expected s" and "sum_Collected t = sum_Collected s + tally (has_status CoverageCollected) as"
    and "sum_NotApplicable t = sum_NotApplicable s + tally (has_status CoverageNotApplicable) as"
    and "sum_Gaps t = sum_Gaps s + tally (has_status CoverageGap) as"
    and "sum_Open t = sum_Open s + tally (has_status CoverageExpected) as"
    and "sum_MaterialGaps t = sum_MaterialGaps s + tally (material_gap units) as"
    by blast+
qed

lemma count_unassessed_eq:
  "count_unassessed byUnit is s =
     s\<lparr>sum_Open := sum_Open s + of_nat (length (filter (\<lambda>i. map_of byUnit i = None) is))\<rparr>"
  by (induction "is" arbitrary: s) (simp_all add: algebra_simps)

lemma reconcile_assessments_ok:
  "(\<exists>t b. reconcile_assessments units as byUnit ids s = (t, Inr b)) \<longleftrightarrow>
     (\<forall>a \<in> set as. CoverageAssessment_Validate a = None \<and> ca_UnitID a \<in> fst ` set units \<and>
        ca_UnitID a \<notin> fst ` set byUnit \<and> ca_ID a \<notin> set ids) \<and>
     distinct (map ca_UnitID as) \<and> distinct (map ca_ID as)"
proof (induction units as byUnit ids s rule: reconcile_assessments.induct)
  case (2 units a as byUnit ids s)
  have dom: "map_of units (ca_UnitID a) = None \<longleftrightarrow> ca_UnitID a \<notin> fst ` set units"
      "map_of byUnit (ca_UnitID a) = None \<longleftrightarrow> ca_UnitID a \<notin> fst ` set byUnit"
    by (simp_all add: map_of_eq_None_iff)
  show ?case
  proof (cases "CoverageAssessment_Validate a")
    case None
    show ?thesis
    proof (cases "map_of units (ca_UnitID a)")
      case None
      with \<open>CoverageAssessment_Validate a = None\<close> show ?thesis using dom by simp
    next
      case (Some u)
      have "ca_UnitID a \<in> fst ` set units" using Some dom(1) by fastforce
      then show ?thesis
        using "2.IH"[OF \<open>CoverageAssessment_Validate a = None\<close> Some] None Some dom(2)
        by auto (metis imageI)+
    qed
  qed simp
qed simp

lemma status_partition:
  assumes "\<forall>a \<in> set as. CoverageAssessment_Validate a = None"
  shows "length as = length (filter (has_status CoverageCollected) as) +
    length (filter (has_status CoverageNotApplicable) as) + length (filter (has_status CoverageGap) as) +
    length (filter (has_status CoverageExpected) as)"
  using assms
proof (induction as)
  case (Cons a as)
  have "CoverageStatus_Valid (ca_Status a)" using Cons.prems by (simp add: validate_defs)
  then have "ca_Status a \<in> {CoverageCollected, CoverageNotApplicable, CoverageGap, CoverageExpected}"
    by (auto simp: CoverageStatus_defs)
  with Cons show ?case by auto
qed simp

text \<open>Units without an assessment are the units that are not among the assessed ones.\<close>

lemma unassessed_length:
  assumes "distinct is" and "distinct js" and "set js \<subseteq> set is"
  shows "length (filter (\<lambda>i. i \<notin> set js) is) + length js = length is"
proof -
  have "length js = card (set js)" using assms(2) by (simp add: distinct_card)
  also have "set js = set (filter (\<lambda>i. i \<in> set js) is)" using assms(3) by auto
  also have "card \<dots> = length (filter (\<lambda>i. i \<in> set js) is)" using assms(1) by (simp add: distinct_card del: set_filter)
  finally show ?thesis using sum_length_filter_compl[of "\<lambda>i. i \<in> set js" "is"] by simp
qed

definition accepted_units :: "CoverageUnit list \<Rightarrow> bool" where
  "accepted_units units \<longleftrightarrow> (\<forall>u \<in> set units. CoverageUnit_Validate u = None) \<and> distinct (map cu_ID units)"

definition accepted_assessments :: "CoverageUnit list \<Rightarrow> CoverageAssessment list \<Rightarrow> bool" where
  "accepted_assessments units as \<longleftrightarrow>
     (\<forall>a \<in> set as. CoverageAssessment_Validate a = None \<and> ca_UnitID a \<in> cu_ID ` set units) \<and>
     distinct (map ca_UnitID as) \<and> distinct (map ca_ID as)"

definition unassessed :: "CoverageUnit list \<Rightarrow> CoverageAssessment list \<Rightarrow> CoverageUnit list" where
  "unassessed units as = filter (\<lambda>u. cu_ID u \<notin> ca_UnitID ` set as) units"

text \<open>The summary that the reconciliation of accepted records leaves, in closed form.\<close>

definition tallied :: "CoverageUnit list \<Rightarrow> CoverageAssessment list \<Rightarrow> CoverageSummary" where
  "tallied units as =
     \<lparr>sum_Expected = of_nat (length units), sum_Collected = tally (has_status CoverageCollected) as,
      sum_NotApplicable = tally (has_status CoverageNotApplicable) as, sum_Gaps = tally (has_status CoverageGap) as,
      sum_Open = tally (has_status CoverageExpected) as + of_nat (length (unassessed units as)),
      sum_MaterialGaps = tally (material_gap (map (\<lambda>u. (cu_ID u, u)) units)) as\<rparr>"

lemma tallied_balanced:
  assumes "accepted_units units" and "accepted_assessments units as"
  shows "length units = length (filter (has_status CoverageCollected) as) +
      length (filter (has_status CoverageNotApplicable) as) + length (filter (has_status CoverageGap) as) +
      (length (filter (has_status CoverageExpected) as) + length (unassessed units as))"
    and "sum_Expected (tallied units as) = sum_Collected (tallied units as) + sum_NotApplicable (tallied units as) +
      sum_Gaps (tallied units as) + sum_Open (tallied units as)"
proof -
  have "length (filter (\<lambda>i. i \<notin> set (map ca_UnitID as)) (map cu_ID units)) + length as = length units"
    using unassessed_length[of "map cu_ID units" "map ca_UnitID as"] assms
    by (auto simp: accepted_units_def accepted_assessments_def)
  then show *: "length units = length (filter (has_status CoverageCollected) as) +
      length (filter (has_status CoverageNotApplicable) as) + length (filter (has_status CoverageGap) as) +
      (length (filter (has_status CoverageExpected) as) + length (unassessed units as))"
    using status_partition[of as] assms(2) by (simp add: unassessed_def filter_map o_def accepted_assessments_def)
  show "sum_Expected (tallied units as) = sum_Collected (tallied units as) + sum_NotApplicable (tallied units as) +
      sum_Gaps (tallied units as) + sum_Open (tallied units as)"
    by (simp add: tallied_def tally_def * )
qed

lemma reconcile_accepted:
  assumes "accepted_units units" and "accepted_assessments units as"
  shows "ReconcileCoverage units as rt =
    (tallied units as,
     if rt \<and> sum_Open (tallied units as) \<noteq> 0
     then Some (Errorf (''coverage has '' @ show_nat (unat (sum_Open (tallied units as))) @ '' open expected units''))
     else None)"
proof -
  define m where "m = map (\<lambda>u. (cu_ID u, u)) units"
  let ?s = "empty_summary\<lparr>sum_Expected := of_nat (length m)\<rparr>"
  have idx: "index_by (\<lambda>u. wrap_error ''coverage unit'' (CoverageUnit_Validate u)) cu_ID
      (\<lambda>u. Errorf (''coverage unit '' @ CoverageUnitID_string (cu_ID u) @ '' counted twice'')) units [] = Inr m"
    using assms(1) by (simp add: index_by_Inr accepted_units_def m_def)
  have "fst ` set m = cu_ID ` set units" by (force simp: image_iff m_def)
  then obtain t b where rec: "reconcile_assessments m as [] [] ?s = (t, Inr b)"
    using assms(2) reconcile_assessments_ok[of m as "[]" "[]" ?s] by (auto simp: accepted_assessments_def)
  note r = reconcile_assessments_Inr[OF rec]
  have none: "map_of b i = None \<longleftrightarrow> i \<notin> ca_UnitID ` set as" for i
    by (simp add: r(1) map_of_eq_None_iff image_image)
  have cnt: "count_unassessed b (map fst m) t = tallied units as"
    by (rule CoverageSummary.equality)
       (simp_all add: count_unassessed_eq none r(5-10) empty_summary_def tallied_def unassessed_def filter_map o_def m_def)
  show ?thesis
    unfolding ReconcileCoverage_def idx sum.case rec prod.case cnt Let_def
    using tallied_balanced(2)[OF assms] by simp
qed

lemma reconcile_success:
  assumes "ReconcileCoverage units as rt = (s, None)"
  shows "accepted_units units" and "accepted_assessments units as"
proof -
  obtain m where idx: "index_by (\<lambda>u. wrap_error ''coverage unit'' (CoverageUnit_Validate u)) cu_ID
      (\<lambda>u. Errorf (''coverage unit '' @ CoverageUnitID_string (cu_ID u) @ '' counted twice'')) units [] = Inr m"
    using assms by (auto simp: ReconcileCoverage_def split: sum.splits)
  then show units: "accepted_units units" by (simp add: index_by_Inr accepted_units_def)
  have m: "m = map (\<lambda>u. (cu_ID u, u)) units" using idx by (simp add: index_by_Inr)
  obtain t b where "reconcile_assessments m as [] [] (empty_summary\<lparr>sum_Expected := of_nat (length m)\<rparr>) = (t, Inr b)"
    using assms unfolding ReconcileCoverage_def idx by (auto split: sum.splits prod.splits)
  then have "\<exists>t b. reconcile_assessments m as [] [] (empty_summary\<lparr>sum_Expected := of_nat (length m)\<rparr>) = (t, Inr b)"
    by blast
  moreover have "fst ` set m = cu_ID ` set units" by (force simp: m image_iff)
  ultimately show "accepted_assessments units as"
    by (auto simp: reconcile_assessments_ok accepted_assessments_def)
qed

section \<open>Properties\<close>

lemma unat_of_nat_le: "n \<le> m \<Longrightarrow> m < 2 ^ 64 \<Longrightarrow> unat (of_nat n :: 64 word) = n"
  by (simp add: unat_of_nat)

definition material_gap_of :: "CoverageUnit \<Rightarrow> CoverageAssessment \<Rightarrow> bool" where
  "material_gap_of u a \<longleftrightarrow> ca_Status a = CoverageGap \<and> cu_RequiredForNegative u \<and>
     (\<exists>g \<in> set_option (ca_Gap a). gd_Material g)"

lemma material_gap_index:
  assumes "accepted_units units" and "u \<in> set units" and "ca_UnitID a = cu_ID u"
  shows "material_gap (map (\<lambda>u. (cu_ID u, u)) units) a \<longleftrightarrow> material_gap_of u a"
proof -
  have "map_of (map (\<lambda>u. (cu_ID u, u)) units) (cu_ID u) = Some u"
    using assms(1,2) by (auto simp: accepted_units_def o_def intro!: map_of_is_SomeI image_eqI[of _ _ u])
  then show ?thesis using assms(3) by (auto simp: material_gap_def material_gap_of_def)
qed

text \<open>
  C32: a successful reconciliation counts exactly.  Every counter is the number of
  units or assessments it names, the four terminal and open counters add up to the
  number of units, an open unit is one without an assessment or with one that
  is still expected, and a material gap is a gap whose detail says so, of a unit that
  is required for a negative conclusion.
\<close>

theorem reconcile_counts:
  assumes "ReconcileCoverage units as rt = (s, None)" and "length units < 2 ^ 64"
  shows "unat (sum_Expected s) = length units \<and>
    unat (sum_Collected s) = length (filter (\<lambda>a. ca_Status a = CoverageCollected) as) \<and>
    unat (sum_NotApplicable s) = length (filter (\<lambda>a. ca_Status a = CoverageNotApplicable) as) \<and>
    unat (sum_Gaps s) = length (filter (\<lambda>a. ca_Status a = CoverageGap) as) \<and>
    unat (sum_Open s) = length (filter (\<lambda>a. ca_Status a = CoverageExpected) as) +
      length (filter (\<lambda>u. cu_ID u \<notin> ca_UnitID ` set as) units) \<and>
    unat (sum_Collected s) + unat (sum_NotApplicable s) + unat (sum_Gaps s) + unat (sum_Open s) = length units \<and>
    unat (sum_MaterialGaps s) = length (filter (\<lambda>a. ca_Status a = CoverageGap \<and>
      (\<exists>u \<in> set units. cu_ID u = ca_UnitID a \<and> cu_RequiredForNegative u) \<and>
      (\<exists>g \<in> set_option (ca_Gap a). gd_Material g)) as) \<and>
    unat (sum_MaterialGaps s) \<le> unat (sum_Gaps s)"
proof -
  note ok = reconcile_success[OF assms(1)]
  have s: "s = tallied units as" using assms(1) by (simp add: reconcile_accepted[OF ok] split: if_splits)
  note total = tallied_balanced(1)[OF ok]
  note small = unat_of_nat_le[OF _ assms(2)]
  have mat: "length (filter (material_gap ms) as) \<le> length (filter (has_status CoverageGap) as)" for ms
    by (induction as) (auto simp: material_gap_def)
  have counts: "unat (tally (has_status CoverageCollected) as) = length (filter (has_status CoverageCollected) as)"
    "unat (tally (has_status CoverageNotApplicable) as) = length (filter (has_status CoverageNotApplicable) as)"
    "unat (tally (has_status CoverageGap) as) = length (filter (has_status CoverageGap) as)"
    "unat (tally (material_gap ms) as) = length (filter (material_gap ms) as)" for ms
    unfolding tally_def using total mat[of ms] by (simp_all add: small)
  have opened: "tally (has_status CoverageExpected) as + of_nat (length (unassessed units as)) =
      (of_nat (length (filter (has_status CoverageExpected) as) + length (unassessed units as)) :: 64 word)"
    by (simp add: tally_def)
  have "unat (sum_Open s) = length (filter (has_status CoverageExpected) as) + length (unassessed units as)"
    unfolding s tallied_def CoverageSummary.simps opened by (rule small) (use total in simp)
  moreover have material: "filter (material_gap (map (\<lambda>u. (cu_ID u, u)) units)) as = filter (\<lambda>a. ca_Status a = CoverageGap \<and>
      (\<exists>u \<in> set units. cu_ID u = ca_UnitID a \<and> cu_RequiredForNegative u) \<and>
      (\<exists>g \<in> set_option (ca_Gap a). gd_Material g)) as"
  proof (rule filter_cong[OF refl])
    fix a assume "a \<in> set as"
    then obtain u where u: "u \<in> set units" "ca_UnitID a = cu_ID u" using ok(2) by (auto simp: accepted_assessments_def)
    moreover have "v = u" if "v \<in> set units" "cu_ID v = cu_ID u" for v
      using ok(1) u(1) that by (auto simp: accepted_units_def distinct_map inj_on_def)
    ultimately show "material_gap (map (\<lambda>u. (cu_ID u, u)) units) a = (ca_Status a = CoverageGap \<and>
        (\<exists>u \<in> set units. cu_ID u = ca_UnitID a \<and> cu_RequiredForNegative u) \<and> (\<exists>g \<in> set_option (ca_Gap a). gd_Material g))"
      unfolding material_gap_index[OF ok(1) u] material_gap_of_def by metis
  qed
  ultimately show ?thesis using counts total small[of "length units"] mat[of "map (\<lambda>u. (cu_ID u, u)) units", unfolded material]
    by (simp add: s tallied_def unassessed_def)
qed

lemma tally_zero:
  assumes "length as < 2 ^ 64"
  shows "tally P as = 0 \<longleftrightarrow> (\<forall>a \<in> set as. \<not> P a)"
proof -
  have "length (filter P as) < 2 ^ 64" using assms length_filter_le le_less_trans by blast
  then have "unat (tally P as) = length (filter P as)" unfolding tally_def by (simp add: unat_of_nat_le[OF order_refl])
  then have "tally P as = 0 \<longleftrightarrow> length (filter P as) = 0" by (metis unat_eq_zero)
  then show ?thesis by (simp add: filter_empty_conv)
qed

lemma terminal_iff: "CoverageAssessment_Validate a = None \<Longrightarrow> CoverageStatus_Terminal (ca_Status a) \<longleftrightarrow> ca_Status a \<noteq> CoverageExpected"
  by (cases "ca_Status a") (simp_all add: validate_defs CoverageStatus_defs CoverageStatus_Terminal_def)

lemma negative_conclusion_closed_iff:
  assumes "length units < 2 ^ 64"
  shows "(\<exists>s. ReconcileCoverage units as True = (s, None) \<and> AllowsNoMatchConfirmed s) \<longleftrightarrow>
    accepted_units units \<and> accepted_assessments units as \<and>
    (\<forall>u \<in> set units. \<exists>a \<in> set as. ca_UnitID a = cu_ID u \<and> CoverageStatus_Terminal (ca_Status a) \<and>
       \<not> material_gap_of u a)" (is "?ok \<longleftrightarrow> ?u \<and> ?a \<and> ?closed")
proof -
  have closed: "sum_Open (tallied units as) = 0 \<and> sum_MaterialGaps (tallied units as) = 0 \<longleftrightarrow> ?closed" if ok: ?u ?a
  proof -
    note total = tallied_balanced(1)[OF ok]
    have small: "length as < 2 ^ 64"
      using total assms status_partition[of as] ok(2) by (simp add: accepted_assessments_def)
    have op: "sum_Open (tallied units as) =
        of_nat (length (filter (has_status CoverageExpected) as) + length (unassessed units as))"
      by (simp add: tallied_def tally_def)
    have "unat (sum_Open (tallied units as)) =
        length (filter (has_status CoverageExpected) as) + length (unassessed units as)"
      unfolding op by (rule unat_of_nat_le[OF _ assms]) (use total in simp)
    then have "sum_Open (tallied units as) = 0 \<longleftrightarrow>
        length (filter (has_status CoverageExpected) as) + length (unassessed units as) = 0"
      by (metis unat_eq_zero)
    also have "\<dots> \<longleftrightarrow> (\<forall>a \<in> set as. ca_Status a \<noteq> CoverageExpected) \<and> (\<forall>u \<in> set units. cu_ID u \<in> ca_UnitID ` set as)"
      by (simp add: unassessed_def filter_empty_conv)
    finally have opened: "sum_Open (tallied units as) = 0 \<longleftrightarrow>
        (\<forall>a \<in> set as. ca_Status a \<noteq> CoverageExpected) \<and> (\<forall>u \<in> set units. cu_ID u \<in> ca_UnitID ` set as)" .
    have mat: "sum_MaterialGaps (tallied units as) = 0 \<longleftrightarrow>
        (\<forall>a \<in> set as. \<not> material_gap (map (\<lambda>u. (cu_ID u, u)) units) a)"
      by (simp add: tallied_def tally_zero[OF small])
    have unit: "\<exists>u \<in> set units. ca_UnitID a = cu_ID u" if "a \<in> set as" for a
      using ok(2) that by (auto simp: accepted_assessments_def)
    have once: "a = b" if "a \<in> set as" "b \<in> set as" "ca_UnitID a = ca_UnitID b" for a b
      using ok(2) that by (auto simp: accepted_assessments_def distinct_map inj_on_def)
    have terminal: "CoverageStatus_Terminal (ca_Status a) \<longleftrightarrow> ca_Status a \<noteq> CoverageExpected" if "a \<in> set as" for a
      using ok(2) that by (auto simp: accepted_assessments_def terminal_iff)
    have gap: "material_gap (map (\<lambda>u. (cu_ID u, u)) units) a \<longleftrightarrow> material_gap_of u a"
      if "u \<in> set units" "ca_UnitID a = cu_ID u" for u a
      using that by (rule material_gap_index[OF ok(1)])
    show ?thesis unfolding opened mat
    proof safe
      fix u assume "u \<in> set units" "\<forall>u \<in> set units. cu_ID u \<in> ca_UnitID ` set as"
      then obtain a where a: "a \<in> set as" "ca_UnitID a = cu_ID u" by (metis imageE)
      assume "\<forall>a \<in> set as. ca_Status a \<noteq> CoverageExpected"
        "\<forall>a \<in> set as. \<not> material_gap (map (\<lambda>u. (cu_ID u, u)) units) a"
      with a show "\<exists>a \<in> set as. ca_UnitID a = cu_ID u \<and> CoverageStatus_Terminal (ca_Status a) \<and> \<not> material_gap_of u a"
        using terminal gap[OF \<open>u \<in> set units\<close>] by blast
    next
      fix a assume closed: ?closed and a: "a \<in> set as"
      then obtain u b where u: "u \<in> set units" "ca_UnitID a = cu_ID u"
        and b: "b \<in> set as" "ca_UnitID b = cu_ID u" "CoverageStatus_Terminal (ca_Status b)" "\<not> material_gap_of u b"
        using unit by metis
      have "b = a" using once[OF b(1) a] u b(2) by simp
      then show "ca_Status a = CoverageExpected \<Longrightarrow> False" "material_gap (map (\<lambda>u. (cu_ID u, u)) units) a \<Longrightarrow> False"
        using b terminal[OF a] gap[OF u] by simp_all
    qed (metis imageI)
  qed
  show ?thesis
  proof
    assume ?ok
    then obtain s where s: "ReconcileCoverage units as True = (s, None)" "AllowsNoMatchConfirmed s" by blast
    note ok = reconcile_success[OF s(1)]
    have "s = tallied units as" using s(1) by (simp add: reconcile_accepted[OF ok] split: if_splits)
    then show "?u \<and> ?a \<and> ?closed" using s(2) ok closed[OF ok]
      by (simp add: AllowsNoMatchConfirmed_def Closed_def)
  next
    assume r: "?u \<and> ?a \<and> ?closed"
    then have ok: ?u ?a by simp_all
    have z: "sum_Open (tallied units as) = 0 \<and> sum_MaterialGaps (tallied units as) = 0"
      using closed[OF ok] r by simp
    then have "ReconcileCoverage units as True = (tallied units as, None)"
      by (simp add: reconcile_accepted[OF ok])
    moreover have "AllowsNoMatchConfirmed (tallied units as)"
      using z tallied_balanced(2)[OF ok] by (simp add: AllowsNoMatchConfirmed_def Closed_def)
    ultimately show ?ok by blast
  qed
qed

text \<open>
  C33: a negative conclusion rests on closed coverage and on nothing less.  The
  reconciliation under \<open>requireTerminal\<close> succeeds and allows NO_MATCH_CONFIRMED
  exactly when all records are valid and identified once, and every unit has
  an assessment in a terminal state that is not a material gap in a unit required
  for the negative conclusion.
\<close>

theorem negative_conclusion_closed:
  assumes "length units < 2 ^ 64"
  shows "(\<exists>s. ReconcileCoverage units as True = (s, None) \<and> AllowsNoMatchConfirmed s) \<longleftrightarrow>
    accepted_units units \<and> accepted_assessments units as \<and>
    (\<forall>u \<in> set units. \<exists>a \<in> set as. ca_UnitID a = cu_ID u \<and> CoverageStatus_Terminal (ca_Status a) \<and>
       \<not> material_gap_of u a)"
  by (rule negative_conclusion_closed_iff[OF assms])

lemma index_by_error: "index_by validate key duplicate vs m = Inl e \<Longrightarrow>
    \<exists>v \<in> set vs. validate v = Some e \<or> e = duplicate v"
  by (induction vs arbitrary: m) (auto split: option.splits if_splits)

lemma reconcile_assessments_error:
  "reconcile_assessments units as byUnit ids s = (t, Inl e) \<Longrightarrow> e \<noteq> Errorf ''coverage reconciliation invariant failed''"
  by (induction units as byUnit ids s rule: reconcile_assessments.induct) (auto split: option.splits if_splits)

text \<open>
  the internal check at the end of the reconciliation never fires.  Whatever the
  units and assessments, the error \<open>coverage reconciliation invariant failed\<close> is not
  returned: the counters balance even when they wrap around.
\<close>

theorem reconcile_balance_never_fails:
  "snd (ReconcileCoverage units as rt) \<noteq> Some (Errorf ''coverage reconciliation invariant failed'')"
proof (cases "accepted_units units \<and> accepted_assessments units as")
  case True
  then show ?thesis by (simp add: reconcile_accepted)
next
  case no: False
  show ?thesis
  proof (cases "index_by (\<lambda>u. wrap_error ''coverage unit'' (CoverageUnit_Validate u)) cu_ID
      (\<lambda>u. Errorf (''coverage unit '' @ CoverageUnitID_string (cu_ID u) @ '' counted twice'')) units []")
    case (Inl e)
    from index_by_error[OF this] have "e \<noteq> Errorf ''coverage reconciliation invariant failed''"
      by (auto simp: wrap_error_def)
    then show ?thesis unfolding ReconcileCoverage_def Inl by simp
  next
    case (Inr m)
    have dom: "accepted_units units" "fst ` set m = cu_ID ` set units"
      using Inr by (auto simp: index_by_Inr accepted_units_def image_iff)
    obtain t r where rec: "reconcile_assessments m as [] [] (empty_summary\<lparr>sum_Expected := of_nat (length m)\<rparr>) = (t, r)"
      by fastforce
    show ?thesis
    proof (cases r)
      case (Inl e)
      then show ?thesis using reconcile_assessments_error rec unfolding ReconcileCoverage_def Inr by simp
    next
      case (Inr b)
      then have "\<exists>t b. reconcile_assessments m as [] [] (empty_summary\<lparr>sum_Expected := of_nat (length m)\<rparr>) = (t, Inr b)"
        using rec by blast
      then have "accepted_assessments units as"
        using dom(2) by (auto simp: reconcile_assessments_ok accepted_assessments_def)
      with no dom show ?thesis by blast
    qed
  qed
qed

text \<open>Concrete records on which the statements are instantiated.\<close>

definition sample_digest :: string where
  "sample_digest = replicate 64 CHR ''a''"

lemma sample_digest: "length sample_digest = 64" "list_all lower_hex_digit sample_digest"
  by (simp_all add: sample_digest_def lower_hex_digit_def byte_def list_all_iff)

lemma sample_ids_valid:
  "EvidenceID_Validate (EvidenceID (''ev1:'' @ sample_digest)) = None"
  "CoverageUnitID_Validate (CoverageUnitID (''cov1:'' @ sample_digest)) = None"
  "CoverageAssessmentID_Validate (CoverageAssessmentID (''cova1:'' @ sample_digest)) = None"
  "FindingID_Validate (FindingID (''find1:'' @ sample_digest)) = None"
  unfolding EvidenceID_Validate_def CoverageUnitID_Validate_def CoverageAssessmentID_Validate_def
    FindingID_Validate_def EvidenceID.sel CoverageUnitID.sel CoverageAssessmentID.sel FindingID.sel
  using sample_digest
    validateVersionedID_iff[of "''ev1:''" "''ev''"] validateVersionedID_iff[of "''cov1:''" "''cov''"]
    validateVersionedID_iff[of "''cova1:''" "''cova''"] validateVersionedID_iff[of "''find1:''" "''find''"]
  by (simp_all add: lower_letter_def byte_def)

definition sample_unit :: CoverageUnit where
  "sample_unit = \<lparr>cu_ID = CoverageUnitID (''cov1:'' @ sample_digest), cu_Kind = CoverageWorkflowRun,
     cu_Scope = \<lparr>cs_RepositoryID = Some 1, cs_WorkflowPath = None, cs_RunID = Some 7, cs_RunAttempt = None,
       cs_JobID = None, cs_StepKey = []\<rparr>, cu_LogicalKey = ''run/7'', cu_RequiredForNegative = True\<rparr>"

definition sample_assessment :: CoverageAssessment where
  "sample_assessment = \<lparr>ca_ID = CoverageAssessmentID (''cova1:'' @ sample_digest),
     ca_UnitID = CoverageUnitID (''cov1:'' @ sample_digest), ca_Status = CoverageCollected,
     ca_ExpectedCount = Some 1, ca_ObservedCount = 1, ca_Gap = None,
     ca_EvidenceIDs = [EvidenceID (''ev1:'' @ sample_digest)]\<rparr>"

lemma sample_accepted: "accepted_units [sample_unit]" "accepted_assessments [sample_unit] [sample_assessment]"
proof -
  have "CoverageUnit_Validate sample_unit = None"
    by (simp add: sample_unit_def CoverageUnit_Validate_def sample_ids_valid validate_defs CoverageKind_defs
        validBoundedIdentityText_def ValidUTF8_ascii hasASCIIControl_bytes byte_def
        del: append.simps CoverageUnitID_Validate_def)
  then show "accepted_units [sample_unit]" by (simp add: accepted_units_def)
  have "CoverageAssessment_Validate sample_assessment = None"
    using sample_ids_valid by (simp add: sample_assessment_def CoverageAssessment_Validate_def CoverageStatus_defs
        evidence_list.check_iff)
  then show "accepted_assessments [sample_unit] [sample_assessment]"
    by (simp add: accepted_assessments_def sample_assessment_def sample_unit_def)
qed

theorem reconcile_counts_witness:
  "\<exists>s. ReconcileCoverage [sample_unit] [] False = (s, None) \<and> unat (sum_Expected s) = 1 \<and> unat (sum_Open s) = 1"
proof -
  have "accepted_assessments [sample_unit] []" by (simp add: accepted_assessments_def)
  then have "ReconcileCoverage [sample_unit] [] False = (tallied [sample_unit] [], None)"
    using sample_accepted(1) by (simp add: reconcile_accepted)
  with reconcile_counts[OF this] show ?thesis by simp
qed

theorem negative_conclusion_closed_witness:
  "\<exists>s. ReconcileCoverage [sample_unit] [sample_assessment] True = (s, None) \<and> AllowsNoMatchConfirmed s"
  by (subst negative_conclusion_closed)
     (use sample_accepted in \<open>simp_all add: sample_assessment_def sample_unit_def material_gap_of_def
        CoverageStatus_Terminal_def CoverageStatus_defs\<close>)

text \<open>
  sorting identifiers gives a canonical list.  The result depends only on the
  set of the given identifiers, is strictly increasing, is left alone by a second
  sorting, and is accepted by the check exactly when every identifier is valid;
  conversely a list the check accepts is already its own sorted form.  This holds
  for evidence identifiers and for coverage assessment identifiers.
\<close>

theorem canonical_identifier_lists:
  "(SortEvidenceIDs xs = SortEvidenceIDs ys \<longleftrightarrow> set xs = set ys) \<and> set (SortEvidenceIDs xs) = set xs \<and>
   SortEvidenceIDs (SortEvidenceIDs xs) = SortEvidenceIDs xs \<and>
   (validateSortedUniqueEvidenceIDs (SortEvidenceIDs xs) = None \<longleftrightarrow> list_all (\<lambda>x. EvidenceID_Validate x = None) xs) \<and>
   (validateSortedUniqueEvidenceIDs xs = None \<longleftrightarrow>
      SortEvidenceIDs xs = xs \<and> list_all (\<lambda>x. EvidenceID_Validate x = None) xs) \<and>
   (SortCoverageAssessmentIDs as = SortCoverageAssessmentIDs bs \<longleftrightarrow> set as = set bs) \<and>
   set (SortCoverageAssessmentIDs as) = set as \<and>
   (validateSortedUniqueCoverageAssessmentIDs as = None \<longleftrightarrow>
      SortCoverageAssessmentIDs as = as \<and> list_all (\<lambda>x. CoverageAssessmentID_Validate x = None) as)"
proof -
  have "strictly_sorted xs \<longleftrightarrow> SortEvidenceIDs xs = xs" for xs
    by (metis evidence_list.canon_fixed evidence_list.sorted_canon)
  moreover have "strictly_sorted as \<longleftrightarrow> SortCoverageAssessmentIDs as = as" for as
    by (metis coverage_list.canon_fixed coverage_list.sorted_canon)
  ultimately show ?thesis
    using evidence_list.canon_eq_iff[of xs ys] evidence_list.set_canon[of xs] evidence_list.canon_idem[of xs]
      evidence_list.canon_accepted[of xs] evidence_list.check_iff[of xs] coverage_list.canon_eq_iff[of as bs]
      coverage_list.set_canon[of as] coverage_list.check_iff[of as]
    by (auto simp: list_all_iff)
qed

end
