(* ===== verification/Model_Finding.thy ===== *)
theory Model_Finding
  imports Model_Coverage
begin

text \<open>
  \<open>internal/model/runtime.go\<close> and \<open>internal/model/finding.go\<close>: runtime observations,
  the parts of a finding and the finding itself, with \<open>ValidateFindingCoverage\<close> of
  \<open>coverage.go\<close>, which resolves a finding's coverage references.  Fields the code
  distinguishes from nil are slices (\<open>None\<close> for nil).
\<close>

section \<open>Runtime observations\<close>

record SourceSpan =
  ss_ByteStart :: "64 word"
  ss_ByteEnd :: "64 word"
  ss_LineStart :: "64 word"
  ss_LineEnd :: "64 word"

definition SourceSpan_Validate :: "SourceSpan \<Rightarrow> goerr option" where
  [validate_defs]: "SourceSpan_Validate s =
     first_error
      [require (\<not> ss_ByteEnd s < ss_ByteStart s) (Errorf ''source-span byte end precedes start''),
       require (\<not> (ss_LineStart s = 0) \<noteq> (ss_LineEnd s = 0))
         (Errorf ''source-span line bounds must both be present or absent''),
       require (\<not> (ss_LineStart s \<noteq> 0 \<and> ss_LineEnd s < ss_LineStart s)) (Errorf ''source-span line end precedes start'')]"

record RuntimeActionObservation =
  ro_ID :: RuntimeObservationID
  ro_Kind :: RuntimeObservationKind
  ro_Execution :: JobExecutionIdentity
  ro_Step :: "StepIdentity option"
  ro_ActionRepository :: RepositorySlug
  ro_ActionSubpath :: string
  ro_DeclaredRef :: string
  ro_SourceObjectID :: "ActionSourceObjectID option"
  ro_PackageDigest :: "PackageDigest option"
  ro_ImmutableVersion :: string
  ro_EventTime :: EventInterval
  ro_SourceEvidenceIDs :: "EvidenceID list"
  ro_SourceSpan :: SourceSpan
  ro_ExtractorName :: string
  ro_ExtractorVersion :: string
  ro_RulesetSHA256 :: string

definition unsafe_subpath :: "string \<Rightarrow> bool" where
  "unsafe_subpath s \<longleftrightarrow>
     length s > 4096 \<or> \<not> ValidUTF8 s \<or> hasASCIIControl s \<or> CHR 0x5C \<in> set s \<or> HasPrefix s ''/'' \<or>
     path_Clean s \<noteq> s \<or> HasPrefix s ''../''"

definition RuntimeActionObservation_Validate :: "RuntimeActionObservation \<Rightarrow> goerr option" where
  [validate_defs]: "RuntimeActionObservation_Validate ob =
     first_error
      [RuntimeObservationID_Validate (ro_ID ob),
       require (RuntimeObservationKind_Valid (ro_Kind ob)) (Errorf ''invalid runtime observation kind''),
       JobExecutionIdentity_Validate (ro_Execution ob),
       RepositorySlug_Validate (ro_ActionRepository ob),
       require (\<not> (ro_ActionSubpath ob \<noteq> [] \<and> unsafe_subpath (ro_ActionSubpath ob)))
         (Errorf ''runtime Action subpath is unsafe''),
       require (\<not> (length (ro_DeclaredRef ob) > 1024 \<or> \<not> ValidUTF8 (ro_DeclaredRef ob) \<or> hasASCIIControl (ro_DeclaredRef ob)))
         (Errorf ''runtime declared ref is unsafe''),
       require (\<not> (length (ro_ImmutableVersion ob) > 256 \<or> \<not> ValidUTF8 (ro_ImmutableVersion ob) \<or>
                   hasASCIIControl (ro_ImmutableVersion ob)))
         (Errorf ''immutable package version is unsafe''),
       validate_pointer (\<lambda>step. first_error
          [StepIdentity_Validate step,
           require (sid_Job step = ro_Execution ob)
             (Errorf ''runtime observation step belongs to a different execution'')]) (ro_Step ob),
       require (\<not> (ro_Kind ob \<in> {ObservationLifecycleStarted, ObservationLifecycleCompleted, ObservationConditionSkipped} \<and>
                   ro_Step ob = None))
         (Errorf ''step lifecycle observation requires exact step identity''),
       require (\<not> (ro_Kind ob \<in> {ObservationResolutionObserved, ObservationDownloadAnnounced,
                     ObservationPreparationComplete, ObservationPreparationFailed} \<and>
                   ro_SourceObjectID ob = None \<and> ro_PackageDigest ob = None))
         (Errorf ''resolution or preparation observation requires an exact source object or typed package digest''),
       validate_pointer ActionSourceObjectID_Validate (ro_SourceObjectID ob),
       validate_pointer PackageDigest_Validate (ro_PackageDigest ob),
       EventInterval_Validate (ro_EventTime ob),
       require (ro_SourceEvidenceIDs ob \<noteq> []) (Errorf ''runtime observation requires source evidence''),
       validateSortedUniqueEvidenceIDs (ro_SourceEvidenceIDs ob),
       SourceSpan_Validate (ro_SourceSpan ob),
       require (validMachineName (ro_ExtractorName ob) 128 \<and> validBoundedIdentityText (ro_ExtractorVersion ob) 128)
         (Errorf ''runtime observation extractor identity is invalid''),
       validateSHA256 (ro_RulesetSHA256 ob) ''runtime ruleset SHA-256'']"

section \<open>Incident and subject\<close>

record IncidentReference =
  ir_ID :: string
  ir_APIVersion :: string
  ir_PackVersion :: string
  ir_SourcePackSHA256 :: string
  ir_CanonicalPackSHA256 :: string

definition IncidentReference_Validate :: "IncidentReference \<Rightarrow> goerr option" where
  [validate_defs]: "IncidentReference_Validate r =
     first_error
      [require (validBoundedIdentityText (ir_ID r) 256) (Errorf ''incident ID is invalid''),
       require (validBoundedIdentityText (ir_APIVersion r) 128) (Errorf ''incident API version is invalid''),
       require (validBoundedIdentityText (ir_PackVersion r) 128) (Errorf ''incident pack version is invalid''),
       validateSHA256 (ir_SourcePackSHA256 r) ''source pack SHA-256'',
       validateSHA256 (ir_CanonicalPackSHA256 r) ''canonical pack SHA-256'']"

record RepositorySubject =
  rs_ID :: RepositoryID
  rs_Name :: RepositorySlug

definition RepositorySubject_Validate :: "RepositorySubject \<Rightarrow> goerr option" where
  [validate_defs]: "RepositorySubject_Validate s =
     first_error [RepositoryID_Validate (rs_ID s), RepositorySlug_Validate (rs_Name s)]"

record WorkflowSubject =
  ws_Path :: "WorkflowPath option"
  ws_DefinitionObjectID :: "WorkflowDefinitionObjectID option"
  ws_UnknownReason :: string

definition WorkflowSubject_Validate :: "WorkflowSubject \<Rightarrow> goerr option" where
  [validate_defs]: "WorkflowSubject_Validate s =
     first_error
      [validate_pointer WorkflowPath_Validate (ws_Path s),
       validate_pointer WorkflowDefinitionObjectID_Validate (ws_DefinitionObjectID s),
       require (\<not> (ws_Path s = None \<and> ws_UnknownReason s = []))
         (Errorf ''workflow subject requires a path or explicit unknown reason''),
       require (\<not> (ws_Path s \<noteq> None \<and> ws_UnknownReason s \<noteq> []))
         (Errorf ''known workflow path cannot also have an unknown reason''),
       validateBoundedText (ws_UnknownReason s) 1024 ''workflow unknown reason'']"

record FindingSubject =
  fs_Repository :: RepositorySubject
  fs_Workflow :: WorkflowSubject
  fs_RunID :: "WorkflowRunID option"
  fs_RunAttempt :: "RunAttempt option"
  fs_JobID :: "JobID option"
  fs_Step :: "StepIdentity option"

text \<open>
  The comparison of a step with its subject dereferences the run, attempt and job
  pointers; it runs only when the earlier checks found all three.
\<close>

definition step_disagrees :: "FindingSubject \<Rightarrow> StepIdentity \<Rightarrow> bool" where
  "step_disagrees s step \<longleftrightarrow>
     jid_RepositoryID (sid_Job step) \<noteq> rs_ID (fs_Repository s) \<or> Some (jid_RunID (sid_Job step)) \<noteq> fs_RunID s \<or>
     Some (jid_RunAttempt (sid_Job step)) \<noteq> fs_RunAttempt s \<or> Some (jid_JobID (sid_Job step)) \<noteq> fs_JobID s"

definition FindingSubject_Validate :: "FindingSubject \<Rightarrow> goerr option" where
  [validate_defs]: "FindingSubject_Validate s =
     first_error
      [RepositorySubject_Validate (fs_Repository s),
       WorkflowSubject_Validate (fs_Workflow s),
       validate_pointer WorkflowRunID_Validate (fs_RunID s),
       validate_pointer (\<lambda>attempt. first_error
          [require (fs_RunID s \<noteq> None) (Errorf ''finding run attempt requires run ID''),
           RunAttempt_Validate attempt]) (fs_RunAttempt s),
       validate_pointer (\<lambda>job. first_error
          [require (fs_RunAttempt s \<noteq> None) (Errorf ''finding job requires run attempt''),
           JobID_Validate job]) (fs_JobID s),
       validate_pointer (\<lambda>step. first_error
          [require (fs_JobID s \<noteq> None) (Errorf ''finding step requires job ID''),
           StepIdentity_Validate step,
           require (\<not> step_disagrees s step)
             (Errorf ''finding step execution identity disagrees with its subject'')]) (fs_Step s)]"

section \<open>Propositions\<close>

record PropositionAttribute =
  pa_Name :: string
  pa_Value :: string

record Proposition =
  pr_Kind :: string
  pr_ActionSourceObjectID :: "ActionSourceObjectID option"
  pr_PackageDigest :: "PackageDigest option"
  pr_CalledWorkflowObjectID :: "CalledWorkflowObjectID option"
  pr_Attributes :: "PropositionAttribute slice"

primrec validate_attributes :: "nat \<Rightarrow> string option \<Rightarrow> PropositionAttribute list \<Rightarrow> goerr option" where
  "validate_attributes index previous [] = None"
| "validate_attributes index previous (attribute # rest) =
     (if \<not> validMachineName (pa_Name attribute) 128 then
        Some (Errorf (''proposition attribute '' @ show_nat index @ '' has invalid name''))
      else case validateBoundedText (pa_Value attribute) 4096 ''proposition attribute value'' of
        Some e \<Rightarrow> Some e
      | None \<Rightarrow>
          if (case previous of None \<Rightarrow> False | Some p \<Rightarrow> pa_Name attribute \<le> p) then
            Some (Errorf ''proposition attributes must be sorted by unique name'')
          else validate_attributes (Suc index) (Some (pa_Name attribute)) rest)"

definition Proposition_Validate :: "Proposition \<Rightarrow> goerr option" where
  [validate_defs]: "Proposition_Validate p =
     first_error
      [require (validMachineName (pr_Kind p) 128) (Errorf ''proposition kind is invalid''),
       require (pr_Attributes p \<noteq> None) (Errorf ''proposition attributes must be an explicit array''),
       validate_pointer ActionSourceObjectID_Validate (pr_ActionSourceObjectID p),
       validate_pointer PackageDigest_Validate (pr_PackageDigest p),
       validate_pointer CalledWorkflowObjectID_Validate (pr_CalledWorkflowObjectID p),
       validate_attributes 0 None (elems (pr_Attributes p))]"

text \<open>
  Appending nothing to a nil slice leaves it nil, so an empty attribute list
  becomes nil here.  The comparison is total on the two fields, so the order of
  the sort is determined.
\<close>

definition NormalizeProposition :: "Proposition \<Rightarrow> Proposition" where
  "NormalizeProposition p =
     p\<lparr>pr_Attributes :=
         (if elems (pr_Attributes p) = [] then None
          else Some (sort_key (\<lambda>a. (pa_Name a, pa_Value a)) (elems (pr_Attributes p))))\<rparr>"

section \<open>Derivation, assumptions, gaps and contradictions\<close>

record DerivationReference =
  dr_RuleID :: string
  dr_RuleVersion :: string
  dr_FirstProducedAnalysisID :: AnalysisSessionID
  dr_FirstProducedEngineVersion :: string
  dr_CanonicalInputsSHA256 :: string

definition DerivationReference_Validate :: "DerivationReference \<Rightarrow> goerr option" where
  [validate_defs]: "DerivationReference_Validate d =
     first_error
      [require (validMachineName (dr_RuleID d) 256 \<and> validBoundedIdentityText (dr_RuleVersion d) 128)
         (Errorf ''derivation rule ID or version is invalid''),
       AnalysisSessionID_Validate (dr_FirstProducedAnalysisID d),
       require (validBoundedIdentityText (dr_FirstProducedEngineVersion d) 256)
         (Errorf ''first-producing engine version is invalid''),
       validateSHA256 (dr_CanonicalInputsSHA256 d) ''canonical derivation input SHA-256'']"

record Assumption =
  as_Code :: string
  as_Description :: string

definition Assumption_Validate :: "Assumption \<Rightarrow> goerr option" where
  [validate_defs]: "Assumption_Validate a =
     first_error
      [require (validMachineName (as_Code a) 128) (Errorf ''assumption code is invalid''),
       validateBoundedText (as_Description a) 4096 ''assumption description'']"

record EvidenceGapReference =
  eg_CoverageAssessmentID :: CoverageAssessmentID
  eg_Code :: GapReason
  eg_Description :: string

definition EvidenceGapReference_Validate :: "EvidenceGapReference \<Rightarrow> goerr option" where
  [validate_defs]: "EvidenceGapReference_Validate g =
     first_error
      [CoverageAssessmentID_Validate (eg_CoverageAssessmentID g),
       require (GapReason_Valid (eg_Code g)) (Errorf ''invalid evidence-gap code''),
       validateBoundedText (eg_Description g) 4096 ''evidence-gap description'']"

record ContradictionReference =
  cr_GroupID :: string
  cr_EvidenceIDs :: "EvidenceID list"
  cr_Description :: string

definition ContradictionReference_Validate :: "ContradictionReference \<Rightarrow> goerr option" where
  [validate_defs]: "ContradictionReference_Validate c =
     first_error
      [require (validBoundedIdentityText (cr_GroupID c) 256) (Errorf ''contradiction group ID is invalid''),
       require (\<not> length (cr_EvidenceIDs c) < 2) (Errorf ''contradiction requires at least two evidence objects''),
       validateSortedUniqueEvidenceIDs (cr_EvidenceIDs c),
       validateBoundedText (cr_Description c) 4096 ''contradiction description'']"

section \<open>Exposures\<close>

datatype CredentialExposureKind =
    ExposureGitHubTokenPermission
  | ExposureSecretReferencedByJob
  | ExposureSecretPassedToStep
  | ExposureReusableSecretMapped
  | ExposureReusableSecretInherited
  | ExposureEnvironmentSecretEligible
  | ExposureOIDCMintingCapability
  | OtherCredentialExposureKind string

primrec CredentialExposureKind_text :: "CredentialExposureKind \<Rightarrow> string" where
  "CredentialExposureKind_text ExposureGitHubTokenPermission = ''GITHUB_TOKEN_PERMISSION''"
| "CredentialExposureKind_text ExposureSecretReferencedByJob = ''SECRET_REFERENCED_BY_JOB''"
| "CredentialExposureKind_text ExposureSecretPassedToStep = ''SECRET_PASSED_TO_STEP''"
| "CredentialExposureKind_text ExposureReusableSecretMapped = ''REUSABLE_SECRET_MAPPED''"
| "CredentialExposureKind_text ExposureReusableSecretInherited = ''REUSABLE_SECRET_INHERITED''"
| "CredentialExposureKind_text ExposureEnvironmentSecretEligible = ''ENVIRONMENT_SECRET_ELIGIBLE''"
| "CredentialExposureKind_text ExposureOIDCMintingCapability = ''OIDC_MINTING_CAPABILITY''"
| "CredentialExposureKind_text (OtherCredentialExposureKind s) = s"

definition CredentialExposureKind_values :: "CredentialExposureKind list" where
  "CredentialExposureKind_values =
    [ExposureGitHubTokenPermission, ExposureSecretReferencedByJob, ExposureSecretPassedToStep,
     ExposureReusableSecretMapped, ExposureReusableSecretInherited, ExposureEnvironmentSecretEligible,
     ExposureOIDCMintingCapability]"

definition CredentialExposureKind_of :: "string \<Rightarrow> CredentialExposureKind" where
  "CredentialExposureKind_of s = enum_of CredentialExposureKind_text CredentialExposureKind_values OtherCredentialExposureKind s"

definition CredentialExposureKind_Valid :: "CredentialExposureKind \<Rightarrow> bool" where
  "CredentialExposureKind_Valid s \<longleftrightarrow> s = ExposureGitHubTokenPermission \<or> s = ExposureSecretReferencedByJob \<or> s = ExposureSecretPassedToStep \<or> s = ExposureReusableSecretMapped \<or> s = ExposureReusableSecretInherited \<or> s = ExposureEnvironmentSecretEligible \<or> s = ExposureOIDCMintingCapability"

lemmas CredentialExposureKind_defs [enum_defs] = CredentialExposureKind_values_def CredentialExposureKind_of_def CredentialExposureKind_Valid_def

interpretation CredentialExposureKind_enum: string_enum CredentialExposureKind_text CredentialExposureKind_of CredentialExposureKind_Valid CredentialExposureKind_values
  by (rule string_enumI[where other = OtherCredentialExposureKind]) (auto simp: enum_defs)

datatype CredentialExposureBasis =
    ExposureBasisRuntimeObserved
  | ExposureBasisStaticInferred
  | ExposureBasisHistoricalDefinitionReference
  | ExposureBasisHistoricalDefinitionFlow
  | ExposureBasisReusableWorkflowCall
  | OtherCredentialExposureBasis string

primrec CredentialExposureBasis_text :: "CredentialExposureBasis \<Rightarrow> string" where
  "CredentialExposureBasis_text ExposureBasisRuntimeObserved = ''runtime-observed''"
| "CredentialExposureBasis_text ExposureBasisStaticInferred = ''static-inferred''"
| "CredentialExposureBasis_text ExposureBasisHistoricalDefinitionReference = ''historical-definition-reference''"
| "CredentialExposureBasis_text ExposureBasisHistoricalDefinitionFlow = ''historical-definition-flow''"
| "CredentialExposureBasis_text ExposureBasisReusableWorkflowCall = ''reusable-workflow-call''"
| "CredentialExposureBasis_text (OtherCredentialExposureBasis s) = s"

definition CredentialExposureBasis_values :: "CredentialExposureBasis list" where
  "CredentialExposureBasis_values =
    [ExposureBasisRuntimeObserved, ExposureBasisStaticInferred, ExposureBasisHistoricalDefinitionReference,
     ExposureBasisHistoricalDefinitionFlow, ExposureBasisReusableWorkflowCall]"

definition CredentialExposureBasis_of :: "string \<Rightarrow> CredentialExposureBasis" where
  "CredentialExposureBasis_of s = enum_of CredentialExposureBasis_text CredentialExposureBasis_values OtherCredentialExposureBasis s"

definition CredentialExposureBasis_Valid :: "CredentialExposureBasis \<Rightarrow> bool" where
  "CredentialExposureBasis_Valid s \<longleftrightarrow> s = ExposureBasisRuntimeObserved \<or> s = ExposureBasisStaticInferred \<or> s = ExposureBasisHistoricalDefinitionReference \<or> s = ExposureBasisHistoricalDefinitionFlow \<or> s = ExposureBasisReusableWorkflowCall"

lemmas CredentialExposureBasis_defs [enum_defs] = CredentialExposureBasis_values_def CredentialExposureBasis_of_def CredentialExposureBasis_Valid_def

interpretation CredentialExposureBasis_enum: string_enum CredentialExposureBasis_text CredentialExposureBasis_of CredentialExposureBasis_Valid CredentialExposureBasis_values
  by (rule string_enumI[where other = OtherCredentialExposureBasis]) (auto simp: enum_defs)

text \<open>
  \<open>secretNamePattern\<close>, \<open>^[A-Z_][A-Z0-9_]{0,255}$\<close>, over the runes of a string.
  \<open>strings.ToUpper\<close> is written out for the runes whose upper case is ASCII: the
  lower-case letters, U+0131 (dotless i) and U+017F (long s).  Every other rune has
  a non-ASCII upper case, which the pattern refuses like the rune itself.
\<close>

definition secret_start :: "nat \<Rightarrow> bool" where
  "secret_start c \<longleftrightarrow> (0x41 \<le> c \<and> c \<le> 0x5A) \<or> c = 0x5F"

definition secret_rest :: "nat \<Rightarrow> bool" where
  "secret_rest c \<longleftrightarrow> secret_start c \<or> (0x30 \<le> c \<and> c \<le> 0x39)"

definition secretNamePattern :: "nat list \<Rightarrow> bool" where
  "secretNamePattern rs \<longleftrightarrow>
     rs \<noteq> [] \<and> secret_start (hd rs) \<and> list_all secret_rest (tl rs) \<and> length rs \<le> 256"

definition upper_rune :: "nat \<Rightarrow> nat" where
  "upper_rune c =
     (if 0x61 \<le> c \<and> c \<le> 0x7A then c - 32 else if c = 0x131 then 0x49 else if c = 0x17F then 0x53 else c)"

datatype SecretName = SecretName (SecretName_string: string)

definition NewSecretName :: "string \<Rightarrow> goerr + SecretName" where
  "NewSecretName value =
     (let canonical = map (\<lambda>(c, _). upper_rune c) (runes value)
      in if secretNamePattern canonical then Inr (SecretName (map char_of canonical))
         else Inl (Errorf ''secret name is invalid''))"

definition SecretName_Validate :: "SecretName \<Rightarrow> goerr option" where
  [validate_defs]: "SecretName_Validate n =
     require (secretNamePattern (map fst (runes (SecretName_string n)))) (Errorf ''secret name is invalid'')"

record CredentialExposure =
  ce_Kind :: CredentialExposureKind
  ce_Basis :: CredentialExposureBasis
  ce_SecretName :: "SecretName option"
  ce_Permission :: string
  ce_Access :: string
  ce_Conclusion :: string
  ce_EvidenceIDs :: "EvidenceID list"

definition CredentialExposure_Validate :: "CredentialExposure \<Rightarrow> goerr option" where
  [validate_defs]: "CredentialExposure_Validate e =
     first_error
      [require (CredentialExposureKind_Valid (ce_Kind e)) (Errorf ''invalid credential-exposure kind''),
       require (CredentialExposureBasis_Valid (ce_Basis e)) (Errorf ''invalid credential-exposure basis''),
       validate_pointer SecretName_Validate (ce_SecretName e),
       require (\<not> (ce_Kind e \<in> {ExposureSecretReferencedByJob, ExposureSecretPassedToStep,
                     ExposureReusableSecretMapped, ExposureEnvironmentSecretEligible} \<and> ce_SecretName e = None))
         (Errorf ''named-secret exposure requires a secret name''),
       require (\<not> (ce_Kind e \<in> {ExposureGitHubTokenPermission, ExposureOIDCMintingCapability} \<and> ce_SecretName e \<noteq> None))
         (Errorf ''token and OIDC capabilities cannot carry a secret name''),
       (if ce_Kind e = ExposureGitHubTokenPermission then
          require (validMachineName (ce_Permission e) 128 \<and> ce_Access e \<in> {''read'', ''write'', ''none''})
            (Errorf ''token exposure requires a permission and read/write/none access'')
        else require (ce_Permission e = [] \<and> ce_Access e = [])
            (Errorf ''non-token exposure cannot carry token permission fields'')),
       validateBoundedText (ce_Conclusion e) 4096 ''credential-exposure conclusion'',
       require (ce_EvidenceIDs e \<noteq> []) (Errorf ''credential exposure requires evidence''),
       validateSortedUniqueEvidenceIDs (ce_EvidenceIDs e)]"

datatype ResourceExposureKind =
    ResourceArtifact
  | ResourcePackage
  | ResourceRelease
  | ResourceDeployment
  | ResourceRepositoryWrite
  | ResourcePullRequestChange
  | OtherResourceExposureKind string

primrec ResourceExposureKind_text :: "ResourceExposureKind \<Rightarrow> string" where
  "ResourceExposureKind_text ResourceArtifact = ''ARTIFACT''"
| "ResourceExposureKind_text ResourcePackage = ''PACKAGE''"
| "ResourceExposureKind_text ResourceRelease = ''RELEASE''"
| "ResourceExposureKind_text ResourceDeployment = ''DEPLOYMENT''"
| "ResourceExposureKind_text ResourceRepositoryWrite = ''REPOSITORY_WRITE''"
| "ResourceExposureKind_text ResourcePullRequestChange = ''PULL_REQUEST_CHANGE''"
| "ResourceExposureKind_text (OtherResourceExposureKind s) = s"

definition ResourceExposureKind_values :: "ResourceExposureKind list" where
  "ResourceExposureKind_values =
    [ResourceArtifact, ResourcePackage, ResourceRelease,
     ResourceDeployment, ResourceRepositoryWrite, ResourcePullRequestChange]"

definition ResourceExposureKind_of :: "string \<Rightarrow> ResourceExposureKind" where
  "ResourceExposureKind_of s = enum_of ResourceExposureKind_text ResourceExposureKind_values OtherResourceExposureKind s"

definition ResourceExposureKind_Valid :: "ResourceExposureKind \<Rightarrow> bool" where
  "ResourceExposureKind_Valid s \<longleftrightarrow> s = ResourceArtifact \<or> s = ResourcePackage \<or> s = ResourceRelease \<or> s = ResourceDeployment \<or> s = ResourceRepositoryWrite \<or> s = ResourcePullRequestChange"

lemmas ResourceExposureKind_defs [enum_defs] = ResourceExposureKind_values_def ResourceExposureKind_of_def ResourceExposureKind_Valid_def

interpretation ResourceExposureKind_enum: string_enum ResourceExposureKind_text ResourceExposureKind_of ResourceExposureKind_Valid ResourceExposureKind_values
  by (rule string_enumI[where other = OtherResourceExposureKind]) (auto simp: enum_defs)

datatype CorrelationKind =
    CorrelationDirect
  | CorrelationObservedAfter
  | OtherCorrelationKind string

primrec CorrelationKind_text :: "CorrelationKind \<Rightarrow> string" where
  "CorrelationKind_text CorrelationDirect = ''DIRECT_ATTRIBUTION''"
| "CorrelationKind_text CorrelationObservedAfter = ''OBSERVED_AFTER''"
| "CorrelationKind_text (OtherCorrelationKind s) = s"

definition CorrelationKind_values :: "CorrelationKind list" where
  "CorrelationKind_values =
    [CorrelationDirect, CorrelationObservedAfter]"

definition CorrelationKind_of :: "string \<Rightarrow> CorrelationKind" where
  "CorrelationKind_of s = enum_of CorrelationKind_text CorrelationKind_values OtherCorrelationKind s"

definition CorrelationKind_Valid :: "CorrelationKind \<Rightarrow> bool" where
  "CorrelationKind_Valid s \<longleftrightarrow> s = CorrelationDirect \<or> s = CorrelationObservedAfter"

lemmas CorrelationKind_defs [enum_defs] = CorrelationKind_values_def CorrelationKind_of_def CorrelationKind_Valid_def

interpretation CorrelationKind_enum: string_enum CorrelationKind_text CorrelationKind_of CorrelationKind_Valid CorrelationKind_values
  by (rule string_enumI[where other = OtherCorrelationKind]) (auto simp: enum_defs)

record ResourceExposure =
  re_Kind :: ResourceExposureKind
  re_ResourceID :: string
  re_Correlation :: CorrelationKind
  re_Conclusion :: string
  re_EvidenceIDs :: "EvidenceID list"

definition ResourceExposure_Validate :: "ResourceExposure \<Rightarrow> goerr option" where
  [validate_defs]: "ResourceExposure_Validate e =
     first_error
      [require (ResourceExposureKind_Valid (re_Kind e) \<and> CorrelationKind_Valid (re_Correlation e))
         (Errorf ''resource exposure has invalid kind or correlation''),
       require (validBoundedIdentityText (re_ResourceID e) 512) (Errorf ''resource ID is invalid''),
       validateBoundedText (re_Conclusion e) 4096 ''resource-exposure conclusion'',
       require (re_EvidenceIDs e \<noteq> []) (Errorf ''resource exposure requires evidence''),
       validateSortedUniqueEvidenceIDs (re_EvidenceIDs e)]"

section \<open>Findings\<close>

definition FindingsSchemaVersion :: string where
  "FindingsSchemaVersion = ''cirewind.findings/v1alpha1''"

record Finding =
  fi_SchemaVersion :: string
  fi_FindingID :: FindingID
  fi_FindingRevisionID :: FindingRevisionID
  fi_Incident :: IncidentReference
  fi_IndicatorID :: string
  fi_Subject :: FindingSubject
  fi_State :: FindingState
  fi_ProvenanceLevel :: ProvenanceLevel
  fi_Conclusion :: string
  fi_Proposition :: Proposition
  fi_EventTime :: EventInterval
  fi_EvidenceObjectIDs :: "EvidenceID slice"
  fi_Assumptions :: "Assumption slice"
  fi_EvidenceGaps :: "EvidenceGapReference slice"
  fi_ContradictoryEvidence :: "ContradictionReference slice"
  fi_PotentialCredentialExposure :: "CredentialExposure slice"
  fi_PotentialResourceExposure :: "ResourceExposure slice"
  fi_RemediationGuidance :: "string slice"
  fi_CollectionCoverage :: "CoverageAssessmentID slice"
  fi_Derivation :: DerivationReference
  fi_CollectionTime :: Instant
  fi_SupersedesRevisionID :: "FindingRevisionID option"

definition Finding_Validate :: "Finding \<Rightarrow> goerr option" where
  [validate_defs]: "Finding_Validate f =
     first_error
      ([require (fi_SchemaVersion f = FindingsSchemaVersion) (Errorf ''unsupported findings schema''),
        FindingID_Validate (fi_FindingID f),
        FindingRevisionID_Validate (fi_FindingRevisionID f),
        IncidentReference_Validate (fi_Incident f),
        require (validBoundedIdentityText (fi_IndicatorID f) 256) (Errorf ''indicator ID is invalid''),
        wrap_error ''finding subject'' (FindingSubject_Validate (fi_Subject f)),
        require (FindingState_Valid (fi_State f)) (Errorf ''invalid finding state''),
        require (ProvenanceLevel_Valid (fi_ProvenanceLevel f)) (Errorf ''invalid provenance level''),
        validateBoundedText (fi_Conclusion f) 8192 ''finding conclusion'',
        Proposition_Validate (fi_Proposition f),
        EventInterval_Validate (fi_EventTime f),
        require (\<not> (fi_EvidenceObjectIDs f = None \<or> fi_Assumptions f = None \<or> fi_EvidenceGaps f = None \<or>
                    fi_ContradictoryEvidence f = None \<or> fi_PotentialCredentialExposure f = None \<or>
                    fi_PotentialResourceExposure f = None \<or> fi_RemediationGuidance f = None \<or>
                    fi_CollectionCoverage f = None))
          (Errorf ''finding collection fields must be explicit arrays, not null''),
        validateSortedUniqueEvidenceIDs (elems (fi_EvidenceObjectIDs f)),
        first_error (map Assumption_Validate (elems (fi_Assumptions f))),
        first_error (map EvidenceGapReference_Validate (elems (fi_EvidenceGaps f))),
        first_error (map ContradictionReference_Validate (elems (fi_ContradictoryEvidence f))),
        first_error (map CredentialExposure_Validate (elems (fi_PotentialCredentialExposure f))),
        first_error (map ResourceExposure_Validate (elems (fi_PotentialResourceExposure f))),
        first_error (map (\<lambda>guidance. validateBoundedText guidance 8192 ''remediation guidance'') (elems (fi_RemediationGuidance f))),
        validateSortedUniqueCoverageAssessmentIDs (elems (fi_CollectionCoverage f)),
        DerivationReference_Validate (fi_Derivation f),
        Instant_Validate (fi_CollectionTime f),
        validate_pointer (\<lambda>superseded. first_error
           [FindingRevisionID_Validate superseded,
            require (superseded \<noteq> fi_FindingRevisionID f) (Errorf ''finding revision cannot supersede itself'')])
          (fi_SupersedesRevisionID f),
        require (\<not> (elems (fi_EvidenceObjectIDs f) = [] \<and> elems (fi_EvidenceGaps f) = []))
          (Errorf ''finding requires evidence objects or an explicit evidence gap''),
        require (\<not> (fi_State f = UnknownEvidenceGap \<and> elems (fi_EvidenceGaps f) = []))
          (Errorf ''UNKNOWN_EVIDENCE_GAP requires an explicit gap''),
        require (\<not> (fi_State f = ContradictoryEvidence \<and> elems (fi_ContradictoryEvidence f) = []))
          (Errorf ''CONTRADICTORY_EVIDENCE requires contradictory evidence''),
        require (\<not> (fi_State f = NoMatchConfirmed \<and>
                    (elems (fi_EvidenceObjectIDs f) = [] \<or> elems (fi_CollectionCoverage f) = [] \<or> elems (fi_EvidenceGaps f) \<noteq> [])))
          (Errorf ''NO_MATCH_CONFIRMED requires evidence, closed coverage, and no evidence gaps''),
        require (\<not> (fi_State f \<noteq> ConfirmedExecuted \<and>
                    (elems (fi_PotentialCredentialExposure f) \<noteq> [] \<or> elems (fi_PotentialResourceExposure f) \<noteq> [])))
          (Errorf ''credential or resource reachability requires a separate CONFIRMED_EXECUTED proposition'')])"

section \<open>Coverage of a finding\<close>

definition check_gap_references :: "(CoverageAssessmentID \<times> CoverageAssessment) list \<Rightarrow> EvidenceGapReference list \<Rightarrow> goerr option" where
  "check_gap_references assessmentByID gaps =
     first_error (map (\<lambda>gap.
        case map_of assessmentByID (eg_CoverageAssessmentID gap) of
          None \<Rightarrow> Some (Errorf (''finding gap references unknown coverage assessment '' @
                    CoverageAssessmentID_string (eg_CoverageAssessmentID gap)))
        | Some assessment \<Rightarrow>
            require (ca_Status assessment = CoverageGap)
              (Errorf (''finding gap references non-gap assessment '' @ CoverageAssessmentID_string (eg_CoverageAssessmentID gap)))) gaps)"

primrec select_coverage ::
    "(CoverageUnitID \<times> CoverageUnit) list \<Rightarrow> (CoverageAssessmentID \<times> CoverageAssessment) list \<Rightarrow>
     CoverageAssessmentID list \<Rightarrow> goerr + (CoverageUnit list \<times> CoverageAssessment list)" where
  "select_coverage unitByID assessmentByID [] = Inr ([], [])"
| "select_coverage unitByID assessmentByID (i # is) =
     (case map_of assessmentByID i of
        None \<Rightarrow> Inl (Errorf (''finding references unknown coverage assessment '' @ CoverageAssessmentID_string i))
      | Some a \<Rightarrow>
          case map_of unitByID (ca_UnitID a) of
            None \<Rightarrow> Inl (Errorf (''coverage assessment '' @ CoverageAssessmentID_string i @ '' references unknown unit '' @
                      CoverageUnitID_string (ca_UnitID a)))
          | Some u \<Rightarrow> map_sum id (\<lambda>(us, as). (u # us, a # as)) (select_coverage unitByID assessmentByID is))"

definition no_match_coverage :: "CoverageUnit list \<Rightarrow> CoverageAssessment list \<Rightarrow> goerr option" where
  "no_match_coverage selectedUnits selectedAssessments =
     (case ReconcileCoverage selectedUnits selectedAssessments True of
        (summary, Some e) \<Rightarrow> Some (Wrapf ''NO_MATCH_CONFIRMED coverage is not closed'' e)
      | (summary, None) \<Rightarrow>
          require (AllowsNoMatchConfirmed summary) (Errorf ''NO_MATCH_CONFIRMED coverage contains a material gap''))"

definition ValidateFindingCoverage :: "Finding \<Rightarrow> CoverageUnit list \<Rightarrow> CoverageAssessment list \<Rightarrow> goerr option" where
  "ValidateFindingCoverage finding units assessments =
     (case Finding_Validate finding of Some e \<Rightarrow> Some e | None \<Rightarrow>
      (case index_by CoverageUnit_Validate cu_ID
          (\<lambda>u. Errorf (''duplicate coverage unit '' @ CoverageUnitID_string (cu_ID u))) units [] of
        Inl e \<Rightarrow> Some e
      | Inr unitByID \<Rightarrow>
        (case index_by CoverageAssessment_Validate ca_ID
            (\<lambda>a. Errorf (''duplicate coverage assessment '' @ CoverageAssessmentID_string (ca_ID a))) assessments [] of
          Inl e \<Rightarrow> Some e
        | Inr assessmentByID \<Rightarrow>
          (case check_gap_references assessmentByID (elems (fi_EvidenceGaps finding)) of Some e \<Rightarrow> Some e | None \<Rightarrow>
            (case select_coverage unitByID assessmentByID (elems (fi_CollectionCoverage finding)) of
              Inl e \<Rightarrow> Some e
            | Inr (selectedUnits, selectedAssessments) \<Rightarrow>
                if fi_State finding = NoMatchConfirmed then no_match_coverage selectedUnits selectedAssessments
                else None)))))"

section \<open>Properties\<close>

text \<open>
  Resolving references in maps that are keyed by the records' own identifiers gives
  the records themselves, in the order of the references.
\<close>

lemma select_coverage_resolves:
  assumes "select_coverage unitByID assessmentByID is = Inr (us, as)"
    and "\<And>i u. map_of unitByID i = Some u \<Longrightarrow> cu_ID u = i \<and> u \<in> U"
    and "\<And>i a. map_of assessmentByID i = Some a \<Longrightarrow> ca_ID a = i \<and> a \<in> A"
  shows "map ca_ID as = is" and "map cu_ID us = map ca_UnitID as" and "set us \<subseteq> U" and "set as \<subseteq> A"
proof -
  have "map ca_ID as = is \<and> map cu_ID us = map ca_UnitID as \<and> set us \<subseteq> U \<and> set as \<subseteq> A"
    using assms(1)
  proof (induction "is" arbitrary: us as)
    case (Cons i "is")
    then obtain a u us' as' where r: "map_of assessmentByID i = Some a" "map_of unitByID (ca_UnitID a) = Some u"
        "select_coverage unitByID assessmentByID is = Inr (us', as')" "us = u # us'" "as = a # as'"
      by (auto split: option.splits)
    show ?case using Cons.IH[OF r(3)] assms(2)[OF r(2)] assms(3)[OF r(1)] r(4,5) by simp
  qed simp
  then show "map ca_ID as = is" and "map cu_ID us = map ca_UnitID as" and "set us \<subseteq> U" and "set as \<subseteq> A" by simp_all
qed

lemma index_by_lookup:
  assumes "index_by validate key duplicate vs [] = Inr m" and "map_of m i = Some v"
  shows "key v = i \<and> v \<in> set vs"
  using assms by (auto simp: index_by_Inr dest!: map_of_SomeD)

lemma validated_coverage_parts:
  assumes "ValidateFindingCoverage f units assessments = None"
  obtains us as where "Finding_Validate f = None" and "map ca_ID as = elems (fi_CollectionCoverage f)"
    and "map cu_ID us = map ca_UnitID as" and "set us \<subseteq> set units" and "set as \<subseteq> set assessments"
    and "\<forall>g \<in> set (elems (fi_EvidenceGaps f)). \<exists>a \<in> set assessments. ca_ID a = eg_CoverageAssessmentID g \<and> ca_Status a = CoverageGap"
    and "fi_State f = NoMatchConfirmed \<Longrightarrow> no_match_coverage us as = None"
proof -
  obtain um am us as where p: "Finding_Validate f = None"
      "index_by CoverageUnit_Validate cu_ID
          (\<lambda>u. Errorf (''duplicate coverage unit '' @ CoverageUnitID_string (cu_ID u))) units [] = Inr um"
      "index_by CoverageAssessment_Validate ca_ID
          (\<lambda>a. Errorf (''duplicate coverage assessment '' @ CoverageAssessmentID_string (ca_ID a))) assessments [] = Inr am"
      "check_gap_references am (elems (fi_EvidenceGaps f)) = None"
      "select_coverage um am (elems (fi_CollectionCoverage f)) = Inr (us, as)"
      "fi_State f = NoMatchConfirmed \<Longrightarrow> no_match_coverage us as = None"
    using assms unfolding ValidateFindingCoverage_def by (auto split: option.splits sum.splits if_splits)
  note s = select_coverage_resolves[OF p(5) index_by_lookup[OF p(2)] index_by_lookup[OF p(3)]]
  have "\<exists>a \<in> set assessments. ca_ID a = eg_CoverageAssessmentID g \<and> ca_Status a = CoverageGap"
    if "g \<in> set (elems (fi_EvidenceGaps f))" for g
    using p(4) that index_by_lookup[OF p(3)] by (fastforce simp: check_gap_references_def split: option.splits)
  then show ?thesis using that[of as us] p(1,6) s by blast
qed
text \<open>
  C1: a finding that claims NO_MATCH_CONFIRMED and passes the coverage check has
  evidence, no evidence gap, and a non-empty list of coverage references; the
  references resolve one by one to assessments of pairwise different units, each of
  which ended, and none of which is a material gap in a unit required for the
  negative conclusion.
\<close>

theorem no_match_finding_is_closed:
  assumes "ValidateFindingCoverage f units assessments = None" and "fi_State f = NoMatchConfirmed"
    and "length (elems (fi_CollectionCoverage f)) < 2 ^ 64"
  shows "elems (fi_EvidenceObjectIDs f) \<noteq> [] \<and> elems (fi_EvidenceGaps f) = [] \<and>
    (\<exists>as. as \<noteq> [] \<and> set as \<subseteq> set assessments \<and> map ca_ID as = elems (fi_CollectionCoverage f) \<and>
       distinct (map ca_UnitID as) \<and>
       (\<forall>a \<in> set as. \<exists>u \<in> set units. ca_UnitID a = cu_ID u \<and> CoverageStatus_Terminal (ca_Status a) \<and>
          \<not> material_gap_of u a))"
proof -
  obtain us as where p: "Finding_Validate f = None" "map ca_ID as = elems (fi_CollectionCoverage f)"
      "map cu_ID us = map ca_UnitID as" "set us \<subseteq> set units" "set as \<subseteq> set assessments"
      "no_match_coverage us as = None"
    using validated_coverage_parts[OF assms(1)] assms(2) by metis
  have f: "elems (fi_EvidenceObjectIDs f) \<noteq> []" "elems (fi_EvidenceGaps f) = []" "elems (fi_CollectionCoverage f) \<noteq> []"
    using p(1) assms(2) unfolding Finding_Validate_def by auto
  have len: "length us < 2 ^ 64" using p(2,3) assms(3) by (metis length_map)
  have "\<exists>s. ReconcileCoverage us as True = (s, None) \<and> AllowsNoMatchConfirmed s"
    using p(6) by (auto simp: no_match_coverage_def split: prod.splits option.splits)
  then have ok: "accepted_assessments us as"
      "\<forall>u \<in> set us. \<exists>a \<in> set as. ca_UnitID a = cu_ID u \<and> CoverageStatus_Terminal (ca_Status a) \<and> \<not> material_gap_of u a"
    using negative_conclusion_closed_iff[OF len] by blast+
  have dist: "distinct (map ca_UnitID as)" using ok(1) by (simp add: accepted_assessments_def)
  have "\<exists>u \<in> set units. ca_UnitID a = cu_ID u \<and> CoverageStatus_Terminal (ca_Status a) \<and> \<not> material_gap_of u a"
    if a: "a \<in> set as" for a
  proof -
    obtain u where u: "u \<in> set us" "ca_UnitID a = cu_ID u" using ok(1) a by (auto simp: accepted_assessments_def)
    then obtain b where b: "b \<in> set as" "ca_UnitID b = cu_ID u" "CoverageStatus_Terminal (ca_Status b)" "\<not> material_gap_of u b"
      using ok(2) by blast
    have "b = a" using dist a b(1,2) u(2) by (auto simp: distinct_map inj_on_def)
    then show ?thesis using b u p(4) by auto
  qed
  moreover have "as \<noteq> []" using p(2) f(3) by auto
  ultimately show ?thesis using f p(2,5) dist by blast
qed

text \<open>
  C2: a finding that passes the coverage check has no dangling reference.  Every
  coverage identifier names a given assessment whose unit is given too, and every
  evidence gap names a given assessment that is a gap and carries valid gap detail.
\<close>

theorem finding_references_resolve:
  assumes "ValidateFindingCoverage f units assessments = None"
  shows "(\<forall>i \<in> set (elems (fi_CollectionCoverage f)). \<exists>a \<in> set assessments. \<exists>u \<in> set units.
      ca_ID a = i \<and> ca_UnitID a = cu_ID u) \<and>
    (\<forall>g \<in> set (elems (fi_EvidenceGaps f)). \<exists>a \<in> set assessments. ca_ID a = eg_CoverageAssessmentID g \<and>
      ca_Status a = CoverageGap \<and> (\<exists>d. ca_Gap a = Some d \<and> CoverageGapDetail_Validate d = None))"
proof -
  obtain us as where p: "map ca_ID as = elems (fi_CollectionCoverage f)"
      "map cu_ID us = map ca_UnitID as" "set us \<subseteq> set units" "set as \<subseteq> set assessments"
      "\<forall>g \<in> set (elems (fi_EvidenceGaps f)). \<exists>a \<in> set assessments. ca_ID a = eg_CoverageAssessmentID g \<and> ca_Status a = CoverageGap"
    using validated_coverage_parts[OF assms] by metis
  have valid: "CoverageAssessment_Validate a = None" if "a \<in> set assessments" for a
    using assms that unfolding ValidateFindingCoverage_def
    by (auto simp: index_by_Inr split: option.splits sum.splits)
  have "\<exists>a \<in> set assessments. \<exists>u \<in> set units. ca_ID a = i \<and> ca_UnitID a = cu_ID u"
    if i: "i \<in> set (elems (fi_CollectionCoverage f))" for i
  proof -
    obtain a where a: "a \<in> set as" "ca_ID a = i" using i unfolding p(1)[symmetric] by auto
    have "ca_UnitID a \<in> set (map cu_ID us)" unfolding p(2) using a(1) by simp
    then show ?thesis using a p(3,4) by auto
  qed
  moreover have "\<exists>d. ca_Gap a = Some d \<and> CoverageGapDetail_Validate d = None"
    if "a \<in> set assessments" "ca_Status a = CoverageGap" for a
    using valid[OF that(1)] that(2) unfolding CoverageAssessment_Validate_def by (auto split: option.splits)
  ultimately show ?thesis using p(5) by blast
qed

text \<open>
  C3: what a finding's state may claim.  An accepted finding rests on evidence or on
  an explicit gap; UNKNOWN_EVIDENCE_GAP has a gap; CONTRADICTORY_EVIDENCE has a
  contradiction between at least two different evidence objects; reachable
  credentials or resources are claimed only with CONFIRMED_EXECUTED and with evidence
  of their own; and a revision never supersedes itself.
\<close>

theorem finding_state_support:
  assumes "Finding_Validate f = None"
  shows "FindingState_Valid (fi_State f) \<and> ProvenanceLevel_Valid (fi_ProvenanceLevel f) \<and>
    (elems (fi_EvidenceObjectIDs f) \<noteq> [] \<or> elems (fi_EvidenceGaps f) \<noteq> []) \<and>
    (fi_State f = UnknownEvidenceGap \<longrightarrow> elems (fi_EvidenceGaps f) \<noteq> []) \<and>
    (fi_State f = ContradictoryEvidence \<longrightarrow>
      (\<exists>c \<in> set (elems (fi_ContradictoryEvidence f)). 2 \<le> card (set (cr_EvidenceIDs c)))) \<and>
    (\<forall>x \<in> set (elems (fi_PotentialCredentialExposure f)).
      fi_State f = ConfirmedExecuted \<and> ce_EvidenceIDs x \<noteq> []) \<and>
    (\<forall>x \<in> set (elems (fi_PotentialResourceExposure f)).
      fi_State f = ConfirmedExecuted \<and> re_EvidenceIDs x \<noteq> []) \<and>
    fi_SupersedesRevisionID f \<noteq> Some (fi_FindingRevisionID f)"
proof -
  note v = assms[unfolded Finding_Validate_def, simplified]
  have two: "2 \<le> card (set (cr_EvidenceIDs c))" if "c \<in> set (elems (fi_ContradictoryEvidence f))" for c
  proof -
    have "ContradictionReference_Validate c = None" using v that by blast
    then have "strictly_sorted (cr_EvidenceIDs c)" "\<not> length (cr_EvidenceIDs c) < 2"
      by (simp_all add: ContradictionReference_Validate_def evidence_list.check_iff)
    then show ?thesis by (simp add: distinct_card strictly_sorted_iff)
  qed
  have cred: "ce_EvidenceIDs x \<noteq> []" if "x \<in> set (elems (fi_PotentialCredentialExposure f))" for x
  proof -
    have "CredentialExposure_Validate x = None" using v that by blast
    then show ?thesis by (simp add: CredentialExposure_Validate_def)
  qed
  have res: "re_EvidenceIDs x \<noteq> []" if "x \<in> set (elems (fi_PotentialResourceExposure f))" for x
  proof -
    have "ResourceExposure_Validate x = None" using v that by blast
    then show ?thesis by (simp add: ResourceExposure_Validate_def)
  qed
  have contra: "fi_State f = ContradictoryEvidence \<Longrightarrow> elems (fi_ContradictoryEvidence f) \<noteq> []" using v by blast
  have exec: "fi_State f = ConfirmedExecuted" if "elems (fi_PotentialCredentialExposure f) \<noteq> [] \<or> elems (fi_PotentialResourceExposure f) \<noteq> []"
    using v that by blast
  have "\<exists>c \<in> set (elems (fi_ContradictoryEvidence f)). 2 \<le> card (set (cr_EvidenceIDs c))" if "fi_State f = ContradictoryEvidence"
    using contra[OF that] two by (meson list.set_intros(1) neq_Nil_conv list.set_sel(1))
  moreover have "fi_SupersedesRevisionID f \<noteq> Some (fi_FindingRevisionID f)" using v by blast
  moreover have "x \<in> set (elems (fi_PotentialCredentialExposure f)) \<Longrightarrow> fi_State f = ConfirmedExecuted"
      "y \<in> set (elems (fi_PotentialResourceExposure f)) \<Longrightarrow> fi_State f = ConfirmedExecuted" for x y
    using exec by (metis empty_iff empty_set)+
  ultimately show ?thesis using v cred res by blast
qed

text \<open>
  an accepted runtime observation of a lifecycle has its step.  When its kind
  supports \<open>executed\<close> the step is present, valid and belongs to the observed job
  execution; when its kind reports a resolution, a download or a preparation it
  carries an exact source object or package digest; and it always has evidence.
\<close>

theorem runtime_observation_identity:
  assumes "RuntimeActionObservation_Validate ob = None"
  shows "(SupportsExecuted (ro_Kind ob) \<longrightarrow>
      (\<exists>step. ro_Step ob = Some step \<and> StepIdentity_Validate step = None \<and> sid_Job step = ro_Execution ob)) \<and>
    (RuntimeObservationKind_Stage (ro_Kind ob) \<in> {StageResolved, StageDownloaded} \<longrightarrow>
      ro_SourceObjectID ob \<noteq> None \<or> ro_PackageDigest ob \<noteq> None) \<and>
    ro_SourceEvidenceIDs ob \<noteq> [] \<and> SortEvidenceIDs (ro_SourceEvidenceIDs ob) = ro_SourceEvidenceIDs ob"
proof -
  note v = assms[unfolded RuntimeActionObservation_Validate_def, simplified]
  have "SortEvidenceIDs (ro_SourceEvidenceIDs ob) = ro_SourceEvidenceIDs ob"
    using v evidence_list.accepted_canonical by blast
  moreover have "\<exists>step. ro_Step ob = Some step \<and> StepIdentity_Validate step = None \<and> sid_Job step = ro_Execution ob"
    if "SupportsExecuted (ro_Kind ob)"
    using v that by (auto simp: SupportsExecuted_def)
  moreover have "ro_SourceObjectID ob \<noteq> None \<or> ro_PackageDigest ob \<noteq> None"
    if "RuntimeObservationKind_Stage (ro_Kind ob) \<in> {StageResolved, StageDownloaded}"
    using v that by (cases "ro_Kind ob") auto
  ultimately show ?thesis using v by blast
qed
text \<open>
  an accepted subject is complete down to the level it names.  A subject with a
  job has a run and an attempt, and the four together are a valid execution identity;
  a subject with a step has a job, and the step belongs to exactly that execution.
\<close>

theorem finding_subject_hierarchy:
  assumes "FindingSubject_Validate s = None"
  shows "(\<forall>job. fs_JobID s = Some job \<longrightarrow>
      (\<exists>run attempt. fs_RunID s = Some run \<and> fs_RunAttempt s = Some attempt \<and>
        JobExecutionIdentity_Validate \<lparr>jid_RepositoryID = rs_ID (fs_Repository s), jid_RunID = run,
          jid_RunAttempt = attempt, jid_JobID = job\<rparr> = None)) \<and>
    (\<forall>step. fs_Step s = Some step \<longrightarrow> StepIdentity_Validate step = None \<and>
      (\<exists>run attempt job. fs_RunID s = Some run \<and> fs_RunAttempt s = Some attempt \<and> fs_JobID s = Some job \<and>
        sid_Job step = \<lparr>jid_RepositoryID = rs_ID (fs_Repository s), jid_RunID = run,
          jid_RunAttempt = attempt, jid_JobID = job\<rparr>))"
proof -
  note v = assms[unfolded FindingSubject_Validate_def RepositorySubject_Validate_def, simplified]
  have run: "\<exists>run. fs_RunID s = Some run \<and> WorkflowRunID_Validate run = None" if "fs_RunAttempt s = Some a" for a
    using v that by auto
  have attempt: "\<exists>a. fs_RunAttempt s = Some a \<and> RunAttempt_Validate a = None" if "fs_JobID s = Some j" for j
    using v that by auto
  have "\<exists>run attempt. fs_RunID s = Some run \<and> fs_RunAttempt s = Some attempt \<and>
        JobExecutionIdentity_Validate \<lparr>jid_RepositoryID = rs_ID (fs_Repository s), jid_RunID = run,
          jid_RunAttempt = attempt, jid_JobID = job\<rparr> = None" if job: "fs_JobID s = Some job" for job
  proof -
    obtain a where a: "fs_RunAttempt s = Some a" "RunAttempt_Validate a = None" using attempt[OF job] by blast
    obtain r where r: "fs_RunID s = Some r" "WorkflowRunID_Validate r = None" using run[OF a(1)] by blast
    show ?thesis using a r v job by (auto simp: JobExecutionIdentity_Validate_def RunAttemptIdentity_Validate_def)
  qed
  moreover have "StepIdentity_Validate step = None \<and>
      (\<exists>run attempt job. fs_RunID s = Some run \<and> fs_RunAttempt s = Some attempt \<and> fs_JobID s = Some job \<and>
        sid_Job step = \<lparr>jid_RepositoryID = rs_ID (fs_Repository s), jid_RunID = run,
          jid_RunAttempt = attempt, jid_JobID = job\<rparr>)" if step: "fs_Step s = Some step" for step
  proof -
    have "\<not> step_disagrees s step" "StepIdentity_Validate step = None" using v step by auto
    then show ?thesis by (cases "sid_Job step") (auto simp: step_disagrees_def)
  qed
  ultimately show ?thesis by blast
qed

lemma validate_attributes_None:
  "validate_attributes n prev as = None \<longleftrightarrow>
     (\<forall>a \<in> set as. validMachineName (pa_Name a) 128 \<and> validateBoundedText (pa_Value a) 4096 ''proposition attribute value'' = None) \<and>
     strictly_sorted ((case prev of None \<Rightarrow> [] | Some p \<Rightarrow> [p]) @ map pa_Name as)"
proof (induction as arbitrary: n prev)
  case (Cons a as)
  show ?case by (cases prev) (auto simp: Cons.IH split: option.splits)
qed (simp split: option.split)

lemma strictly_sorted_names:
  assumes "distinct (map pa_Name as)"
  shows "strictly_sorted (map pa_Name (sort_key (\<lambda>a. (pa_Name a, pa_Value a)) as))"
proof -
  let ?s = "sort_key (\<lambda>a. (pa_Name a, pa_Value a)) as"
  have "sorted (map (\<lambda>a. (pa_Name a, pa_Value a)) ?s)" by (rule sorted_sort_key)
  then have "sorted (map pa_Name ?s)"
    unfolding sorted_map by (rule sorted_wrt_mono_rel[rotated]) (auto simp: less_eq_prod_def)
  moreover have "mset (map pa_Name ?s) = mset (map pa_Name as)" by simp
  then have "distinct (map pa_Name ?s)" using assms mset_eq_imp_distinct_iff by blast
  ultimately show ?thesis by (simp add: strictly_sorted_iff)
qed

text \<open>
  normalization repairs the order of proposition attributes and nothing else.  A
  proposition whose attributes are non-empty, individually valid and named apart
  is accepted after normalization if its other parts are; the attributes are
  the same up to order, any two orders normalize alike, and an accepted non-empty
  list is not changed.
\<close>

theorem normalized_proposition_accepted:
  assumes "elems (pr_Attributes p) \<noteq> []" and "distinct (map pa_Name (elems (pr_Attributes p)))"
  shows "(Proposition_Validate (NormalizeProposition p) = None \<longleftrightarrow>
      Proposition_Validate (p\<lparr>pr_Attributes := Some []\<rparr>) = None \<and>
      list_all (\<lambda>a. validMachineName (pa_Name a) 128 \<and>
        validateBoundedText (pa_Value a) 4096 ''proposition attribute value'' = None) (elems (pr_Attributes p))) \<and>
    mset (elems (pr_Attributes (NormalizeProposition p))) = mset (elems (pr_Attributes p)) \<and>
    NormalizeProposition (NormalizeProposition p) = NormalizeProposition p \<and>
    (Proposition_Validate p = None \<longrightarrow> NormalizeProposition p = p)"
proof -
  let ?k = "\<lambda>a. (pa_Name a, pa_Value a)"
  obtain as where as: "pr_Attributes p = Some as" "as \<noteq> []" using assms(1) by (cases "pr_Attributes p") auto
  have norm: "NormalizeProposition p = p\<lparr>pr_Attributes := Some (sort_key ?k as)\<rparr>"
    using as by (simp add: NormalizeProposition_def)
  have ne: "sort_key ?k as \<noteq> []" using as(2) by (metis mset_sort mset_zero_iff)
  have "strictly_sorted (map pa_Name (sort_key ?k as))"
    using strictly_sorted_names assms(2) as(1) by simp
  then have acc: "Proposition_Validate (NormalizeProposition p) = None \<longleftrightarrow>
      Proposition_Validate (p\<lparr>pr_Attributes := Some []\<rparr>) = None \<and>
      list_all (\<lambda>a. validMachineName (pa_Name a) 128 \<and>
        validateBoundedText (pa_Value a) 4096 ''proposition attribute value'' = None) as"
    unfolding norm by (auto simp: Proposition_Validate_def validate_attributes_None list_all_iff)
  have idem: "NormalizeProposition (NormalizeProposition p) = NormalizeProposition p"
    unfolding norm using ne by (simp add: NormalizeProposition_def sort_key_id_if_sorted)
  have "sort_key ?k as = as" if "Proposition_Validate p = None"
  proof -
    have "strictly_sorted (map pa_Name as)"
      using that as(1) by (simp add: Proposition_Validate_def validate_attributes_None)
    then have "sorted (map ?k as)"
      unfolding sorted_wrt_map by (rule sorted_wrt_mono_rel[rotated]) (auto simp: less_eq_prod_def less_le)
    then show ?thesis by (rule sort_key_id_if_sorted)
  qed
  then show ?thesis using acc idem norm as(1) by simp
qed

text \<open>
  normalization turns a valid proposition without attributes into one that is
  refused.  The explicit empty list becomes nil, and nil is not an explicit array.
\<close>

theorem normalized_empty_attributes_refused:
  assumes "Proposition_Validate p = None" and "pr_Attributes p = Some []"
  shows "Proposition_Validate (NormalizeProposition p) = Some (Errorf ''proposition attributes must be an explicit array'')"
  using assms by (simp add: Proposition_Validate_def NormalizeProposition_def first_error_Some)

lemma secret_bytes:
  assumes "secretNamePattern rs"
  shows "map fst (runes (map char_of rs)) = rs" and "map upper_rune rs = rs"
proof -
  have all: "list_all secret_rest rs"
    using assms by (cases rs) (auto simp: secretNamePattern_def secret_rest_def)
  then have small: "\<forall>r \<in> set rs. r < 0x80 \<and> upper_rune r = r"
    by (auto simp: list_all_iff secret_rest_def secret_start_def upper_rune_def)
  have "byte (char_of r) = r" if "r \<in> set rs" for r
    using small that by (auto simp: byte_def)
  then have "\<forall>c \<in> set (map char_of rs :: string). byte c < 0x80" "map byte (map char_of rs) = rs"
    using small by (auto simp: map_idI)
  then show "map fst (runes (map char_of rs)) = rs" by (simp add: runes_ascii_all o_def)
  show "map upper_rune rs = rs" using small by (simp add: map_idI)
qed

text \<open>
  the constructor of secret names produces a canonical form.  What it returns
  is accepted by the validation and is a fixed point of the constructor, so two
  spellings denote the same secret exactly when they give the same name.
\<close>

theorem secret_name_canonical:
  assumes "NewSecretName v = Inr n"
  shows "SecretName_Validate n = None \<and> NewSecretName (SecretName_string n) = Inr n"
proof -
  define rs where "rs = map (\<lambda>(c, _). upper_rune c) (runes v)"
  have rs: "secretNamePattern rs" "n = SecretName (map char_of rs)"
    using assms by (auto simp: NewSecretName_def rs_def Let_def split: if_splits)
  have up: "map (\<lambda>(c, _). upper_rune c) (runes (map char_of rs)) = rs"
  proof -
    have "map (\<lambda>(c, _). upper_rune c) (runes (map char_of rs)) = map upper_rune (map fst (runes (map char_of rs)))"
      by (simp add: o_def case_prod_unfold)
    then show ?thesis using secret_bytes[OF rs(1)] by metis
  qed
  show ?thesis using rs secret_bytes[OF rs(1)] up by (simp add: SecretName_Validate_def NewSecretName_def)
qed
text \<open>Concrete records on which the statements are instantiated.\<close>

lemma ascii_text: "\<forall>c \<in> set v. byte c < 0x80 \<and> 0x20 \<le> byte c \<and> byte c \<noteq> 0x7F \<Longrightarrow> ValidUTF8 v \<and> \<not> hasASCIIControl v"
  by (auto simp: ValidUTF8_ascii hasASCIIControl_bytes)

lemma validateSHA256_sample [simp]: "validateSHA256 sample_digest l = None"
  using lower_hex_iff[of sample_digest] sample_digest by (simp add: validateSHA256_def)

definition sample_subject :: FindingSubject where
  "sample_subject = \<lparr>fs_Repository = \<lparr>rs_ID = 1, rs_Name = RepositorySlug ''o/r''\<rparr>,
     fs_Workflow = \<lparr>ws_Path = None, ws_DefinitionObjectID = None, ws_UnknownReason = ''gone''\<rparr>,
     fs_RunID = Some 7, fs_RunAttempt = Some 1, fs_JobID = Some 9, fs_Step = None\<rparr>"

definition sample_proposition :: Proposition where
  "sample_proposition = \<lparr>pr_Kind = ''execution'', pr_ActionSourceObjectID = None, pr_PackageDigest = None,
     pr_CalledWorkflowObjectID = None, pr_Attributes = Some []\<rparr>"

definition sample_event_time :: EventInterval where
  "sample_event_time = \<lparr>ei_Start = None, ei_End = None, ei_Bounds = None, ei_Precision = PrecisionUnknown,
     ei_Approximation = ApproximationUnknown, ei_Basis = TimeBasisUnknown\<rparr>"

definition sample_finding :: Finding where
  "sample_finding = \<lparr>fi_SchemaVersion = FindingsSchemaVersion, fi_FindingID = FindingID (''find1:'' @ sample_digest),
     fi_FindingRevisionID = FindingRevisionID (''frev1:'' @ sample_digest),
     fi_Incident = \<lparr>ir_ID = ''inc'', ir_APIVersion = ''v1'', ir_PackVersion = ''1'', ir_SourcePackSHA256 = sample_digest,
       ir_CanonicalPackSHA256 = sample_digest\<rparr>,
     fi_IndicatorID = ''ind'', fi_Subject = sample_subject, fi_State = NoMatchConfirmed, fi_ProvenanceLevel = L4Certain,
     fi_Conclusion = ''none'', fi_Proposition = sample_proposition, fi_EventTime = sample_event_time,
     fi_EvidenceObjectIDs = Some [EvidenceID (''ev1:'' @ sample_digest)], fi_Assumptions = Some [], fi_EvidenceGaps = Some [],
     fi_ContradictoryEvidence = Some [], fi_PotentialCredentialExposure = Some [], fi_PotentialResourceExposure = Some [],
     fi_RemediationGuidance = Some [], fi_CollectionCoverage = Some [CoverageAssessmentID (''cova1:'' @ sample_digest)],
     fi_Derivation = \<lparr>dr_RuleID = ''rule'', dr_RuleVersion = ''1'', dr_FirstProducedAnalysisID = AnalysisSessionID ''a'',
       dr_FirstProducedEngineVersion = ''1'', dr_CanonicalInputsSHA256 = sample_digest\<rparr>,
     fi_CollectionTime = \<lparr>ns = 5, utc = True\<rparr>, fi_SupersedesRevisionID = None\<rparr>"

lemma sample_slug [simp]: "RepositorySlug_Validate (RepositorySlug ''o/r'') = None"
  by (simp add: RepositorySlug_Validate_def NewRepositorySlug_def ascii_text byte_def)

lemma sample_subject_valid: "FindingSubject_Validate sample_subject = None"
  by (simp add: sample_subject_def FindingSubject_Validate_def RepositorySubject_Validate_def WorkflowSubject_Validate_def
      validateBoundedText_def ascii_text byte_def RepositoryID_Validate_def WorkflowRunID_Validate_def
      RunAttempt_Validate_def JobID_Validate_def validatePositive_def)

lemma sample_proposition_valid: "Proposition_Validate sample_proposition = None"
  by (simp add: sample_proposition_def Proposition_Validate_def validMachineName_def machine_rune_def byte_def runes_ascii_all)

lemma sample_finding_valid: "Finding_Validate sample_finding = None"
proof -
  have rev: "FindingRevisionID_Validate (FindingRevisionID (''frev1:'' @ sample_digest)) = None"
    using validateVersionedID_iff[of "''frev1:''" "''frev''"] sample_digest
    by (simp add: FindingRevisionID_Validate_def lower_letter_def byte_def)
  have inc: "IncidentReference_Validate (fi_Incident sample_finding) = None"
    by (simp add: sample_finding_def IncidentReference_Validate_def validBoundedIdentityText_def ascii_text byte_def)
  have der: "DerivationReference_Validate (fi_Derivation sample_finding) = None"
    by (simp add: sample_finding_def DerivationReference_Validate_def validBoundedIdentityText_def ascii_text byte_def
        validMachineName_def machine_rune_def runes_ascii_all AnalysisSessionID_Validate_def validateOpaqueID_def)
  have ids: "validateSortedUniqueEvidenceIDs [EvidenceID (''ev1:'' @ sample_digest)] = None"
    "validateSortedUniqueCoverageAssessmentIDs [CoverageAssessmentID (''cova1:'' @ sample_digest)] = None"
    by (simp_all add: evidence_list.check_iff coverage_list.check_iff sample_ids_valid del: append.simps)
  have "EventInterval_Validate sample_event_time = None"
    by (simp add: sample_event_time_def EventInterval_Validate_def SourcePrecision_defs TimeApproximation_defs EventTimeBasis_defs)
  then show ?thesis
    unfolding Finding_Validate_def
    using rev inc der ids sample_subject_valid sample_proposition_valid sample_ids_valid
    by (simp add: sample_finding_def FindingState_defs ProvenanceLevel_defs validBoundedIdentityText_def
        validateBoundedText_def ascii_text byte_def normalized_def del: append.simps)
qed

lemma sample_coverage_valid: "ValidateFindingCoverage sample_finding [sample_unit] [sample_assessment] = None"
proof -
  have valid: "CoverageUnit_Validate sample_unit = None" "CoverageAssessment_Validate sample_assessment = None"
    using sample_accepted by (simp_all add: accepted_units_def accepted_assessments_def)
  have "\<exists>s. ReconcileCoverage [sample_unit] [sample_assessment] True = (s, None) \<and> AllowsNoMatchConfirmed s"
    by (subst negative_conclusion_closed_iff)
       (use sample_accepted in \<open>simp_all add: sample_assessment_def sample_unit_def material_gap_of_def
          CoverageStatus_Terminal_def CoverageStatus_defs\<close>)
  then have "no_match_coverage [sample_unit] [sample_assessment] = None" by (auto simp: no_match_coverage_def)
  then show ?thesis
    using valid sample_finding_valid
    by (simp add: ValidateFindingCoverage_def check_gap_references_def sample_finding_def)
       (simp add: sample_assessment_def sample_unit_def)
qed

theorem no_match_finding_is_closed_witness:
  "\<exists>a \<in> {sample_assessment}. CoverageStatus_Terminal (ca_Status a) \<and> ca_ID a \<in> set (elems (fi_CollectionCoverage sample_finding))"
proof -
  have "fi_State sample_finding = NoMatchConfirmed" "length (elems (fi_CollectionCoverage sample_finding)) < 2 ^ 64"
    by (simp_all add: sample_finding_def)
  from no_match_finding_is_closed[OF sample_coverage_valid this] obtain as where
    as: "as \<noteq> []" "set as \<subseteq> {sample_assessment}" "map ca_ID as = elems (fi_CollectionCoverage sample_finding)"
      "\<forall>a \<in> set as. CoverageStatus_Terminal (ca_Status a)" by auto
  have "hd as \<in> set as" using as(1) by simp
  moreover have "ca_ID (hd as) \<in> set (map ca_ID as)" using as(1) by simp
  ultimately show ?thesis unfolding as(3) using as(2,4) by auto
qed

theorem finding_references_resolve_witness:
  "\<exists>a \<in> set [sample_assessment]. ca_ID a = CoverageAssessmentID (''cova1:'' @ sample_digest)"
  using finding_references_resolve[OF sample_coverage_valid] by (auto simp: sample_finding_def)

theorem finding_state_support_witness:
  "FindingState_Valid (fi_State sample_finding) \<and> fi_SupersedesRevisionID sample_finding \<noteq> Some (fi_FindingRevisionID sample_finding)"
  using finding_state_support[OF sample_finding_valid] by blast

theorem finding_subject_hierarchy_witness:
  "\<exists>run attempt. fs_RunID sample_subject = Some run \<and> fs_RunAttempt sample_subject = Some attempt"
proof -
  have "fs_JobID sample_subject = Some 9" by (simp add: sample_subject_def)
  then show ?thesis using finding_subject_hierarchy[OF sample_subject_valid] by blast
qed

theorem normalized_proposition_accepted_witness:
  "Proposition_Validate (NormalizeProposition (sample_proposition\<lparr>pr_Attributes :=
     Some [\<lparr>pa_Name = ''b'', pa_Value = []\<rparr>, \<lparr>pa_Name = ''a'', pa_Value = ''x''\<rparr>]\<rparr>)) = None"
proof -
  let ?p = "sample_proposition\<lparr>pr_Attributes := Some [\<lparr>pa_Name = ''b'', pa_Value = []\<rparr>, \<lparr>pa_Name = ''a'', pa_Value = ''x''\<rparr>]\<rparr>"
  have "?p\<lparr>pr_Attributes := Some []\<rparr> = sample_proposition" by (simp add: sample_proposition_def)
  then have "Proposition_Validate (?p\<lparr>pr_Attributes := Some []\<rparr>) = None" using sample_proposition_valid by metis
  then show ?thesis
    using normalized_proposition_accepted[of ?p]
    by (simp add: validMachineName_def machine_rune_def byte_def runes_ascii_all validateBoundedText_def ascii_text
        ValidUTF8_ascii)
qed

theorem normalized_empty_attributes_refused_witness:
  "Proposition_Validate (NormalizeProposition sample_proposition) \<noteq> None"
  using normalized_empty_attributes_refused[OF sample_proposition_valid] by (simp add: sample_proposition_def)

theorem secret_name_canonical_witness:
  "NewSecretName ''DEPLOY_KEY'' = Inr (SecretName ''DEPLOY_KEY'')"
proof -
  have "NewSecretName ''deploy_key'' = Inr (SecretName ''DEPLOY_KEY'')"
    by (simp add: NewSecretName_def runes_ascii_all byte_def upper_rune_def secretNamePattern_def secret_start_def
        secret_rest_def char_of_def bit_0)
  from secret_name_canonical[OF this] show ?thesis by simp
qed

definition sample_observation :: RuntimeActionObservation where
  "sample_observation = \<lparr>ro_ID = RuntimeObservationID (''rtobs1:'' @ sample_digest), ro_Kind = ObservationLifecycleStarted,
     ro_Execution = \<lparr>jid_RepositoryID = 1, jid_RunID = 7, jid_RunAttempt = 1, jid_JobID = 9\<rparr>,
     ro_Step = Some \<lparr>sid_Job = \<lparr>jid_RepositoryID = 1, jid_RunID = 7, jid_RunAttempt = 1, jid_JobID = 9\<rparr>,
       sid_TimelineRecordID = [], sid_APIStepNumber = Some 2, sid_ASTOrdinal = None,
       sid_LifecyclePhase = LifecycleMain, sid_Occurrence = 1\<rparr>,
     ro_ActionRepository = RepositorySlug ''o/r'', ro_ActionSubpath = [], ro_DeclaredRef = ''v1'', ro_SourceObjectID = None,
     ro_PackageDigest = None, ro_ImmutableVersion = [], ro_EventTime = sample_event_time,
     ro_SourceEvidenceIDs = [EvidenceID (''ev1:'' @ sample_digest)],
     ro_SourceSpan = \<lparr>ss_ByteStart = 0, ss_ByteEnd = 10, ss_LineStart = 1, ss_LineEnd = 2\<rparr>,
     ro_ExtractorName = ''x'', ro_ExtractorVersion = ''1'', ro_RulesetSHA256 = sample_digest\<rparr>"

theorem runtime_observation_identity_witness:
  "\<exists>step. ro_Step sample_observation = Some step \<and> sid_Job step = ro_Execution sample_observation"
proof -
  have "RuntimeObservationID_Validate (RuntimeObservationID (''rtobs1:'' @ sample_digest)) = None"
    using validateVersionedID_iff[of "''rtobs1:''" "''rtobs''"] sample_digest
    by (simp add: RuntimeObservationID_Validate_def lower_letter_def byte_def)
  moreover have "validateSortedUniqueEvidenceIDs [EvidenceID (''ev1:'' @ sample_digest)] = None"
    by (simp add: evidence_list.check_iff sample_ids_valid del: append.simps)
  moreover have "EventInterval_Validate sample_event_time = None"
    by (simp add: sample_event_time_def EventInterval_Validate_def SourcePrecision_defs TimeApproximation_defs EventTimeBasis_defs)
  ultimately have "RuntimeActionObservation_Validate sample_observation = None"
    unfolding RuntimeActionObservation_Validate_def
    by (simp add: sample_observation_def RuntimeObservationKind_defs JobExecutionIdentity_Validate_def
        RunAttemptIdentity_Validate_def StepIdentity_Validate_def LifecyclePhase_defs SourceSpan_Validate_def
        validate_defs validMachineName_def machine_rune_def runes_ascii_all validBoundedIdentityText_def ascii_text
        ValidUTF8_ascii hasASCIIControl_bytes byte_def del: append.simps RuntimeObservationID_Validate_def
        EventInterval_Validate_def validateSortedUniqueEvidenceIDs_def validateVersionedID_def RepositorySlug_Validate_def validateSHA256_def)
  from runtime_observation_identity[OF this] show ?thesis
    by (simp add: sample_observation_def SupportsExecuted_def)
qed

end
