(* ===== verification/Match_Derive.thy ===== *)
theory Match_Derive
  imports Model_Finding
begin

text \<open>
  \<open>internal/match/derive.go\<close>: the derivation of a finding state from normalized
  historical facts, and the support contract that is checked before a decision is
  persisted.
\<close>

definition RuleVersion :: string where
  "RuleVersion = ''finding-state-v1alpha1.1''"

record Candidate =
  SameAttemptExactRuntime :: bool
  PreparationCompleted :: bool
  LifecycleStarted :: bool
  LifecycleCompleted :: bool
  DownloadAnnouncedOnly :: bool
  ExactCalledWorkflow :: bool
  HistoricalExactDeclared :: bool
  HistoricalMutableRef :: bool
  RunEventInWindow :: bool
  PotentialTransitiveUse :: bool
  CurrentReference :: bool
  KnownGoodExactRuntime :: bool
  MaterialContradiction :: bool
  RequiredCoverageClosed :: bool
  MaterialEvidenceGap :: bool
  EvidenceIDs :: "EvidenceID list"
  CoverageIDs :: "CoverageAssessmentID list"

text \<open>
  The fields \<open>PotentialTransitive\<close> and \<open>CurrentReferenceOnly\<close> of the source share
  their names with finding states and are \<open>PotentialTransitiveUse\<close> and
  \<open>CurrentReference\<close> here.
\<close>

record Decision =
  de_State :: FindingState
  de_Provenance :: ProvenanceLevel
  de_Conclusion :: string

definition evidenceGap :: Decision where
  "evidenceGap =
     \<lparr>de_State = UnknownEvidenceGap, de_Provenance = L0Unknown,
       de_Conclusion = ''Required evidence is missing, inaccessible, incomplete, or not safely correlated; no compromise or clean-bill conclusion is supported.''\<rparr>"

text \<open>
  The decisions of the rules; each conclusion is one fixed sentence.
\<close>

definition contradictionDecision :: Decision where
  "contradictionDecision =
     \<lparr>de_State = ContradictoryEvidence, de_Provenance = L4Certain,
       de_Conclusion = ''Material runtime, API, or historical-definition evidence disagrees; preserve both accounts and review the evidence chain.''\<rparr>"

definition knownGoodDecision :: Decision where
  "knownGoodDecision =
     \<lparr>de_State = NoMatchConfirmed, de_Provenance = L4Certain,
       de_Conclusion = ''Exact runtime identity was known-good and the required retained evidence was completely examined for this subject.''\<rparr>"

definition executedDecision :: Decision where
  "executedDecision =
     \<lparr>de_State = ConfirmedExecuted, de_Provenance = L4Certain,
       de_Conclusion = ''The exact affected Action identity was resolved for this run attempt and its corresponding lifecycle demonstrably started.''\<rparr>"

definition downloadedDecision :: Decision where
  "downloadedDecision =
     \<lparr>de_State = ConfirmedDownloaded, de_Provenance = L4Certain,
       de_Conclusion = ''The exact affected Action identity completed runner preparation, but execution was not demonstrated.''\<rparr>"

definition calledWorkflowDecision :: Decision where
  "calledWorkflowDecision =
     \<lparr>de_State = ConfirmedCalledWorkflow, de_Provenance = L4Certain,
       de_Conclusion = ''GitHub recorded the exact affected reusable-workflow identity for this run attempt; this does not by itself prove every callee step executed.''\<rparr>"

definition declaredDecision :: Decision where
  "declaredDecision =
     \<lparr>de_State = DeclaredAtRunSHA, de_Provenance = L3Strong,
       de_Conclusion = ''The historical workflow definition at the relevant workflow commit declared the exact affected immutable identity; runtime execution is unconfirmed.''\<rparr>"

definition mutableRefDecision :: Decision where
  "mutableRefDecision =
     \<lparr>de_State = RunInWindowMutableRef, de_Provenance = L2Probable,
       de_Conclusion = ''The historical workflow used an affected mutable reference during its source-supported exposure window; exact runtime resolution is unavailable.''\<rparr>"

definition transitiveDecision :: Decision where
  "transitiveDecision =
     \<lparr>de_State = PotentialTransitive, de_Provenance = L1Possible,
       de_Conclusion = ''The affected component is historically reachable through a wrapper, composite Action, reusable workflow, or embedded dependency, but exact runtime resolution is unavailable.''\<rparr>"

definition currentOnlyDecision :: Decision where
  "currentOnlyDecision =
     \<lparr>de_State = CurrentReferenceOnly, de_Provenance = L1Possible,
       de_Conclusion = ''Only present-day repository configuration references the component; this is not evidence of historical execution.''\<rparr>"

definition noMatchDecision :: Decision where
  "noMatchDecision =
     \<lparr>de_State = NoMatchConfirmed, de_Provenance = L4Certain,
       de_Conclusion = ''All required retained evidence for this subject was examined and no incident indicator matched.''\<rparr>"

definition derive_rules :: "Candidate \<Rightarrow> goerr + Decision" where
  "derive_rules c =
    (if MaterialContradiction c then
       Inr contradictionDecision
     else if KnownGoodExactRuntime c \<and> SameAttemptExactRuntime c then
       (if MaterialEvidenceGap c \<or> \<not> RequiredCoverageClosed c then Inr evidenceGap
        else Inr knownGoodDecision)
     else if SameAttemptExactRuntime c \<and> LifecycleStarted c then
       Inr executedDecision
     else if SameAttemptExactRuntime c \<and> PreparationCompleted c then
       Inr downloadedDecision
     else if ExactCalledWorkflow c then
       Inr calledWorkflowDecision
     else if HistoricalExactDeclared c then
       Inr declaredDecision
     else if HistoricalMutableRef c \<and> RunEventInWindow c \<and> \<not> KnownGoodExactRuntime c then
       Inr mutableRefDecision
     else if PotentialTransitiveUse c then
       Inr transitiveDecision
     else if CurrentReference c then
       Inr currentOnlyDecision
     else if MaterialEvidenceGap c \<or> DownloadAnnouncedOnly c \<or> \<not> RequiredCoverageClosed c then Inr evidenceGap
     else if EvidenceIDs c = [] \<or> CoverageIDs c = [] then
       Inl (Errorf ''NO_MATCH_CONFIRMED requires retained evidence and closed coverage'')
     else
       Inr noMatchDecision)"

text \<open>The candidate is passed by value: the completed lifecycle is added to a local copy.\<close>

definition Derive :: "Candidate \<Rightarrow> goerr + Decision" where
  "Derive c = derive_rules (if LifecycleCompleted c then c\<lparr>LifecycleStarted := True\<rparr> else c)"

definition ValidateEvidenceSupport :: "Candidate \<Rightarrow> Decision \<Rightarrow> goerr option" where
  "ValidateEvidenceSupport c d =
     first_error
      [require (FindingState_Valid (de_State d) \<and> ProvenanceLevel_Valid (de_Provenance d))
         (Errorf ''decision contains a non-canonical state or provenance level''),
       require (\<not> (de_State d = NoMatchConfirmed \<and>
                   (\<not> RequiredCoverageClosed c \<or> MaterialEvidenceGap c \<or> EvidenceIDs c = [] \<or> CoverageIDs c = [])))
         (Errorf ''NO_MATCH_CONFIRMED lacks closure evidence''),
       require (\<not> (de_State d = UnknownEvidenceGap \<and> \<not> MaterialEvidenceGap c \<and> \<not> DownloadAnnouncedOnly c \<and>
                   RequiredCoverageClosed c))
         (Errorf ''UNKNOWN_EVIDENCE_GAP lacks a gap condition''),
       require (\<not> (de_State d = ConfirmedDownloaded \<and> (\<not> SameAttemptExactRuntime c \<or> \<not> PreparationCompleted c)))
         (Errorf ''CONFIRMED_DOWNLOADED requires same-attempt exact identity and completed preparation''),
       require (\<not> (de_State d = ConfirmedExecuted \<and> (\<not> SameAttemptExactRuntime c \<or> \<not> LifecycleStarted c)))
         (Errorf ''CONFIRMED_EXECUTED requires same-attempt exact identity and lifecycle start''),
       require (\<not> (EvidenceIDs c = [] \<and> de_State d \<noteq> UnknownEvidenceGap))
         (Errorf (FindingState_text (de_State d) @ '' requires at least one evidence object''))]"

section \<open>Properties\<close>

text \<open>The three facts about one candidate that every confirmed state is decided by.\<close>

definition started :: "Candidate \<Rightarrow> bool" where
  "started c \<longleftrightarrow> LifecycleStarted c \<or> LifecycleCompleted c"

definition known_good :: "Candidate \<Rightarrow> bool" where
  "known_good c \<longleftrightarrow> KnownGoodExactRuntime c \<and> SameAttemptExactRuntime c"

definition closed_without_gap :: "Candidate \<Rightarrow> bool" where
  "closed_without_gap c \<longleftrightarrow> RequiredCoverageClosed c \<and> \<not> MaterialEvidenceGap c"

definition state_of :: "goerr + Decision \<Rightarrow> FindingState option" where
  "state_of r = (case r of Inl e \<Rightarrow> None | Inr d \<Rightarrow> Some (de_State d))"

text \<open>The states as a function of the facts, without the texts.\<close>

definition derived_state :: "Candidate \<Rightarrow> FindingState option" where
  "derived_state c =
     (if MaterialContradiction c then Some ContradictoryEvidence
      else if known_good c then Some (if closed_without_gap c then NoMatchConfirmed else UnknownEvidenceGap)
      else if SameAttemptExactRuntime c \<and> started c then Some ConfirmedExecuted
      else if SameAttemptExactRuntime c \<and> PreparationCompleted c then Some ConfirmedDownloaded
      else if ExactCalledWorkflow c then Some ConfirmedCalledWorkflow
      else if HistoricalExactDeclared c then Some DeclaredAtRunSHA
      else if HistoricalMutableRef c \<and> RunEventInWindow c \<and> \<not> KnownGoodExactRuntime c then Some RunInWindowMutableRef
      else if PotentialTransitiveUse c then Some PotentialTransitive
      else if CurrentReference c then Some CurrentReferenceOnly
      else if \<not> closed_without_gap c \<or> DownloadAnnouncedOnly c then Some UnknownEvidenceGap
      else if EvidenceIDs c = [] \<or> CoverageIDs c = [] then None
      else Some NoMatchConfirmed)"

lemmas decision_defs =
  contradictionDecision_def knownGoodDecision_def executedDecision_def downloadedDecision_def calledWorkflowDecision_def
  declaredDecision_def mutableRefDecision_def transitiveDecision_def currentOnlyDecision_def noMatchDecision_def evidenceGap_def

lemma decision_states [simp]:
  "de_State contradictionDecision = ContradictoryEvidence"
  "de_State knownGoodDecision = NoMatchConfirmed"
  "de_State executedDecision = ConfirmedExecuted"
  "de_State downloadedDecision = ConfirmedDownloaded"
  "de_State calledWorkflowDecision = ConfirmedCalledWorkflow"
  "de_State declaredDecision = DeclaredAtRunSHA"
  "de_State mutableRefDecision = RunInWindowMutableRef"
  "de_State transitiveDecision = PotentialTransitive"
  "de_State currentOnlyDecision = CurrentReferenceOnly"
  "de_State noMatchDecision = NoMatchConfirmed"
  "de_State evidenceGap = UnknownEvidenceGap"
  by (simp_all add: decision_defs)

text \<open>The decision is fixed by the state, up to the two reasons for a clean subject.\<close>

fun decision_of :: "bool \<Rightarrow> FindingState \<Rightarrow> Decision" where
  "decision_of kg ContradictoryEvidence = contradictionDecision"
| "decision_of kg ConfirmedExecuted = executedDecision"
| "decision_of kg ConfirmedDownloaded = downloadedDecision"
| "decision_of kg ConfirmedCalledWorkflow = calledWorkflowDecision"
| "decision_of kg DeclaredAtRunSHA = declaredDecision"
| "decision_of kg RunInWindowMutableRef = mutableRefDecision"
| "decision_of kg PotentialTransitive = transitiveDecision"
| "decision_of kg CurrentReferenceOnly = currentOnlyDecision"
| "decision_of kg NoMatchConfirmed = (if kg then knownGoodDecision else noMatchDecision)"
| "decision_of kg s = evidenceGap"

lemma Derive_eq:
  "Derive c =
     (case derived_state c of
        None \<Rightarrow> Inl (Errorf ''NO_MATCH_CONFIRMED requires retained evidence and closed coverage'')
      | Some s \<Rightarrow> Inr (decision_of (known_good c) s))"
  by (cases "MaterialContradiction c"; cases "SameAttemptExactRuntime c"; cases "KnownGoodExactRuntime c";
      cases "LifecycleStarted c"; cases "LifecycleCompleted c"; cases "HistoricalMutableRef c"; cases "RunEventInWindow c")
     (simp_all add: Derive_def derive_rules_def derived_state_def started_def known_good_def closed_without_gap_def)

lemma decision_of_state: "derived_state c = Some s \<Longrightarrow> de_State (decision_of kg s) = s"
  by (auto simp: derived_state_def split: if_splits)

lemma state_of_derive: "state_of (Derive c) = derived_state c"
  by (simp add: Derive_eq state_of_def decision_of_state split: option.split)

lemma derived_stateD: "Derive c = Inr d \<Longrightarrow> derived_state c = Some (de_State d)"
  using state_of_derive[of c] by (simp add: state_of_def)

lemma derived_decision_valid:
  assumes "Derive c = Inr d"
  shows "FindingState_Valid (de_State d) \<and> ProvenanceLevel_Valid (de_Provenance d)"
proof -
  obtain s where s: "derived_state c = Some s" "d = decision_of (known_good c) s"
    using assms by (auto simp: Derive_eq split: option.splits)
  have "FindingState_Valid s" using s(1) by (auto simp: derived_state_def FindingState_defs split: if_splits)
  moreover have "ProvenanceLevel_Valid (de_Provenance (decision_of kg s))" for kg
    by (cases s; cases kg) (simp_all add: decision_defs ProvenanceLevel_defs)
  ultimately show ?thesis using s decision_of_state[OF s(1)] by simp
qed

text \<open>
  C13: a confirmed runtime state rests on the exact identity in the same attempt.  The
  decision is CONFIRMED_EXECUTED exactly when that identity is known, it is not
  known-good, its lifecycle started or completed and nothing contradicts it, and
  CONFIRMED_DOWNLOADED exactly when instead of a lifecycle only the preparation
  completed.  A lifecycle without the identity, or a mere download announcement, never
  gives either.
\<close>

theorem confirmed_runtime_states:
  "(state_of (Derive c) = Some ConfirmedExecuted \<longleftrightarrow>
      SameAttemptExactRuntime c \<and> started c \<and> \<not> KnownGoodExactRuntime c \<and> \<not> MaterialContradiction c) \<and>
   (state_of (Derive c) = Some ConfirmedDownloaded \<longleftrightarrow>
      SameAttemptExactRuntime c \<and> PreparationCompleted c \<and> \<not> started c \<and> \<not> KnownGoodExactRuntime c \<and>
      \<not> MaterialContradiction c)"
  unfolding state_of_derive by (auto simp: derived_state_def known_good_def)

text \<open>
  C14: when a subject is declared clean.  NO_MATCH_CONFIRMED needs closed coverage
  without a material gap and no contradiction, and then either an exact runtime
  identity that is known-good, or the absence of every indication together with
  retained evidence and coverage references.
\<close>

theorem no_match_needs_closure:
  "state_of (Derive c) = Some NoMatchConfirmed \<longleftrightarrow>
     \<not> MaterialContradiction c \<and> RequiredCoverageClosed c \<and> \<not> MaterialEvidenceGap c \<and>
     (known_good c \<or>
      \<not> (SameAttemptExactRuntime c \<and> (started c \<or> PreparationCompleted c)) \<and> \<not> ExactCalledWorkflow c \<and>
      \<not> HistoricalExactDeclared c \<and>
      \<not> (HistoricalMutableRef c \<and> RunEventInWindow c \<and> \<not> KnownGoodExactRuntime c) \<and>
      \<not> PotentialTransitiveUse c \<and> \<not> CurrentReference c \<and> \<not> DownloadAnnouncedOnly c \<and>
      EvidenceIDs c \<noteq> [] \<and> CoverageIDs c \<noteq> [])"
  unfolding state_of_derive by (auto simp: derived_state_def known_good_def closed_without_gap_def)

text \<open>
  C15: missing evidence never improves a conclusion.  Adding a material evidence gap to
  a candidate, or reopening its coverage, leaves the decision as it was or turns it
  into UNKNOWN_EVIDENCE_GAP, and never gives NO_MATCH_CONFIRMED.
\<close>

theorem gaps_never_exonerate:
  "(Derive (c\<lparr>MaterialEvidenceGap := True\<rparr>) = Derive c \<or> Derive (c\<lparr>MaterialEvidenceGap := True\<rparr>) = Inr evidenceGap) \<and>
   (Derive (c\<lparr>RequiredCoverageClosed := False\<rparr>) = Derive c \<or> Derive (c\<lparr>RequiredCoverageClosed := False\<rparr>) = Inr evidenceGap) \<and>
   state_of (Derive (c\<lparr>MaterialEvidenceGap := True\<rparr>)) \<noteq> Some NoMatchConfirmed \<and>
   state_of (Derive (c\<lparr>RequiredCoverageClosed := False\<rparr>)) \<noteq> Some NoMatchConfirmed"
proof -
  have gap: "derived_state (c\<lparr>MaterialEvidenceGap := True\<rparr>) \<in> {derived_state c, Some UnknownEvidenceGap} - {Some NoMatchConfirmed}"
    and reopened: "derived_state (c\<lparr>RequiredCoverageClosed := False\<rparr>) \<in> {derived_state c, Some UnknownEvidenceGap} - {Some NoMatchConfirmed}"
    by (cases "MaterialContradiction c"; cases "SameAttemptExactRuntime c"; cases "KnownGoodExactRuntime c";
        cases "LifecycleStarted c \<or> LifecycleCompleted c"; cases "HistoricalMutableRef c"; cases "RunEventInWindow c";
        simp add: derived_state_def known_good_def closed_without_gap_def started_def)+
  have kg: "known_good (c\<lparr>MaterialEvidenceGap := True\<rparr>) = known_good c"
      "known_good (c\<lparr>RequiredCoverageClosed := False\<rparr>) = known_good c"
    by (simp_all add: known_good_def)
  have "Derive d = Derive c \<or> Derive d = Inr evidenceGap"
    if "derived_state d \<in> {derived_state c, Some UnknownEvidenceGap}" "known_good d = known_good c" for d
    unfolding Derive_eq that(2) using that(1) by auto
  then show ?thesis using gap reopened kg by (simp add: state_of_derive)
qed

text \<open>
  C39: the derivation and the support contract agree up to three conditions the
  derivation does not check.  A derived decision passes \<open>ValidateEvidenceSupport\<close>
  exactly when it has evidence or is an evidence gap, a NO_MATCH_CONFIRMED has coverage
  references, and a CONFIRMED_EXECUTED candidate says itself that the lifecycle started.
\<close>

theorem derived_decision_support:
  assumes "Derive c = Inr d"
  shows "ValidateEvidenceSupport c d = None \<longleftrightarrow>
    (EvidenceIDs c \<noteq> [] \<or> de_State d = UnknownEvidenceGap) \<and>
    (de_State d = NoMatchConfirmed \<longrightarrow> CoverageIDs c \<noteq> []) \<and>
    (de_State d = ConfirmedExecuted \<longrightarrow> LifecycleStarted c)"
proof -
  have prov: "ProvenanceLevel_Valid (de_Provenance d)" "FindingState_Valid (de_State d)"
    using derived_decision_valid[OF assms] by simp_all
  have "derived_state c = Some (de_State d)" by (rule derived_stateD[OF assms])
  then have facts: "de_State d = NoMatchConfirmed \<Longrightarrow> RequiredCoverageClosed c \<and> \<not> MaterialEvidenceGap c"
      "de_State d = UnknownEvidenceGap \<Longrightarrow> MaterialEvidenceGap c \<or> DownloadAnnouncedOnly c \<or> \<not> RequiredCoverageClosed c"
      "de_State d = ConfirmedDownloaded \<Longrightarrow> SameAttemptExactRuntime c \<and> PreparationCompleted c"
      "de_State d = ConfirmedExecuted \<Longrightarrow> SameAttemptExactRuntime c"
    by (auto simp: derived_state_def closed_without_gap_def split: if_splits)
  show ?thesis unfolding ValidateEvidenceSupport_def using prov facts by auto
qed

definition no_facts :: Candidate where
  "no_facts = \<lparr>SameAttemptExactRuntime = False, PreparationCompleted = False, LifecycleStarted = False,
     LifecycleCompleted = False, DownloadAnnouncedOnly = False, ExactCalledWorkflow = False,
     HistoricalExactDeclared = False, HistoricalMutableRef = False, RunEventInWindow = False,
     PotentialTransitiveUse = False, CurrentReference = False, KnownGoodExactRuntime = False,
     MaterialContradiction = False, RequiredCoverageClosed = False, MaterialEvidenceGap = False,
     EvidenceIDs = [], CoverageIDs = []\<rparr>"

theorem derived_decision_support_witness:
  "ValidateEvidenceSupport (no_facts\<lparr>MaterialEvidenceGap := True\<rparr>) evidenceGap = None"
proof -
  have "Derive (no_facts\<lparr>MaterialEvidenceGap := True\<rparr>) = Inr evidenceGap"
    by (simp add: Derive_def derive_rules_def no_facts_def)
  from derived_decision_support[OF this] show ?thesis by (simp add: evidenceGap_def)
qed

text \<open>
  C40: an execution seen only through its completion is derived but not supported.  The
  derivation counts a completed lifecycle as started on its own copy, so the contract,
  which reads the original candidate, refuses the CONFIRMED_EXECUTED decision.
\<close>

theorem completed_lifecycle_not_supported:
  assumes "SameAttemptExactRuntime c" and "LifecycleCompleted c" and "\<not> LifecycleStarted c"
    and "\<not> KnownGoodExactRuntime c" and "\<not> MaterialContradiction c"
  shows "\<exists>d. Derive c = Inr d \<and> de_State d = ConfirmedExecuted \<and>
    ValidateEvidenceSupport c d = Some (Errorf ''CONFIRMED_EXECUTED requires same-attempt exact identity and lifecycle start'')"
  using assms
  by (auto simp: Derive_eq derived_state_def known_good_def started_def ValidateEvidenceSupport_def first_error_Some
      FindingState_defs ProvenanceLevel_defs executedDecision_def)

theorem completed_lifecycle_not_supported_witness:
  "\<exists>d. Derive (no_facts\<lparr>SameAttemptExactRuntime := True, LifecycleCompleted := True\<rparr>) = Inr d \<and> de_State d = ConfirmedExecuted"
  using completed_lifecycle_not_supported[of "no_facts\<lparr>SameAttemptExactRuntime := True, LifecycleCompleted := True\<rparr>"]
  by (auto simp: no_facts_def)

end
