(* ===== verification/Go_Utf8.thy ===== *)
theory Go_Utf8
  imports Go_Text
begin

text \<open>
  Encoding of runes: \<open>string(r)\<close> and \<open>WriteRune\<close>, and their agreement with the decoding of
  Go_Text.  A valid string is the encoding of one list of Unicode scalar values.
\<close>

section \<open>Encoding\<close>

text \<open>\<open>string(r)\<close> for a rune that decoding produced.\<close>

definition encode_rune :: "nat \<Rightarrow> string" where
  "encode_rune r =
     map char_of
      (if r < 0x80 then [r]
       else if r < 0x800 then [0xC0 + r div 64, 0x80 + r mod 64]
       else if r < 0x10000 then [0xE0 + r div 4096, 0x80 + r div 64 mod 64, 0x80 + r mod 64]
       else [0xF0 + r div 262144, 0x80 + r div 4096 mod 64, 0x80 + r div 64 mod 64, 0x80 + r mod 64])"

definition hex_char :: "nat \<Rightarrow> char" where
  "hex_char d = char_of (if d < 10 then 0x30 + d else 0x57 + d)"

section \<open>Decoding what was encoded\<close>

lemma byte_char_of [simp]: "byte (char_of n) = n mod 256"
  by (simp add: byte_def)

text \<open>A rune that decoding produces: a Unicode scalar value.\<close>

definition scalar_value :: "nat \<Rightarrow> bool" where
  "scalar_value r \<longleftrightarrow> r < 0xD800 \<or> (0xE000 \<le> r \<and> r < 0x110000)"

lemma div_4096: "(r::nat) div 4096 = r div 64 div 64"
  using div_mult2_eq[of r 64 64] by simp

lemma div_262144: "(r::nat) div 262144 = r div 64 div 64 div 64"
  using div_mult2_eq[of r 64 4096] by (simp add: div_4096)

lemma base64: "(q::nat) div 64 * 64 + q mod 64 = q"
  by simp

lemma digits64: "r div 4096 * 4096 + r div 64 mod 64 * 64 + r mod 64 = (r::nat)"
  unfolding div_4096 using base64[of "r div 64"] base64[of r] by linarith

lemma digits64_four: "r div 262144 * 262144 + r div 4096 mod 64 * 4096 + r div 64 mod 64 * 64 + r mod 64 = (r::nat)"
  unfolding div_4096 div_262144
  using base64[of "r div 64 div 64"] base64[of "r div 64"] base64[of r] by linarith

lemma decode_encode_rune:
  assumes "scalar_value r"
  shows "decode_rune (encode_rune r @ s) = (r, length (encode_rune r))"
proof -
  consider "r < 0x80" | "0x80 \<le> r" "r < 0x800" | "0x800 \<le> r" "r < 0x10000" | "0x10000 \<le> r" "r < 0x110000"
    using assms by (fastforce simp: scalar_value_def)
  then show ?thesis
  proof cases
    case 1
    then show ?thesis by (simp add: encode_rune_def decode_rune_def)
  next
    case 2
    then have b: "2 \<le> r div 64" "r div 64 < 32" using base64[of r] by simp_all
    then have m: "(0xC0 + r div 64) mod 256 = 0xC0 + r div 64" "(0x80 + r mod 64) mod 256 = 0x80 + r mod 64" by simp_all
    show ?thesis using 2 b by (simp add: encode_rune_def decode_rune_def decode_two_def cont_byte_def m)
  next
    case 3
    define q where "q = r div 64"
    have q: "r = q * 64 + r mod 64" "r mod 64 < 64" "q = q div 64 * 64 + q mod 64" "q mod 64 < 64"
      by (simp_all add: q_def)
    have b: "r div 4096 < 16" using 3 by (simp add: div_less_iff_less_mult)
    have m: "(0xE0 + r div 4096) mod 256 = 0xE0 + r div 4096" "(0x80 + r div 64 mod 64) mod 256 = 0x80 + r div 64 mod 64"
        "(0x80 + r mod 64) mod 256 = 0x80 + r mod 64" using b by simp_all
    have low: "r div 4096 = 0 \<Longrightarrow> 32 \<le> r div 64 mod 64" using 3 q
      unfolding div_4096 q_def[symmetric] by linarith
    have sur: "r div 4096 = 13 \<Longrightarrow> r div 64 mod 64 < 32" using assms 3 q
      unfolding scalar_value_def div_4096 q_def[symmetric] by linarith
    have top: "r mod 64 \<le> 63" "r div 64 mod 64 \<le> 63" by (simp_all add: less_Suc_eq_le[symmetric])
    have "r div 4096 = 13 \<Longrightarrow> r div 64 mod 64 \<le> 31" using sur by linarith
    then show ?thesis using 3 b low top digits64[of r]
      by (simp add: encode_rune_def decode_rune_def decode_three_def cont_byte_def m)
  next
    case 4
    define q where "q = r div 4096"
    have q: "r = q * 4096 + r mod 4096" "r mod 4096 < 4096" "q = q div 64 * 64 + q mod 64" "q mod 64 < 64"
      "r div 262144 = q div 64"
      using div_mult_mod_eq[of r 4096] by (simp_all add: q_def div_262144 div_4096[symmetric])
    have b: "r div 262144 < 5" using 4 by (simp add: div_less_iff_less_mult)
    have m: "(0xF0 + r div 262144) mod 256 = 0xF0 + r div 262144" "(0x80 + r div 4096 mod 64) mod 256 = 0x80 + r div 4096 mod 64"
        "(0x80 + r div 64 mod 64) mod 256 = 0x80 + r div 64 mod 64" "(0x80 + r mod 64) mod 256 = 0x80 + r mod 64"
      using b by simp_all
    have low: "r div 262144 = 0 \<Longrightarrow> 16 \<le> r div 4096 mod 64" using 4 q
      unfolding q(5) q_def[symmetric] by linarith
    have high: "r div 262144 = 4 \<Longrightarrow> r div 4096 mod 64 < 16" using 4 q
      unfolding q(5) q_def[symmetric] by linarith
    have "r mod 64 \<le> 63" "r div 64 mod 64 \<le> 63" "r div 4096 mod 64 \<le> 63" by (simp_all add: less_Suc_eq_le[symmetric])
    moreover have "r div 262144 = 4 \<Longrightarrow> r div 4096 mod 64 \<le> 15" using high by linarith
    ultimately show ?thesis using 4 b low digits64_four[of r]
      by (simp add: encode_rune_def decode_rune_def decode_four_def cont_byte_def m)
  qed
qed

lemma encode_rune_nonempty [simp]: "encode_rune r \<noteq> []"
  by (simp add: encode_rune_def)

lemma runes_encode: "scalar_value r \<Longrightarrow> runes (encode_rune r @ s) = (r, length (encode_rune r)) # runes s"
  by (subst runes.simps) (simp add: decode_encode_rune)

lemma scalar_three:
  assumes "k \<le> 15" "x \<le> 63" "y \<le> 63" "k = 13 \<Longrightarrow> x \<le> 31"
  shows "scalar_value (k * 4096 + x * 64 + y)"
proof -
  consider "k \<le> 12" | "k = 13" | "14 \<le> k" by linarith
  then show ?thesis using assms by cases (simp_all add: scalar_value_def)
qed

lemma scalar_four:
  assumes "k \<le> 4" "x \<le> 63" "y \<le> 63" "z \<le> 63" "k = 0 \<Longrightarrow> 16 \<le> x" "k = 4 \<Longrightarrow> x \<le> 15"
  shows "scalar_value (k * 262144 + x * 4096 + y * 64 + z)"
proof -
  consider "k = 0" | "1 \<le> k" "k \<le> 3" | "k = 4" using assms(1) by linarith
  then show ?thesis using assms by cases (simp_all add: scalar_value_def)
qed

lemma cont_digit: "cont_byte c \<Longrightarrow> byte c - 0x80 \<le> 63"
  unfolding cont_byte_def by linarith

lemma scalar_rune_error: "scalar_value rune_error"
  by (simp add: scalar_value_def rune_error_def)

lemma decode_three_scalar: "0xE0 \<le> b \<Longrightarrow> b \<le> 0xEF \<Longrightarrow> scalar_value (fst (decode_three b t))"
  unfolding decode_three_def
  by (auto simp: scalar_rune_error split: list.split intro!: scalar_three cont_digit)

lemma decode_four_scalar: "0xF0 \<le> b \<Longrightarrow> b \<le> 0xF4 \<Longrightarrow> scalar_value (fst (decode_four b t))"
  unfolding decode_four_def
  by (auto simp: scalar_rune_error split: list.split intro!: scalar_four cont_digit)

lemma decode_scalar: "s \<noteq> [] \<Longrightarrow> scalar_value (fst (decode_rune s))"
proof -
  assume "s \<noteq> []"
  have "scalar_value (fst (decode_two b t))" if "b \<le> 0xDF" for b t
    using that scalar_rune_error by (auto simp: decode_two_def scalar_value_def cont_byte_def split: list.split)
  then show ?thesis using \<open>s \<noteq> []\<close> scalar_rune_error decode_three_scalar decode_four_scalar
    by (cases s) (auto simp: decode_rune_def scalar_value_def)
qed

lemma runes_scalar: "x \<in> set (runes s) \<Longrightarrow> scalar_value (fst x)"
proof (induction s rule: runes.induct)
  case (1 s)
  then show ?case by (subst (asm) (2) runes.simps) (auto simp: decode_scalar split: if_splits)
qed

section \<open>Valid strings\<close>

text \<open>\<open>[]rune(s)\<close>: the runes without their sizes.\<close>

definition rune_list :: "string \<Rightarrow> nat list" where
  "rune_list s = map fst (runes s)"

definition encode_runes :: "nat list \<Rightarrow> string" where
  "encode_runes rs = concat (map encode_rune rs)"

lemma encode_runes_simps [simp]:
  "encode_runes [] = []" "encode_runes (r # rs) = encode_rune r @ encode_runes rs"
  by (simp_all add: encode_runes_def)

lemma runes_encode_runes:
  "\<forall>r \<in> set rs. scalar_value r \<Longrightarrow> runes (encode_runes rs) = map (\<lambda>r. (r, length (encode_rune r))) rs"
  by (induction rs) (simp_all add: runes_encode)

lemma char_of_byte: "char_of (byte c) = c"
  by (simp add: byte_def)

lemma split64: "y \<le> 63 \<Longrightarrow> (a * 64 + y) div 64 = a" "y \<le> 63 \<Longrightarrow> (a * 64 + y) mod 64 = (y::nat)"
  by simp_all

lemma char_of_offset: "byte c = q + k \<Longrightarrow> char_of (k + q) = c"
  by (metis add.commute char_of_byte)

lemma decode_two_encodes:
  assumes "0xC2 \<le> byte c0" "byte c0 \<le> 0xDF" "decode_two (byte c0) r \<noteq> (rune_error, 1)"
  shows "\<exists>c1 t. r = c1 # t \<and> encode_rune (fst (decode_two (byte c0) r)) = [c0, c1] \<and> snd (decode_two (byte c0) r) = 2"
proof -
  obtain c1 t where r: "r = c1 # t" "cont_byte c1"
    using assms(3) by (auto simp: decode_two_def split: list.splits if_splits)
  define q where "q = byte c0 - 0xC0"
  define x where "x = byte c1 - 0x80"
  have qx: "byte c0 = q + 0xC0" "byte c1 = x + 0x80" "2 \<le> q" "q \<le> 31" "x \<le> 63"
    using assms(1,2) r(2) by (auto simp: q_def x_def cont_byte_def)
  have "encode_rune (q * 64 + x) = map char_of [0xC0 + q, 0x80 + x]"
    using qx by (simp add: encode_rune_def)
  also have "\<dots> = [c0, c1]" unfolding list.map using char_of_offset[OF qx(1)] char_of_offset[OF qx(2)] by simp
  finally have e: "encode_rune (q * 64 + x) = [c0, c1]" .
  have "decode_two (byte c0) r = (q * 64 + x, 2)" using r by (simp add: decode_two_def q_def x_def)
  then show ?thesis using r(1) e by simp
qed

lemma decode_three_encodes:
  assumes "0xE0 \<le> byte c0" "byte c0 \<le> 0xEF" "decode_three (byte c0) r \<noteq> (rune_error, 1)"
  shows "\<exists>c1 c2 t. r = c1 # c2 # t \<and> encode_rune (fst (decode_three (byte c0) r)) = [c0, c1, c2] \<and>
           snd (decode_three (byte c0) r) = 3"
proof -
  obtain c1 c2 t where r: "r = c1 # c2 # t" "cont_byte c1" "cont_byte c2" "byte c0 = 0xE0 \<Longrightarrow> 0xA0 \<le> byte c1"
    using assms(3) by (auto simp: decode_three_def split: list.splits if_splits)
  define q where "q = byte c0 - 0xE0"
  define x where "x = byte c1 - 0x80"
  define y where "y = byte c2 - 0x80"
  have qx: "byte c0 = q + 0xE0" "byte c1 = x + 0x80" "byte c2 = y + 0x80" "q \<le> 15" "x \<le> 63" "y \<le> 63"
    using assms(1,2) r(2,3) by (auto simp: q_def x_def y_def cont_byte_def)
  have low: "q = 0 \<Longrightarrow> 32 \<le> x" using r(4) qx by simp
  let ?n = "q * 4096 + x * 64 + y"
  have n: "0x800 \<le> ?n" "?n < 0x10000" using low qx by (cases "q = 0"; simp)+
  have shape: "?n = (q * 64 + x) * 64 + y" by simp
  have d: "?n div 64 = q * 64 + x" "?n mod 64 = y"
    unfolding shape using split64[OF qx(6)] by blast+
  have d4096: "?n div 4096 = q" unfolding div_4096 d(1) using split64[OF qx(5)] by blast
  have "encode_rune ?n = map char_of [0xE0 + q, 0x80 + x, 0x80 + y]"
    unfolding encode_rune_def using n d d4096 split64(2)[OF qx(5)] by simp
  also have "\<dots> = [c0, c1, c2]"
    unfolding list.map using char_of_offset[OF qx(1)] char_of_offset[OF qx(2)] char_of_offset[OF qx(3)] by simp
  finally have e: "encode_rune ?n = [c0, c1, c2]" .
  have "decode_three (byte c0) r = (?n, 3)"
    using assms(3) r(1) by (auto simp: decode_three_def q_def x_def y_def split: if_splits)
  then show ?thesis using r(1) e by simp
qed

lemma decode_four_encodes:
  assumes "0xF0 \<le> byte c0" "byte c0 \<le> 0xF4" "decode_four (byte c0) r \<noteq> (rune_error, 1)"
  shows "\<exists>c1 c2 c3 t. r = c1 # c2 # c3 # t \<and> encode_rune (fst (decode_four (byte c0) r)) = [c0, c1, c2, c3] \<and>
           snd (decode_four (byte c0) r) = 4"
proof -
  obtain c1 c2 c3 t where r: "r = c1 # c2 # c3 # t" "cont_byte c1" "cont_byte c2" "cont_byte c3"
      "byte c0 = 0xF0 \<Longrightarrow> 0x90 \<le> byte c1" "byte c0 = 0xF4 \<Longrightarrow> byte c1 \<le> 0x8F"
    using assms(3) by (auto simp: decode_four_def split: list.splits if_splits)
  define q where "q = byte c0 - 0xF0"
  define x where "x = byte c1 - 0x80"
  define y where "y = byte c2 - 0x80"
  define z where "z = byte c3 - 0x80"
  have qx: "byte c0 = q + 0xF0" "byte c1 = x + 0x80" "byte c2 = y + 0x80" "byte c3 = z + 0x80"
      "q \<le> 4" "x \<le> 63" "y \<le> 63" "z \<le> 63"
    using assms(1,2) r(2,3,4) by (auto simp: q_def x_def y_def z_def cont_byte_def)
  have low: "q = 0 \<Longrightarrow> 16 \<le> x" using r(5) qx by simp
  let ?n = "q * 262144 + x * 4096 + y * 64 + z"
  have n: "0x10000 \<le> ?n" using low qx by (cases "q = 0"; simp)
  have shape: "?n = ((q * 64 + x) * 64 + y) * 64 + z" by simp
  have d64: "?n div 64 = (q * 64 + x) * 64 + y" "?n mod 64 = z"
    unfolding shape using split64[OF qx(8)] by blast+
  have d4096: "?n div 4096 = q * 64 + x" unfolding div_4096 d64(1) using split64[OF qx(7)] by blast
  have d18: "?n div 262144 = q"
    unfolding div_262144 d64(1) split64(1)[OF qx(7)] using split64[OF qx(6)] by blast
  have m: "((q * 64 + x) * 64 + y) mod 64 = y" "(q * 64 + x) mod 64 = x"
    using split64(2)[OF qx(7)] split64(2)[OF qx(6)] by blast+
  have "encode_rune ?n = map char_of [0xF0 + q, 0x80 + x, 0x80 + y, 0x80 + z]"
    unfolding encode_rune_def d64 d4096 d18 m using n by simp
  also have "\<dots> = [c0, c1, c2, c3]"
    unfolding list.map using char_of_offset[OF qx(1)] char_of_offset[OF qx(2)] char_of_offset[OF qx(3)]
      char_of_offset[OF qx(4)] by simp
  finally have e: "encode_rune ?n = [c0, c1, c2, c3]" .
  have "decode_four (byte c0) r = (?n, 4)"
    using assms(3) r(1) by (auto simp: decode_four_def q_def x_def y_def z_def split: if_splits)
  then show ?thesis using r(1) e by simp
qed

text \<open>A rune that was decoded without an error is encoded by the bytes it was decoded from.\<close>

lemma encode_decode_rune:
  assumes "s \<noteq> []" "decode_rune s \<noteq> (rune_error, 1)"
  shows "encode_rune (fst (decode_rune s)) @ drop (snd (decode_rune s)) s = s"
proof -
  obtain c0 r where s: "s = c0 # r" using assms(1) by (cases s) auto
  consider "byte c0 < 0x80" | "0xC2 \<le> byte c0" "byte c0 \<le> 0xDF" | "0xE0 \<le> byte c0" "byte c0 \<le> 0xEF"
    | "0xF0 \<le> byte c0" "byte c0 \<le> 0xF4"
    using assms(2) s by (fastforce simp: decode_rune_def split: if_splits)
  then show ?thesis
  proof cases
    case 1
    then show ?thesis using s char_of_byte[of c0] by (simp add: decode_rune_def encode_rune_def)
  next
    case 2
    then have "decode_rune s = decode_two (byte c0) r" using s by (simp add: decode_rune_def)
    then show ?thesis using decode_two_encodes[OF 2, of r] assms(2) s by auto
  next
    case 3
    then have "decode_rune s = decode_three (byte c0) r" using s by (simp add: decode_rune_def)
    then show ?thesis using decode_three_encodes[OF 3, of r] assms(2) s by auto
  next
    case 4
    then have "decode_rune s = decode_four (byte c0) r" using s by (simp add: decode_rune_def)
    then show ?thesis using decode_four_encodes[OF 4, of r] assms(2) s by auto
  qed
qed

lemma ValidUTF8_step:
  "s \<noteq> [] \<Longrightarrow> ValidUTF8 s \<longleftrightarrow> decode_rune s \<noteq> (rune_error, 1) \<and> ValidUTF8 (drop (snd (decode_rune s)) s)"
  by (simp add: ValidUTF8_def runes.simps[of s])

lemma encode_rune_list: "ValidUTF8 s \<Longrightarrow> encode_runes (rune_list s) = s"
proof (induction s rule: runes.induct)
  case (1 s)
  show ?case
  proof (cases "s = []")
    case False
    with 1 ValidUTF8_step[OF False] encode_decode_rune[OF False] show ?thesis
      by (simp add: rune_list_def runes.simps[of s])
  qed (simp add: rune_list_def)
qed

lemma rune_list_scalar: "r \<in> set (rune_list s) \<Longrightarrow> scalar_value r"
  using runes_scalar by (auto simp: rune_list_def)

lemma rune_list_inject: "ValidUTF8 s \<Longrightarrow> ValidUTF8 t \<Longrightarrow> rune_list s = rune_list t \<Longrightarrow> s = t"
  using encode_rune_list by metis

lemma rune_list_encode: "\<forall>r \<in> set rs. scalar_value r \<Longrightarrow> rune_list (encode_runes rs) = rs"
  by (simp add: rune_list_def runes_encode_runes comp_def)

end
