(* ===== verification/Github_Types.thy ===== *)
theory Github_Types
  imports Go_Time Go_Utf8 Model_Enums
begin

text \<open>
  \<open>internal/githubapi/types.go\<close> and \<open>internal/githubapi/errors.go\<close>: the transport
  records of the API client, its error classes and its diagnostics.  Maps of
  request parameters are association lists.
\<close>

section \<open>Error classes\<close>

datatype ErrorClass =
    ErrorUnauthorized
  | ErrorForbidden
  | ErrorNotFound
  | ErrorRetentionOrDeletion
  | ErrorAPIVersion
  | ErrorValidation
  | ErrorRateLimited
  | ErrorSecondaryLimit
  | ErrorTransient
  | ErrorRedirectExpired
  | ErrorUnsafeRedirect
  | ErrorSizeLimit
  | ErrorMalformedResponse
  | ErrorUnexpectedMedia
  | ErrorPagination
  | ErrorCancelled
  | ErrorUnsupportedTarget
  | ErrorInvalidRequest
  | ErrorRetryBudget
  | ErrorLocalIO
  | OtherErrorClass string

primrec ErrorClass_text :: "ErrorClass \<Rightarrow> string" where
  "ErrorClass_text ErrorUnauthorized = ''UNAUTHORIZED''"
| "ErrorClass_text ErrorForbidden = ''FORBIDDEN''"
| "ErrorClass_text ErrorNotFound = ''NOT_FOUND''"
| "ErrorClass_text ErrorRetentionOrDeletion = ''RETENTION_OR_DELETION''"
| "ErrorClass_text ErrorAPIVersion = ''API_VERSION_UNSUPPORTED''"
| "ErrorClass_text ErrorValidation = ''VALIDATION_FAILED''"
| "ErrorClass_text ErrorRateLimited = ''RATE_LIMITED''"
| "ErrorClass_text ErrorSecondaryLimit = ''SECONDARY_LIMIT''"
| "ErrorClass_text ErrorTransient = ''TRANSIENT_NETWORK''"
| "ErrorClass_text ErrorRedirectExpired = ''REDIRECT_EXPIRED''"
| "ErrorClass_text ErrorUnsafeRedirect = ''UNSAFE_REDIRECT''"
| "ErrorClass_text ErrorSizeLimit = ''SIZE_LIMIT''"
| "ErrorClass_text ErrorMalformedResponse = ''MALFORMED_RESPONSE''"
| "ErrorClass_text ErrorUnexpectedMedia = ''UNEXPECTED_MEDIA_TYPE''"
| "ErrorClass_text ErrorPagination = ''PAGINATION_FAILURE''"
| "ErrorClass_text ErrorCancelled = ''CANCELLED''"
| "ErrorClass_text ErrorUnsupportedTarget = ''UNSUPPORTED_TARGET''"
| "ErrorClass_text ErrorInvalidRequest = ''INVALID_REQUEST''"
| "ErrorClass_text ErrorRetryBudget = ''RETRY_BUDGET_EXHAUSTED''"
| "ErrorClass_text ErrorLocalIO = ''LOCAL_IO''"
| "ErrorClass_text (OtherErrorClass s) = s"

section \<open>Transport records\<close>

record Actor =
  ac_ID :: int
  ac_Login :: string

record Repository =
  rp_ID :: int
  rp_NodeID :: string
  rp_Name :: string
  rp_FullName :: string
  rp_Private :: bool
  rp_Visibility :: string
  rp_Archived :: bool
  rp_Disabled :: bool
  rp_Fork :: bool
  rp_Owner :: Actor
  rp_DefaultBranch :: string
  rp_UpdatedAt :: "gotime option"

record PullRequestEnd =
  pe_SHA :: string
  pe_Ref :: string
  pe_Repo :: "Repository option"

record PullRequestRef =
  pq_ID :: int
  pq_Number :: int
  pq_Head :: PullRequestEnd
  pq_Base :: PullRequestEnd

record ReferencedWorkflow =
  rw_Path :: string
  rw_SHA :: string
  rw_Ref :: string

record WorkflowRun =
  wr_ID :: int
  wr_NodeID :: string
  wr_RunNumber :: int
  wr_RunAttempt :: int
  wr_WorkflowID :: int
  wr_Path :: string
  wr_Event :: string
  wr_Status :: string
  wr_Conclusion :: string
  wr_CreatedAt :: gotime
  wr_RunStartedAt :: "gotime option"
  wr_UpdatedAt :: "gotime option"
  wr_HeadSHA :: string
  wr_HeadBranch :: string
  wr_Actor :: Actor
  wr_TriggeringActor :: Actor
  wr_PullRequests :: "PullRequestRef list"
  wr_Repository :: "Repository option"
  wr_HeadRepository :: "Repository option"
  wr_CheckSuiteID :: int
  wr_ReferencedWorkflows :: "ReferencedWorkflow list"

record JobStep =
  js_Number :: int
  js_Name :: string
  js_Status :: string
  js_Conclusion :: string
  js_StartedAt :: "gotime option"
  js_CompletedAt :: "gotime option"

record WorkflowJob =
  wj_ID :: int
  wj_NodeID :: string
  wj_RunID :: int
  wj_WorkflowName :: string
  wj_HeadSHA :: string
  wj_HeadBranch :: string
  wj_Status :: string
  wj_Conclusion :: string
  wj_StartedAt :: "gotime option"
  wj_CompletedAt :: "gotime option"
  wj_Name :: string
  wj_Steps :: "JobStep list"
  wj_Labels :: "string list"
  wj_RunnerID :: int
  wj_RunnerName :: string
  wj_RunnerGroupID :: "int option"
  wj_RunnerGroupName :: string

record ResponseMeta =
  rm_Method :: string
  rm_RouteTemplate :: string
  rm_RequestParameters :: "(string \<times> string) list"
  rm_StatusCode :: int
  rm_RequestID :: string
  rm_APIVersion :: string
  rm_ResponseAPIVersion :: string
  rm_MediaType :: string
  rm_ByteLength :: int
  rm_SHA256 :: string
  rm_BodyComplete :: bool
  rm_ETag :: string
  rm_RateLimit :: int
  rm_RateRemaining :: int
  rm_RateUsed :: int
  rm_RateReset :: int
  rm_RateResource :: string
  rm_RetryAfterSeconds :: int
  rm_StartedAt :: gotime
  rm_CompletedAt :: gotime
  rm_ErrorClass :: ErrorClass

record RepositoryList =
  rl_Repositories :: "Repository list"
  rl_Responses :: "ResponseMeta list"

record RunList =
  ru_TotalCount :: int
  ru_Runs :: "WorkflowRun list"
  ru_Responses :: "ResponseMeta list"
  ru_Truncated :: bool

record RunProbe =
  pb_TotalCount :: int
  pb_Responses :: "ResponseMeta list"

record JobList =
  jl_TotalCount :: int
  jl_Jobs :: "WorkflowJob list"
  jl_Responses :: "ResponseMeta list"

record 'a ObjectResult =
  or_Value :: 'a
  or_Responses :: "ResponseMeta list"

section \<open>Errors of the client\<close>

text \<open>
  An error of a collecting operation: one of the standard errors, a wrapped error,
  or the client's \<open>*Error\<close> with its cause.  The empty class of the source is the
  class with the empty text.
\<close>

datatype api_error =
    Error (er_Class: ErrorClass) (er_Operation: string) (er_StatusCode: int) (er_Message: string)
      (er_Retryable: bool) (er_Responses: "ResponseMeta list") (er_Cause: "error option")
and error =
    Plain goerr
  | Wrapped string error
  | API api_error

text \<open>\<open>errors.As(err, &target)\<close> for \<open>*Error\<close>, and \<open>errors.Is\<close> for the two context errors.\<close>

primrec as_api :: "error \<Rightarrow> api_error option" where
  "as_api (Plain e) = None"
| "as_api (Wrapped s e) = as_api e"
| "as_api (API a) = Some a"

fun is_context :: "error \<Rightarrow> bool" where
  "is_context (Plain e) = is_context_error e"
| "is_context (Wrapped s e) = is_context e"
| "is_context (API (Error c op st msg rt rs cause)) = (case cause of None \<Rightarrow> False | Some e \<Rightarrow> is_context e)"

definition IsClass :: "error \<Rightarrow> ErrorClass \<Rightarrow> bool" where
  "IsClass err class = (case as_api err of None \<Rightarrow> False | Some target \<Rightarrow> er_Class target = class)"

fun Join :: "string list \<Rightarrow> string \<Rightarrow> string" where
  "Join [] sep = []"
| "Join [p] sep = p"
| "Join (p # ps) sep = p @ sep @ Join ps sep"

definition Error_Error :: "api_error \<Rightarrow> string" where
  "Error_Error e =
     Join ([''github read''] @
       (if er_Operation e \<noteq> [] then [er_Operation e] else []) @
       (if ErrorClass_text (er_Class e) \<noteq> [] then [ErrorClass_text (er_Class e)] else []) @
       (if er_StatusCode e \<noteq> 0 then [''status '' @ show_int (er_StatusCode e)] else []) @
       (if er_Message e \<noteq> [] then [er_Message e] else [])) '': ''"

section \<open>Diagnostics\<close>

definition maxDiagnosticBytes :: nat where
  "maxDiagnosticBytes = 4096"

text \<open>
  The verb \<open>%04x\<close>; the runes escaped with it are below 0x10000.
\<close>

definition hex4 :: "nat \<Rightarrow> string" where
  "hex4 r = map hex_char [r div 4096 mod 16, r div 256 mod 16, r div 16 mod 16, r mod 16]"

definition unicode_IsControl :: "nat \<Rightarrow> bool" where
  "unicode_IsControl r \<longleftrightarrow> r < 0x20 \<or> (0x7F \<le> r \<and> r < 0xA0)"

definition isBidiControl :: "nat \<Rightarrow> bool" where
  "isBidiControl r \<longleftrightarrow>
     r = 0x061C \<or> r = 0x200E \<or> r = 0x200F \<or> (0x202A \<le> r \<and> r \<le> 0x202E) \<or> (0x2066 \<le> r \<and> r \<le> 0x2069)"

definition render_rune :: "nat \<Rightarrow> string" where
  "render_rune r =
     (if r = 0x0D then [CHR 0x5C, CHR ''r'']
      else if r = 0x0A then [CHR 0x5C, CHR ''n'']
      else if r = 0x09 then [CHR 0x5C, CHR ''t'']
      else if r = 0x1B then CHR 0x5C # ''u001b''
      else if unicode_IsControl r \<or> isBidiControl r then CHR 0x5C # CHR ''u'' # hex4 r
      else encode_rune r)"

primrec sanitize_runes :: "nat list \<Rightarrow> string \<Rightarrow> string" where
  "sanitize_runes [] b = b"
| "sanitize_runes (r # rs) b =
     (if length (render_rune r) > maxDiagnosticBytes - length b then b
      else sanitize_runes rs (b @ render_rune r))"

definition sanitizeDiagnostic :: "string \<Rightarrow> string" where
  "sanitizeDiagnostic value = sanitize_runes (map fst (runes value)) []"

section \<open>Properties\<close>

text \<open>The runes a diagnostic may show: neither a control character nor a bidirectional control.\<close>

definition plain_rune :: "nat \<Rightarrow> bool" where
  "plain_rune r \<longleftrightarrow> \<not> unicode_IsControl r \<and> \<not> isBidiControl r"

definition clean_text :: "string \<Rightarrow> bool" where
  "clean_text t \<longleftrightarrow> (\<forall>x \<in> set (runes t). plain_rune (fst x) \<and> x \<noteq> (rune_error, 1))"

lemma runes_ascii_append: "\<forall>c \<in> set p. byte c < 0x80 \<Longrightarrow> runes (p @ s) = map (\<lambda>c. (byte c, 1)) p @ runes s"
proof (induction p)
  case (Cons c p)
  then show ?case by (subst runes.simps) (simp add: decode_rune_ascii)
qed simp

lemma hex4_bytes: "c \<in> set (hex4 r) \<Longrightarrow> 0x20 \<le> byte c \<and> byte c < 0x7F"
  by (auto simp: hex4_def hex_char_def)

lemma runes_render:
  assumes "scalar_value r"
  shows "\<exists>xs. (\<forall>x \<in> set xs. plain_rune (fst x) \<and> x \<noteq> (rune_error, 1)) \<and> (\<forall>s. runes (render_rune r @ s) = xs @ runes s)"
proof (cases "plain_rune r")
  case True
  then have "render_rune r = encode_rune r"
    by (auto simp: render_rune_def plain_rune_def unicode_IsControl_def isBidiControl_def)
  moreover have "(r, length (encode_rune r)) \<noteq> (rune_error, 1)"
    by (auto simp: encode_rune_def rune_error_def)
  ultimately show ?thesis using True assms
    by (intro exI[of _ "[(r, length (encode_rune r))]"]) (simp add: runes_encode)
next
  case False
  have ascii: "\<forall>c \<in> set (render_rune r). 0x20 \<le> byte c \<and> byte c < 0x7F"
    using False hex4_bytes[of _ r] by (auto simp: render_rune_def plain_rune_def byte_def split: if_splits)
  then have "\<forall>c \<in> set (render_rune r). byte c < 0x80" by auto
  from runes_ascii_append[OF this] show ?thesis using ascii
    by (intro exI[of _ "map (\<lambda>c. (byte c, 1)) (render_rune r)"])
       (auto simp: plain_rune_def unicode_IsControl_def isBidiControl_def rune_error_def)
qed

lemma runes_append_clean:
  assumes "\<forall>r \<in> set rs. scalar_value r"
  shows "\<exists>xs. (\<forall>x \<in> set xs. plain_rune (fst x) \<and> x \<noteq> (rune_error, 1)) \<and>
    (\<forall>s. runes (concat (map render_rune rs) @ s) = xs @ runes s)"
  using assms
proof (induction rs)
  case Nil
  show ?case by (rule exI[of _ "[]"]) simp
next
  case (Cons r rs)
  obtain xs where xs: "\<forall>x \<in> set xs. plain_rune (fst x) \<and> x \<noteq> (rune_error, 1)"
      "\<And>s. runes (concat (map render_rune rs) @ s) = xs @ runes s" using Cons by auto
  obtain ys where ys: "\<forall>x \<in> set ys. plain_rune (fst x) \<and> x \<noteq> (rune_error, 1)"
      "\<And>s. runes (render_rune r @ s) = ys @ runes s" using runes_render[of r] Cons.prems by auto
  show ?case using xs ys by (intro exI[of _ "ys @ xs"]) auto
qed

text \<open>The output is the rendering of an initial part of the runes, as long as it fits.\<close>

lemma sanitize_runes_prefix:
  assumes "length b \<le> maxDiagnosticBytes"
  shows "\<exists>n. sanitize_runes rs b = b @ concat (map render_rune (take n rs)) \<and>
    length (sanitize_runes rs b) \<le> maxDiagnosticBytes \<and>
    (n < length rs \<longrightarrow> maxDiagnosticBytes < length (sanitize_runes rs b) + length (render_rune (rs ! n)))"
  using assms
proof (induction rs arbitrary: b)
  case (Cons r rs)
  show ?case
  proof (cases "length (render_rune r) > maxDiagnosticBytes - length b")
    case True
    then show ?thesis using Cons.prems by (intro exI[of _ 0]) auto
  next
    case False
    then have "length (b @ render_rune r) \<le> maxDiagnosticBytes" using Cons.prems by simp
    from Cons.IH[OF this] obtain n where n: "sanitize_runes rs (b @ render_rune r) = (b @ render_rune r) @ concat (map render_rune (take n rs))"
      "length (sanitize_runes rs (b @ render_rune r)) \<le> maxDiagnosticBytes"
      "n < length rs \<longrightarrow> maxDiagnosticBytes < length (sanitize_runes rs (b @ render_rune r)) + length (render_rune (rs ! n))"
      by blast
    then show ?thesis using False by (intro exI[of _ "Suc n"]) auto
  qed
qed (intro exI[of _ 0], simp)

text \<open>
  a sanitized diagnostic is safe to print and bounded.  Whatever bytes it is
  given, the output is valid UTF-8 of at most 4096 bytes without control
  characters or bidirectional controls; it renders the longest initial part of the
  runes that fits, and no rune or escape is cut.
\<close>

theorem sanitized_diagnostic_clean:
  "length (sanitizeDiagnostic v) \<le> 4096 \<and> ValidUTF8 (sanitizeDiagnostic v) \<and> clean_text (sanitizeDiagnostic v) \<and>
   (\<exists>n. sanitizeDiagnostic v = concat (map render_rune (take n (map fst (runes v)))) \<and>
      (length (runes v) \<le> n \<or> 4096 < length (sanitizeDiagnostic v) + length (render_rune (fst (runes v ! n)))))"
proof -
  let ?rs = "map fst (runes v)"
  obtain n where n: "sanitizeDiagnostic v = concat (map render_rune (take n ?rs))"
      "length (sanitizeDiagnostic v) \<le> 4096"
      "n < length ?rs \<longrightarrow> 4096 < length (sanitizeDiagnostic v) + length (render_rune (?rs ! n))"
    using sanitize_runes_prefix[of "[]" ?rs] unfolding sanitizeDiagnostic_def maxDiagnosticBytes_def append_Nil list.size(3)
    by blast
  have "\<forall>r \<in> set (take n ?rs). scalar_value r" using runes_scalar set_take_subset[of n ?rs] by fastforce
  then obtain xs where xs: "\<forall>x \<in> set xs. plain_rune (fst x) \<and> x \<noteq> (rune_error, 1)"
      "\<And>s. runes (concat (map render_rune (take n ?rs)) @ s) = xs @ runes s" using runes_append_clean by blast
  have "runes (sanitizeDiagnostic v) = xs" using xs(2)[of "[]"] n(1) by simp
  then have "clean_text (sanitizeDiagnostic v)" "ValidUTF8 (sanitizeDiagnostic v)"
    using xs(1) by (auto simp: clean_text_def ValidUTF8_def)
  then show ?thesis using n by (auto simp: not_less[symmetric])
qed

end
