(* ===== verification/Collect_Window.thy ===== *)
theory Collect_Window
  imports Github_Types "HOL-Library.Signed_Division"
begin

text \<open>
  \<open>internal/collect/coverage.go\<close> and \<open>internal/collect/window.go\<close>: collection gaps,
  the recursive partition of a time window against the ceiling of GitHub's filtered
  run search, and the planning of incremental archives.

  The API is an interface of the code (\<open>RunWindowAPI\<close>) and a parameter here: its
  operations read and change an environment \<open>'w\<close>, in which everything outside
  the collector lives, the cancellation of the context included.  The constants of
  the collector's \<open>GapReason\<close> have the prefix \<open>CGap\<close>, to keep them apart from those
  of the model's \<open>GapReason\<close>.
\<close>

section \<open>Gaps\<close>

datatype CollectGapReason =
    CGapUnauthorized
  | CGapForbidden
  | CGapNotFound
  | CGapRetentionOrDeletion
  | CGapRateLimited
  | CGapTransient
  | CGapMalformedResponse
  | CGapPagination
  | CGapAPIVersion
  | CGapValidation
  | CGapRedirectExpired
  | CGapUnsafeRedirect
  | CGapSizeLimit
  | CGapLocalIO
  | CGapDensityCeiling
  | CGapPartitionLimit
  | CGapLiveStateRace
  | CGapAmbiguousCorrelation
  | CGapCancelled
  | CGapUnknown
  | OtherCollectGap string

primrec CollectGapReason_text :: "CollectGapReason \<Rightarrow> string" where
  "CollectGapReason_text CGapUnauthorized = ''UNAUTHORIZED''"
| "CollectGapReason_text CGapForbidden = ''FORBIDDEN''"
| "CollectGapReason_text CGapNotFound = ''NOT_FOUND''"
| "CollectGapReason_text CGapRetentionOrDeletion = ''RETENTION_OR_DELETION''"
| "CollectGapReason_text CGapRateLimited = ''RATE_LIMITED''"
| "CollectGapReason_text CGapTransient = ''TRANSIENT_NETWORK''"
| "CollectGapReason_text CGapMalformedResponse = ''MALFORMED_RESPONSE''"
| "CollectGapReason_text CGapPagination = ''PAGINATION_FAILURE''"
| "CollectGapReason_text CGapAPIVersion = ''API_VERSION_UNSUPPORTED''"
| "CollectGapReason_text CGapValidation = ''VALIDATION_FAILED''"
| "CollectGapReason_text CGapRedirectExpired = ''REDIRECT_EXPIRED''"
| "CollectGapReason_text CGapUnsafeRedirect = ''UNSAFE_REDIRECT''"
| "CollectGapReason_text CGapSizeLimit = ''SIZE_LIMIT''"
| "CollectGapReason_text CGapLocalIO = ''LOCAL_IO''"
| "CollectGapReason_text CGapDensityCeiling = ''DENSITY_CEILING''"
| "CollectGapReason_text CGapPartitionLimit = ''PARTITION_LIMIT''"
| "CollectGapReason_text CGapLiveStateRace = ''LIVE_STATE_RACE''"
| "CollectGapReason_text CGapAmbiguousCorrelation = ''AMBIGUOUS_CORRELATION''"
| "CollectGapReason_text CGapCancelled = ''CANCELLED''"
| "CollectGapReason_text CGapUnknown = ''UNKNOWN''"
| "CollectGapReason_text (OtherCollectGap s) = s"

record Gap =
  gap_Reason :: CollectGapReason
  gap_Scope :: string
  gap_RepositoryID :: int
  gap_RunID :: int
  gap_Attempt :: int
  gap_JobID :: int
  gap_Material :: bool
  gap_Retryable :: bool
  gap_Diagnostic :: string
  gap_Responses :: "ResponseMeta list"

text \<open>The composite literals of the source leave the other fields at their zero values.\<close>

definition zero_gap :: Gap where
  "zero_gap = \<lparr>gap_Reason = OtherCollectGap [], gap_Scope = [], gap_RepositoryID = 0, gap_RunID = 0, gap_Attempt = 0,
     gap_JobID = 0, gap_Material = False, gap_Retryable = False, gap_Diagnostic = [], gap_Responses = []\<rparr>"

fun gap_reason_of_class :: "ErrorClass \<Rightarrow> CollectGapReason" where
  "gap_reason_of_class ErrorUnauthorized = CGapUnauthorized"
| "gap_reason_of_class ErrorForbidden = CGapForbidden"
| "gap_reason_of_class ErrorNotFound = CGapNotFound"
| "gap_reason_of_class ErrorRetentionOrDeletion = CGapRetentionOrDeletion"
| "gap_reason_of_class ErrorAPIVersion = CGapAPIVersion"
| "gap_reason_of_class ErrorValidation = CGapValidation"
| "gap_reason_of_class ErrorInvalidRequest = CGapValidation"
| "gap_reason_of_class ErrorRateLimited = CGapRateLimited"
| "gap_reason_of_class ErrorSecondaryLimit = CGapRateLimited"
| "gap_reason_of_class ErrorTransient = CGapTransient"
| "gap_reason_of_class ErrorRetryBudget = CGapTransient"
| "gap_reason_of_class ErrorRedirectExpired = CGapRedirectExpired"
| "gap_reason_of_class ErrorUnsafeRedirect = CGapUnsafeRedirect"
| "gap_reason_of_class ErrorSizeLimit = CGapSizeLimit"
| "gap_reason_of_class ErrorLocalIO = CGapLocalIO"
| "gap_reason_of_class ErrorMalformedResponse = CGapMalformedResponse"
| "gap_reason_of_class ErrorUnexpectedMedia = CGapMalformedResponse"
| "gap_reason_of_class ErrorPagination = CGapPagination"
| "gap_reason_of_class ErrorCancelled = CGapCancelled"
| "gap_reason_of_class _ = CGapUnknown"

definition GapFromError :: "string \<Rightarrow> int \<Rightarrow> int \<Rightarrow> int \<Rightarrow> error option \<Rightarrow> Gap" where
  "GapFromError scope repositoryID runID attempt err =
     (let gap = zero_gap\<lparr>gap_Reason := CGapUnknown, gap_Scope := scope, gap_RepositoryID := repositoryID,
                  gap_RunID := runID, gap_Attempt := attempt, gap_Material := True\<rparr>
      in case err of
           None \<Rightarrow> gap
         | Some e \<Rightarrow>
             (case as_api e of
                None \<Rightarrow> gap\<lparr>gap_Diagnostic := ''collection operation failed''\<rparr>
              | Some apiErr \<Rightarrow>
                  gap\<lparr>gap_Retryable := er_Retryable apiErr, gap_Diagnostic := Error_Error apiErr,
                      gap_Responses := er_Responses apiErr, gap_Reason := gap_reason_of_class (er_Class apiErr)\<rparr>))"

section \<open>Intervals\<close>

definition Minute :: int where
  "Minute = 60 * Second"

definition Hour :: int where
  "Hour = 60 * Minute"

definition ProvisionalParentLookback :: int where
  "ProvisionalParentLookback = 65 * 24 * Hour"

definition DefaultArchiveOverlap :: int where
  "DefaultArchiveOverlap = 15 * Minute"

record Interval =
  From :: gotime
  To :: gotime

definition NewInterval :: "gotime \<Rightarrow> gotime \<Rightarrow> goerr + Interval" where
  "NewInterval from to =
     (let from = UTC from; to = UTC to
      in if IsZero from \<or> IsZero to \<or> \<not> Before from to
         then Inl (Errorf ''collection interval must be a non-empty half-open UTC interval'')
         else Inr \<lparr>From = from, To = to\<rparr>)"

definition Contains :: "Interval \<Rightarrow> gotime \<Rightarrow> bool" where
  "Contains i value = (let value = UTC value in \<not> Before value (From i) \<and> Before value (To i))"

definition ExpandIncidentDiscoveryWindow :: "Interval \<Rightarrow> goerr + Interval" where
  "ExpandIncidentDiscoveryWindow incident =
     (case NewInterval (From incident) (To incident) of
        Inl e \<Rightarrow> Inl e
      | Inr _ \<Rightarrow> Inr \<lparr>From = AddDur (UTC (From incident)) (- ProvisionalParentLookback), To = UTC (To incident)\<rparr>)"

definition secondCover :: "Interval \<Rightarrow> Interval" where
  "secondCover interval =
     (let from = TruncateTo (UTC (From interval)) Second;
          to = TruncateTo (UTC (To interval)) Second;
          to = (if Before to (To interval) then AddDur to Second else to);
          to = (if \<not> Before from to then AddDur from Second else to)
      in \<lparr>From = from, To = to\<rparr>)"

text \<open>The division of durations truncates; the width of a window that reaches it is positive.\<close>

definition splitWindow :: "Interval \<Rightarrow> int \<Rightarrow> (Interval \<times> Interval) option" where
  "splitWindow window minimum =
     (if SubTime (To window) (From window) \<le> minimum then None
      else let seconds = SubTime (To window) (From window) sdiv Second
           in if seconds < 2 then None
              else let midpoint = TruncateTo (UTC (AddDur (From window) (seconds sdiv 2 * Second))) Second
                   in if \<not> Before (From window) midpoint \<or> \<not> Before midpoint (To window) then None
                      else Some (\<lparr>From = From window, To = midpoint\<rparr>, \<lparr>From = midpoint, To = To window\<rparr>))"

definition createdFilter :: "Interval \<Rightarrow> string" where
  "createdFilter window = FormatRFC3339 (UTC (From window)) @ ''..'' @ FormatRFC3339 (UTC (To window))"

section \<open>Partitioning\<close>

record RepositoryTarget =
  rt_ID :: int
  rt_Owner :: string
  rt_Name :: string

text \<open>
  The interface: the two run queries for an owner, a repository name and a created
  filter, and the state of the context they all receive.
\<close>

record 'w RunWindowAPI =
  ctx_Err :: "'w \<Rightarrow> goerr option \<times> 'w"
  ProbeWorkflowRuns :: "string \<Rightarrow> string \<Rightarrow> string \<Rightarrow> 'w \<Rightarrow> (RunProbe \<times> error option) \<times> 'w"
  ListWorkflowRuns :: "string \<Rightarrow> string \<Rightarrow> string \<Rightarrow> 'w \<Rightarrow> (RunList \<times> error option) \<times> 'w"

datatype PartitionStatus =
    PartitionSplit
  | PartitionComplete
  | PartitionGap
  | PartitionSaturated
  | OtherPartitionStatus string

primrec PartitionStatus_text :: "PartitionStatus \<Rightarrow> string" where
  "PartitionStatus_text PartitionSplit = ''split''"
| "PartitionStatus_text PartitionComplete = ''complete''"
| "PartitionStatus_text PartitionGap = ''gap''"
| "PartitionStatus_text PartitionSaturated = ''saturated''"
| "PartitionStatus_text (OtherPartitionStatus s) = s"

text \<open>A node of the partition tree: its fields and, apart, its children.\<close>

record PartitionInfo =
  pn_Window :: Interval
  pn_CreatedFilter :: string
  pn_TotalCount :: int
  pn_Status :: PartitionStatus
  pn_Responses :: "ResponseMeta list"
  pn_RunCount :: nat
  pn_OverlapRows :: nat

datatype PartitionNode = PartitionNode (pn_info: PartitionInfo) (pn_Children: "PartitionNode list")

definition new_node :: "Interval \<Rightarrow> PartitionInfo" where
  "new_node window = \<lparr>pn_Window = window, pn_CreatedFilter = createdFilter window, pn_TotalCount = 0,
     pn_Status = OtherPartitionStatus [], pn_Responses = [], pn_RunCount = 0, pn_OverlapRows = 0\<rparr>"

record PartitionResult =
  pt_Requested :: Interval
  pt_Queried :: Interval
  pt_Root :: "PartitionNode option"
  pt_Runs :: "WorkflowRun list"
  pt_Gaps :: "Gap list"
  pt_DuplicateObservations :: nat
  pt_OverlapObservations :: nat

record 'w Partitioner =
  par_API :: "'w RunWindowAPI option"
  par_MaxPartitions :: int
  par_MinBucket :: int

text \<open>What the traversal mutates through its pointers, and the environment.\<close>

record 'w Traversal =
  tv_gaps :: "Gap list"
  tv_work :: int
  tv_world :: 'w

primrec assignRunsToWindow :: "PartitionInfo \<Rightarrow> Interval \<Rightarrow> WorkflowRun list \<Rightarrow> WorkflowRun list \<times> PartitionInfo" where
  "assignRunsToWindow node window [] = ([], node)"
| "assignRunsToWindow node window (run # runs) =
     (if Contains window (wr_CreatedAt run)
      then let (assigned, node') = assignRunsToWindow (node\<lparr>pn_RunCount := pn_RunCount node + 1\<rparr>) window runs
           in (run # assigned, node')
      else assignRunsToWindow (node\<lparr>pn_OverlapRows := pn_OverlapRows node + 1\<rparr>) window runs)"

fun countOverlapRows :: "PartitionNode \<Rightarrow> nat" where
  "countOverlapRows (PartitionNode node children) = pn_OverlapRows node + sum_list (map countOverlapRows children)"

definition is_context_opt :: "error option \<Rightarrow> bool" where
  "is_context_opt err = (case err of None \<Rightarrow> False | Some e \<Rightarrow> is_context e)"

definition add_gap :: "Gap \<Rightarrow> 'w Traversal \<Rightarrow> 'w Traversal" where
  "add_gap g t = t\<lparr>tv_gaps := tv_gaps t @ [g]\<rparr>"

text \<open>
  One listing after a probe below the ceiling: the node, the runs of the window and
  the gaps when the count changed or the pagination ended early.
\<close>

definition settle_window ::
    "RepositoryTarget \<Rightarrow> PartitionInfo \<Rightarrow> RunProbe \<Rightarrow> RunList \<Rightarrow> 'w Traversal \<Rightarrow>
     WorkflowRun list \<times> PartitionNode \<times> bool \<times> 'w Traversal" where
  "settle_window repository node probe listed t =
     (let (assigned, node) = assignRunsToWindow node (pn_Window node) (ru_Runs listed);
          countChanged = ru_TotalCount listed \<noteq> pb_TotalCount probe;
          t = (if countChanged
               then add_gap (zero_gap\<lparr>gap_Reason := CGapLiveStateRace, gap_Scope := ''run_partition'',
                      gap_RepositoryID := rt_ID repository, gap_Material := True, gap_Retryable := True,
                      gap_Diagnostic := ''workflow-run total_count changed between probe and pagination''\<rparr>) t
               else t)
      in if ru_TotalCount listed > int (length (ru_Runs listed))
         then (assigned, PartitionNode (node\<lparr>pn_Status := PartitionGap\<rparr>) [], False,
               add_gap (zero_gap\<lparr>gap_Reason := CGapPagination, gap_Scope := ''run_partition'',
                 gap_RepositoryID := rt_ID repository, gap_Material := True, gap_Retryable := True,
                 gap_Diagnostic := ''pagination ended before the reported workflow-run total was collected''\<rparr>) t)
         else (assigned, PartitionNode (node\<lparr>pn_Status := if countChanged then PartitionGap else PartitionComplete\<rparr>) [],
               False, t))"

text \<open>
  What \<open>walk\<close> decides about one window before any recursion: either it is finished,
  or its window has to be split.
\<close>

datatype 'w WalkStep =
    Settled "WorkflowRun list" PartitionNode bool "'w Traversal"
  | MustSplit PartitionInfo "'w Traversal"

definition walk_step ::
    "'w RunWindowAPI \<Rightarrow> int \<Rightarrow> RepositoryTarget \<Rightarrow> Interval \<Rightarrow> 'w Traversal \<Rightarrow> 'w WalkStep" where
  "walk_step api maxPartitions repository window t =
     (let filter = createdFilter window; node = new_node window;
          owner = rt_Owner repository; name = rt_Name repository
      in case ctx_Err api (tv_world t) of
           (Some e, w) \<Rightarrow>
             Settled [] (PartitionNode (node\<lparr>pn_Status := PartitionGap\<rparr>) []) True
               (add_gap (zero_gap\<lparr>gap_Reason := CGapCancelled, gap_Scope := ''run_partition'',
                   gap_RepositoryID := rt_ID repository, gap_Material := True,
                   gap_Diagnostic := ''partition collection cancelled''\<rparr>) (t\<lparr>tv_world := w\<rparr>))
         | (None, w) \<Rightarrow>
             (let t = t\<lparr>tv_world := w, tv_work := tv_work t + 1\<rparr>
              in if tv_work t > maxPartitions then
                   Settled [] (PartitionNode (node\<lparr>pn_Status := PartitionGap\<rparr>) []) False
                     (add_gap (zero_gap\<lparr>gap_Reason := CGapPartitionLimit, gap_Scope := ''run_partition'',
                         gap_RepositoryID := rt_ID repository, gap_Material := True,
                         gap_Diagnostic := ''partition work limit reached''\<rparr>) t)
                 else case ProbeWorkflowRuns api owner name filter (tv_world t) of
                   ((probe, perr), w) \<Rightarrow>
                     (let t = t\<lparr>tv_world := w\<rparr>; node = node\<lparr>pn_Responses := pb_Responses probe\<rparr>
                      in if perr \<noteq> None then
                           Settled [] (PartitionNode (node\<lparr>pn_Status := PartitionGap\<rparr>) []) (is_context_opt perr)
                             (add_gap (GapFromError ''run_partition_probe'' (rt_ID repository) 0 0 perr) t)
                         else let node = node\<lparr>pn_TotalCount := pb_TotalCount probe\<rparr>
                         in if pb_TotalCount probe < 0 then
                           Settled [] (PartitionNode (node\<lparr>pn_Status := PartitionGap\<rparr>) []) False
                             (add_gap (zero_gap\<lparr>gap_Reason := CGapMalformedResponse, gap_Scope := ''run_partition_probe'',
                                 gap_RepositoryID := rt_ID repository, gap_Material := True,
                                 gap_Diagnostic := ''negative total_count''\<rparr>) t)
                         else if pb_TotalCount probe \<ge> 1000 then MustSplit node t
                         else case ListWorkflowRuns api owner name filter (tv_world t) of
                           ((listed, lerr), w) \<Rightarrow>
                             (let t = t\<lparr>tv_world := w\<rparr>;
                                  node = node\<lparr>pn_Responses := pn_Responses node @ ru_Responses listed\<rparr>
                              in if lerr \<noteq> None then
                                   Settled [] (PartitionNode (node\<lparr>pn_Status := PartitionGap\<rparr>) []) (is_context_opt lerr)
                                     (add_gap (GapFromError ''run_partition_pages'' (rt_ID repository) 0 0 lerr) t)
                                 else if ru_Truncated listed \<or> ru_TotalCount listed \<ge> 1000 then
                                   MustSplit (node\<lparr>pn_TotalCount := max (pn_TotalCount node) (ru_TotalCount listed)\<rparr>) t
                                 else (case settle_window repository node probe listed t of
                                         (runs, root, stopped, t') \<Rightarrow> Settled runs root stopped t')))))"

definition window_width :: "Interval \<Rightarrow> nat" where
  "window_width i = nat (ns (To i) - ns (From i))"

lemma splitWindow_Some:
  assumes "splitWindow window minimum = Some (l, r)"
  shows "From l = From window" and "To l = From r" and "To r = To window"
    and "ns (From window) < ns (To l)" and "ns (From r) < ns (To window)"
    and "window_width l < window_width window" and "window_width r < window_width window"
  using assms by (auto simp: splitWindow_def Let_def Before_def window_width_def split: if_splits)

lemma walk_step_MustSplit: "walk_step api mp repository window t = MustSplit node t' \<Longrightarrow> pn_Window node = window"
  by (auto simp: walk_step_def Let_def new_node_def split: prod.splits option.splits if_splits)

text \<open>
  \<open>walk\<close> and \<open>splitOrSaturate\<close> call each other; each split halves the window, so the
  recursion ends whatever the API answers.
\<close>

function walk ::
    "'w RunWindowAPI \<Rightarrow> int \<Rightarrow> int \<Rightarrow> RepositoryTarget \<Rightarrow> Interval \<Rightarrow> 'w Traversal \<Rightarrow>
     WorkflowRun list \<times> PartitionNode \<times> bool \<times> 'w Traversal"
  and splitOrSaturate ::
    "'w RunWindowAPI \<Rightarrow> int \<Rightarrow> int \<Rightarrow> RepositoryTarget \<Rightarrow> PartitionInfo \<Rightarrow> 'w Traversal \<Rightarrow>
     WorkflowRun list \<times> PartitionNode \<times> bool \<times> 'w Traversal" where
  "walk api maxPartitions minBucket repository window t =
     (case walk_step api maxPartitions repository window t of
        Settled runs node stopped t' \<Rightarrow> (runs, node, stopped, t')
      | MustSplit node t' \<Rightarrow> splitOrSaturate api maxPartitions minBucket repository node t')"
| "splitOrSaturate api maxPartitions minBucket repository node t =
     (case splitWindow (pn_Window node) minBucket of
        None \<Rightarrow>
          ([], PartitionNode (node\<lparr>pn_Status := PartitionSaturated\<rparr>) [], False,
           add_gap (zero_gap\<lparr>gap_Reason := CGapDensityCeiling, gap_Scope := ''run_partition'',
             gap_RepositoryID := rt_ID repository, gap_Material := True,
             gap_Diagnostic := ''smallest supported timestamp bucket reached the filtered-search ceiling''\<rparr>) t)
      | Some (leftWindow, rightWindow) \<Rightarrow>
          (let node = node\<lparr>pn_Status := PartitionSplit\<rparr>
           in case walk api maxPartitions minBucket repository leftWindow t of
                (leftRuns, left, stopped, t) \<Rightarrow>
                  if stopped then (leftRuns, PartitionNode node [left], True, t)
                  else case walk api maxPartitions minBucket repository rightWindow t of
                    (rightRuns, right, stopped, t) \<Rightarrow>
                      (leftRuns @ rightRuns, PartitionNode node [left, right], stopped, t)))"
  by pat_completeness auto
termination
proof (relation "measure (\<lambda>x. case x of
    Inl (api, mp, mb, repository, window, t) \<Rightarrow> 2 * window_width window + 1
  | Inr (api, mp, mb, repository, node, t) \<Rightarrow> 2 * window_width (pn_Window node))")
qed (auto dest: walk_step_MustSplit splitWindow_Some(6,7))

declare walk.simps [simp del] splitOrSaturate.simps [simp del]

section \<open>Enumeration\<close>

definition zero_interval :: Interval where
  "zero_interval = \<lparr>From = zero_time, To = zero_time\<rparr>"

definition zero_result :: PartitionResult where
  "zero_result = \<lparr>pt_Requested = zero_interval, pt_Queried = zero_interval, pt_Root = None, pt_Runs = [],
     pt_Gaps = [], pt_DuplicateObservations = 0, pt_OverlapObservations = 0\<rparr>"

text \<open>
  The loop that removes duplicate observations.  The map \<open>seen\<close> from run identifiers is an
  association list; the source ranges over it in an unspecified order and then sorts
  by creation time and identifier, which are unique together.
\<close>

primrec keep_runs ::
    "RepositoryTarget \<Rightarrow> Interval \<Rightarrow> WorkflowRun list \<Rightarrow> PartitionResult \<Rightarrow> (int \<times> WorkflowRun) list \<Rightarrow>
     PartitionResult \<times> (int \<times> WorkflowRun) list" where
  "keep_runs repository requested [] result seen = (result, seen)"
| "keep_runs repository requested (run # runs) result seen =
     (if wr_ID run \<le> 0 \<or> IsZero (wr_CreatedAt run) then
        keep_runs repository requested runs
          (result\<lparr>pt_Gaps := pt_Gaps result @
             [zero_gap\<lparr>gap_Reason := CGapMalformedResponse, gap_Scope := ''workflow_run'',
                gap_RepositoryID := rt_ID repository, gap_RunID := wr_ID run, gap_Material := True,
                gap_Diagnostic := ''workflow run omitted a stable ID or created_at''\<rparr>]\<rparr>) seen
      else if \<not> Contains requested (wr_CreatedAt run) then keep_runs repository requested runs result seen
      else if map_of seen (wr_ID run) \<noteq> None then
        keep_runs repository requested runs
          (result\<lparr>pt_DuplicateObservations := pt_DuplicateObservations result + 1\<rparr>) seen
      else keep_runs repository requested runs result (seen @ [(wr_ID run, run)]))"

definition run_order :: "WorkflowRun \<Rightarrow> int \<times> int" where
  "run_order run = (ns (wr_CreatedAt run), wr_ID run)"

definition Enumerate ::
    "'w Partitioner \<Rightarrow> RepositoryTarget \<Rightarrow> Interval \<Rightarrow> 'w \<Rightarrow> (PartitionResult \<times> goerr option) \<times> 'w" where
  "Enumerate p repository requested w =
     (case par_API p of
        None \<Rightarrow> ((zero_result, Some (Errorf ''run-window API is nil'')), w)
      | Some api \<Rightarrow>
          (case NewInterval (From requested) (To requested) of
             Inl e \<Rightarrow> ((zero_result, Some e), w)
           | Inr _ \<Rightarrow>
               if rt_ID repository \<le> 0 \<or> rt_Owner repository = [] \<or> rt_Name repository = [] then
                 ((zero_result, Some (Errorf ''repository target is incomplete'')), w)
               else
                 let maxPartitions = (if par_MaxPartitions p \<le> 0 then 8192 else par_MaxPartitions p);
                     minBucket = (if par_MinBucket p \<le> 0 then Second else par_MinBucket p);
                     queried = secondCover requested
                 in case walk api maxPartitions minBucket repository queried
                           \<lparr>tv_gaps = [], tv_work = 0, tv_world = w\<rparr> of
                   (runs, root, stopped, t) \<Rightarrow>
                     (let result = zero_result\<lparr>pt_Requested := requested, pt_Queried := queried, pt_Gaps := tv_gaps t,
                                     pt_Root := Some root, pt_OverlapObservations := countOverlapRows root\<rparr>;
                          (cancelled, w) = (if stopped then ctx_Err api (tv_world t) else (None, tv_world t))
                      in if cancelled \<noteq> None then
                           (case ctx_Err api w of (err, w) \<Rightarrow> ((result, err), w))
                         else
                           (case keep_runs repository requested runs result [] of
                              (result, seen) \<Rightarrow>
                                ((result\<lparr>pt_Runs := sort_key run_order (map snd seen)\<rparr>, None), w)))))"

section \<open>Archive planning\<close>

record WatchedRun =
  wa_RepositoryID :: int
  wa_RunID :: int
  wa_CreatedAt :: gotime
  wa_LastSuccessfulRefresh :: gotime
  wa_FinalRefreshComplete :: bool

record ArchivePlan =
  NewParentWindow :: Interval
  Refresh :: "WatchedRun list"
  EvictionEligible :: "WatchedRun list"
  ParentLookback :: int
  DiscoveryOverlap :: int

definition needs_refresh :: "gotime \<Rightarrow> WatchedRun \<Rightarrow> bool" where
  "needs_refresh cutoff run =
     (let boundary = AddDur (UTC (wa_CreatedAt run)) ProvisionalParentLookback
      in Before cutoff boundary \<or> \<not> wa_FinalRefreshComplete run \<or> Before (UTC (wa_LastSuccessfulRefresh run)) boundary)"

primrec assign_watched :: "gotime \<Rightarrow> WatchedRun list \<Rightarrow> ArchivePlan \<Rightarrow> goerr + ArchivePlan" where
  "assign_watched cutoff [] plan = Inr plan"
| "assign_watched cutoff (run # runs) plan =
     (if wa_RepositoryID run \<le> 0 \<or> wa_RunID run \<le> 0 \<or> IsZero (wa_CreatedAt run) then
        Inl (Errorf ''watched run identity and creation time are required'')
      else if needs_refresh cutoff run then assign_watched cutoff runs (plan\<lparr>Refresh := Refresh plan @ [run]\<rparr>)
      else assign_watched cutoff runs (plan\<lparr>EvictionEligible := EvictionEligible plan @ [run]\<rparr>))"

text \<open>
  \<open>sort.Slice\<close> is not stable; runs with the same repository and run identifier may
  end in either order, and the model's stable sort is one of them.
\<close>

definition sortWatched :: "WatchedRun list \<Rightarrow> WatchedRun list" where
  "sortWatched runs = sort_key (\<lambda>r. (wa_RepositoryID r, wa_RunID r)) runs"

definition PlanArchive :: "gotime \<Rightarrow> gotime \<Rightarrow> WatchedRun list \<Rightarrow> goerr + ArchivePlan" where
  "PlanArchive lastSuccessfulWatermark cutoff watched =
     (let cutoff = UTC cutoff
      in if IsZero cutoff then Inl (Errorf ''archive cutoff is required'')
         else let from = (if \<not> IsZero lastSuccessfulWatermark
                          then AddDur (UTC lastSuccessfulWatermark) (- DefaultArchiveOverlap)
                          else AddDur cutoff (- ProvisionalParentLookback))
              in if \<not> Before from cutoff then Inl (Errorf ''archive watermark must precede cutoff after overlap'')
                 else case assign_watched cutoff watched
                        \<lparr>NewParentWindow = \<lparr>From = from, To = cutoff\<rparr>, Refresh = [], EvictionEligible = [],
                         ParentLookback = ProvisionalParentLookback, DiscoveryOverlap = DefaultArchiveOverlap\<rparr> of
                        Inl e \<Rightarrow> Inl e
                      | Inr plan \<Rightarrow>
                          Inr (plan\<lparr>Refresh := sortWatched (Refresh plan),
                                    EvictionEligible := sortWatched (EvictionEligible plan)\<rparr>))"

definition PlanIncrementalArchive :: "Interval \<Rightarrow> gotime \<Rightarrow> WatchedRun list \<Rightarrow> goerr + ArchivePlan" where
  "PlanIncrementalArchive requested lastSuccessfulWatermark watched =
     (case NewInterval (From requested) (To requested) of
        Inl e \<Rightarrow> Inl e
      | Inr _ \<Rightarrow>
          if IsZero lastSuccessfulWatermark then
            (case ExpandIncidentDiscoveryWindow requested of
               Inl e \<Rightarrow> Inl e
             | Inr discovery \<Rightarrow>
                 (case PlanArchive zero_time (To requested) watched of
                    Inl e \<Rightarrow> Inl e
                  | Inr plan \<Rightarrow> Inr (plan\<lparr>NewParentWindow := discovery\<rparr>)))
          else
            (case PlanArchive lastSuccessfulWatermark (To requested) watched of
               Inl e \<Rightarrow> Inl e
             | Inr plan \<Rightarrow>
                 (let plan = (if Before (From (NewParentWindow plan)) (From requested)
                              then plan\<lparr>NewParentWindow := (NewParentWindow plan)\<lparr>From := UTC (From requested)\<rparr>\<rparr>
                              else plan)
                  in if \<not> Before (From (NewParentWindow plan)) (To (NewParentWindow plan))
                     then Inl (Errorf ''archive resume interval is empty after applying the requested start and checkpoint overlap'')
                     else Inr plan)))"

section \<open>The traversal as a recursion over splits\<close>

text \<open>
  A proof rule for \<open>walk\<close> with \<open>splitOrSaturate\<close> unfolded: a window is settled, or
  cannot be split, or its left half stops the traversal, or both halves are walked.
\<close>

abbreviation saturated_gap :: "RepositoryTarget \<Rightarrow> Gap" where
  "saturated_gap repository \<equiv>
     zero_gap\<lparr>gap_Reason := CGapDensityCeiling, gap_Scope := ''run_partition'',
       gap_RepositoryID := rt_ID repository, gap_Material := True,
       gap_Diagnostic := ''smallest supported timestamp bucket reached the filtered-search ceiling''\<rparr>"

lemma walk_rule [case_names settled saturated left_only both]:
  assumes settled: "\<And>window t runs node stopped t'.
      walk_step api mp repository window t = Settled runs node stopped t' \<Longrightarrow> P window t (runs, node, stopped, t')"
    and saturated: "\<And>window t node t'. walk_step api mp repository window t = MustSplit node t' \<Longrightarrow>
      splitWindow window mb = None \<Longrightarrow>
      P window t ([], PartitionNode (node\<lparr>pn_Status := PartitionSaturated\<rparr>) [], False, add_gap (saturated_gap repository) t')"
    and left_only: "\<And>window t node t1 l r lruns lnode t2. walk_step api mp repository window t = MustSplit node t1 \<Longrightarrow>
      splitWindow window mb = Some (l, r) \<Longrightarrow> P l t1 (lruns, lnode, True, t2) \<Longrightarrow>
      P window t (lruns, PartitionNode (node\<lparr>pn_Status := PartitionSplit\<rparr>) [lnode], True, t2)"
    and both: "\<And>window t node t1 l r lruns lnode t2 rruns rnode stopped t3.
      walk_step api mp repository window t = MustSplit node t1 \<Longrightarrow>
      splitWindow window mb = Some (l, r) \<Longrightarrow> P l t1 (lruns, lnode, False, t2) \<Longrightarrow> P r t2 (rruns, rnode, stopped, t3) \<Longrightarrow>
      P window t (lruns @ rruns, PartitionNode (node\<lparr>pn_Status := PartitionSplit\<rparr>) [lnode, rnode], stopped, t3)"
  shows "P window t (walk api mp mb repository window t)"
proof (induction "window_width window" arbitrary: window t rule: less_induct)
  case less
  show ?case
  proof (cases "walk_step api mp repository window t")
    case (Settled runs node stopped t')
    then show ?thesis using settled[OF Settled] by (simp add: walk.simps[of _ _ _ _ window])
  next
    case (MustSplit node t1)
    note w = walk_step_MustSplit[OF MustSplit]
    show ?thesis
    proof (cases "splitWindow window mb")
      case None
      then show ?thesis using saturated[OF MustSplit None]
        by (simp add: walk.simps[of _ _ _ _ window] splitOrSaturate.simps MustSplit w)
    next
      case (Some lr)
      then obtain l r where lr: "splitWindow window mb = Some (l, r)" by (cases lr) auto
      have IH: "P l u (walk api mp mb repository l u)" "P r u (walk api mp mb repository r u)" for u
        using less splitWindow_Some(6,7)[OF lr] by auto
      obtain lruns lnode lstop t2 where left: "walk api mp mb repository l t1 = (lruns, lnode, lstop, t2)"
        by (metis prod_cases4)
      obtain rruns rnode rstop t3 where right: "walk api mp mb repository r t2 = (rruns, rnode, rstop, t3)"
        by (metis prod_cases4)
      show ?thesis
        using left_only[OF MustSplit lr] both[OF MustSplit lr] IH(1)[of t1] IH(2)[of t2]
        by (cases lstop) (simp_all add: walk.simps[of _ _ _ _ window] splitOrSaturate.simps MustSplit w lr left right Let_def)
    qed
  qed
qed

lemma gap_from_error_material [simp]: "gap_Material (GapFromError scope rid run attempt err)"
  by (simp add: GapFromError_def Let_def split: option.split)

lemma assignRunsToWindow_runs: "fst (assignRunsToWindow node window runs) = filter (\<lambda>r. Contains window (wr_CreatedAt r)) runs"
  by (induction runs arbitrary: node) (simp_all add: case_prod_beta Let_def)

lemma assignRunsToWindow_node: "\<exists>a b. snd (assignRunsToWindow node window runs) = node\<lparr>pn_RunCount := a, pn_OverlapRows := b\<rparr>"
proof (induction runs arbitrary: node)
  case Nil
  have "snd (assignRunsToWindow node window []) = node\<lparr>pn_RunCount := pn_RunCount node, pn_OverlapRows := pn_OverlapRows node\<rparr>"
    by simp
  then show ?case by blast
next
  case (Cons r runs)
  show ?case
    using Cons[of "node\<lparr>pn_RunCount := pn_RunCount node + 1\<rparr>"] Cons[of "node\<lparr>pn_OverlapRows := pn_OverlapRows node + 1\<rparr>"]
    by (auto simp: case_prod_beta Let_def)
qed

text \<open>What settles a window: a gap, or a listing that is complete for it.\<close>

definition complete_listing :: "'w RunWindowAPI \<Rightarrow> RepositoryTarget \<Rightarrow> Interval \<Rightarrow> WorkflowRun list \<Rightarrow> bool" where
  "complete_listing api repository window runs \<longleftrightarrow>
     (\<exists>listed w w'. ListWorkflowRuns api (rt_Owner repository) (rt_Name repository) (createdFilter window) w = ((listed, None), w') \<and>
        \<not> ru_Truncated listed \<and> ru_TotalCount listed < 1000 \<and> ru_TotalCount listed \<le> int (length (ru_Runs listed)) \<and>
        runs = filter (\<lambda>r. Contains window (wr_CreatedAt r)) (ru_Runs listed))"

definition settled_by ::
    "'w RunWindowAPI \<Rightarrow> RepositoryTarget \<Rightarrow> Interval \<Rightarrow> WorkflowRun list \<Rightarrow> PartitionNode \<Rightarrow> bool \<Rightarrow> Gap list \<Rightarrow> bool" where
  "settled_by api repository window runs node stopped gaps \<longleftrightarrow>
     pn_Children node = [] \<and> pn_Window (pn_info node) = window \<and> (\<forall>g \<in> set gaps. gap_Material g) \<and>
     (\<forall>r \<in> set runs. Contains window (wr_CreatedAt r)) \<and> (stopped \<longrightarrow> gaps \<noteq> []) \<and>
     (if gaps = [] then pn_Status (pn_info node) = PartitionComplete \<and> complete_listing api repository window runs
      else pn_Status (pn_info node) = PartitionGap)"

lemma settle_window_settles:
  assumes "settle_window repository node probe listed t = (runs, leaf, stopped, t')" and "pn_Window node = window"
    and "ListWorkflowRuns api (rt_Owner repository) (rt_Name repository) (createdFilter window) w = ((listed, None), w')"
    and "\<not> ru_Truncated listed" and "ru_TotalCount listed < 1000"
  shows "\<exists>gaps. tv_gaps t' = tv_gaps t @ gaps \<and> settled_by api repository window runs leaf stopped gaps"
proof -
  obtain assigned node' where a: "assignRunsToWindow node window (ru_Runs listed) = (assigned, node')" by fastforce
  have runs: "assigned = filter (\<lambda>r. Contains window (wr_CreatedAt r)) (ru_Runs listed)"
    using assignRunsToWindow_runs[of node window "ru_Runs listed"] by (simp add: a)
  have win: "pn_Window node' = window" using assignRunsToWindow_node[of node window "ru_Runs listed"] assms(2) by (auto simp: a)
  have list: "ru_TotalCount listed \<le> int (length (ru_Runs listed)) \<Longrightarrow> complete_listing api repository window assigned"
    unfolding complete_listing_def using assms(3-5) runs by blast
  define changed where "changed \<longleftrightarrow> ru_TotalCount listed \<noteq> pb_TotalCount probe"
  define short where "short \<longleftrightarrow> ru_TotalCount listed > int (length (ru_Runs listed))"
  obtain gaps where gaps: "tv_gaps t' = tv_gaps t @ gaps" "\<forall>g \<in> set gaps. gap_Material g" "gaps = [] \<longleftrightarrow> \<not> changed \<and> \<not> short"
    using assms(1,2) a unfolding settle_window_def Let_def changed_def short_def
    by (cases changed; cases short) (fastforce simp: add_gap_def changed_def short_def)+
  have node: "runs = assigned" "leaf = PartitionNode (node'\<lparr>pn_Status := if changed \<or> short then PartitionGap else PartitionComplete\<rparr>) []"
      "\<not> stopped"
    using assms(1,2) a by (auto simp: settle_window_def Let_def changed_def short_def split: if_splits)
  have "settled_by api repository window runs leaf stopped gaps"
    unfolding settled_by_def node using gaps(2,3) win list node(3) by (auto simp: runs short_def)
  with gaps(1) show ?thesis by blast
qed

lemma walk_step_Settled:
  assumes "walk_step api mp repository window t = Settled runs node stopped t'"
  shows "\<exists>gaps. tv_gaps t' = tv_gaps t @ gaps \<and> settled_by api repository window runs node stopped gaps"
proof -
  obtain c w1 where c: "ctx_Err api (tv_world t) = (c, w1)" by fastforce
  obtain probe perr w2 where p: "ProbeWorkflowRuns api (rt_Owner repository) (rt_Name repository) (createdFilter window) w1 = ((probe, perr), w2)"
    by (metis surj_pair)
  obtain listed lerr w3 where l: "ListWorkflowRuns api (rt_Owner repository) (rt_Name repository) (createdFilter window) w2 = ((listed, lerr), w3)"
    by (metis surj_pair)
  consider (gap) g where "tv_gaps t' = tv_gaps t @ [g]" "gap_Material g" "runs = []" "pn_Children node = []"
      "pn_Window (pn_info node) = window" "pn_Status (pn_info node) = PartitionGap"
    | (list) leaf u where "settle_window repository leaf probe listed u = (runs, node, stopped, t')" "pn_Window leaf = window"
      "lerr = None" "\<not> ru_Truncated listed" "ru_TotalCount listed < 1000" "tv_gaps u = tv_gaps t"
    using assms c p l
    by (auto simp: walk_step_def Let_def add_gap_def new_node_def split: option.splits if_splits prod.splits)
  then show ?thesis
  proof cases
    case gap
    then show ?thesis by (intro exI[of _ "[g]"]) (simp add: settled_by_def)
  next
    case list
    from settle_window_settles[OF list(1,2) _ list(4,5), of api] l list(3,6) show ?thesis by simp
  qed
qed

lemma walk_step_splits:
  assumes "walk_step api mp repository window t = MustSplit node t'"
  shows "tv_gaps t' = tv_gaps t" and "tv_work t' = tv_work t + 1" and "tv_work t' \<le> mp"
  using assms
  by (auto simp: walk_step_def Let_def settle_window_def add_gap_def split: prod.splits option.splits if_splits)
section \<open>Exact splits\<close>

text \<open>
  A family of windows obtained from one window by splitting some of them, in order.
\<close>

inductive splits_into :: "('i \<Rightarrow> ('i \<times> 'i) option) \<Rightarrow> 'i \<Rightarrow> 'i list \<Rightarrow> bool" for split where
  whole: "splits_into split w [w]"
| halves: "split w = Some (l, r) \<Longrightarrow> splits_into split l ls \<Longrightarrow> splits_into split r rs \<Longrightarrow> splits_into split w (ls @ rs)"

inductive_cases splits_intoE: "splits_into split w ws"

text \<open>
  The contract of a window split: the two halves have exactly the points of the
  window, and no point in common.  Then any family obtained by splitting has each
  point of the window in exactly one member.
\<close>

locale exact_split =
  fixes contains :: "'i \<Rightarrow> 't \<Rightarrow> bool" and split :: "'i \<Rightarrow> ('i \<times> 'i) option"
  assumes halves_cover: "split w = Some (l, r) \<Longrightarrow> contains w x \<longleftrightarrow> contains l x \<or> contains r x"
    and halves_disjoint: "split w = Some (l, r) \<Longrightarrow> contains l x \<Longrightarrow> \<not> contains r x"
begin

lemma members: "splits_into split w ws \<Longrightarrow>
    length (filter (\<lambda>i. contains i x) ws) = (if contains w x then 1 else 0)"
  by (induction rule: splits_into.induct) (auto dest: halves_cover[of _ _ _ x] halves_disjoint[of _ _ _ x])

lemma member_inside: "splits_into split w ws \<Longrightarrow> i \<in> set ws \<Longrightarrow> contains i x \<Longrightarrow> contains w x"
  by (induction arbitrary: i rule: splits_into.induct) (auto dest: halves_cover[of _ _ _ x])

lemma covered: "splits_into split w ws \<Longrightarrow> contains w x \<Longrightarrow> \<exists>i \<in> set ws. contains i x"
  by (induction rule: splits_into.induct) (auto dest: halves_cover[of _ _ _ x])

end

lemma Contains_iff: "Contains i x \<longleftrightarrow> ns (From i) \<le> ns x \<and> ns x < ns (To i)"
  by (auto simp: Contains_def Before_def)

interpretation window_split: exact_split Contains "\<lambda>w. splitWindow w minBucket" for minBucket
proof
  fix w l r x
  assume s: "splitWindow w minBucket = Some (l, r)"
  note s = splitWindow_Some(1-5)[OF s]
  show "Contains w x \<longleftrightarrow> Contains l x \<or> Contains r x" and "Contains l x \<Longrightarrow> \<not> Contains r x"
    using s by (auto simp: Contains_iff)
qed

section \<open>Invariants of the traversal\<close>

fun leaves :: "PartitionNode \<Rightarrow> PartitionInfo list" where
  "leaves (PartitionNode i []) = [i]"
| "leaves (PartitionNode i (c # cs)) = concat (map leaves (c # cs))"

fun inner_nodes :: "PartitionNode \<Rightarrow> nat" where
  "inner_nodes (PartitionNode i cs) = (if cs = [] then 0 else 1) + sum_list (map inner_nodes cs)"

lemma leaves_childless: "pn_Children node = [] \<Longrightarrow> leaves node = [pn_info node]"
  by (cases node) simp

lemma inner_childless: "pn_Children node = [] \<Longrightarrow> inner_nodes node = 0"
  by (cases node) simp

text \<open>The gaps a traversal adds, and what they say about its leaves.\<close>

definition accounted :: "Interval \<Rightarrow> 'w Traversal \<Rightarrow> WorkflowRun list \<times> PartitionNode \<times> bool \<times> 'w Traversal \<Rightarrow> bool" where
  "accounted window t r \<longleftrightarrow>
     (case r of (runs, node, stopped, t') \<Rightarrow>
       (\<forall>run \<in> set runs. Contains window (wr_CreatedAt run)) \<and>
       (\<exists>gaps. tv_gaps t' = tv_gaps t @ gaps \<and> (\<forall>g \<in> set gaps. gap_Material g) \<and> (stopped \<longrightarrow> gaps \<noteq> []) \<and>
          (gaps = [] \<longleftrightarrow> (\<forall>leaf \<in> set (leaves node). pn_Status leaf = PartitionComplete))))"

lemma walk_accounted: "accounted window t (walk api mp mb repository window t)"
proof (rule walk_rule[of api mp repository accounted])
  fix window :: Interval and t t' :: "'a Traversal" and runs node stopped
  assume "walk_step api mp repository window t = Settled runs node stopped t'"
  from walk_step_Settled[OF this] show "accounted window t (runs, node, stopped, t')"
    by (auto simp: accounted_def settled_by_def leaves_childless split: if_splits)
next
  fix window :: Interval and t t' :: "'a Traversal" and node
  assume "walk_step api mp repository window t = MustSplit node t'"
  from walk_step_splits(1)[OF this]
  show "accounted window t ([], PartitionNode (node\<lparr>pn_Status := PartitionSaturated\<rparr>) [], False, add_gap (saturated_gap repository) t')"
    by (simp add: accounted_def add_gap_def)
next
  fix window l r :: Interval and t t1 t2 :: "'a Traversal" and node lruns lnode
  assume "walk_step api mp repository window t = MustSplit node t1" and s: "splitWindow window mb = Some (l, r)"
    and IH: "accounted l t1 (lruns, lnode, True, t2)"
  from walk_step_splits(1)[OF this(1)] IH
  show "accounted window t (lruns, PartitionNode (node\<lparr>pn_Status := PartitionSplit\<rparr>) [lnode], True, t2)"
    using window_split.halves_cover[OF s] by (fastforce simp: accounted_def)
next
  fix window l r :: Interval and t t1 t2 t3 :: "'a Traversal" and node lruns lnode rruns rnode stopped
  assume "walk_step api mp repository window t = MustSplit node t1" and s: "splitWindow window mb = Some (l, r)"
    and IH1: "accounted l t1 (lruns, lnode, False, t2)" and IH2: "accounted r t2 (rruns, rnode, stopped, t3)"
  from IH1 obtain g1 where g1: "tv_gaps t2 = tv_gaps t1 @ g1" "\<forall>g \<in> set g1. gap_Material g"
      "g1 = [] \<longleftrightarrow> (\<forall>leaf \<in> set (leaves lnode). pn_Status leaf = PartitionComplete)" by (auto simp: accounted_def)
  from IH2 obtain g2 where g2: "tv_gaps t3 = tv_gaps t2 @ g2" "\<forall>g \<in> set g2. gap_Material g" "stopped \<longrightarrow> g2 \<noteq> []"
      "g2 = [] \<longleftrightarrow> (\<forall>leaf \<in> set (leaves rnode). pn_Status leaf = PartitionComplete)" by (auto simp: accounted_def)
  have "tv_gaps t3 = tv_gaps t @ g1 @ g2" using g1(1) g2(1) walk_step_splits(1)[OF \<open>walk_step _ _ _ _ _ = _\<close>] by simp
  moreover have "\<forall>run \<in> set (lruns @ rruns). Contains window (wr_CreatedAt run)"
    using IH1 IH2 window_split.halves_cover[OF s] by (auto simp: accounted_def)
  ultimately show "accounted window t (lruns @ rruns, PartitionNode (node\<lparr>pn_Status := PartitionSplit\<rparr>) [lnode, rnode], stopped, t3)"
    using g1(2,3) g2(2-4) by (auto simp: accounted_def intro!: exI[of _ "g1 @ g2"])
qed

definition tiled :: "int \<Rightarrow> Interval \<Rightarrow> 'w Traversal \<Rightarrow> WorkflowRun list \<times> PartitionNode \<times> bool \<times> 'w Traversal \<Rightarrow> bool" where
  "tiled mb window t r \<longleftrightarrow>
     (case r of (runs, node, stopped, t') \<Rightarrow>
        \<not> stopped \<longrightarrow> splits_into (\<lambda>w. splitWindow w mb) window (map pn_Window (leaves node)))"

lemma walk_tiled: "tiled mb window t (walk api mp mb repository window t)"
proof (rule walk_rule[of api mp repository "tiled mb"])
  fix window :: Interval and t t' :: "'a Traversal" and runs node stopped
  assume "walk_step api mp repository window t = Settled runs node stopped t'"
  from walk_step_Settled[OF this] show "tiled mb window t (runs, node, stopped, t')"
    by (auto simp: tiled_def settled_by_def leaves_childless intro: splits_into.whole)
next
  fix window :: Interval and t t' :: "'a Traversal" and node
  assume "walk_step api mp repository window t = MustSplit node t'"
  from walk_step_MustSplit[OF this]
  show "tiled mb window t ([], PartitionNode (node\<lparr>pn_Status := PartitionSaturated\<rparr>) [], False, add_gap (saturated_gap repository) t')"
    by (simp add: tiled_def splits_into.whole)
qed (simp_all add: tiled_def splits_into.halves)

text \<open>Every inner node cost one unit of work within the limit.\<close>

definition bounded_work :: "int \<Rightarrow> Interval \<Rightarrow> 'w Traversal \<Rightarrow> WorkflowRun list \<times> PartitionNode \<times> bool \<times> 'w Traversal \<Rightarrow> bool" where
  "bounded_work mp window t r \<longleftrightarrow>
     (case r of (runs, node, stopped, t') \<Rightarrow> int (inner_nodes node) + min (tv_work t) mp \<le> min (tv_work t') mp)"

lemma walk_step_work: "walk_step api mp repository window t = Settled runs node stopped t' \<Longrightarrow> tv_work t \<le> tv_work t'"
  by (auto simp: walk_step_def Let_def add_gap_def settle_window_def split: prod.splits option.splits if_splits)

lemma walk_bounded: "bounded_work mp window t (walk api mp mb repository window t)"
proof (rule walk_rule[of api mp repository "bounded_work mp"])
  fix window :: Interval and t t' :: "'a Traversal" and runs node stopped
  assume s: "walk_step api mp repository window t = Settled runs node stopped t'"
  have "pn_Children node = []" using walk_step_Settled[OF s] by (auto simp: settled_by_def)
  then show "bounded_work mp window t (runs, node, stopped, t')"
    using walk_step_work[OF s] by (simp add: bounded_work_def inner_childless)
qed (use walk_step_splits(2,3) in \<open>fastforce simp: bounded_work_def add_gap_def\<close>)+

section \<open>Whole seconds\<close>

definition whole_seconds :: "Interval \<Rightarrow> bool" where
  "whole_seconds i \<longleftrightarrow> ns (From i) mod Second = 0 \<and> ns (To i) mod Second = 0"

lemma mod_second: "0 \<le> (x::int) mod Second" "x mod Second < Second"
  by (rule pos_mod_sign, simp) (rule pos_mod_bound, simp)

lemma secondCover_from: "ns (From (secondCover i)) = ns (From i) - ns (From i) mod Second"
  by (simp add: secondCover_def Let_def ns_TruncateTo)

lemma mod_floor: "(x - x mod Second) mod Second = (0::int)" "(x - x mod Second + Second) mod Second = (0::int)"
proof -
  show f: "(x - x mod Second) mod Second = (0::int)" by (metis mod_diff_right_eq diff_self mod_0)
  show "(x - x mod Second + Second) mod Second = (0::int)" using f by (metis mod_add_self2)
qed

lemma secondCover_to:
  assumes "ns (From i) < ns (To i)"
  shows "ns (To (secondCover i)) =
    (if ns (To i) mod Second = 0 then ns (To i) else ns (To i) - ns (To i) mod Second + Second)"
proof -
  define a where "a = ns (From i) mod Second"
  define b where "b = ns (To i) mod Second"
  have m: "0 \<le> a" "a < Second" "0 \<le> b" "b < Second" unfolding a_def b_def by (rule mod_second)+
  have "ns (To (secondCover i)) =
    (let f = ns (From i) - a; t = ns (To i) - b; t' = (if t < ns (To i) then t + Second else t)
     in if f < t' then t' else f + Second)"
    by (simp add: secondCover_def Let_def ns_TruncateTo Before_def a_def b_def)
  then show ?thesis unfolding b_def[symmetric] using m assms by (cases "b = 0") (simp_all add: Let_def)
qed

lemma secondCover_whole: "ns (From i) < ns (To i) \<Longrightarrow> whole_seconds (secondCover i)"
  unfolding whole_seconds_def secondCover_from
  using mod_floor[of "ns (From i)"] mod_floor[of "ns (To i)"] by (simp only: secondCover_to split: if_split) blast

lemma secondCover_bounds:
  assumes "ns (From i) < ns (To i)"
  shows "ns (From (secondCover i)) \<le> ns (From i)" and "ns (From i) < ns (From (secondCover i)) + Second"
    and "ns (To i) \<le> ns (To (secondCover i))" and "ns (To (secondCover i)) < ns (To i) + Second"
proof -
  note m = mod_second[of "ns (From i)"] mod_second[of "ns (To i)"]
  show "ns (From (secondCover i)) \<le> ns (From i)" and "ns (From i) < ns (From (secondCover i)) + Second"
    unfolding secondCover_from using m by linarith+
  have "ns (To i) \<le> ns (To (secondCover i)) \<and> ns (To (secondCover i)) < ns (To i) + Second"
  proof (cases "ns (To i) mod Second = 0")
    case True
    then show ?thesis by (simp add: secondCover_to[OF assms])
  next
    case False
    then have "ns (To (secondCover i)) = ns (To i) - ns (To i) mod Second + Second" by (simp add: secondCover_to[OF assms])
    then show ?thesis using m False by linarith
  qed
  then show "ns (To i) \<le> ns (To (secondCover i))" "ns (To (secondCover i)) < ns (To i) + Second" by simp_all
qed

lemma splitWindow_whole:
  assumes "splitWindow w mb = Some (l, r)" and "whole_seconds w"
  shows "whole_seconds l" and "whole_seconds r"
  using assms mod_floor(1)
  by (auto simp: whole_seconds_def splitWindow_def Let_def ns_TruncateTo split: if_splits)

section \<open>Completeness under an honest search\<close>

text \<open>
  The documented behaviour of the filtered search, as the code relies on it: a listing
  for a filter with whole seconds that succeeds below the ceiling and returns as
  many runs as it reports has exactly the runs that were created in the window (the
  search range is inclusive; the runs on its upper bound are of no interest here).
\<close>

definition honest_search :: "'w RunWindowAPI \<Rightarrow> RepositoryTarget \<Rightarrow> WorkflowRun set \<Rightarrow> bool" where
  "honest_search api repository truth \<longleftrightarrow>
     (\<forall>window w listed w'. whole_seconds window \<longrightarrow>
        ListWorkflowRuns api (rt_Owner repository) (rt_Name repository) (createdFilter window) w = ((listed, None), w') \<longrightarrow>
        \<not> ru_Truncated listed \<and> ru_TotalCount listed < 1000 \<and> ru_TotalCount listed \<le> int (length (ru_Runs listed)) \<longrightarrow>
        {r \<in> set (ru_Runs listed). Contains window (wr_CreatedAt r)} = {r \<in> truth. Contains window (wr_CreatedAt r)})"

definition found_all ::
    "WorkflowRun set \<Rightarrow> Interval \<Rightarrow> 'w Traversal \<Rightarrow> WorkflowRun list \<times> PartitionNode \<times> bool \<times> 'w Traversal \<Rightarrow> bool" where
  "found_all truth window t r \<longleftrightarrow>
     (case r of (runs, node, stopped, t') \<Rightarrow>
        \<exists>gaps. tv_gaps t' = tv_gaps t @ gaps \<and> (stopped \<longrightarrow> gaps \<noteq> []) \<and>
          (whole_seconds window \<and> gaps = [] \<longrightarrow> set runs = {run \<in> truth. Contains window (wr_CreatedAt run)}))"

lemma walk_found_all:
  assumes "honest_search api repository truth"
  shows "found_all truth window t (walk api mp mb repository window t)"
proof (rule walk_rule[of api mp repository "found_all truth"])
  fix window :: Interval and t t' :: "'a Traversal" and runs node stopped
  assume s: "walk_step api mp repository window t = Settled runs node stopped t'"
  from walk_step_Settled[OF s] obtain gaps where g: "tv_gaps t' = tv_gaps t @ gaps"
      "settled_by api repository window runs node stopped gaps" by blast
  have "set runs = {run \<in> truth. Contains window (wr_CreatedAt run)}" if "whole_seconds window" "gaps = []"
  proof -
    from g(2) that(2) have "complete_listing api repository window runs" by (simp add: settled_by_def)
    then obtain listed w w' where l: "ListWorkflowRuns api (rt_Owner repository) (rt_Name repository) (createdFilter window) w = ((listed, None), w')"
        "\<not> ru_Truncated listed \<and> ru_TotalCount listed < 1000 \<and> ru_TotalCount listed \<le> int (length (ru_Runs listed))"
        "runs = filter (\<lambda>r. Contains window (wr_CreatedAt r)) (ru_Runs listed)"
      unfolding complete_listing_def by blast
    have "{r \<in> set (ru_Runs listed). Contains window (wr_CreatedAt r)} = {r \<in> truth. Contains window (wr_CreatedAt r)}"
      using assms that(1) l(1,2) unfolding honest_search_def by blast
    then show ?thesis using l(3) by simp
  qed
  moreover have "stopped \<longrightarrow> gaps \<noteq> []" using g(2) by (simp add: settled_by_def)
  ultimately show "found_all truth window t (runs, node, stopped, t')"
    unfolding found_all_def prod.case using g(1) by blast
next
  fix window :: Interval and t t' :: "'a Traversal" and node
  assume "walk_step api mp repository window t = MustSplit node t'"
  from walk_step_splits(1)[OF this]
  show "found_all truth window t ([], PartitionNode (node\<lparr>pn_Status := PartitionSaturated\<rparr>) [], False, add_gap (saturated_gap repository) t')"
    by (simp add: found_all_def add_gap_def)
next
  fix window l r :: Interval and t t1 t2 :: "'a Traversal" and node lruns lnode
  assume "walk_step api mp repository window t = MustSplit node t1" and "found_all truth l t1 (lruns, lnode, True, t2)"
  from walk_step_splits(1)[OF this(1)] this(2)
  show "found_all truth window t (lruns, PartitionNode (node\<lparr>pn_Status := PartitionSplit\<rparr>) [lnode], True, t2)"
    by (auto simp: found_all_def)
next
  fix window l r :: Interval and t t1 t2 t3 :: "'a Traversal" and node lruns lnode rruns rnode stopped
  assume m: "walk_step api mp repository window t = MustSplit node t1" and s: "splitWindow window mb = Some (l, r)"
    and IH1: "found_all truth l t1 (lruns, lnode, False, t2)" and IH2: "found_all truth r t2 (rruns, rnode, stopped, t3)"
  from IH1 obtain g1 where g1: "tv_gaps t2 = tv_gaps t1 @ g1"
      "whole_seconds l \<and> g1 = [] \<longrightarrow> set lruns = {run \<in> truth. Contains l (wr_CreatedAt run)}" by (auto simp: found_all_def)
  from IH2 obtain g2 where g2: "tv_gaps t3 = tv_gaps t2 @ g2" "stopped \<longrightarrow> g2 \<noteq> []"
      "whole_seconds r \<and> g2 = [] \<longrightarrow> set rruns = {run \<in> truth. Contains r (wr_CreatedAt run)}" by (auto simp: found_all_def)
  have "tv_gaps t3 = tv_gaps t @ g1 @ g2" using g1(1) g2(1) walk_step_splits(1)[OF m] by simp
  then show "found_all truth window t (lruns @ rruns, PartitionNode (node\<lparr>pn_Status := PartitionSplit\<rparr>) [lnode, rnode], stopped, t3)"
    using g1(2) g2(2,3) splitWindow_whole[OF s] window_split.halves_cover[OF s]
    by (auto simp: found_all_def intro!: exI[of _ "g1 @ g2"])
qed

section \<open>Properties of the enumeration\<close>

lemma keep_runs_result:
  "keep_runs repository requested runs result seen = (result', seen') \<Longrightarrow>
     pt_Root result' = pt_Root result \<and> pt_Queried result' = pt_Queried result \<and> pt_Requested result' = pt_Requested result \<and>
     (\<exists>gaps. pt_Gaps result' = pt_Gaps result @ gaps \<and> (\<forall>g \<in> set gaps. gap_Material g) \<and>
        (gaps = [] \<longrightarrow> (\<forall>r \<in> set runs. 0 < wr_ID r \<and> \<not> IsZero (wr_CreatedAt r)))) \<and>
     pt_DuplicateObservations result' + length seen' = pt_DuplicateObservations result + length seen +
       length (filter (\<lambda>r. 0 < wr_ID r \<and> \<not> IsZero (wr_CreatedAt r) \<and> Contains requested (wr_CreatedAt r)) runs)"
proof (induction runs arbitrary: result seen)
  case (Cons run runs)
  show ?case
  proof (cases "wr_ID run \<le> 0 \<or> IsZero (wr_CreatedAt run)")
    case True
    then show ?thesis using Cons.prems Cons.IH[OF Cons.prems[unfolded keep_runs.simps if_P[OF True]]] by auto
  next
    case good: False
    then show ?thesis using Cons.prems by (auto split: if_splits dest!: Cons.IH)
  qed
qed auto

text \<open>The observations that are kept: one run per identifier, from the runs seen.\<close>

lemma keep_runs_seen:
  assumes "keep_runs repository requested runs result seen = (result', seen')"
    and "distinct (map fst seen)" and "\<forall>(k, r) \<in> set seen. k = wr_ID r"
  shows "distinct (map fst seen') \<and> (\<forall>(k, r) \<in> set seen'. k = wr_ID r) \<and>
    snd ` set seen' \<subseteq> snd ` set seen \<union> {r \<in> set runs. 0 < wr_ID r \<and> Contains requested (wr_CreatedAt r)} \<and>
    wr_ID ` {r \<in> set runs. 0 < wr_ID r \<and> \<not> IsZero (wr_CreatedAt r) \<and> Contains requested (wr_CreatedAt r)} \<union>
      fst ` set seen \<subseteq> fst ` set seen'"
  using assms
proof (induction runs arbitrary: result seen)
  case (Cons run runs)
  show ?case
  proof (cases "(wr_ID run \<le> 0 \<or> IsZero (wr_CreatedAt run)) \<or> \<not> Contains requested (wr_CreatedAt run) \<or> map_of seen (wr_ID run) \<noteq> None")
    case True
    then obtain result2 where r2: "keep_runs repository requested runs result2 seen = (result', seen')"
      using Cons.prems(1) by (auto split: if_splits)
    have "map_of seen (wr_ID run) \<noteq> None \<Longrightarrow> wr_ID run \<in> fst ` set seen" by (simp add: map_of_eq_None_iff)
    then show ?thesis using Cons.IH[OF r2 Cons.prems(2,3)] True by auto
  next
    case False
    then have r2: "keep_runs repository requested runs result (seen @ [(wr_ID run, run)]) = (result', seen')"
      using Cons.prems(1) by auto
    have "wr_ID run \<notin> fst ` set seen" using False by (simp add: map_of_eq_None_iff)
    then show ?thesis using Cons.IH[OF r2] Cons.prems(2,3) False by auto
  qed
qed auto

lemma keep_runs_no_runs: "keep_runs repository requested runs result seen = (result', seen') \<Longrightarrow> pt_Runs result = [] \<Longrightarrow> pt_Runs result' = []"
  by (induction runs arbitrary: result seen) (auto split: if_splits)

text \<open>The parts of a successful enumeration.\<close>

lemma Enumerate_steps:
  assumes "Enumerate p repository requested w = ((result, None), w')"
  obtains api mp mb runs root stopped t seen r0 where "par_API p = Some api"
    and "mp = (if par_MaxPartitions p \<le> 0 then 8192 else par_MaxPartitions p)"
    and "ns (From requested) < ns (To requested)"
    and "walk api mp mb repository (secondCover requested) \<lparr>tv_gaps = [], tv_work = 0, tv_world = w\<rparr> = (runs, root, stopped, t)"
    and "(keep_runs repository requested runs r0 [] = (result\<lparr>pt_Runs := []\<rparr>, seen) \<and> pt_Gaps r0 = tv_gaps t \<and>
          pt_Root r0 = Some root \<and> pt_Queried r0 = secondCover requested \<and> pt_DuplicateObservations r0 = 0 \<and>
          pt_Runs result = sort_key run_order (map snd seen)) \<or>
         (pt_Runs result = [] \<and> pt_Gaps result = tv_gaps t \<and> pt_Root result = Some root \<and> stopped \<and>
          pt_Queried result = secondCover requested \<and> pt_DuplicateObservations result = 0)"
proof -
  obtain api where api: "par_API p = Some api" using assms by (auto simp: Enumerate_def split: option.splits)
  have ok: "\<not> (rt_ID repository \<le> 0 \<or> rt_Owner repository = [] \<or> rt_Name repository = [])"
    and lt: "ns (From requested) < ns (To requested)"
    using assms api by (auto simp: Enumerate_def NewInterval_def Before_def Let_def split: sum.splits if_splits)
  define mp where "mp = (if par_MaxPartitions p \<le> 0 then 8192 else par_MaxPartitions p)"
  define mb where "mb = (if par_MinBucket p \<le> 0 then Second else par_MinBucket p)"
  obtain runs root stopped t where walk: "walk api mp mb repository (secondCover requested)
      \<lparr>tv_gaps = [], tv_work = 0, tv_world = w\<rparr> = (runs, root, stopped, t)" by (metis prod_cases4)
  define r0 where "r0 = zero_result\<lparr>pt_Requested := requested, pt_Queried := secondCover requested, pt_Gaps := tv_gaps t,
                     pt_Root := Some root, pt_OverlapObservations := countOverlapRows root\<rparr>"
  obtain c w1 where c: "(if stopped then ctx_Err api (tv_world t) else (None, tv_world t)) = (c, w1)" by fastforce
  have new: "\<exists>i. NewInterval (From requested) (To requested) = Inr i"
    using assms api by (auto simp: Enumerate_def split: sum.splits)
  have fin: "(if c \<noteq> None then (case ctx_Err api w1 of (err, w) \<Rightarrow> ((r0, err), w))
      else (case keep_runs repository requested runs r0 [] of
              (result, seen) \<Rightarrow> ((result\<lparr>pt_Runs := sort_key run_order (map snd seen)\<rparr>, None), w1))) = ((result, None), w')"
    using assms api ok new walk c unfolding Enumerate_def r0_def mp_def[symmetric] mb_def[symmetric] Let_def by auto
  show ?thesis
  proof (rule that[OF api mp_def lt walk, of r0 "snd (keep_runs repository requested runs r0 [])"])
    show "keep_runs repository requested runs r0 [] = (result\<lparr>pt_Runs := []\<rparr>, snd (keep_runs repository requested runs r0 [])) \<and>
          pt_Gaps r0 = tv_gaps t \<and> pt_Root r0 = Some root \<and> pt_Queried r0 = secondCover requested \<and>
          pt_DuplicateObservations r0 = 0 \<and>
          pt_Runs result = sort_key run_order (map snd (snd (keep_runs repository requested runs r0 []))) \<or>
         pt_Runs result = [] \<and> pt_Gaps result = tv_gaps t \<and> pt_Root result = Some root \<and> stopped \<and>
          pt_Queried result = secondCover requested \<and> pt_DuplicateObservations result = 0"
    proof (cases "c = None")
      case False
      then have "result = r0" "stopped" using fin c by (auto split: prod.splits if_splits)
      then show ?thesis by (simp add: r0_def zero_result_def)
    next
      case True
      obtain r1 seen where k: "keep_runs repository requested runs r0 [] = (r1, seen)" by fastforce
      have "pt_Runs r1 = []" using k by (rule keep_runs_no_runs) (simp add: r0_def zero_result_def)
      then show ?thesis using fin True k by (auto simp: r0_def zero_result_def)
    qed
  qed
qed

text \<open>The kept observations: one run per identifier, sorted, from the runs of the traversal.\<close>

definition kept :: "Interval \<Rightarrow> WorkflowRun list \<Rightarrow> WorkflowRun list \<Rightarrow> bool" where
  "kept requested runs result \<longleftrightarrow>
     strictly_sorted (map run_order result) \<and> distinct (map wr_ID result) \<and>
     set result \<subseteq> {r \<in> set runs. 0 < wr_ID r \<and> Contains requested (wr_CreatedAt r)} \<and>
     wr_ID ` {r \<in> set runs. 0 < wr_ID r \<and> \<not> IsZero (wr_CreatedAt r) \<and> Contains requested (wr_CreatedAt r)} \<subseteq> wr_ID ` set result"

lemma keep_runs_kept:
  assumes "keep_runs repository requested runs r0 [] = (result', seen)"
  shows "kept requested runs (sort_key run_order (map snd seen))"
proof -
  let ?rs = "sort_key run_order (map snd seen)"
  have s: "distinct (map fst seen)" "\<forall>(k, r) \<in> set seen. k = wr_ID r"
      "snd ` set seen \<subseteq> {r \<in> set runs. 0 < wr_ID r \<and> Contains requested (wr_CreatedAt r)}"
      "wr_ID ` {r \<in> set runs. 0 < wr_ID r \<and> \<not> IsZero (wr_CreatedAt r) \<and> Contains requested (wr_CreatedAt r)} \<subseteq> fst ` set seen"
    using keep_runs_seen[OF assms] by auto
  have keys: "map fst seen = map wr_ID (map snd seen)" using s(2) by (induction seen) auto
  have "distinct (map wr_ID (map snd seen))" using s(1) unfolding keys .
  then have ids: "distinct (map wr_ID ?rs)"
    by (metis mset_eq_imp_distinct_iff mset_map mset_sort)
  have "map wr_ID ?rs = map snd (map run_order ?rs)" by (simp add: run_order_def)
  then have "distinct (map run_order ?rs)" using ids by (metis distinct_map)
  moreover have "fst ` set seen = wr_ID ` set ?rs" using arg_cong[OF keys, of set] by (simp add: image_image)
  ultimately show ?thesis using ids s(3,4) by (simp add: kept_def strictly_sorted_iff)
qed

lemma Enumerate_parts:
  assumes "Enumerate p repository requested w = ((result, None), w')"
  obtains api mp mb runs root stopped t gaps where "par_API p = Some api"
    and "mp = (if par_MaxPartitions p \<le> 0 then 8192 else par_MaxPartitions p)"
    and "ns (From requested) < ns (To requested)"
    and "walk api mp mb repository (secondCover requested) \<lparr>tv_gaps = [], tv_work = 0, tv_world = w\<rparr> = (runs, root, stopped, t)"
    and "pt_Root result = Some root" and "pt_Gaps result = tv_gaps t @ gaps" and "\<forall>g \<in> set gaps. gap_Material g"
    and "stopped \<and> pt_Runs result = [] \<or> kept requested runs (pt_Runs result) \<and>
      (gaps = [] \<longrightarrow> (\<forall>r \<in> set runs. 0 < wr_ID r \<and> \<not> IsZero (wr_CreatedAt r)))"
  using assms
proof (rule Enumerate_steps)
  fix api mp mb runs root stopped t seen r0
  assume a: "par_API p = Some api" "mp = (if par_MaxPartitions p \<le> 0 then 8192 else par_MaxPartitions p)"
      "ns (From requested) < ns (To requested)"
      "walk api mp mb repository (secondCover requested) \<lparr>tv_gaps = [], tv_work = 0, tv_world = w\<rparr> = (runs, root, stopped, t)"
    and "(keep_runs repository requested runs r0 [] = (result\<lparr>pt_Runs := []\<rparr>, seen) \<and> pt_Gaps r0 = tv_gaps t \<and>
          pt_Root r0 = Some root \<and> pt_Queried r0 = secondCover requested \<and> pt_DuplicateObservations r0 = 0 \<and>
          pt_Runs result = sort_key run_order (map snd seen)) \<or>
         (pt_Runs result = [] \<and> pt_Gaps result = tv_gaps t \<and> pt_Root result = Some root \<and> stopped \<and>
          pt_Queried result = secondCover requested \<and> pt_DuplicateObservations result = 0)"
  then consider (keep) "keep_runs repository requested runs r0 [] = (result\<lparr>pt_Runs := []\<rparr>, seen)" "pt_Gaps r0 = tv_gaps t"
      "pt_Root r0 = Some root" "pt_Runs result = sort_key run_order (map snd seen)"
    | (stop) "pt_Runs result = []" "pt_Gaps result = tv_gaps t" "pt_Root result = Some root" stopped by blast
  then show thesis
  proof cases
    case keep
    from keep_runs_result[OF keep(1)] obtain gaps where g: "pt_Gaps result = tv_gaps t @ gaps" "\<forall>g \<in> set gaps. gap_Material g"
        "gaps = [] \<longrightarrow> (\<forall>r \<in> set runs. 0 < wr_ID r \<and> \<not> IsZero (wr_CreatedAt r))" "pt_Root result = Some root"
      using keep(2,3) by auto
    show thesis using that[OF a g(4,1,2)] keep_runs_kept[OF keep(1)] keep(4) g(3) by simp
  next
    case stop
    show thesis using that[OF a stop(3), of "[]"] stop by simp
  qed
qed
text \<open>
  the enumerated runs are a canonical list.  They are strictly ordered by creation
  time and identifier, no identifier occurs twice, every run has a positive
  identifier and was created inside the requested interval, and every gap that was
  recorded is material.
\<close>

theorem enumerated_runs_canonical:
  assumes "Enumerate p repository requested w = ((result, None), w')"
  shows "strictly_sorted (map run_order (pt_Runs result)) \<and> distinct (map wr_ID (pt_Runs result)) \<and>
    (\<forall>run \<in> set (pt_Runs result). 0 < wr_ID run \<and> Contains requested (wr_CreatedAt run)) \<and>
    (\<forall>g \<in> set (pt_Gaps result). gap_Material g)"
proof -
  obtain api mp mb runs root stopped t gaps where p:
      "walk api mp mb repository (secondCover requested) \<lparr>tv_gaps = [], tv_work = 0, tv_world = w\<rparr> = (runs, root, stopped, t)"
      "pt_Gaps result = tv_gaps t @ gaps" "\<forall>g \<in> set gaps. gap_Material g"
      "stopped \<and> pt_Runs result = [] \<or> kept requested runs (pt_Runs result)"
    using assms by (rule Enumerate_parts) blast
  have "accounted (secondCover requested) \<lparr>tv_gaps = [], tv_work = 0, tv_world = w\<rparr> (runs, root, stopped, t)"
    using walk_accounted p(1) by metis
  then have "\<forall>g \<in> set (pt_Gaps result). gap_Material g" using p(2,3) by (auto simp: accounted_def)
  then show ?thesis using p(4) by (auto simp: kept_def subset_iff)
qed

text \<open>
  C5: without a gap the whole request was searched.  When an enumeration reports no
  gap, every leaf of its partition tree was listed completely and each instant of
  the requested interval lies in the window of exactly one leaf.
\<close>

theorem gapless_enumeration_covers:
  assumes "Enumerate p repository requested w = ((result, None), w')" and "pt_Gaps result = []"
  shows "\<exists>root. pt_Root result = Some root \<and> (\<forall>leaf \<in> set (leaves root). pn_Status leaf = PartitionComplete) \<and>
    (\<forall>x. Contains requested x \<longrightarrow> length (filter (\<lambda>leaf. Contains (pn_Window leaf) x) (leaves root)) = 1)"
proof -
  obtain api mp mb runs root stopped t gaps where lt: "ns (From requested) < ns (To requested)"
    and walk: "walk api mp mb repository (secondCover requested) \<lparr>tv_gaps = [], tv_work = 0, tv_world = w\<rparr> = (runs, root, stopped, t)"
    and p: "pt_Root result = Some root" "pt_Gaps result = tv_gaps t @ gaps"
    using assms(1) by (rule Enumerate_parts) blast
  have "accounted (secondCover requested) \<lparr>tv_gaps = [], tv_work = 0, tv_world = w\<rparr> (runs, root, stopped, t)"
    using walk_accounted walk by metis
  then have complete: "\<forall>leaf \<in> set (leaves root). pn_Status leaf = PartitionComplete" and "\<not> stopped"
    using p(2) assms(2) by (auto simp: accounted_def)
  moreover have "tiled mb (secondCover requested) \<lparr>tv_gaps = [], tv_work = 0, tv_world = w\<rparr> (runs, root, stopped, t)"
    using walk_tiled walk by metis
  ultimately have tiles: "splits_into (\<lambda>w. splitWindow w mb) (secondCover requested) (map pn_Window (leaves root))"
    by (simp add: tiled_def)
  have "length (filter (\<lambda>leaf. Contains (pn_Window leaf) x) (leaves root)) = 1" if "Contains requested x" for x
  proof -
    have "Contains (secondCover requested) x"
      using that secondCover_bounds[OF lt] by (auto simp: Contains_iff)
    then show ?thesis using window_split.members[OF tiles, of x] by (simp add: filter_map o_def)
  qed
  then show ?thesis using p(1) complete by blast
qed

text \<open>
  C4: without a gap nothing is missed.  If the search is honest about the runs of the
  repository, identifiers are unique, and the enumeration reports no gap, then its
  runs are exactly the runs created in the requested interval.
\<close>

theorem gapless_enumeration_complete:
  assumes "Enumerate p repository requested w = ((result, None), w')" and "pt_Gaps result = []"
    and "par_API p = Some api" and "honest_search api repository truth" and "inj_on wr_ID truth"
  shows "set (pt_Runs result) = {run \<in> truth. Contains requested (wr_CreatedAt run)}"
proof -
  obtain api' mp mb runs root stopped t gaps where api': "par_API p = Some api'" and lt: "ns (From requested) < ns (To requested)"
    and walk: "walk api' mp mb repository (secondCover requested) \<lparr>tv_gaps = [], tv_work = 0, tv_world = w\<rparr> = (runs, root, stopped, t)"
    and p: "pt_Gaps result = tv_gaps t @ gaps" "stopped \<and> pt_Runs result = [] \<or> kept requested runs (pt_Runs result) \<and>
      (gaps = [] \<longrightarrow> (\<forall>r \<in> set runs. 0 < wr_ID r \<and> \<not> IsZero (wr_CreatedAt r)))"
    using assms(1) by (rule Enumerate_parts) blast
  have "api' = api" using api' assms(3) by simp
  with walk have "found_all truth (secondCover requested) \<lparr>tv_gaps = [], tv_work = 0, tv_world = w\<rparr> (runs, root, stopped, t)"
    using walk_found_all[OF assms(4)] by metis
  then have runs: "set runs = {run \<in> truth. Contains (secondCover requested) (wr_CreatedAt run)}" and "\<not> stopped"
    using p(1) assms(2) secondCover_whole[OF lt] by (auto simp: found_all_def)
  then have k: "kept requested runs (pt_Runs result)" "\<forall>r \<in> set runs. 0 < wr_ID r \<and> \<not> IsZero (wr_CreatedAt r)"
    using p assms(2) by auto
  have inside: "Contains requested x \<Longrightarrow> Contains (secondCover requested) x" for x
    using secondCover_bounds[OF lt] by (auto simp: Contains_iff)
  have sub: "set (pt_Runs result) \<subseteq> {run \<in> truth. Contains requested (wr_CreatedAt run)}"
    using k(1) unfolding kept_def runs by blast
  have "r \<in> set (pt_Runs result)" if r: "r \<in> truth" "Contains requested (wr_CreatedAt r)" for r
  proof -
    have "r \<in> set runs" using r inside by (simp add: runs)
    then have "wr_ID r \<in> wr_ID ` set (pt_Runs result)" using k r(2) unfolding kept_def by blast
    then show ?thesis using sub r(1) assms(5) by (auto dest: inj_onD)
  qed
  then show ?thesis using sub by blast
qed

text \<open>
  C6: the search is bounded whatever the API answers.  The partition tree has at most
  as many split windows as the work limit allows, 8192 unless configured otherwise.
\<close>

theorem enumeration_work_bounded:
  assumes "Enumerate p repository requested w = ((result, None), w')" and "pt_Root result = Some root"
  shows "int (inner_nodes root) \<le> (if par_MaxPartitions p \<le> 0 then 8192 else par_MaxPartitions p)"
proof -
  obtain api mp mb runs root' stopped t gaps where mp: "mp = (if par_MaxPartitions p \<le> 0 then 8192 else par_MaxPartitions p)"
    and walk: "walk api mp mb repository (secondCover requested) \<lparr>tv_gaps = [], tv_work = 0, tv_world = w\<rparr> = (runs, root', stopped, t)"
    and root: "pt_Root result = Some root'"
    using assms(1) by (rule Enumerate_parts) blast
  have "bounded_work mp (secondCover requested) \<lparr>tv_gaps = [], tv_work = 0, tv_world = w\<rparr> (runs, root', stopped, t)"
    using walk_bounded walk by metis
  moreover have "0 < mp" using mp by (simp split: if_splits)
  ultimately show ?thesis using root assms(2) by (simp add: bounded_work_def mp[symmetric])
qed
text \<open>A concrete search over a repository with one run.\<close>

definition sample_actor :: Actor where
  "sample_actor = \<lparr>ac_ID = 1, ac_Login = ''octo''\<rparr>"

definition sample_run :: WorkflowRun where
  "sample_run = \<lparr>wr_ID = 42, wr_NodeID = [], wr_RunNumber = 1, wr_RunAttempt = 1, wr_WorkflowID = 3, wr_Path = [],
     wr_Event = ''push'', wr_Status = ''completed'', wr_Conclusion = ''success'', wr_CreatedAt = \<lparr>ns = 5000000000, utc = True\<rparr>,
     wr_RunStartedAt = None, wr_UpdatedAt = None, wr_HeadSHA = [], wr_HeadBranch = [], wr_Actor = sample_actor,
     wr_TriggeringActor = sample_actor, wr_PullRequests = [], wr_Repository = None, wr_HeadRepository = None,
     wr_CheckSuiteID = 0, wr_ReferencedWorkflows = []\<rparr>"

definition sample_api :: "unit RunWindowAPI" where
  "sample_api = \<lparr>ctx_Err = (\<lambda>w. (None, w)),
     ProbeWorkflowRuns = (\<lambda>owner name created w. ((\<lparr>pb_TotalCount = 1, pb_Responses = []\<rparr>, None), w)),
     ListWorkflowRuns = (\<lambda>owner name created w. ((\<lparr>ru_TotalCount = 1, ru_Runs = [sample_run], ru_Responses = [],
       ru_Truncated = False\<rparr>, None), w))\<rparr>"

definition sample_partitioner :: "unit Partitioner" where
  "sample_partitioner = \<lparr>par_API = Some sample_api, par_MaxPartitions = 0, par_MinBucket = 0\<rparr>"

definition sample_target :: RepositoryTarget where
  "sample_target = \<lparr>rt_ID = 1, rt_Owner = ''o'', rt_Name = ''r''\<rparr>"

definition sample_window :: Interval where
  "sample_window = \<lparr>From = \<lparr>ns = 1000000000, utc = True\<rparr>, To = \<lparr>ns = 9000000000, utc = True\<rparr>\<rparr>"

lemma sample_enumeration:
  "\<exists>result. Enumerate sample_partitioner sample_target sample_window () = ((result, None), ()) \<and> pt_Gaps result = [] \<and>
     pt_Root result \<noteq> None"
  by (simp add: Enumerate_def sample_partitioner_def sample_target_def sample_window_def NewInterval_def time_defs
      secondCover_def Let_def walk.simps walk_step_def sample_api_def settle_window_def Contains_def new_node_def
      sample_run_def zero_result_def)

theorem enumerated_runs_canonical_witness:
  "\<exists>result. Enumerate sample_partitioner sample_target sample_window () = ((result, None), ()) \<and>
     distinct (map wr_ID (pt_Runs result))"
proof -
  obtain result where r: "Enumerate sample_partitioner sample_target sample_window () = ((result, None), ())"
    using sample_enumeration by blast
  from enumerated_runs_canonical[OF r] r show ?thesis by blast
qed

theorem gapless_enumeration_covers_witness:
  "\<exists>result root. Enumerate sample_partitioner sample_target sample_window () = ((result, None), ()) \<and>
     pt_Root result = Some root \<and> (\<forall>leaf \<in> set (leaves root). pn_Status leaf = PartitionComplete)"
proof -
  obtain result where r: "Enumerate sample_partitioner sample_target sample_window () = ((result, None), ())" "pt_Gaps result = []"
    using sample_enumeration by blast
  from gapless_enumeration_covers[OF r] r show ?thesis by blast
qed

theorem gapless_enumeration_complete_witness:
  "\<exists>result. Enumerate sample_partitioner sample_target sample_window () = ((result, None), ()) \<and>
     set (pt_Runs result) = {sample_run}"
proof -
  obtain result where r: "Enumerate sample_partitioner sample_target sample_window () = ((result, None), ())" "pt_Gaps result = []"
    using sample_enumeration by blast
  have "honest_search sample_api sample_target {sample_run}" by (simp add: honest_search_def sample_api_def)
  moreover have "par_API sample_partitioner = Some sample_api" by (simp add: sample_partitioner_def)
  ultimately have "set (pt_Runs result) = {run \<in> {sample_run}. Contains sample_window (wr_CreatedAt run)}"
    using gapless_enumeration_complete[OF r] by simp
  moreover have "Contains sample_window (wr_CreatedAt sample_run)"
    by (simp add: Contains_iff sample_window_def sample_run_def)
  ultimately show ?thesis using r(1) by auto
qed

theorem enumeration_work_bounded_witness:
  "\<exists>result root. Enumerate sample_partitioner sample_target sample_window () = ((result, None), ()) \<and>
     pt_Root result = Some root \<and> inner_nodes root \<le> 8192"
proof -
  obtain result root where r: "Enumerate sample_partitioner sample_target sample_window () = ((result, None), ())"
      "pt_Root result = Some root"
    using sample_enumeration by blast
  from enumeration_work_bounded[OF r] show ?thesis using r by (auto simp: sample_partitioner_def)
qed

section \<open>Properties of the archive plan\<close>

lemma assign_watched_Inr:
  "assign_watched cutoff runs plan = Inr plan' \<longleftrightarrow>
     (\<forall>r \<in> set runs. 0 < wa_RepositoryID r \<and> 0 < wa_RunID r \<and> \<not> IsZero (wa_CreatedAt r)) \<and>
     plan' = plan\<lparr>Refresh := Refresh plan @ filter (needs_refresh cutoff) runs,
                  EvictionEligible := EvictionEligible plan @ filter (\<lambda>r. \<not> needs_refresh cutoff r) runs\<rparr>"
  by (induction runs arbitrary: plan) auto

lemma PlanArchive_Inr:
  assumes "PlanArchive watermark cutoff watched = Inr plan"
  shows "Refresh plan = sortWatched (filter (needs_refresh (UTC cutoff)) watched)"
    and "EvictionEligible plan = sortWatched (filter (\<lambda>r. \<not> needs_refresh (UTC cutoff) r) watched)"
    and "ns (From (NewParentWindow plan)) =
      (if IsZero watermark then ns cutoff - ProvisionalParentLookback else ns watermark - DefaultArchiveOverlap)"
    and "ns (To (NewParentWindow plan)) = ns cutoff"
    and "ns (From (NewParentWindow plan)) < ns (To (NewParentWindow plan))"
  using assms by (auto simp: PlanArchive_def Let_def assign_watched_Inr Before_def split: sum.splits if_splits)

text \<open>
  C34: archive planning loses no watched run and evicts none too early.  The watched
  runs are divided between refresh and eviction, both in the order of repository
  and run; a run is evicted exactly when the cutoff has reached its 65-day
  boundary, its final refresh is complete and happened at or after that boundary.
\<close>

theorem archive_plan_divides_watched:
  assumes "PlanArchive watermark cutoff watched = Inr plan"
  shows "mset (Refresh plan) + mset (EvictionEligible plan) = mset watched \<and>
    sorted (map (\<lambda>r. (wa_RepositoryID r, wa_RunID r)) (Refresh plan)) \<and>
    sorted (map (\<lambda>r. (wa_RepositoryID r, wa_RunID r)) (EvictionEligible plan)) \<and>
    (\<forall>r \<in> set watched. r \<in> set (EvictionEligible plan) \<longleftrightarrow>
       ns (wa_CreatedAt r) + ProvisionalParentLookback \<le> ns cutoff \<and> wa_FinalRefreshComplete r \<and>
       ns (wa_CreatedAt r) + ProvisionalParentLookback \<le> ns (wa_LastSuccessfulRefresh r))"
  using PlanArchive_Inr(1,2)[OF assms]
  by (auto simp: sortWatched_def needs_refresh_def Let_def Before_def multiset_partition[symmetric] mset_filter)

text \<open>
  what an incremental collection enumerates.  The first collection looks back 65
  days before the requested start; a resumed one starts at the later of the requested
  start and fifteen minutes before the watermark, so between the watermark and the
  requested end nothing inside the request is skipped; both end at the requested end and
  are not empty.
\<close>

theorem incremental_window_covers:
  assumes "PlanIncrementalArchive requested watermark watched = Inr plan"
  shows "ns (To (NewParentWindow plan)) = ns (To requested) \<and>
    ns (From (NewParentWindow plan)) < ns (To (NewParentWindow plan)) \<and>
    (IsZero watermark \<longrightarrow> ns (From (NewParentWindow plan)) = ns (From requested) - ProvisionalParentLookback) \<and>
    (\<not> IsZero watermark \<longrightarrow>
       ns (From (NewParentWindow plan)) = max (ns (From requested)) (ns watermark - DefaultArchiveOverlap)) \<and>
    (\<forall>x. Contains requested x \<and> ns watermark \<le> ns x \<longrightarrow> Contains (NewParentWindow plan) x)"
proof -
  have lt: "ns (From requested) < ns (To requested)"
    using assms by (auto simp: PlanIncrementalArchive_def NewInterval_def Let_def Before_def split: sum.splits if_splits)
  have pos: "0 < ProvisionalParentLookback" "0 < DefaultArchiveOverlap"
    by (simp_all add: ProvisionalParentLookback_def DefaultArchiveOverlap_def Hour_def Minute_def)
  show ?thesis
  proof (cases "IsZero watermark")
    case True
    then have "NewParentWindow plan = \<lparr>From = AddDur (UTC (From requested)) (- ProvisionalParentLookback), To = UTC (To requested)\<rparr>"
      using assms by (auto simp: PlanIncrementalArchive_def ExpandIncidentDiscoveryWindow_def split: sum.splits)
    then show ?thesis using True lt pos by (auto simp: Contains_iff)
  next
    case False
    then obtain base where b: "PlanArchive watermark (To requested) watched = Inr base"
        "ns (From (NewParentWindow plan)) = max (ns (From requested)) (ns (From (NewParentWindow base)))"
        "To (NewParentWindow plan) = To (NewParentWindow base)" "Before (From (NewParentWindow plan)) (To (NewParentWindow plan))"
      using assms by (auto simp: PlanIncrementalArchive_def Let_def Before_def split: sum.splits if_splits)
    show ?thesis using PlanArchive_Inr(3,4)[OF b(1)] b(2-4) False pos by (auto simp: Contains_iff Before_def)
  qed
qed

definition sample_watched :: WatchedRun where
  "sample_watched = \<lparr>wa_RepositoryID = 1, wa_RunID = 2, wa_CreatedAt = \<lparr>ns = 5, utc = True\<rparr>,
     wa_LastSuccessfulRefresh = \<lparr>ns = 7, utc = True\<rparr>, wa_FinalRefreshComplete = False\<rparr>"

theorem archive_plan_divides_watched_witness:
  "\<exists>plan. PlanArchive zero_time \<lparr>ns = 9, utc = True\<rparr> [sample_watched] = Inr plan \<and>
     mset (Refresh plan) + mset (EvictionEligible plan) = {#sample_watched#}"
proof -
  obtain plan where p: "PlanArchive zero_time \<lparr>ns = 9, utc = True\<rparr> [sample_watched] = Inr plan"
    by (simp add: PlanArchive_def Let_def time_defs zero_time_def sample_watched_def needs_refresh_def
        ProvisionalParentLookback_def Hour_def Minute_def split: if_split)
  from archive_plan_divides_watched[OF p] p show ?thesis by simp
qed

theorem incremental_window_covers_witness:
  "\<exists>plan. PlanIncrementalArchive sample_window \<lparr>ns = 6000000000, utc = True\<rparr> [] = Inr plan \<and>
     ns (To (NewParentWindow plan)) = 9000000000"
proof -
  obtain plan where p: "PlanIncrementalArchive sample_window \<lparr>ns = 6000000000, utc = True\<rparr> [] = Inr plan"
    by (simp add: PlanIncrementalArchive_def PlanArchive_def NewInterval_def Let_def time_defs sample_window_def sortWatched_def
        DefaultArchiveOverlap_def Minute_def)
  from incremental_window_covers[OF p] p show ?thesis by (simp add: sample_window_def)
qed

end
