(* ===== verification/Go_Strings.thy ===== *)
theory Go_Strings
  imports Go_Text
begin

text \<open>
  More of Go's standard library, as the API client and the log readers use it:
  trimming and splitting at Unicode white space, comparison under simple case folding,
  cutting, searching and replacing, \<open>strconv.ParseInt\<close>, wrap-around of 64-bit integers,
  and the escaping and querying of \<open>net/url\<close>.
\<close>

section \<open>64-bit integers\<close>

definition wrap64 :: "int \<Rightarrow> int" where
  "wrap64 i = (i + 2 ^ 63) mod 2 ^ 64 - 2 ^ 63"

definition max_int64 :: int where
  "max_int64 = 2 ^ 63 - 1"

lemma wrap64_id: "- (2 ^ 63) \<le> i \<Longrightarrow> i < 2 ^ 63 \<Longrightarrow> wrap64 i = i"
  by (simp add: wrap64_def)

lemma wrap64_range: "- (2 ^ 63) \<le> wrap64 i \<and> wrap64 i < 2 ^ 63"
  using pos_mod_bound[of "2 ^ 64" "i + 2 ^ 63"] pos_mod_sign[of "2 ^ 64" "i + 2 ^ 63"]
  unfolding wrap64_def by simp

lemma wrap64_over: "2 ^ 63 \<le> i \<Longrightarrow> i < 2 ^ 63 + 2 ^ 64 \<Longrightarrow> wrap64 i = i - 2 ^ 64"
proof -
  assume i: "2 ^ 63 \<le> i" "i < 2 ^ 63 + 2 ^ 64"
  have "(i + 2 ^ 63) mod 2 ^ 64 = (i + 2 ^ 63 - 2 ^ 64) mod 2 ^ 64" by (simp only: minus_mod_self2)
  also have "\<dots> = i + 2 ^ 63 - 2 ^ 64" using i by (intro mod_pos_pos_trivial) auto
  finally show ?thesis by (simp add: wrap64_def)
qed

section \<open>Runes with their bytes\<close>

text \<open>Each rune of a string with the bytes it was decoded from; an invalid byte is a piece of its own.\<close>

fun cut_pieces :: "(nat \<times> nat) list \<Rightarrow> string \<Rightarrow> (nat \<times> string) list" where
  "cut_pieces [] s = []"
| "cut_pieces ((r, n) # rs) s = (r, take n s) # cut_pieces rs (drop n s)"

definition pieces :: "string \<Rightarrow> (nat \<times> string) list" where
  "pieces s = cut_pieces (runes s) s"

lemma cut_pieces_runes: "concat (map snd (cut_pieces (runes s) s)) = s"
proof (induction s rule: runes.induct)
  case (1 s)
  show ?case
  proof (cases "s = []")
    case False
    obtain r n where d: "decode_rune s = (r, n)" by fastforce
    then have "runes s = (r, n) # runes (drop n s)" using False by (simp add: runes.simps[of s])
    then show ?thesis using "1.IH"[OF False] d by simp
  qed simp
qed

lemma concat_pieces [simp]: "concat (map snd (pieces s)) = s"
  by (simp add: pieces_def cut_pieces_runes)

lemma map_fst_cut_pieces: "map fst (cut_pieces rs s) = map fst rs"
  by (induction rs s rule: cut_pieces.induct) simp_all

lemma map_fst_pieces [simp]: "map fst (pieces s) = map fst (runes s)"
  by (simp add: pieces_def map_fst_cut_pieces)

lemma cut_pieces_ascii: "cut_pieces (map (\<lambda>c. (byte c, 1)) s) s = map (\<lambda>c. (byte c, [c])) s"
  by (induction s) simp_all

lemma pieces_ascii: "\<forall>c \<in> set s. byte c < 0x80 \<Longrightarrow> pieces s = map (\<lambda>c. (byte c, [c])) s"
  unfolding pieces_def by (simp only: runes_ascii_all cut_pieces_ascii)

section \<open>White space\<close>

definition unicode_IsSpace :: "nat \<Rightarrow> bool" where
  "unicode_IsSpace r \<longleftrightarrow> (0x09 \<le> r \<and> r \<le> 0x0D) \<or> r = 0x20 \<or> r = 0x85 \<or> r = 0xA0 \<or> r = 0x1680 \<or>
     (0x2000 \<le> r \<and> r \<le> 0x200A) \<or> r = 0x2028 \<or> r = 0x2029 \<or> r = 0x202F \<or> r = 0x205F \<or> r = 0x3000"

definition trim_pieces :: "(nat \<Rightarrow> bool) \<Rightarrow> (nat \<times> string) list \<Rightarrow> (nat \<times> string) list" where
  "trim_pieces p ps = rev (dropWhile (p \<circ> fst) (rev (dropWhile (p \<circ> fst) ps)))"

definition TrimFunc :: "(nat \<Rightarrow> bool) \<Rightarrow> string \<Rightarrow> string" where
  "TrimFunc p s = concat (map snd (trim_pieces p (pieces s)))"

definition TrimSpace :: "string \<Rightarrow> string" where
  "TrimSpace = TrimFunc unicode_IsSpace"

text \<open>\<open>strings.Fields\<close>: the maximal runs of runes that are not white space.\<close>

fun field_pieces :: "(nat \<times> string) list \<Rightarrow> string \<Rightarrow> string list" where
  "field_pieces [] field = (if field = [] then [] else [field])"
| "field_pieces ((r, s) # ps) field =
     (if unicode_IsSpace r then (if field = [] then field_pieces ps [] else field # field_pieces ps [])
      else field_pieces ps (field @ s))"

definition Fields :: "string \<Rightarrow> string list" where
  "Fields s = field_pieces (pieces s) []"

lemma trim_pieces_affix: "\<exists>a b. ps = a @ trim_pieces p ps @ b \<and> list_all (p \<circ> fst) (a @ b)"
proof -
  let ?q = "p \<circ> fst"
  define m where "m = dropWhile ?q ps"
  have "ps = takeWhile ?q ps @ m" by (simp add: m_def)
  moreover have "m = trim_pieces p ps @ rev (takeWhile ?q (rev m))"
    unfolding trim_pieces_def m_def[symmetric]
    by (metis rev_append rev_rev_ident takeWhile_dropWhile_id)
  moreover have "list_all ?q (takeWhile ?q ps @ rev (takeWhile ?q (rev m)))"
    by (auto simp: list_all_iff dest: set_takeWhileD)
  ultimately show ?thesis by (metis append.assoc)
qed

lemma TrimFunc_infix: "\<exists>a b. s = a @ TrimFunc p s @ b"
proof -
  obtain a b where "pieces s = a @ trim_pieces p (pieces s) @ b" using trim_pieces_affix by blast
  then have "concat (map snd (pieces s)) = concat (map snd a) @ TrimFunc p s @ concat (map snd b)"
    unfolding TrimFunc_def by (metis concat_append map_append)
  then show ?thesis by (metis concat_pieces)
qed

lemma TrimSpace_Nil [simp]: "TrimSpace [] = []"
  by (simp add: TrimSpace_def TrimFunc_def pieces_def trim_pieces_def)

section \<open>Case folding\<close>

text \<open>
  Simple case folding of a rune as far as it meets ASCII: the two letters outside
  ASCII that fold to ASCII ones are the Kelvin sign and the long s.  \<open>EqualFold\<close> is
  exact when one side is ASCII, as everywhere in the source.
\<close>

definition fold_rune :: "nat \<Rightarrow> nat" where
  "fold_rune r = (if 0x41 \<le> r \<and> r \<le> 0x5A then r + 32 else if r = 0x212A then 0x6B else if r = 0x17F then 0x73 else r)"

definition EqualFold :: "string \<Rightarrow> string \<Rightarrow> bool" where
  "EqualFold s t \<longleftrightarrow> map (fold_rune \<circ> fst) (runes s) = map (fold_rune \<circ> fst) (runes t)"

text \<open>
  The runes of \<open>strings.ToLower\<close>, as far as they are ASCII: besides the capital letters,
  the dotted capital I and the Kelvin sign have an ASCII lower case.
\<close>

definition lower_rune :: "nat \<Rightarrow> nat" where
  "lower_rune r = (if 0x41 \<le> r \<and> r \<le> 0x5A then r + 32 else if r = 0x130 then 0x69 else if r = 0x212A then 0x6B else r)"

fun infix_of :: "'a list \<Rightarrow> 'a list \<Rightarrow> bool" where
  "infix_of p [] = (p = [])"
| "infix_of p (x # xs) = (take (length p) (x # xs) = p \<or> infix_of p xs)"

definition ToLower_Contains :: "string \<Rightarrow> string \<Rightarrow> bool" where
  "ToLower_Contains s p = infix_of (map byte p) (map (lower_rune \<circ> fst) (runes s))"

definition Contains_text :: "string \<Rightarrow> string \<Rightarrow> bool" where
  "Contains_text s p = infix_of p s"

definition ContainsAny :: "string \<Rightarrow> string \<Rightarrow> bool" where
  "ContainsAny s chars = list_ex (\<lambda>c. c \<in> set chars) s"

lemma infix_of_iff: "infix_of p s \<longleftrightarrow> (\<exists>a b. s = a @ p @ b)"
proof
  show "infix_of p s \<Longrightarrow> \<exists>a b. s = a @ p @ b"
  proof (induction s)
    case (Cons x xs)
    show ?case
    proof (cases "take (length p) (x # xs) = p")
      case True
      then have "x # xs = [] @ p @ drop (length p) (x # xs)" by (metis append_Nil append_take_drop_id)
      then show ?thesis by blast
    next
      case False
      then obtain a b where "xs = a @ p @ b" using Cons by auto
      then have "x # xs = (x # a) @ p @ b" by simp
      then show ?thesis by blast
    qed
  qed simp
next
  assume "\<exists>a b. s = a @ p @ b"
  then obtain a b where "s = a @ p @ b" by blast
  then show "infix_of p s"
  proof (induction a arbitrary: s)
    case Nil
    then have "take (length p) s = p" by simp
    then show ?case by (cases s) auto
  qed auto
qed

section \<open>Cutting and replacing\<close>

fun Cut :: "char \<Rightarrow> string \<Rightarrow> (string \<times> string) option" where
  "Cut c [] = None"
| "Cut c (x # xs) = (if x = c then Some ([], xs) else case Cut c xs of None \<Rightarrow> None | Some (a, b) \<Rightarrow> Some (x # a, b))"

lemma Cut_Some: "Cut c s = Some (a, b) \<Longrightarrow> s = a @ c # b \<and> c \<notin> set a"
  by (induction s arbitrary: a) (auto split: if_splits option.splits)

lemma Cut_None: "Cut c s = None \<longleftrightarrow> c \<notin> set s"
  by (induction s) (auto split: option.splits)

text \<open>\<open>strings.ReplaceAll\<close> with an old text that is not empty, left to right without overlaps.\<close>

function ReplaceAll :: "string \<Rightarrow> string \<Rightarrow> string \<Rightarrow> string" where
  "ReplaceAll s old new =
     (if s = [] \<or> old = [] then s
      else if HasPrefix s old then new @ ReplaceAll (drop (length old) s) old new
      else hd s # ReplaceAll (tl s) old new)"
  by pat_completeness auto
termination
  by (relation "measure (\<lambda>(s, old, new). length s)") auto

declare ReplaceAll.simps [simp del]

section \<open>Numbers\<close>

text \<open>
  \<open>strconv.ParseInt(s, 10, 64)\<close>: the value and whether the text is a number in range.  A
  number out of range gives the nearest bound, any other error 0.
\<close>

definition all_digits :: "string \<Rightarrow> bool" where
  "all_digits s \<longleftrightarrow> s \<noteq> [] \<and> list_all (\<lambda>c. 48 \<le> byte c \<and> byte c \<le> 57) s"

definition ParseInt :: "string \<Rightarrow> int \<times> bool" where
  "ParseInt s =
     (let negative = (s \<noteq> [] \<and> hd s = CHR ''-'');
          digits = (if s \<noteq> [] \<and> (hd s = CHR ''-'' \<or> hd s = CHR ''+'') then tl s else s);
          n = int (read_nat digits)
      in if \<not> all_digits digits then (0, False)
         else if negative then (if n > 2 ^ 63 then (- (2 ^ 63), False) else (- n, True))
         else if n \<ge> 2 ^ 63 then (max_int64, False) else (n, True))"

lemma ParseInt_range: "- (2 ^ 63) \<le> fst (ParseInt s) \<and> fst (ParseInt s) < 2 ^ 63"
  by (simp add: ParseInt_def Let_def max_int64_def)

lemma show_nat_all_digits: "all_digits (show_nat n)"
  using show_nat_digits by (auto simp: all_digits_def list_all_iff)

lemma ParseInt_show:
  assumes "- (2 ^ 63) \<le> i" and "i < 2 ^ 63"
  shows "ParseInt (show_int i) = (i, True)"
proof -
  have head: "hd (show_nat n) \<noteq> CHR ''+''" "hd (show_nat n) \<noteq> CHR ''-''" for n
    using show_nat_digits[of "hd (show_nat n)" n] by (auto simp: byte_def)
  show ?thesis using assms by (auto simp: ParseInt_def show_int_def Let_def head show_nat_all_digits)
qed

section \<open>URLs\<close>

text \<open>
  A parsed \<open>url.URL\<close> without opaque part; \<open>url_User\<close> says whether it has user
  information.  \<open>Query\<close> is the list of decoded pairs in order, of which the map of the
  source groups the values by key.
\<close>

record URL =
  url_Scheme :: string
  url_User :: bool
  url_Host :: string
  url_Path :: string
  url_RawPath :: string
  url_ForceQuery :: bool
  url_RawQuery :: string
  url_Fragment :: string

definition unreserved :: "char \<Rightarrow> bool" where
  "unreserved c \<longleftrightarrow> (0x30 \<le> byte c \<and> byte c \<le> 0x39) \<or> (0x41 \<le> byte c \<and> byte c \<le> 0x5A) \<or>
     (0x61 \<le> byte c \<and> byte c \<le> 0x7A) \<or> c \<in> {CHR ''-'', CHR ''_'', CHR ''.'', CHR ''~''}"

definition upper_hex :: "nat \<Rightarrow> char" where
  "upper_hex d = char_of (if d < 10 then 0x30 + d else 0x37 + d)"

definition percent :: "char \<Rightarrow> string" where
  "percent c = [CHR 0x25, upper_hex (byte c div 16), upper_hex (byte c mod 16)]"

definition segment_safe :: "char \<Rightarrow> bool" where
  "segment_safe c \<longleftrightarrow> unreserved c \<or> c \<in> set ''$&+:=@''"

definition PathEscape :: "string \<Rightarrow> string" where
  "PathEscape s = concat (map (\<lambda>c. if segment_safe c then [c] else percent c) s)"

definition QueryEscape :: "string \<Rightarrow> string" where
  "QueryEscape s = concat (map (\<lambda>c. if c = CHR '' '' then ''+'' else if unreserved c then [c] else percent c) s)"

definition unhex :: "char \<Rightarrow> nat option" where
  "unhex c =
     (if 0x30 \<le> byte c \<and> byte c \<le> 0x39 then Some (byte c - 0x30)
      else if 0x61 \<le> byte c \<and> byte c \<le> 0x66 then Some (byte c - 0x57)
      else if 0x41 \<le> byte c \<and> byte c \<le> 0x46 then Some (byte c - 0x37) else None)"

text \<open>Decoding of \<open>%XX\<close>; in a query a plus sign is a space.\<close>

fun unescape :: "bool \<Rightarrow> string \<Rightarrow> string option" where
  "unescape query [] = Some []"
| "unescape query (c # s) =
     (if c = CHR 0x25 then
        (case s of
           a # b # r \<Rightarrow>
             (case (unhex a, unhex b) of
                (Some x, Some y) \<Rightarrow> map_option ((#) (char_of (x * 16 + y))) (unescape query r)
              | _ \<Rightarrow> None)
         | _ \<Rightarrow> None)
      else map_option ((#) (if query \<and> c = CHR ''+'' then CHR '' '' else c)) (unescape query s))"

definition PathUnescape :: "string \<Rightarrow> string option" where
  "PathUnescape = unescape False"

definition path_safe :: "char \<Rightarrow> bool" where
  "path_safe c \<longleftrightarrow> unreserved c \<or> c \<in> set ''$&+,/:;=@''"

definition escape_path :: "string \<Rightarrow> string" where
  "escape_path s = concat (map (\<lambda>c. if path_safe c then [c] else percent c) s)"

definition valid_encoded_path :: "string \<Rightarrow> bool" where
  "valid_encoded_path s = list_all (\<lambda>c. path_safe c \<or> c \<in> set ''!*()[]'' \<or> c = CHR 0x27 \<or> c = CHR 0x25) s"

definition EscapedPath :: "URL \<Rightarrow> string" where
  "EscapedPath u =
     (if url_RawPath u \<noteq> [] \<and> valid_encoded_path (url_RawPath u) \<and> PathUnescape (url_RawPath u) = Some (url_Path u)
      then url_RawPath u
      else if url_Path u = ''*'' then ''*'' else escape_path (url_Path u))"

definition query_pair :: "string \<Rightarrow> (string \<times> string) option" where
  "query_pair s =
     (if CHR '';'' \<in> set s \<or> s = [] then None
      else let (k, v) = (case Cut CHR ''='' s of None \<Rightarrow> (s, []) | Some p \<Rightarrow> p)
           in case (unescape True k, unescape True v) of (Some k, Some v) \<Rightarrow> Some (k, v) | _ \<Rightarrow> None)"

definition Query :: "URL \<Rightarrow> (string \<times> string) list" where
  "Query u = List.map_filter query_pair (split_on CHR ''&'' (url_RawQuery u))"

text \<open>
  \<open>url.Values.Encode\<close>: pairs in the order of the keys.  \<open>URL.String\<close> for a URL with
  a host and without user information or fragment, as are all that the client formats.
\<close>

definition Values_Encode :: "(string \<times> string) list \<Rightarrow> string" where
  "Values_Encode q = join_with CHR ''&'' (map (\<lambda>(k, v). QueryEscape k @ CHR ''='' # QueryEscape v) (sort_key fst q))"

definition URL_String :: "URL \<Rightarrow> string" where
  "URL_String u =
     url_Scheme u @ ''://'' @ url_Host u @
     (let p = EscapedPath u in if p \<noteq> [] \<and> hd p \<noteq> CHR ''/'' then CHR ''/'' # p else p) @
     (if url_ForceQuery u \<or> url_RawQuery u \<noteq> [] then CHR ''?'' # url_RawQuery u else [])"

text \<open>Escaping a path segment leaves no separator and can be undone.\<close>

lemma unhex_upper_hex: "d < 16 \<Longrightarrow> unhex (upper_hex d) = Some d"
  by (simp add: unhex_def upper_hex_def byte_def)

lemma unescape_PathEscape: "PathUnescape (PathEscape s) = Some s"
proof (induction s)
  case (Cons c s)
  have b: "byte c div 16 < 16" "byte c mod 16 < 16" using byte_less[of c] by auto
  have undo: "char_of (byte c div 16 * 16 + byte c mod 16) = c" by (simp add: byte_def)
  have pct: "\<not> segment_safe CHR 0x25" by (simp add: segment_safe_def unreserved_def byte_def)
  show ?case
  proof (cases "segment_safe c")
    case True
    then have "c \<noteq> CHR 0x25" using pct by auto
    then show ?thesis using True Cons by (simp add: PathEscape_def PathUnescape_def)
  next
    case False
    then show ?thesis using Cons b undo
      by (simp add: PathEscape_def PathUnescape_def percent_def unhex_upper_hex del: unescape.simps(2))
         (simp add: unescape.simps(2) unhex_upper_hex)
  qed
qed (simp add: PathEscape_def PathUnescape_def)

lemma PathEscape_no_slash: "CHR ''/'' \<notin> set (PathEscape s)"
proof -
  have "upper_hex d \<noteq> CHR ''/''" if "d < 16" for d
    using that unhex_upper_hex[OF that] by (auto simp: unhex_def byte_def split: if_splits)
  moreover have "byte c div 16 < 16" "byte c mod 16 < 16" for c using byte_less[of c] by auto
  ultimately have "CHR ''/'' \<notin> set (percent c)" for c
    by (auto simp: percent_def dest: sym)
  moreover have "\<not> segment_safe CHR ''/''" by (simp add: segment_safe_def unreserved_def byte_def)
  ultimately show ?thesis by (auto simp: PathEscape_def)
qed

end
