(* ===== verification/Github_Url.thy ===== *)
theory Github_Url
  imports Github_Types Go_Strings
begin

text \<open>
  \<open>internal/githubapi/pagination.go\<close> and the URL checks of \<open>client.go\<close> and
  \<open>endpoints.go\<close>: the Link header, the origin and query rules every followed URL has to
  pass, and the escaping of route parameters.  \<open>url.Parse\<close> is a parameter \<open>parse\<close>.
\<close>

section \<open>Origin and query rules\<close>

definition TrimSuffix :: "string \<Rightarrow> string \<Rightarrow> string" where
  "TrimSuffix s suffix = (if HasSuffix s suffix then take (length s - length suffix) s else s)"

definition normalized_key :: "string \<Rightarrow> nat list" where
  "normalized_key key =
     map (lower_rune \<circ> fst) (runes (ReplaceAll (ReplaceAll key ''-'' []) ''_'' []))"

definition credential_keys :: "string list" where
  "credential_keys = [''token'', ''accesstoken'', ''authorization'', ''sig'', ''signature'', ''xamzsignature'']"

definition safePaginationQuery :: "URL \<Rightarrow> goerr option" where
  "safePaginationQuery candidate =
     first_error
      (map (\<lambda>(key, _). require (normalized_key key \<notin> set (map (map byte) credential_keys))
              (Errorf ''next Link target contained a credential-like query parameter'')) (Query candidate) @
       [require (path_Clean (url_Path candidate) = url_Path candidate)
          (Errorf ''next Link target contained a non-canonical path'')])"

definition plain_error :: "ErrorClass \<Rightarrow> string \<Rightarrow> string \<Rightarrow> error" where
  "plain_error class operation message = API (Error class operation 0 message False [] None)"

fun goerr_text :: "goerr \<Rightarrow> string" where
  "goerr_text (Errorf s) = s"
| "goerr_text (Wrapf s e) = s @ '': '' @ goerr_text e"
| "goerr_text ContextCanceled = ''context canceled''"
| "goerr_text ContextDeadlineExceeded = ''context deadline exceeded''"

definition validateAPIURL :: "URL \<Rightarrow> URL \<Rightarrow> error option" where
  "validateAPIURL base candidate =
     (let basePath = TrimSuffix (EscapedPath base) ''/''
      in if url_User candidate \<or> url_Fragment candidate \<noteq> [] \<or>
            \<not> EqualFold (url_Scheme candidate) (url_Scheme base) \<or> \<not> EqualFold (url_Host candidate) (url_Host base)
         then Some (plain_error ErrorPagination ''paginate'' ''next link left the configured GitHub API origin'')
         else if basePath \<noteq> [] \<and> \<not> HasPrefix (EscapedPath candidate) (basePath @ ''/'')
         then Some (plain_error ErrorPagination ''paginate'' ''next link left the configured API path'')
         else case safePaginationQuery candidate of
                Some err \<Rightarrow> Some (plain_error ErrorPagination ''paginate'' (goerr_text err))
              | None \<Rightarrow> None)"

definition IsAbs :: "URL \<Rightarrow> bool" where
  "IsAbs u \<longleftrightarrow> url_Scheme u \<noteq> []"

definition validateAPIRedirect :: "(string \<Rightarrow> URL option) \<Rightarrow> URL \<Rightarrow> string \<Rightarrow> error + URL" where
  "validateAPIRedirect parse base value =
     (case parse (TrimSpace value) of
        None \<Rightarrow> Inl (Plain (Errorf ''API redirect is not an absolute URL''))
      | Some redirect \<Rightarrow>
          if \<not> IsAbs redirect then Inl (Plain (Errorf ''API redirect is not an absolute URL''))
          else case validateAPIURL base redirect of Some err \<Rightarrow> Inl err | None \<Rightarrow> Inr redirect)"

section \<open>The Link header\<close>

text \<open>
  The loop over the runes of the header: the position of the current rune, the start of
  the current part and the three flags.
\<close>

record LinkScan =
  ls_result :: "string list"
  ls_start :: nat
  ls_inAngles :: bool
  ls_inQuotes :: bool
  ls_escaped :: bool

definition slice_of :: "string \<Rightarrow> nat \<Rightarrow> nat \<Rightarrow> string" where
  "slice_of s i j = take (j - i) (drop i s)"

definition link_step :: "string \<Rightarrow> nat \<Rightarrow> nat \<Rightarrow> LinkScan \<Rightarrow> LinkScan" where
  "link_step text index r s =
     (if ls_escaped s then s\<lparr>ls_escaped := False\<rparr>
      else if r = 0x5C \<and> ls_inQuotes s then s\<lparr>ls_escaped := True\<rparr>
      else if r = 0x22 then s\<lparr>ls_inQuotes := \<not> ls_inQuotes s\<rparr>
      else if r = 0x3C \<and> \<not> ls_inQuotes s then s\<lparr>ls_inAngles := True\<rparr>
      else if r = 0x3E \<and> \<not> ls_inQuotes s then s\<lparr>ls_inAngles := False\<rparr>
      else if r = 0x2C \<and> \<not> ls_inAngles s \<and> \<not> ls_inQuotes s
      then s\<lparr>ls_result := ls_result s @ [slice_of text (ls_start s) index], ls_start := index + 1\<rparr>
      else s)"

fun link_scan :: "string \<Rightarrow> nat \<Rightarrow> (nat \<times> nat) list \<Rightarrow> LinkScan \<Rightarrow> LinkScan" where
  "link_scan text index [] s = s"
| "link_scan text index ((r, width) # rs) s = link_scan text (index + width) rs (link_step text index r s)"

definition splitLinkHeader :: "string \<Rightarrow> string list" where
  "splitLinkHeader text =
     (let s = link_scan text 0 (runes text)
                \<lparr>ls_result = [], ls_start = 0, ls_inAngles = False, ls_inQuotes = False, ls_escaped = False\<rparr>
      in ls_result s @ [drop (ls_start s) text])"

definition hasLinkRelation :: "string \<Rightarrow> string \<Rightarrow> bool" where
  "hasLinkRelation parameters wanted =
     list_ex (\<lambda>parameter.
       case Cut CHR ''='' (TrimSpace parameter) of
         None \<Rightarrow> False
       | Some (key, v) \<Rightarrow> EqualFold (TrimSpace key) ''rel'' \<and>
           wanted \<in> set (Fields (TrimFunc (\<lambda>r. r = 0x22) (TrimSpace v)))) (split_on CHR '';'' parameters)"

text \<open>
  The loop of \<open>nextLink\<close>.  \<open>strings.IndexByte(part, '>') < 1\<close> holds exactly when the
  part has no closing bracket, since it starts with an opening one.
\<close>

primrec next_link_of :: "(string \<Rightarrow> URL option) \<Rightarrow> URL \<Rightarrow> string list \<Rightarrow> error + URL option" where
  "next_link_of parse base [] = Inr None"
| "next_link_of parse base (piece # rest) =
     (let part = TrimSpace piece
      in if part = [] \<or> hd part \<noteq> CHR ''<'' then next_link_of parse base rest
         else case Cut CHR ''>'' part of
                None \<Rightarrow> Inl (Plain (Errorf ''malformed Link header''))
              | Some (before, after) \<Rightarrow>
                  if \<not> hasLinkRelation after ''next'' then next_link_of parse base rest
                  else case parse (tl before) of
                         None \<Rightarrow> Inl (Plain (Errorf ''next Link target is not an absolute URL''))
                       | Some candidate \<Rightarrow>
                           if \<not> IsAbs candidate then Inl (Plain (Errorf ''next Link target is not an absolute URL''))
                           else case validateAPIURL base candidate of
                                  Some err \<Rightarrow> Inl err
                                | None \<Rightarrow> Inr (Some candidate))"

definition nextLink :: "(string \<Rightarrow> URL option) \<Rightarrow> URL \<Rightarrow> string \<Rightarrow> error + URL option" where
  "nextLink parse base header = next_link_of parse base (splitLinkHeader header)"

definition paginationParameters :: "(string \<times> string) list \<Rightarrow> URL option \<Rightarrow> (string \<times> string) list" where
  "paginationParameters base next_url =
     (case next_url of
        None \<Rightarrow> base
      | Some u \<Rightarrow>
          base @ map (\<lambda>key. (''query.'' @ key, Join (map snd (filter (\<lambda>(k, _). k = key) (Query u))) '',''))
                   (remdups (map fst (Query u))))"

section \<open>Route parameters\<close>

definition invalidArgument :: "string \<Rightarrow> string \<Rightarrow> error" where
  "invalidArgument operation message = plain_error ErrorInvalidRequest operation message"

definition escapeIdentifier :: "string \<Rightarrow> string \<Rightarrow> error + string" where
  "escapeIdentifier field v =
     (if v = [] \<or> v = ''.'' \<or> v = ''..'' \<or> length v > 256 \<or> ContainsAny v [CHR ''/'', CHR 0x5C, CHR 0x00, CHR 0x0D, CHR 0x0A]
      then Inl (invalidArgument (''validate '' @ field) (field @ '' is empty or invalid''))
      else Inr (PathEscape v))"

definition repositoryParts :: "string \<Rightarrow> string \<Rightarrow> error + string \<times> string" where
  "repositoryParts owner repository =
     (case escapeIdentifier ''owner'' owner of
        Inl err \<Rightarrow> Inl err
      | Inr ownerPart \<Rightarrow>
          (case escapeIdentifier ''repository'' repository of
             Inl err \<Rightarrow> Inl err
           | Inr repositoryPart \<Rightarrow> Inr (ownerPart, repositoryPart)))"

definition escapeRepositoryPath :: "string \<Rightarrow> error + string" where
  "escapeRepositoryPath v =
     (if v = [] \<or> length v > 4096 \<or> HasPrefix v ''/'' \<or> ContainsAny v [CHR 0x5C, CHR 0x00, CHR 0x0D, CHR 0x0A]
      then Inl (invalidArgument ''validate repository path'' ''repository path is empty or unsafe'')
      else let cleaned = path_Clean v
           in if cleaned \<noteq> v \<or> cleaned = ''.'' \<or> cleaned = ''..'' \<or> HasPrefix cleaned ''../''
              then Inl (invalidArgument ''validate repository path'' ''repository path is not canonical'')
              else Inr (join_with CHR ''/'' (map PathEscape (split_on CHR ''/'' cleaned))))"

end
