(* ===== verification/Github_Client.thy ===== *)
theory Github_Client
  imports Collect_Window Github_Url
begin

text \<open>
  \<open>internal/githubapi/client.go\<close>: the only transport of the collectors.  One GET request
  with its retries and redirects, the classification of the answers and the delays
  between attempts.  The network, the token source, the clock, the sleep and the
  cancellation of the context are functions over an environment \<open>'w\<close>; \<open>url.Parse\<close>,
  \<open>http.ParseTime\<close> and SHA-256 are functions the client is given.
\<close>

section \<open>Configuration\<close>

definition defaultJSONLimit :: int where
  "defaultJSONLimit = 64 * 2 ^ 20"

definition hardJSONLimit :: int where
  "hardJSONLimit = 256 * 2 ^ 20"

definition maxAPIRedirects :: int where
  "maxAPIRedirects = 3"

definition APIVersion :: string where
  "APIVersion = ''2026-03-10''"

definition DefaultAccept :: string where
  "DefaultAccept = ''application/vnd.github+json''"

record RetryPolicy =
  ry_MaxAttempts :: int
  ry_BaseDelay :: int
  ry_MaxDelay :: int
  ry_SecondaryMinDelay :: int

record Limits =
  lm_JSONResponseBytes :: int
  lm_MaxPages :: int
  lm_AttemptLogBytes :: int
  lm_JobLogBytes :: int

definition check_RetryPolicy :: "RetryPolicy \<Rightarrow> goerr option" where
  "check_RetryPolicy policy =
     first_error
      [require (\<not> (ry_MaxAttempts policy < 1 \<or> ry_MaxAttempts policy > 10)) (Errorf ''retry attempts must be between 1 and 10''),
       require (\<not> (ry_BaseDelay policy < 0 \<or> ry_MaxDelay policy < 0 \<or> ry_SecondaryMinDelay policy < 0))
         (Errorf ''retry delays cannot be negative'')]"

definition check_Limits :: "Limits \<Rightarrow> goerr option" where
  "check_Limits limits =
     first_error
      [require (\<not> (lm_JSONResponseBytes limits \<le> 0 \<or> lm_JSONResponseBytes limits > hardJSONLimit))
         (Errorf ''JSON response limit must be in 1..268435456''),
       require (\<not> (lm_MaxPages limits \<le> 0 \<or> lm_MaxPages limits > 1000000)) (Errorf ''maximum page count must be in 1..1000000''),
       require (\<not> (lm_AttemptLogBytes limits \<le> 0 \<or> lm_AttemptLogBytes limits > 2 * 2 ^ 30))
         (Errorf ''attempt log limit must be in 1..2GiB''),
       require (\<not> (lm_JobLogBytes limits \<le> 0 \<or> lm_JobLogBytes limits > 2 ^ 30)) (Errorf ''job log limit must be in 1..1GiB'')]"

definition default_retry :: RetryPolicy where
  "default_retry = \<lparr>ry_MaxAttempts = 3, ry_BaseDelay = Second, ry_MaxDelay = 5 * Minute, ry_SecondaryMinDelay = Minute\<rparr>"

definition default_limits :: Limits where
  "default_limits = \<lparr>lm_JSONResponseBytes = defaultJSONLimit, lm_MaxPages = 10000,
     lm_AttemptLogBytes = 512 * 2 ^ 20, lm_JobLogBytes = 256 * 2 ^ 20\<rparr>"

text \<open>
  An answer of \<open>http.Client.Do\<close>: the status, the header as the values of each
  canonical name, and a body that delivers its bytes and then ends or fails.
\<close>

record HTTPResponse =
  hr_StatusCode :: int
  hr_Header :: "string \<Rightarrow> string list"
  hr_Body :: string
  hr_BodyFails :: bool

definition header_get :: "HTTPResponse \<Rightarrow> string \<Rightarrow> string" where
  "header_get resp name = (case hr_Header resp name of [] \<Rightarrow> [] | v # _ \<Rightarrow> v)"

record 'w Client =
  cl_base :: URL
  cl_Do :: "string \<Rightarrow> (string \<times> string) list \<Rightarrow> 'w \<Rightarrow> HTTPResponse option \<times> 'w"
  cl_Token :: "'w \<Rightarrow> string option \<times> 'w"
  cl_userAgent :: string
  cl_retry :: RetryPolicy
  cl_limits :: Limits
  cl_now :: "'w \<Rightarrow> gotime \<times> 'w"
  cl_sleep :: "int \<Rightarrow> 'w \<Rightarrow> goerr option \<times> 'w"
  cl_jitter :: "(int \<Rightarrow> 'w \<Rightarrow> int \<times> 'w) option"
  cl_Err :: "'w \<Rightarrow> goerr option \<times> 'w"
  cl_parse :: "string \<Rightarrow> URL option"
  cl_ParseTime :: "string \<Rightarrow> gotime option"
  cl_sha256 :: "string \<Rightarrow> string"

record requestSpec =
  rq_routeTemplate :: string
  rq_path :: string
  rq_query :: "(string \<times> string) list"
  rq_parameters :: "(string \<times> string) list"
  rq_accept :: string
  rq_maxBytes :: int
  rq_ifNoneMatch :: string
  rq_absoluteURL :: "URL option"
  rq_operation :: string

record rawResponse =
  rw_body :: string
  rw_meta :: ResponseMeta
  rw_attempts :: "ResponseMeta list"
  rw_next :: "URL option"
  rw_redirect :: "URL option"

definition no_class :: ErrorClass where
  "no_class = OtherErrorClass []"

definition zero_meta :: ResponseMeta where
  "zero_meta = \<lparr>rm_Method = [], rm_RouteTemplate = [], rm_RequestParameters = [], rm_StatusCode = 0, rm_RequestID = [],
     rm_APIVersion = [], rm_ResponseAPIVersion = [], rm_MediaType = [], rm_ByteLength = 0, rm_SHA256 = [],
     rm_BodyComplete = False, rm_ETag = [], rm_RateLimit = 0, rm_RateRemaining = 0, rm_RateUsed = 0,
     rm_RateReset = 0, rm_RateResource = [], rm_RetryAfterSeconds = 0, rm_StartedAt = zero_time,
     rm_CompletedAt = zero_time, rm_ErrorClass = no_class\<rparr>"

definition raw_of :: "string \<Rightarrow> ResponseMeta \<Rightarrow> rawResponse" where
  "raw_of body meta = \<lparr>rw_body = body, rw_meta = meta, rw_attempts = [], rw_next = None, rw_redirect = None\<rparr>"

definition zero_raw :: rawResponse where
  "zero_raw = raw_of [] zero_meta"

section \<open>One answer\<close>

definition isAPIRedirect :: "int \<Rightarrow> bool" where
  "isAPIRedirect status \<longleftrightarrow> status = 301 \<or> status = 302 \<or> status = 307 \<or> status = 308"

text \<open>
  \<open>readBounded\<close> reads at most one byte past the limit; a failure of the body that comes
  later than that is not seen.  The result is the bytes, whether they are complete, and
  the error: \<open>Some True\<close> for the size limit.
\<close>

definition readBounded :: "string \<Rightarrow> bool \<Rightarrow> int \<Rightarrow> string \<times> bool \<times> bool option" where
  "readBounded data fails limit =
     (if limit \<le> 0 then ([], False, Some False)
      else let body = take (nat (limit + 1)) data
           in if fails \<and> int (length data) < limit + 1 then (body, False, Some False)
              else if int (length body) > limit then (take (nat limit) body, False, Some True)
              else (body, True, None))"

definition parseInt64Header :: "string \<Rightarrow> int" where
  "parseInt64Header v = fst (ParseInt (TrimSpace v))"

definition parseRetryAfter :: "(string \<Rightarrow> gotime option) \<Rightarrow> string \<Rightarrow> gotime \<Rightarrow> int" where
  "parseRetryAfter parse_time v now =
     (let v = TrimSpace v
      in if v = [] then 0
         else if snd (ParseInt v) then (if fst (ParseInt v) > 0 then fst (ParseInt v) else 0)
         else case parse_time v of
                None \<Rightarrow> 0
              | Some when \<Rightarrow>
                  if \<not> After when now then 0
                  else let seconds = SubTime when now div Second
                       in if Before (AddDur now (seconds * Second)) when then seconds + 1 else seconds)"

definition sanitizedParameters :: "(string \<times> string) list \<Rightarrow> (string \<times> string) list" where
  "sanitizedParameters parameters = map (\<lambda>(k, v). (sanitizeDiagnostic k, sanitizeDiagnostic v)) parameters"

definition responseMetadata ::
    "(string \<Rightarrow> gotime option) \<Rightarrow> (string \<Rightarrow> string) \<Rightarrow> ResponseMeta \<Rightarrow> HTTPResponse \<Rightarrow> string \<Rightarrow> bool \<Rightarrow> gotime \<Rightarrow> ResponseMeta" where
  "responseMetadata parse_time sha256 meta resp body complete completed =
     (let version = sanitizeDiagnostic (header_get resp ''X-Github-Api-Version'')
      in meta\<lparr>rm_StatusCode := hr_StatusCode resp,
              rm_RequestID := sanitizeDiagnostic (header_get resp ''X-Github-Request-Id''),
              rm_ResponseAPIVersion :=
                (if version = [] then sanitizeDiagnostic (header_get resp ''X-Github-Api-Version-Selected'') else version),
              rm_MediaType := sanitizeDiagnostic (header_get resp ''Content-Type''),
              rm_ByteLength := int (length body), rm_BodyComplete := complete,
              rm_SHA256 := (if complete then sha256 body else rm_SHA256 meta),
              rm_ETag := sanitizeDiagnostic (header_get resp ''Etag''),
              rm_RateLimit := parseInt64Header (header_get resp ''X-Ratelimit-Limit''),
              rm_RateRemaining := parseInt64Header (header_get resp ''X-Ratelimit-Remaining''),
              rm_RateUsed := parseInt64Header (header_get resp ''X-Ratelimit-Used''),
              rm_RateReset := parseInt64Header (header_get resp ''X-Ratelimit-Reset''),
              rm_RateResource := sanitizeDiagnostic (header_get resp ''X-Ratelimit-Resource''),
              rm_RetryAfterSeconds := parseRetryAfter parse_time (header_get resp ''Retry-After'') completed,
              rm_CompletedAt := completed\<rparr>)"

definition classifyHTTP :: "HTTPResponse \<Rightarrow> string \<Rightarrow> ErrorClass \<times> bool" where
  "classifyHTTP response body =
     (let status = hr_StatusCode response
      in if status = 401 then (ErrorUnauthorized, False)
         else if status = 403 then
           (if header_get response ''Retry-After'' \<noteq> [] \<or> ToLower_Contains body ''secondary rate limit'' \<or>
               ToLower_Contains body ''abuse detection'' then (ErrorSecondaryLimit, True)
            else if header_get response ''X-Ratelimit-Remaining'' = ''0'' then (ErrorRateLimited, True)
            else (ErrorForbidden, False))
         else if status = 404 then (ErrorNotFound, False)
         else if status = 410 then (ErrorAPIVersion, False)
         else if status = 422 then (ErrorValidation, False)
         else if status = 429 then (ErrorRateLimited, True)
         else if 500 \<le> status \<and> status \<le> 599 then (ErrorTransient, True)
         else (ErrorMalformedResponse, False))"

definition sanitizeResponseMessage :: "string \<Rightarrow> string \<Rightarrow> string" where
  "sanitizeResponseMessage body secret =
     (let message = TrimSpace body;
          message = (if secret \<noteq> [] then ReplaceAll message secret ''[REDACTED]'' else message)
      in if message = [] then ''GitHub returned an error'' else sanitizeDiagnostic message)"

definition appendDiagnostic :: "string \<Rightarrow> string \<Rightarrow> string" where
  "appendDiagnostic left right = (if left = [] then right else left @ ''; '' @ right)"

fun error_text :: "error \<Rightarrow> string" where
  "error_text (Plain e) = goerr_text e"
| "error_text (Wrapped s e) = s @ '': '' @ error_text e"
| "error_text (API a) = Error_Error a"

definition request_headers :: "'w Client \<Rightarrow> requestSpec \<Rightarrow> string \<Rightarrow> (string \<times> string) list" where
  "request_headers c spec token =
     [(''Accept'', rq_accept spec), (''X-Github-Api-Version'', APIVersion), (''User-Agent'', cl_userAgent c)] @
     (if rq_ifNoneMatch spec \<noteq> [] then [(''If-None-Match'', rq_ifNoneMatch spec)] else []) @
     (if token \<noteq> [] then [(''Authorization'', ''Bearer '' @ token)] else [])"

text \<open>What \<open>getOnce\<close> makes of an answer.\<close>

definition judge_response ::
    "'w Client \<Rightarrow> requestSpec \<Rightarrow> string \<Rightarrow> ResponseMeta \<Rightarrow> HTTPResponse \<Rightarrow> gotime \<Rightarrow> rawResponse \<times> error option" where
  "judge_response c spec token meta resp completed =
     (let (body, complete, readErr) = readBounded (hr_Body resp) (hr_BodyFails resp) (rq_maxBytes spec);
          meta = responseMetadata (cl_ParseTime c) (cl_sha256 c) meta resp body complete completed;
          fail = (\<lambda>class message retryable.
            (raw_of body (meta\<lparr>rm_ErrorClass := class\<rparr>),
             Some (API (Error class (rq_operation spec) (hr_StatusCode resp) message retryable [] None))))
      in case readErr of
           Some True \<Rightarrow> fail ErrorSizeLimit ''response exceeded configured byte limit'' False
         | Some False \<Rightarrow> fail ErrorTransient ''response body could not be read completely'' True
         | None \<Rightarrow>
             if isAPIRedirect (hr_StatusCode resp) then
               (case validateAPIRedirect (cl_parse c) (cl_base c) (header_get resp ''Location'') of
                  Inl _ \<Rightarrow> fail ErrorUnsafeRedirect ''GitHub API redirect left the configured origin or was malformed'' False
                | Inr redirect \<Rightarrow> ((raw_of body meta)\<lparr>rw_redirect := Some redirect\<rparr>, None))
             else
               let link = Join (hr_Header resp ''Link'') '',''
               in case (if link = [] then Inr None else nextLink (cl_parse c) (cl_base c) link) of
                    Inl parseErr \<Rightarrow> fail ErrorPagination (error_text parseErr) False
                  | Inr next_url \<Rightarrow>
                      (let result = (raw_of body meta)\<lparr>rw_next := next_url\<rparr>
                       in if hr_StatusCode resp = 304 then (result, None)
                          else if hr_StatusCode resp < 200 \<or> hr_StatusCode resp \<ge> 300 then
                            (let (class, retryable) = classifyHTTP resp body
                             in (result\<lparr>rw_meta := meta\<lparr>rm_ErrorClass := class\<rparr>\<rparr>,
                                 Some (API (Error class (rq_operation spec) (hr_StatusCode resp)
                                   (sanitizeResponseMessage body token) retryable [] None))))
                          else (result, None)))"

definition getOnce ::
    "'w Client \<Rightarrow> URL \<Rightarrow> requestSpec \<Rightarrow> string \<Rightarrow> 'w \<Rightarrow> (rawResponse \<times> error option) \<times> 'w" where
  "getOnce c target spec token w =
     (let (started, w) = cl_now c w;
          meta = zero_meta\<lparr>rm_Method := ''GET'', rm_RouteTemplate := rq_routeTemplate spec,
                   rm_RequestParameters := sanitizedParameters (rq_parameters spec), rm_APIVersion := APIVersion,
                   rm_StartedAt := UTC started\<rparr>
      in if cl_parse c (URL_String target) = None then
           let (completed, w) = cl_now c w
           in ((raw_of [] (meta\<lparr>rm_CompletedAt := UTC completed, rm_ErrorClass := ErrorInvalidRequest\<rparr>),
                Some (plain_error ErrorInvalidRequest (rq_operation spec) ''could not create request'')), w)
         else
           case cl_Do c (URL_String target) (request_headers c spec token) w of
             (None, w) \<Rightarrow>
               (let (completed, w) = cl_now c w; meta = meta\<lparr>rm_CompletedAt := UTC completed\<rparr>
                in case cl_Err c w of
                     (Some _, w) \<Rightarrow>
                       (let (cause, w) = cl_Err c w
                        in ((raw_of [] (meta\<lparr>rm_ErrorClass := ErrorCancelled\<rparr>),
                             Some (API (Error ErrorCancelled (rq_operation spec) 0 ''request cancelled'' False []
                               (map_option Plain cause)))), w))
                   | (None, w) \<Rightarrow>
                       ((raw_of [] (meta\<lparr>rm_ErrorClass := ErrorTransient\<rparr>),
                         Some (API (Error ErrorTransient (rq_operation spec) 0 ''network request failed'' True [] None))), w))
           | (Some resp, w) \<Rightarrow>
               (let (completed, w) = cl_now c w
                in (judge_response c spec token meta resp (UTC completed), w)))"

section \<open>Delays\<close>

definition minDuration :: "int \<Rightarrow> int \<Rightarrow> int" where
  "minDuration a b = (if b \<le> 0 \<or> a < b then a else b)"

text \<open>\<open>time.Unix(seconds, 0)\<close>, counted from the zero time.\<close>

definition Unix_time :: "int \<Rightarrow> gotime" where
  "Unix_time seconds = \<lparr>ns = wrap64 (seconds + 62135596800) * Second, utc = False\<rparr>"

text \<open>The doubling loop, run \<open>attempt - 1\<close> times.\<close>

primrec backoff :: "nat \<Rightarrow> int \<Rightarrow> int \<Rightarrow> int" where
  "backoff 0 limit delay = delay"
| "backoff (Suc n) limit delay = (if delay \<ge> limit div 2 then limit else backoff n limit (wrap64 (delay * 2)))"

definition retryDelay :: "'w Client \<Rightarrow> int \<Rightarrow> ResponseMeta \<Rightarrow> ErrorClass \<Rightarrow> 'w \<Rightarrow> int \<times> 'w" where
  "retryDelay c attempt meta class w =
     (let retry = cl_retry c; limit = ry_MaxDelay retry;
          exponential = (\<lambda>w.
            let delay = backoff (nat (attempt - 1)) limit (ry_BaseDelay retry);
                delay = (if class = ErrorSecondaryLimit \<and> delay < ry_SecondaryMinDelay retry
                         then ry_SecondaryMinDelay retry else delay);
                delay = minDuration delay limit
            in case cl_jitter c of
                 None \<Rightarrow> (delay, w)
               | Some jitter \<Rightarrow> (let (extra, w) = jitter delay w in (minDuration (wrap64 (delay + extra)) limit, w)))
      in if rm_RetryAfterSeconds meta > 0 then (minDuration (wrap64 (rm_RetryAfterSeconds meta * Second)) limit, w)
         else if class = ErrorRateLimited \<and> rm_RateReset meta > 0 then
           (let (now, w) = cl_now c w; delay = SubTime (Unix_time (rm_RateReset meta)) now
            in if delay > 0 then (minDuration delay limit, w) else exponential w)
         else exponential w)"

text \<open>
  \<open>contextSleep\<close> and \<open>cryptoJitter\<close>, the sleep and the jitter of a client that is not
  configured otherwise: the timer and the cancellation are one function \<open>wait\<close>, and
  \<open>random\<close> gives eight bytes or fails.
\<close>

definition contextSleep :: "(int \<Rightarrow> 'w \<Rightarrow> goerr option \<times> 'w) \<Rightarrow> int \<Rightarrow> 'w \<Rightarrow> goerr option \<times> 'w" where
  "contextSleep wait duration w = (if duration \<le> 0 then (None, w) else wait duration w)"

definition random_value :: "nat list \<Rightarrow> 64 word" where
  "random_value bytes = foldl (\<lambda>v one. or (push_bit 8 v) (word_of_nat one)) 0 bytes"

definition cryptoJitter :: "('w \<Rightarrow> nat list option \<times> 'w) \<Rightarrow> int \<Rightarrow> 'w \<Rightarrow> int \<times> 'w" where
  "cryptoJitter random base w =
     (if base \<le> 0 then (0, w)
      else let maximum = base div 4
           in if maximum = 0 then (0, w)
              else case random w of
                     (None, w) \<Rightarrow> (0, w)
                   | (Some bytes, w) \<Rightarrow> (uint (random_value bytes) mod maximum, w))"

section \<open>Requests\<close>

definition requestURL :: "'w Client \<Rightarrow> requestSpec \<Rightarrow> error + URL" where
  "requestURL c spec =
     (case rq_absoluteURL spec of
        Some u \<Rightarrow> (case validateAPIURL (cl_base c) u of Some err \<Rightarrow> Inl err | None \<Rightarrow> Inr u)
      | None \<Rightarrow>
          if rq_path spec = [] \<or> \<not> HasPrefix (rq_path spec) ''/''
          then Inl (plain_error ErrorInvalidRequest (rq_operation spec) ''compiled route path is invalid'')
          else let escapedPath = TrimSuffix (EscapedPath (cl_base c)) ''/'' @ rq_path spec
               in case PathUnescape escapedPath of
                    None \<Rightarrow> Inl (plain_error ErrorInvalidRequest (rq_operation spec) ''compiled route path has invalid escaping'')
                  | Some decodedPath \<Rightarrow>
                      Inr ((cl_base c)\<lparr>url_Path := decodedPath, url_RawPath := escapedPath,
                             url_RawQuery := Values_Encode (rq_query spec)\<rparr>))"

text \<open>
  The state of \<open>get\<close>: the current target, the URLs redirected to so far, the number of
  redirects, and a record of every request made.
\<close>

record 'w Getting =
  gt_target :: URL
  gt_seen :: "string list"
  gt_redirects :: int
  gt_attempts :: "ResponseMeta list"
  gt_world :: 'w

datatype 'w outcome =
    Returned "rawResponse \<times> error option" 'w
  | TryAgain "'w Getting"

definition with_error_class :: "ErrorClass \<Rightarrow> ResponseMeta \<Rightarrow> ResponseMeta" where
  "with_error_class class m = m\<lparr>rm_ErrorClass := class\<rparr>"

text \<open>The failure branch of the inner loop: give up, or sleep and let the outer loop try again.\<close>

definition after_failure ::
    "'w Client \<Rightarrow> requestSpec \<Rightarrow> int \<Rightarrow> 'w Getting \<Rightarrow> rawResponse \<Rightarrow> error \<Rightarrow> 'w outcome" where
  "after_failure c spec attempt g response requestErr =
     (case as_api requestErr of
        None \<Rightarrow> Returned (response, Some requestErr) (gt_world g)
      | Some (Error class operation status message retryable _ cause) \<Rightarrow>
          if \<not> retryable \<or> attempt = ry_MaxAttempts (cl_retry c) then
            Returned (response, Some (API (Error class operation status
               (if attempt = ry_MaxAttempts (cl_retry c) \<and> attempt > 1
                then appendDiagnostic message ''retry budget exhausted'' else message)
               False (gt_attempts g) cause))) (gt_world g)
          else
            let (delay, w) = retryDelay c attempt (rw_meta response) class (gt_world g)
            in case cl_sleep c delay w of
                 (Some err, w) \<Rightarrow>
                   Returned (response, Some (API (Error ErrorCancelled (rq_operation spec) 0 ''retry cancelled'' False
                     (gt_attempts g) (Some (Plain err))))) w
               | (None, w) \<Rightarrow> TryAgain (g\<lparr>gt_world := w\<rparr>))"

text \<open>The inner loop, which follows redirects; \<open>maxAPIRedirects\<close> bounds them over all attempts.\<close>

function request_once :: "'w Client \<Rightarrow> requestSpec \<Rightarrow> string \<Rightarrow> int \<Rightarrow> 'w Getting \<Rightarrow> 'w outcome" where
  "request_once c spec token attempt g =
     (case getOnce c (gt_target g) spec token (gt_world g) of
        ((answer, requestErr), w) \<Rightarrow>
          (let attempts = gt_attempts g @ [rw_meta answer];
               response = answer\<lparr>rw_attempts := attempts\<rparr>;
               g = g\<lparr>gt_attempts := attempts, gt_world := w\<rparr>
           in case requestErr of
                Some err \<Rightarrow> after_failure c spec attempt g response err
              | None \<Rightarrow>
                  (case rw_redirect answer of
                     None \<Rightarrow> Returned (response, None) w
                   | Some redirect \<Rightarrow>
                       let redirects = gt_redirects g + 1; key = URL_String redirect
                       in if redirects > maxAPIRedirects \<or> key \<in> set (gt_seen g) then
                            let marked = attempts[length attempts - 1 := with_error_class ErrorUnsafeRedirect (rw_meta answer)]
                            in Returned
                                 (answer\<lparr>rw_meta := with_error_class ErrorUnsafeRedirect (rw_meta answer), rw_attempts := marked\<rparr>,
                                  Some (API (Error ErrorUnsafeRedirect (rq_operation spec) (rm_StatusCode (rw_meta answer))
                                    ''GitHub API redirect chain was cyclic or exceeded its bound'' False marked None))) w
                          else request_once c spec token attempt
                                 (g\<lparr>gt_redirects := redirects, gt_seen := key # gt_seen g, gt_target := redirect\<rparr>))))"
  by pat_completeness auto
termination
  by (relation "measure (\<lambda>(c, spec, token, attempt, g). nat (maxAPIRedirects - gt_redirects g))") auto

declare request_once.simps [simp del]

text \<open>The outer loop over the attempts that remain.\<close>

primrec get_attempts :: "'w Client \<Rightarrow> requestSpec \<Rightarrow> nat \<Rightarrow> 'w Getting \<Rightarrow> (rawResponse \<times> error option) \<times> 'w" where
  "get_attempts c spec 0 g =
     ((zero_raw, Some (API (Error ErrorRetryBudget (rq_operation spec) 0
        ''request retry loop exhausted without a terminal result'' False (gt_attempts g) None))), gt_world g)"
| "get_attempts c spec (Suc n) g =
     (case cl_Token c (gt_world g) of
        (None, w) \<Rightarrow>
          ((zero_raw, Some (plain_error ErrorUnauthorized (rq_operation spec) ''authentication source failed'')), w)
      | (Some token, w) \<Rightarrow>
          (case request_once c spec token (ry_MaxAttempts (cl_retry c) - int n) (g\<lparr>gt_world := w\<rparr>) of
             Returned result w \<Rightarrow> (result, w)
           | TryAgain g \<Rightarrow> get_attempts c spec n g))"

definition complete_spec :: "'w Client \<Rightarrow> requestSpec \<Rightarrow> requestSpec" where
  "complete_spec c spec =
     (let spec = (if rq_accept spec = [] then spec\<lparr>rq_accept := DefaultAccept\<rparr> else spec)
      in if rq_maxBytes spec \<le> 0 then spec\<lparr>rq_maxBytes := lm_JSONResponseBytes (cl_limits c)\<rparr> else spec)"

definition get_url :: "'w Client \<Rightarrow> requestSpec \<Rightarrow> 'w \<Rightarrow> (rawResponse \<times> error option) \<times> 'w" where
  "get_url c given w =
     (case cl_Err c w of
        (Some err, w) \<Rightarrow>
          ((zero_raw, Some (API (Error ErrorCancelled (rq_operation given) 0 ''request cancelled'' False [] (Some (Plain err))))), w)
      | (None, w) \<Rightarrow>
          (let spec = complete_spec c given
           in if rq_maxBytes spec > hardJSONLimit \<and> rq_accept spec = DefaultAccept then
                ((zero_raw, Some (plain_error ErrorInvalidRequest (rq_operation spec) ''response budget exceeds JSON hard ceiling'')), w)
              else case requestURL c spec of
                     Inl err \<Rightarrow> ((zero_raw, Some err), w)
                   | Inr target \<Rightarrow>
                       get_attempts c spec (nat (ry_MaxAttempts (cl_retry c)))
                         \<lparr>gt_target = target, gt_seen = [URL_String target], gt_redirects = 0, gt_attempts = [], gt_world = w\<rparr>))"

section \<open>Construction\<close>

definition newClient_endpoint :: "URL \<Rightarrow> bool \<Rightarrow> string \<Rightarrow> string \<Rightarrow> error option" where
  "newClient_endpoint base allowTestEndpoint hostname port =
     (if url_Scheme base = [] \<or> url_Host base = [] then Some (Plain (Errorf ''GitHub API endpoint is invalid''))
      else if \<not> allowTestEndpoint \<and> (url_Scheme base \<noteq> ''https'' \<or> \<not> EqualFold hostname ''api.github.com'' \<or> port \<noteq> [])
      then Some (plain_error ErrorUnsupportedTarget ''configure'' ''v0.1 supports only https://api.github.com'')
      else None)"

section \<open>What a request may reach\<close>

text \<open>
  A client whose environment also records every request that is sent: the URL and the
  header fields.  Nothing else changes.
\<close>

type_synonym trace = "(string \<times> (string \<times> string) list) list"

definition traced :: "'w Client \<Rightarrow> ('w \<times> trace) Client" where
  "traced c =
     \<lparr>cl_base = cl_base c,
      cl_Do = (\<lambda>u headers (w, sent). let (r, w) = cl_Do c u headers w in (r, (w, sent @ [(u, headers)]))),
      cl_Token = (\<lambda>(w, sent). let (r, w) = cl_Token c w in (r, (w, sent))),
      cl_userAgent = cl_userAgent c, cl_retry = cl_retry c, cl_limits = cl_limits c,
      cl_now = (\<lambda>(w, sent). let (r, w) = cl_now c w in (r, (w, sent))),
      cl_sleep = (\<lambda>d (w, sent). let (r, w) = cl_sleep c d w in (r, (w, sent))),
      cl_jitter = map_option (\<lambda>j d (w, sent). let (r, w) = j d w in (r, (w, sent))) (cl_jitter c),
      cl_Err = (\<lambda>(w, sent). let (r, w) = cl_Err c w in (r, (w, sent))),
      cl_parse = cl_parse c, cl_ParseTime = cl_ParseTime c, cl_sha256 = cl_sha256 c\<rparr>"

definition same_origin :: "URL \<Rightarrow> URL \<Rightarrow> bool" where
  "same_origin base u \<longleftrightarrow> EqualFold (url_Scheme u) (url_Scheme base) \<and> EqualFold (url_Host u) (url_Host base)"

definition inside :: "URL \<Rightarrow> trace \<Rightarrow> bool" where
  "inside base sent \<longleftrightarrow> (\<forall>(text, headers) \<in> set sent. \<exists>u. text = URL_String u \<and> same_origin base u)"

lemma traced_simps [simp]:
  "cl_base (traced c) = cl_base c" "cl_retry (traced c) = cl_retry c" "cl_limits (traced c) = cl_limits c"
  "cl_parse (traced c) = cl_parse c"
  by (simp_all add: traced_def)

lemma EqualFold_refl [simp]: "EqualFold s s"
  by (simp add: EqualFold_def)

lemma validateAPIURL_None:
  assumes "validateAPIURL base u = None"
  shows "same_origin base u" and "\<not> url_User u" and "url_Fragment u = []"
    and "path_Clean (url_Path u) = url_Path u"
    and "\<forall>(key, v) \<in> set (Query u). normalized_key key \<notin> set (map (map byte) credential_keys)"
  using assms
  by (auto simp: validateAPIURL_def same_origin_def safePaginationQuery_def Let_def split: if_splits option.splits)

lemma requestURL_origin: "requestURL c spec = Inr u \<Longrightarrow> same_origin (cl_base c) u"
  by (auto simp: requestURL_def same_origin_def Let_def split: option.splits if_splits dest: validateAPIURL_None(1))

lemma validateAPIRedirect_origin: "validateAPIRedirect parse base v = Inr u \<Longrightarrow> validateAPIURL base u = None"
  by (auto simp: validateAPIRedirect_def split: option.splits if_splits)

lemma judge_redirect:
  "judge_response c spec token meta resp t = (r, e) \<Longrightarrow> rw_redirect r = Some u \<Longrightarrow> validateAPIURL (cl_base c) u = None"
  by (auto simp: judge_response_def Let_def raw_of_def split: prod.splits option.splits bool.splits if_splits sum.splits
      dest: validateAPIRedirect_origin)

text \<open>One call sends at most one request, to its target, and a redirect it reports is inside the origin.\<close>

lemma getOnce_traced:
  assumes "getOnce (traced c) target spec token (w, sent) = ((r, e), (w', sent'))"
  shows "sent' = sent \<or> (\<exists>headers. sent' = sent @ [(URL_String target, headers)])"
    and "rw_redirect r = Some u \<Longrightarrow> same_origin (cl_base c) u"
proof -
  show "sent' = sent \<or> (\<exists>headers. sent' = sent @ [(URL_String target, headers)])"
    using assms
    by (auto simp: getOnce_def traced_def Let_def split: prod.splits option.splits if_splits)
next
  assume "rw_redirect r = Some u"
  then show "same_origin (cl_base c) u"
    using assms judge_redirect[of "traced c"]
    by (fastforce simp: getOnce_def raw_of_def Let_def split: prod.splits option.splits if_splits
        dest: validateAPIURL_None(1))
qed

lemma retryDelay_traced: "snd (retryDelay (traced c) attempt meta class (w, sent)) = (w', sent') \<Longrightarrow> sent' = sent"
  by (auto simp: retryDelay_def traced_def Let_def split: prod.splits option.splits if_splits)

lemma after_failure_traced:
  assumes "gt_world g = (w, sent)" and "after_failure (traced c) spec attempt g response err = o1"
  shows "case o1 of Returned result (w', sent') \<Rightarrow> sent' = sent
    | TryAgain g' \<Rightarrow> snd (gt_world g') = sent \<and> gt_target g' = gt_target g \<and> gt_redirects g' = gt_redirects g"
proof -
  obtain cls op st msg rt rs cause where a: "as_api err = None \<or> as_api err = Some (Error cls op st msg rt rs cause)"
    by (metis api_error.exhaust not_None_eq)
  obtain delay w1 s1 where d: "retryDelay (traced c) attempt (rw_meta response) cls (w, sent) = (delay, (w1, s1))"
    by (metis prod.exhaust)
  have "s1 = sent" using retryDelay_traced[of c attempt "rw_meta response" cls w sent w1 s1] d by simp
  then show ?thesis using assms a d
    by (auto simp: after_failure_def Let_def traced_def split: option.splits prod.splits)
qed

text \<open>The number of requests the loop makes and where they go.\<close>

definition request_budget :: "URL \<Rightarrow> nat \<Rightarrow> int \<Rightarrow> ('w \<times> trace) outcome \<Rightarrow> bool" where
  "request_budget base n redirects o1 \<longleftrightarrow>
     (case o1 of
        Returned result (w', sent') \<Rightarrow> inside base sent' \<and> int (length sent') \<le> int n + maxAPIRedirects + 1 - redirects
      | TryAgain g' \<Rightarrow> inside base (snd (gt_world g')) \<and> same_origin base (gt_target g') \<and>
          gt_redirects g' \<le> maxAPIRedirects \<and>
          int (length (snd (gt_world g'))) \<le> int n + 1 + gt_redirects g' - redirects)"

lemma request_once_budget:
  assumes "same_origin (cl_base c) (gt_target g)" and "inside (cl_base c) (snd (gt_world g))"
    and "gt_redirects g \<le> maxAPIRedirects"
  shows "request_budget (cl_base c) (length (snd (gt_world g))) (gt_redirects g) (request_once (traced c) spec token attempt g)"
  using assms
proof (induction "traced c" spec token attempt g rule: request_once.induct)
  case (1 spec token attempt g)
  obtain w sent where gw: "gt_world g = (w, sent)" by fastforce
  obtain r e w' sent' where once: "getOnce (traced c) (gt_target g) spec token (w, sent) = ((r, e), (w', sent'))"
    by (metis prod.exhaust)
  note tr = getOnce_traced[OF once]
  have ins: "inside (cl_base c) sent'" "length sent' \<le> Suc (length sent)"
    using tr(1) "1.prems"(1,2) by (auto simp: inside_def gw)
  let ?attempts = "gt_attempts g @ [rw_meta r]"
  let ?g = "g\<lparr>gt_attempts := ?attempts, gt_world := (w', sent')\<rparr>"
  show ?case
  proof (cases e)
    case (Some err)
    have "case after_failure (traced c) spec attempt ?g (r\<lparr>rw_attempts := ?attempts\<rparr>) err of
        Returned result (w2, sent2) \<Rightarrow> sent2 = sent'
      | TryAgain g' \<Rightarrow> snd (gt_world g') = sent' \<and> gt_target g' = gt_target ?g \<and> gt_redirects g' = gt_redirects ?g"
      by (rule after_failure_traced[OF _ refl]) simp
    then show ?thesis
      using ins "1.prems" Some once gw
      by (subst request_once.simps) (auto simp: request_budget_def Let_def split: outcome.splits prod.splits)
  next
    case None
    show ?thesis
    proof (cases "rw_redirect r")
      case no: None
      then show ?thesis using ins "1.prems" None once gw
        by (subst request_once.simps) (auto simp: request_budget_def Let_def)
    next
      case redirect: (Some u)
      show ?thesis
      proof (cases "gt_redirects g + 1 > maxAPIRedirects \<or> URL_String u \<in> set (gt_seen g)")
        case True
        then show ?thesis using ins "1.prems" None redirect once gw
          by (subst request_once.simps) (auto simp: request_budget_def Let_def)
      next
        case False
        let ?g' = "?g\<lparr>gt_redirects := gt_redirects ?g + 1, gt_seen := URL_String u # gt_seen ?g, gt_target := u\<rparr>"
        have step: "request_once (traced c) spec token attempt g = request_once (traced c) spec token attempt ?g'"
          using False None redirect once gw by (subst request_once.simps) (simp add: Let_def)
        have "request_budget (cl_base c) (length (snd (gt_world ?g'))) (gt_redirects ?g')
            (request_once (traced c) spec token attempt ?g')"
          by (rule "1.hyps"[OF once[symmetric, folded gw] refl refl refl refl None redirect refl refl])
            (use False None once gw ins tr(2)[OF redirect] in simp_all)
        then show ?thesis unfolding step using ins gw
          by (auto simp: request_budget_def split: outcome.splits prod.splits)
      qed
    qed
  qed
qed

lemma get_attempts_budget:
  assumes "same_origin (cl_base c) (gt_target g)" and "inside (cl_base c) (snd (gt_world g))"
    and "gt_redirects g \<le> maxAPIRedirects" and "get_attempts (traced c) spec n g = (result, (w', sent'))"
  shows "inside (cl_base c) sent' \<and>
    int (length sent') \<le> int (length (snd (gt_world g))) + int n + maxAPIRedirects - gt_redirects g"
  using assms
proof (induction n arbitrary: g)
  case 0
  then show ?case by auto
next
  case (Suc n)
  obtain w sent where gw: "gt_world g = (w, sent)" by fastforce
  obtain token w1 where tok: "cl_Token c w = (token, w1)" by fastforce
  then have tok': "cl_Token (traced c) (gt_world g) = (token, (w1, sent))" by (simp add: traced_def gw)
  show ?case
  proof (cases token)
    case None
    then show ?thesis using Suc.prems tok' gw by auto
  next
    case (Some t)
    let ?o = "request_once (traced c) spec t (ry_MaxAttempts (cl_retry c) - int n) (g\<lparr>gt_world := (w1, sent)\<rparr>)"
    have b: "request_budget (cl_base c) (length sent) (gt_redirects g) ?o"
      using request_once_budget[of c "g\<lparr>gt_world := (w1, sent)\<rparr>"] Suc.prems(1-3) gw by simp
    show ?thesis
    proof (cases ?o)
      case (Returned r w2)
      then show ?thesis using b Suc.prems(4) Some tok' gw by (auto simp: request_budget_def)
    next
      case (TryAgain g')
      have r: "get_attempts (traced c) spec n g' = (result, (w', sent'))" using Suc.prems(4) Some tok' TryAgain by simp
      have g': "same_origin (cl_base c) (gt_target g')" "inside (cl_base c) (snd (gt_world g'))" "gt_redirects g' \<le> maxAPIRedirects"
          "int (length (snd (gt_world g'))) \<le> int (length sent) + 1 + gt_redirects g' - gt_redirects g"
        using b TryAgain by (simp_all add: request_budget_def)
      show ?thesis using Suc.IH[OF g'(1-3) r] g'(4) gw by simp
    qed
  qed
qed

lemma get_url_budget:
  assumes "get_url (traced c) spec (w, sent0) = (result, (w', sent))" and "0 \<le> ry_MaxAttempts (cl_retry c)"
    and "inside (cl_base c) sent0"
  shows "inside (cl_base c) sent \<and> int (length sent) \<le> int (length sent0) + ry_MaxAttempts (cl_retry c) + 3"
proof -
  obtain e w1 where err: "cl_Err c w = (e, w1)" by fastforce
  have start: "cl_Err (traced c) (w, sent0) = (e, (w1, sent0))" using err by (simp add: traced_def)
  let ?spec = "complete_spec (traced c) spec"
  show ?thesis
  proof (cases "e = None \<and> \<not> (rq_maxBytes ?spec > hardJSONLimit \<and> rq_accept ?spec = DefaultAccept)")
    case False
    then show ?thesis using assms start by (auto simp: get_url_def Let_def split: option.splits)
  next
    case ok: True
    show ?thesis
    proof (cases "requestURL (traced c) ?spec")
      case (Inl x)
      then show ?thesis using assms start ok by (auto simp: get_url_def Let_def)
    next
      case (Inr target)
      have o1: "same_origin (cl_base c) target" using requestURL_origin[OF Inr] by simp
      from Inr show ?thesis
        using assms start ok o1 get_attempts_budget[of c "\<lparr>gt_target = target, gt_seen = [URL_String target], gt_redirects = 0,
            gt_attempts = [], gt_world = (w1, sent0)\<rparr>" ?spec "nat (ry_MaxAttempts (cl_retry c))"]
        by (auto simp: get_url_def Let_def maxAPIRedirects_def)
    qed
  qed
qed

text \<open>
  C16: the requests of one read are bounded and stay inside the configured origin.  However
  the servers answer, one \<open>get\<close> sends at most as many requests as there are attempts,
  plus three for redirects, and every URL it sends one to, redirects and pagination links
  included, has the scheme and the host of the configured API.
\<close>

theorem requests_bounded_inside_origin:
  assumes "get_url (traced c) spec (w, []) = (result, (w', sent))" and "0 \<le> ry_MaxAttempts (cl_retry c)"
  shows "int (length sent) \<le> ry_MaxAttempts (cl_retry c) + 3 \<and>
    (\<forall>(text, headers) \<in> set sent. \<exists>u. text = URL_String u \<and>
       EqualFold (url_Scheme u) (url_Scheme (cl_base c)) \<and> EqualFold (url_Host u) (url_Host (cl_base c)))"
  using get_url_budget[OF assms] by (simp add: inside_def same_origin_def)

section \<open>Delays and classes\<close>

lemma minDuration_bounds: "0 \<le> a \<Longrightarrow> 0 < b \<Longrightarrow> 0 \<le> minDuration a b \<and> minDuration a b \<le> b"
  by (simp add: minDuration_def)

lemma backoff_bounds:
  assumes "0 \<le> delay" and "0 < limit" and "limit \<le> 2 ^ 62"
  shows "0 \<le> backoff n limit delay \<and> (backoff n limit delay \<le> limit \<or> backoff n limit delay = delay)"
  using assms(1)
proof (induction n arbitrary: delay)
  case (Suc n)
  show ?case
  proof (cases "delay \<ge> limit div 2")
    case False
    then have small: "0 \<le> delay * 2" "delay * 2 \<le> limit" using Suc.prems by linarith+
    have "wrap64 (delay * 2) = delay * 2" using small assms(3) by (intro wrap64_id) auto
    then show ?thesis using Suc.IH[of "delay * 2"] small False by auto
  qed (use assms in simp)
qed simp

lemma cryptoJitter_bounds: "0 \<le> d \<Longrightarrow> 0 \<le> fst (cryptoJitter random d w) \<and> fst (cryptoJitter random d w) \<le> d div 4"
  by (auto simp: cryptoJitter_def Let_def less_imp_le pos_mod_bound split: prod.splits option.splits)

text \<open>
  C20: the delay before a retry is bounded by the policy.  With the limits a policy is
  checked for, a maximum of at most \<open>2 ^ 62\<close> nanoseconds and a jitter that adds to a
  delay between nothing and a quarter of it, as \<open>cryptoJitter\<close> does whatever its random
  bytes are, the delay lies between 0 and the maximum, whatever the server asks for with its
  rate reset, and with \<open>Retry-After\<close> as long as that is below \<open>2 ^ 63\<close> nanoseconds.
\<close>

theorem retry_delay_bounded:
  assumes "check_RetryPolicy (cl_retry c) = None" and "0 < ry_MaxDelay (cl_retry c)" and "ry_MaxDelay (cl_retry c) \<le> 2 ^ 62"
    and "\<And>jitter d w. cl_jitter c = Some jitter \<Longrightarrow> 0 \<le> d \<Longrightarrow>
        0 \<le> fst (jitter d w) \<and> fst (jitter d w) \<le> d div 4"
    and "rm_RetryAfterSeconds meta \<le> 9223372036"
    and "retryDelay c attempt meta cls w = (delay, w')"
  shows "0 \<le> delay \<and> delay \<le> ry_MaxDelay (cl_retry c)"
proof -
  define limit where "limit = ry_MaxDelay (cl_retry c)"
  have pos: "0 < limit" "limit \<le> 2 ^ 62" using assms(2,3) by (simp_all add: limit_def)
  have base: "0 \<le> ry_BaseDelay (cl_retry c)" "0 \<le> ry_SecondaryMinDelay (cl_retry c)"
    using assms(1) by (simp_all add: check_RetryPolicy_def)
  define d1 where "d1 = backoff (nat (attempt - 1)) limit (ry_BaseDelay (cl_retry c))"
  define d2 where "d2 = minDuration (if cls = ErrorSecondaryLimit \<and> d1 < ry_SecondaryMinDelay (cl_retry c)
      then ry_SecondaryMinDelay (cl_retry c) else d1) limit"
  have "0 \<le> d1" using backoff_bounds[OF base(1) pos] by (simp add: d1_def)
  then have d2: "0 \<le> d2" "d2 \<le> limit" unfolding d2_def using base(2) minDuration_bounds[OF _ pos(1)] by auto
  have jit: "0 \<le> minDuration (wrap64 (d2 + fst (jitter d2 u))) limit \<and> minDuration (wrap64 (d2 + fst (jitter d2 u))) limit \<le> limit"
    if "cl_jitter c = Some jitter" for jitter and u :: 'a
  proof -
    have "0 \<le> fst (jitter d2 u)" "fst (jitter d2 u) \<le> d2 div 4" using assms(4)[OF that d2(1)] by auto
    then have "0 \<le> d2 + fst (jitter d2 u)" "d2 + fst (jitter d2 u) < 2 ^ 63" using d2 pos(2) by auto
    then show ?thesis using wrap64_id[of "d2 + fst (jitter d2 u)"] minDuration_bounds[OF _ pos(1)] by simp
  qed
  have wait: "wrap64 (rm_RetryAfterSeconds meta * Second) = rm_RetryAfterSeconds meta * Second" if "0 < rm_RetryAfterSeconds meta"
    using assms(5) that by (intro wrap64_id) auto
  have exact: "delay = minDuration (rm_RetryAfterSeconds meta * Second) limit \<and> 0 < rm_RetryAfterSeconds meta
      \<or> (\<exists>x > 0. delay = minDuration x limit) \<or> delay = d2
      \<or> (\<exists>jitter u. cl_jitter c = Some jitter \<and> delay = minDuration (wrap64 (d2 + fst (jitter d2 u))) limit)"
    using assms(6) wait unfolding retryDelay_def Let_def limit_def[symmetric] d1_def[symmetric] d2_def[symmetric]
    by (auto split: if_splits prod.splits option.splits) (metis fst_conv)+
  then show ?thesis unfolding limit_def[symmetric]
    using d2 jit minDuration_bounds[OF _ pos(1)] by fastforce
qed

text \<open>
  C21: a very large \<open>Retry-After\<close> makes the client not wait at all.  From 9223372037
  seconds to twice that the product with a second wraps around to a negative duration, which
  is below the maximum and which \<open>contextSleep\<close> takes for no delay.
\<close>

theorem retry_after_overflow:
  assumes "9223372037 \<le> rm_RetryAfterSeconds meta" and "rm_RetryAfterSeconds meta \<le> 18446744073"
  shows "fst (retryDelay c attempt meta cls w) < 0 \<and>
    contextSleep wait (fst (retryDelay c attempt meta cls w)) w = (None, w)"
proof -
  have "wrap64 (rm_RetryAfterSeconds meta * Second) < 0" using assms by (subst wrap64_over) simp_all
  then have "minDuration (wrap64 (rm_RetryAfterSeconds meta * Second)) limit < 0" for limit by (simp add: minDuration_def)
  then show ?thesis using assms(1) by (simp add: retryDelay_def contextSleep_def Let_def less_imp_le)
qed

text \<open>
  what is tried again.  An answer is classified as retryable exactly when it is a server
  error, a 429, or a 403 that says it is a rate limit: by a \<open>Retry-After\<close> header, by an
  exhausted quota, or in its text; every other status is final.
\<close>

theorem retryable_answers:
  "snd (classifyHTTP resp body) \<longleftrightarrow>
     (500 \<le> hr_StatusCode resp \<and> hr_StatusCode resp \<le> 599) \<or> hr_StatusCode resp = 429 \<or>
     hr_StatusCode resp = 403 \<and>
       (header_get resp ''Retry-After'' \<noteq> [] \<or> header_get resp ''X-Ratelimit-Remaining'' = ''0'' \<or>
        ToLower_Contains body ''secondary rate limit'' \<or> ToLower_Contains body ''abuse detection'')"
  by (auto simp: classifyHTTP_def Let_def)

section \<open>Concrete requests\<close>

definition sample_base :: URL where
  "sample_base = \<lparr>url_Scheme = ''https'', url_User = False, url_Host = ''api.github.com'', url_Path = [], url_RawPath = [],
     url_ForceQuery = False, url_RawQuery = [], url_Fragment = []\<rparr>"

definition sample_client :: "unit Client" where
  "sample_client = \<lparr>cl_base = sample_base,
     cl_Do = (\<lambda>u headers w. (Some \<lparr>hr_StatusCode = 404, hr_Header = (\<lambda>name. []), hr_Body = [], hr_BodyFails = False\<rparr>, w)),
     cl_Token = (\<lambda>w. (Some [], w)), cl_userAgent = ''CIRewind'', cl_retry = default_retry, cl_limits = default_limits,
     cl_now = (\<lambda>w. (zero_time, w)), cl_sleep = (\<lambda>d w. (None, w)), cl_jitter = None, cl_Err = (\<lambda>w. (None, w)),
     cl_parse = (\<lambda>text. Some sample_base), cl_ParseTime = (\<lambda>text. None), cl_sha256 = (\<lambda>body. [])\<rparr>"

definition sample_spec :: requestSpec where
  "sample_spec = \<lparr>rq_routeTemplate = ''/meta'', rq_path = ''/meta'', rq_query = [], rq_parameters = [], rq_accept = [],
     rq_maxBytes = 0, rq_ifNoneMatch = [], rq_absoluteURL = None, rq_operation = ''get meta''\<rparr>"

lemma sample_ops [simp]:
  "cl_Err (traced sample_client) ((), sent) = (None, ((), sent))"
  "cl_Token (traced sample_client) ((), sent) = (Some [], ((), sent))"
  "ry_MaxAttempts (cl_retry sample_client) = 3" "ry_MaxDelay (cl_retry sample_client) = 300000000000"
  by (simp_all add: traced_def sample_client_def default_retry_def Minute_def)

lemma sample_request:
  "\<exists>result headers. get_url (traced sample_client) sample_spec ((), []) =
     (result, ((), [(''https://api.github.com/meta'', headers)]))"
proof -
  have u: "requestURL (traced sample_client) (complete_spec (traced sample_client) sample_spec) =
      Inr (sample_base\<lparr>url_Path := ''/meta'', url_RawPath := ''/meta''\<rparr>)"
    by (simp add: requestURL_def sample_spec_def complete_spec_def sample_client_def sample_base_def HasPrefix_def
        EscapedPath_def escape_path_def TrimSuffix_def HasSuffix_def PathUnescape_def Values_Encode_def Let_def)
  have str: "URL_String (sample_base\<lparr>url_Path := ''/meta'', url_RawPath := ''/meta''\<rparr>) = ''https://api.github.com/meta''"
    by (simp add: URL_String_def sample_base_def EscapedPath_def PathUnescape_def valid_encoded_path_def path_safe_def
        unreserved_def byte_def Let_def)
  define spec where "spec = complete_spec (traced sample_client) sample_spec"
  have limits: "\<not> (rq_maxBytes spec > hardJSONLimit \<and> rq_accept spec = DefaultAccept)" "0 < rq_maxBytes spec"
    by (simp_all add: spec_def complete_spec_def sample_spec_def sample_client_def default_limits_def defaultJSONLimit_def hardJSONLimit_def)
  have once: "\<exists>r op msg headers. getOnce (traced sample_client) u spec [] ((), sent) =
      ((r, Some (API (Error ErrorNotFound op 404 msg False [] None))), ((), sent @ [(URL_String u, headers)]))" for u sent
    using limits(2)
    by (simp add: getOnce_def traced_def sample_client_def judge_response_def readBounded_def isAPIRedirect_def
        classifyHTTP_def Let_def)
  define g where "g = \<lparr>gt_target = sample_base\<lparr>url_Path := ''/meta'', url_RawPath := ''/meta''\<rparr>,
    gt_seen = [''https://api.github.com/meta''], gt_redirects = 0, gt_attempts = [], gt_world = ((), [] :: trace)\<rparr>"
  obtain r op msg headers where o1: "getOnce (traced sample_client) (gt_target g) spec [] ((), []) =
      ((r, Some (API (Error ErrorNotFound op 404 msg False [] None))), ((), [(''https://api.github.com/meta'', headers)]))"
    using once[of "gt_target g" "[]"] str by (auto simp: g_def)
  have "\<exists>result. request_once (traced sample_client) spec [] 1 g = Returned result ((), [(''https://api.github.com/meta'', headers)])"
    using o1 by (subst request_once.simps) (simp add: g_def Let_def after_failure_def)
  then obtain result where "request_once (traced sample_client) spec [] 1 g = Returned result ((), [(''https://api.github.com/meta'', headers)])"
    by blast
  then have "get_attempts (traced sample_client) spec 3 g = (result, ((), [(''https://api.github.com/meta'', headers)]))"
    by (simp add: numeral_3_eq_3 g_def)
  moreover have "get_url (traced sample_client) sample_spec ((), []) = get_attempts (traced sample_client) spec 3 g"
    using limits(1) u str unfolding get_url_def Let_def spec_def[symmetric]
    by (auto simp: g_def)
  ultimately show ?thesis by auto
qed

theorem requests_bounded_inside_origin_witness:
  "\<exists>result headers. get_url (traced sample_client) sample_spec ((), []) =
      (result, ((), [(''https://api.github.com/meta'', headers)])) \<and>
     (\<exists>u. ''https://api.github.com/meta'' = URL_String u \<and> EqualFold (url_Host u) ''api.github.com'')"
proof -
  obtain result headers where g: "get_url (traced sample_client) sample_spec ((), []) =
      (result, ((), [(''https://api.github.com/meta'', headers)]))" using sample_request by blast
  show ?thesis using requests_bounded_inside_origin[OF g] g
    by (auto simp: sample_client_def sample_base_def default_retry_def)
qed

theorem retry_delay_bounded_witness:
  "fst (retryDelay (sample_client\<lparr>cl_jitter := Some (cryptoJitter (\<lambda>w. (Some [1, 2, 3, 4, 5, 6, 7, 8], w)))\<rparr>)
     2 zero_meta ErrorTransient ()) \<le> 300000000000"
proof -
  define c where "c = sample_client\<lparr>cl_jitter := Some (cryptoJitter (\<lambda>w. (Some [1, 2, 3, 4, 5, 6, 7, 8], w)))\<rparr>"
  obtain delay where d: "retryDelay c 2 zero_meta ErrorTransient () = (delay, ())"
    by (metis old.unit.exhaust prod.exhaust)
  have jit: "0 \<le> fst (jitter d w) \<and> fst (jitter d w) \<le> d div 4" if "cl_jitter c = Some jitter" "0 \<le> d" for jitter d w
    using that by (auto simp: c_def intro: cryptoJitter_bounds[THEN conjunct1] cryptoJitter_bounds[THEN conjunct2])
  have "0 \<le> delay \<and> delay \<le> ry_MaxDelay (cl_retry c)"
  proof (rule retry_delay_bounded[where w = "()" and w' = "()"])
    show "retryDelay c 2 zero_meta ErrorTransient () = (delay, ())" by (rule d)
  qed (use jit in \<open>auto simp: c_def sample_client_def default_retry_def check_RetryPolicy_def Minute_def zero_meta_def\<close>)
  then have "delay \<le> 300000000000" by (simp add: c_def sample_client_def default_retry_def Minute_def)
  then show ?thesis using d by (simp add: c_def)
qed

theorem retry_after_overflow_witness:
  "fst (retryDelay sample_client 1 (zero_meta\<lparr>rm_RetryAfterSeconds := 9223372037\<rparr>) ErrorRateLimited ()) < 0"
  using retry_after_overflow[of "zero_meta\<lparr>rm_RetryAfterSeconds := 9223372037\<rparr>" sample_client 1 ErrorRateLimited "()"] by simp

end
