(* ===== verification/Collect_Attempts.thy ===== *)
theory Collect_Attempts
  imports Collect_Window
begin

text \<open>
  \<open>internal/collect/attempts.go\<close>: the snapshot of a workflow run, its attempts and their
  jobs, with the quarantine of contradictory job objects and the stabilization against
  a run that changes while it is read.  The API (\<open>AttemptAPI\<close>) is a parameter over an
  environment \<open>'w\<close>.
\<close>

section \<open>State\<close>

record 'w AttemptAPI =
  at_Err :: "'w \<Rightarrow> goerr option \<times> 'w"
  GetWorkflowRun :: "string \<Rightarrow> string \<Rightarrow> int \<Rightarrow> 'w \<Rightarrow> (WorkflowRun ObjectResult \<times> error option) \<times> 'w"
  GetWorkflowRunAttempt :: "string \<Rightarrow> string \<Rightarrow> int \<Rightarrow> int \<Rightarrow> 'w \<Rightarrow> (WorkflowRun ObjectResult \<times> error option) \<times> 'w"
  ListJobsForAttempt :: "string \<Rightarrow> string \<Rightarrow> int \<Rightarrow> int \<Rightarrow> 'w \<Rightarrow> (JobList \<times> error option) \<times> 'w"

record AttemptBundle =
  ab_Attempt :: int
  ab_Run :: WorkflowRun
  ab_Jobs :: "WorkflowJob list"
  ab_Responses :: "ResponseMeta list"
  ab_quarantinedJobNames :: "string list"

definition LogJobNameCorrelationSafe :: "AttemptBundle \<Rightarrow> string \<Rightarrow> bool" where
  "LogJobNameCorrelationSafe b name =
     list_all (\<lambda>quarantined. \<not> (quarantined = [] \<or> quarantined = name)) (ab_quarantinedJobNames b)"

record AttemptSnapshot =
  as_InitialParent :: WorkflowRun
  as_FinalParent :: WorkflowRun
  as_ParentResponses :: "ResponseMeta list"
  as_Attempts :: "AttemptBundle list"
  as_Gaps :: "Gap list"
  as_Stable :: bool

definition zero_actor :: Actor where
  "zero_actor = \<lparr>ac_ID = 0, ac_Login = []\<rparr>"

definition zero_run :: WorkflowRun where
  "zero_run = \<lparr>wr_ID = 0, wr_NodeID = [], wr_RunNumber = 0, wr_RunAttempt = 0, wr_WorkflowID = 0, wr_Path = [],
     wr_Event = [], wr_Status = [], wr_Conclusion = [], wr_CreatedAt = zero_time, wr_RunStartedAt = None,
     wr_UpdatedAt = None, wr_HeadSHA = [], wr_HeadBranch = [], wr_Actor = zero_actor, wr_TriggeringActor = zero_actor,
     wr_PullRequests = [], wr_Repository = None, wr_HeadRepository = None, wr_CheckSuiteID = 0,
     wr_ReferencedWorkflows = []\<rparr>"

definition zero_snapshot :: AttemptSnapshot where
  "zero_snapshot = \<lparr>as_InitialParent = zero_run, as_FinalParent = zero_run, as_ParentResponses = [],
     as_Attempts = [], as_Gaps = [], as_Stable = False\<rparr>"

record 'w AttemptCollector =
  acl_API :: "'w AttemptAPI option"
  acl_MaxStabilizationPasses :: int

definition identityGap :: "string \<Rightarrow> int \<Rightarrow> int \<Rightarrow> int \<Rightarrow> string \<Rightarrow> ResponseMeta list \<Rightarrow> Gap" where
  "identityGap scope repositoryID runID attempt diagnostic responses =
     zero_gap\<lparr>gap_Reason := CGapAmbiguousCorrelation, gap_Scope := scope, gap_RepositoryID := repositoryID,
       gap_RunID := runID, gap_Attempt := attempt, gap_Material := True, gap_Diagnostic := diagnostic,
       gap_Responses := responses\<rparr>"

definition sameRunSnapshot :: "WorkflowRun \<Rightarrow> WorkflowRun \<Rightarrow> bool" where
  "sameRunSnapshot left right =
     (if wr_ID left \<noteq> wr_ID right \<or> wr_RunAttempt left \<noteq> wr_RunAttempt right \<or> wr_Status left \<noteq> wr_Status right \<or>
         wr_Conclusion left \<noteq> wr_Conclusion right then False
      else case (wr_UpdatedAt left, wr_UpdatedAt right) of
             (Some l, Some r) \<Rightarrow> EqualTime l r
           | (l, r) \<Rightarrow> l = None \<and> r = None)"

section \<open>Jobs of an attempt\<close>

text \<open>
  The map \<open>jobIDCounts\<close> has the number of listed objects with a positive identifier;
  it is read at positive identifiers only.
\<close>

definition jobIDCounts :: "WorkflowJob list \<Rightarrow> int \<Rightarrow> nat" where
  "jobIDCounts jobs i = length (filter (\<lambda>job. wj_ID job > 0 \<and> wj_ID job = i) jobs)"

record JobTriage =
  jt_kept :: "WorkflowJob list"
  jt_quarantined :: "string list"
  jt_missingIdentity :: bool
  jt_contradictedRun :: bool
  jt_duplicateIDs :: "int list"

primrec triage_jobs :: "int \<Rightarrow> WorkflowJob list \<Rightarrow> WorkflowJob list \<Rightarrow> JobTriage \<Rightarrow> JobTriage" where
  "triage_jobs runID listed [] t = t"
| "triage_jobs runID listed (job # jobs) t =
     triage_jobs runID listed jobs
      (if wj_ID job \<le> 0 then t\<lparr>jt_missingIdentity := True, jt_quarantined := jt_quarantined t @ [wj_Name job]\<rparr>
       else if jobIDCounts listed (wj_ID job) > 1 then
         t\<lparr>jt_duplicateIDs := List.insert (wj_ID job) (jt_duplicateIDs t), jt_quarantined := jt_quarantined t @ [wj_Name job]\<rparr>
       else if wj_RunID job \<noteq> runID then
         t\<lparr>jt_contradictedRun := True, jt_quarantined := jt_quarantined t @ [wj_Name job]\<rparr>
       else t\<lparr>jt_kept := jt_kept t @ [job]\<rparr>)"

definition empty_triage :: JobTriage where
  "empty_triage = \<lparr>jt_kept = [], jt_quarantined = [], jt_missingIdentity = False, jt_contradictedRun = False,
     jt_duplicateIDs = []\<rparr>"

text \<open>The kept identifiers are unique and the names are plain strings: both sorts have one result.\<close>

definition attach_jobs ::
    "RepositoryTarget \<Rightarrow> int \<Rightarrow> int \<Rightarrow> JobList \<Rightarrow> AttemptBundle \<Rightarrow> AttemptSnapshot \<Rightarrow> AttemptBundle \<times> AttemptSnapshot" where
  "attach_jobs repository runID attempt jobs bundle snapshot =
     (let t = triage_jobs runID (jl_Jobs jobs) (jl_Jobs jobs) empty_triage;
          gap = (\<lambda>diagnostic. identityGap ''attempt_job'' (rt_ID repository) runID attempt diagnostic (jl_Responses jobs));
          gaps = (if jt_missingIdentity t
                  then [gap ''job response omitted a trustworthy execution identity''] else []) @
                 (if jt_contradictedRun t
                  then [gap ''job response contradicted the requested run identity''] else []) @
                 (if jt_duplicateIDs t \<noteq> []
                  then [gap ''attempt jobs response repeated a job ID; every occurrence was quarantined''] else [])
      in (bundle\<lparr>ab_Jobs := sort_key wj_ID (jt_kept t), ab_quarantinedJobNames := sort (jt_quarantined t)\<rparr>,
          snapshot\<lparr>as_Gaps := as_Gaps snapshot @ gaps\<rparr>))"

section \<open>Attempts of a run\<close>

record 'w Collecting =
  co_snapshot :: AttemptSnapshot
  co_collected :: "int list"
  co_world :: 'w

definition collect_attempt ::
    "'w AttemptAPI \<Rightarrow> RepositoryTarget \<Rightarrow> int \<Rightarrow> int \<Rightarrow> 'w Collecting \<Rightarrow> 'w Collecting" where
  "collect_attempt api repository runID attempt c =
     (if attempt \<in> set (co_collected c) then c
      else
        let owner = rt_Owner repository; name = rt_Name repository; snapshot = co_snapshot c;
            bundle = \<lparr>ab_Attempt = attempt, ab_Run = zero_run, ab_Jobs = [], ab_Responses = [], ab_quarantinedJobNames = []\<rparr>;
            collected = attempt # co_collected c
        in case GetWorkflowRunAttempt api owner name runID attempt (co_world c) of
          ((attemptResult, attemptErr), w) \<Rightarrow>
            (let bundle = bundle\<lparr>ab_Responses := or_Responses attemptResult\<rparr>
             in if attemptErr \<noteq> None then
                  \<lparr>co_snapshot = snapshot\<lparr>as_Gaps := as_Gaps snapshot @
                       [GapFromError ''workflow_run_attempt'' (rt_ID repository) runID attempt attemptErr]\<rparr>,
                   co_collected = collected, co_world = w\<rparr>
                else
                  let bundle = bundle\<lparr>ab_Run := or_Value attemptResult\<rparr>
                  in if wr_ID (ab_Run bundle) \<noteq> runID \<or> wr_RunAttempt (ab_Run bundle) \<noteq> attempt then
                       \<lparr>co_snapshot = snapshot\<lparr>as_Gaps := as_Gaps snapshot @
                            [identityGap ''workflow_run_attempt'' (rt_ID repository) runID attempt
                               ''attempt response contradicted the requested run-attempt identity'' (or_Responses attemptResult)]\<rparr>,
                        co_collected = collected, co_world = w\<rparr>
                     else case ListJobsForAttempt api owner name runID attempt w of
                       ((jobs, jobsErr), w) \<Rightarrow>
                         (let bundle = bundle\<lparr>ab_Responses := ab_Responses bundle @ jl_Responses jobs\<rparr>;
                              (bundle, snapshot) =
                                (if jobsErr \<noteq> None
                                 then (bundle, snapshot\<lparr>as_Gaps := as_Gaps snapshot @
                                        [GapFromError ''attempt_jobs'' (rt_ID repository) runID attempt jobsErr]\<rparr>)
                                 else attach_jobs repository runID attempt jobs bundle snapshot)
                          in \<lparr>co_snapshot = snapshot\<lparr>as_Attempts := as_Attempts snapshot @ [bundle]\<rparr>,
                              co_collected = collected, co_world = w\<rparr>)))"

definition collect_attempts ::
    "'w AttemptAPI \<Rightarrow> RepositoryTarget \<Rightarrow> int \<Rightarrow> int \<Rightarrow> 'w Collecting \<Rightarrow> 'w Collecting" where
  "collect_attempts api repository runID n c = fold (collect_attempt api repository runID) [1..n] c"

definition sort_attempts :: "AttemptSnapshot \<Rightarrow> AttemptSnapshot" where
  "sort_attempts s = s\<lparr>as_Attempts := sort_key ab_Attempt (as_Attempts s)\<rparr>"

definition note_gap :: "Gap \<Rightarrow> AttemptSnapshot \<Rightarrow> AttemptSnapshot" where
  "note_gap g s = s\<lparr>as_Gaps := as_Gaps s @ [g]\<rparr>"

text \<open>
  The stabilization passes: \<open>passes\<close> counts those that remain.  Each reads the context,
  collects the attempts not collected before, and reads the parent again.
\<close>

primrec stabilize ::
    "'w AttemptAPI \<Rightarrow> RepositoryTarget \<Rightarrow> int \<Rightarrow> nat \<Rightarrow> WorkflowRun \<Rightarrow> 'w Collecting \<Rightarrow>
     (AttemptSnapshot \<times> goerr option) \<times> 'w" where
  "stabilize api repository runID 0 current c =
     ((sort_attempts (note_gap
         (zero_gap\<lparr>gap_Reason := CGapLiveStateRace, gap_Scope := ''workflow_run'', gap_RepositoryID := rt_ID repository,
            gap_RunID := runID, gap_Material := True, gap_Retryable := True,
            gap_Diagnostic := ''run changed throughout the stabilization budget''\<rparr>)
         ((co_snapshot c)\<lparr>as_FinalParent := current\<rparr>)), None), co_world c)"
| "stabilize api repository runID (Suc passes) current c =
     (case at_Err api (co_world c) of
        (Some e, w) \<Rightarrow>
          ((note_gap
             (zero_gap\<lparr>gap_Reason := CGapCancelled, gap_Scope := ''workflow_run'', gap_RepositoryID := rt_ID repository,
                gap_RunID := runID, gap_Material := True, gap_Diagnostic := ''attempt collection cancelled''\<rparr>)
             (co_snapshot c), Some e), w)
      | (None, w) \<Rightarrow>
          if wr_RunAttempt current \<le> 0 then
            ((note_gap
               (zero_gap\<lparr>gap_Reason := CGapMalformedResponse, gap_Scope := ''workflow_run'', gap_RepositoryID := rt_ID repository,
                  gap_RunID := runID, gap_Material := True, gap_Diagnostic := ''run_attempt must be positive''\<rparr>)
               (co_snapshot c), None), w)
          else
            let c = collect_attempts api repository runID (wr_RunAttempt current) (c\<lparr>co_world := w\<rparr>)
            in case GetWorkflowRun api (rt_Owner repository) (rt_Name repository) runID (co_world c) of
              ((nextResult, nextErr), w) \<Rightarrow>
                (let s = (co_snapshot c)\<lparr>as_ParentResponses := as_ParentResponses (co_snapshot c) @ or_Responses nextResult\<rparr>
                 in if nextErr \<noteq> None then
                      let s = note_gap (GapFromError ''workflow_run_stabilization'' (rt_ID repository) runID 0 nextErr) s
                      in (case at_Err api w of
                            (None, w) \<Rightarrow> ((s, None), w)
                          | (Some e, w) \<Rightarrow> (case at_Err api w of (err, w) \<Rightarrow> ((s, err), w)))
                    else
                      let next = or_Value nextResult; s = s\<lparr>as_FinalParent := next\<rparr>
                      in if wr_ID next \<noteq> runID then
                           ((note_gap (identityGap ''workflow_run_stabilization'' (rt_ID repository) runID 0
                               ''stabilization response contradicted the requested run ID'' (or_Responses nextResult)) s, None), w)
                         else if sameRunSnapshot current next then
                           ((sort_attempts (s\<lparr>as_Stable := True\<rparr>), None), w)
                         else stabilize api repository runID passes next (c\<lparr>co_snapshot := s, co_world := w\<rparr>)))"

definition Snapshot ::
    "'w AttemptCollector \<Rightarrow> RepositoryTarget \<Rightarrow> int \<Rightarrow> 'w \<Rightarrow> (AttemptSnapshot \<times> goerr option) \<times> 'w" where
  "Snapshot collector repository runID w =
     (case acl_API collector of
        None \<Rightarrow> ((zero_snapshot, Some (Errorf ''attempt API is nil'')), w)
      | Some api \<Rightarrow>
          if rt_ID repository \<le> 0 \<or> rt_Owner repository = [] \<or> rt_Name repository = [] \<or> runID \<le> 0 then
            ((zero_snapshot, Some (Errorf ''repository target or run ID is invalid'')), w)
          else
            let passes = (if acl_MaxStabilizationPasses collector \<le> 0 then 3 else acl_MaxStabilizationPasses collector)
            in case GetWorkflowRun api (rt_Owner repository) (rt_Name repository) runID w of
              ((parent, err), w) \<Rightarrow>
                (let s = zero_snapshot\<lparr>as_ParentResponses := or_Responses parent\<rparr>
                 in if err \<noteq> None then
                      let s = note_gap (GapFromError ''workflow_run'' (rt_ID repository) runID 0 err) s
                      in (case at_Err api w of
                            (None, w) \<Rightarrow> ((s, None), w)
                          | (Some e, w) \<Rightarrow> (case at_Err api w of (err, w) \<Rightarrow> ((s, err), w)))
                    else
                      let s = s\<lparr>as_InitialParent := or_Value parent\<rparr>
                      in if wr_ID (or_Value parent) \<noteq> runID then
                           ((note_gap (identityGap ''workflow_run'' (rt_ID repository) runID 0
                               ''parent response contradicted the requested run ID'' (or_Responses parent)) s, None), w)
                         else stabilize api repository runID (nat passes) (or_Value parent)
                                \<lparr>co_snapshot = s, co_collected = [], co_world = w\<rparr>))"

section \<open>What a bundle holds\<close>

text \<open>
  The invariant of a bundle, of the gaps, and of the collection so far: every attempt
  that was tried has a bundle or a material gap that names it.
\<close>

definition own_job :: "int \<Rightarrow> WorkflowJob list \<Rightarrow> WorkflowJob \<Rightarrow> bool" where
  "own_job runID listed job \<longleftrightarrow> 0 < wj_ID job \<and> jobIDCounts listed (wj_ID job) = 1 \<and> wj_RunID job = runID"

definition bundle_ok :: "int \<Rightarrow> AttemptBundle \<Rightarrow> bool" where
  "bundle_ok runID b \<longleftrightarrow> wr_ID (ab_Run b) = runID \<and> wr_RunAttempt (ab_Run b) = ab_Attempt b \<and>
     strictly_sorted (map wj_ID (ab_Jobs b)) \<and> (\<forall>job \<in> set (ab_Jobs b). 0 < wj_ID job \<and> wj_RunID job = runID)"

definition answered :: "AttemptSnapshot \<Rightarrow> int \<Rightarrow> bool" where
  "answered s a \<longleftrightarrow> (\<exists>b \<in> set (as_Attempts s). ab_Attempt b = a) \<or>
     (\<exists>g \<in> set (as_Gaps s). gap_Material g \<and> gap_Attempt g = a)"

definition snapshot_ok :: "int \<Rightarrow> AttemptSnapshot \<Rightarrow> bool" where
  "snapshot_ok runID s \<longleftrightarrow> distinct (map ab_Attempt (as_Attempts s)) \<and> (\<forall>b \<in> set (as_Attempts s). bundle_ok runID b) \<and>
     (\<forall>g \<in> set (as_Gaps s). gap_Material g)"

definition collecting_ok :: "int \<Rightarrow> 'w Collecting \<Rightarrow> bool" where
  "collecting_ok runID c \<longleftrightarrow> snapshot_ok runID (co_snapshot c) \<and>
     ab_Attempt ` set (as_Attempts (co_snapshot c)) \<subseteq> set (co_collected c) \<and>
     (\<forall>a \<in> set (co_collected c). answered (co_snapshot c) a)"

lemmas snapshot_defs = note_gap_def sort_attempts_def GapFromError_def identityGap_def zero_gap_def Let_def

lemma triage_kept:
  "jt_kept (triage_jobs runID listed jobs t) = jt_kept t @ filter (own_job runID listed) jobs"
  if "set jobs \<subseteq> set listed"
  using that
proof (induction jobs arbitrary: t)
  case (Cons job jobs)
  have "0 < jobIDCounts listed (wj_ID job)" if "0 < wj_ID job"
    using Cons.prems that by (auto simp: jobIDCounts_def filter_empty_conv)
  then show ?case using Cons by (auto simp: own_job_def)
qed simp

lemma triage_quarantined:
  "jt_quarantined (triage_jobs runID listed jobs t) =
     jt_quarantined t @ map wj_Name (filter (\<lambda>job. \<not> own_job runID listed job) jobs)"
  if "set jobs \<subseteq> set listed"
  using that
proof (induction jobs arbitrary: t)
  case (Cons job jobs)
  have "0 < jobIDCounts listed (wj_ID job)" if "0 < wj_ID job"
    using Cons.prems that by (auto simp: jobIDCounts_def filter_empty_conv)
  then show ?case using Cons by (auto simp: own_job_def)
qed simp

lemma triage_flags:
  "jt_missingIdentity (triage_jobs runID listed jobs t) \<longleftrightarrow> jt_missingIdentity t \<or> (\<exists>job \<in> set jobs. wj_ID job \<le> 0)"
  "jt_contradictedRun (triage_jobs runID listed jobs t) \<longleftrightarrow> jt_contradictedRun t \<or>
     (\<exists>job \<in> set jobs. 0 < wj_ID job \<and> jobIDCounts listed (wj_ID job) \<le> 1 \<and> wj_RunID job \<noteq> runID)"
  "jt_duplicateIDs (triage_jobs runID listed jobs t) = [] \<longleftrightarrow> jt_duplicateIDs t = [] \<and>
     (\<forall>job \<in> set jobs. 0 < wj_ID job \<longrightarrow> jobIDCounts listed (wj_ID job) \<le> 1)"
  by (induction jobs arbitrary: t) (auto simp: List.insert_def)

lemma jobIDCounts_mset: "mset listed = mset listed' \<Longrightarrow> jobIDCounts listed = jobIDCounts listed'"
  unfolding jobIDCounts_def by (intro ext) (metis mset_filter size_mset)

lemma own_job_inj:
  assumes "job \<in> set listed" "job' \<in> set listed" "own_job runID listed job" "wj_ID job' = wj_ID job"
  shows "job' = job"
proof (rule ccontr)
  assume ne: "job' \<noteq> job"
  let ?f = "filter (\<lambda>j. wj_ID j > 0 \<and> wj_ID j = wj_ID job) listed"
  have "{job, job'} \<subseteq> set ?f" using assms by (auto simp: own_job_def)
  then have "card {job, job'} \<le> card (set ?f)" by (intro card_mono) auto
  also have "\<dots> \<le> length ?f" by (rule card_length)
  also have "\<dots> = 1" using assms(3) by (simp add: own_job_def jobIDCounts_def)
  finally show False using ne by simp
qed

lemma distinct_by_count: "(\<And>i. length (filter (\<lambda>x. x = i) xs) \<le> 1) \<Longrightarrow> distinct xs"
proof (induction xs)
  case (Cons x xs)
  have "filter (\<lambda>y. y = x) xs = []" using Cons.prems[of x] by simp
  moreover have "length (filter (\<lambda>y. y = i) xs) \<le> 1" for i using Cons.prems[of i] by (simp split: if_splits)
  ultimately show ?case using Cons.IH by (auto simp: filter_empty_conv)
qed simp

lemma distinct_own_jobs: "distinct (map wj_ID (filter (own_job runID listed) listed))"
proof -
  have "length (filter (\<lambda>x. x = i) (map wj_ID (filter (own_job runID listed) listed))) \<le> 1" for i
  proof (cases "\<exists>job \<in> set listed. own_job runID listed job \<and> wj_ID job = i")
    case True
    then have "jobIDCounts listed i = 1" "0 < i" by (auto simp: own_job_def)
    moreover have "length (filter (\<lambda>j. own_job runID listed j \<and> wj_ID j = i) xs) \<le> length (filter (\<lambda>j. wj_ID j > 0 \<and> wj_ID j = i) xs)" for xs
      by (induction xs) (auto simp: own_job_def)
    ultimately show ?thesis
      by (simp add: jobIDCounts_def filter_map o_def conj_commute) (metis (no_types, lifting) le_antisym order_refl)
  next
    case False
    then have "filter (\<lambda>x. x = i) (map wj_ID (filter (own_job runID listed) listed)) = []"
      by (auto simp: filter_empty_conv)
    then show ?thesis by simp
  qed
  then show ?thesis by (rule distinct_by_count)
qed
section \<open>The collection keeps its invariant\<close>

definition listed_gaps :: "RepositoryTarget \<Rightarrow> int \<Rightarrow> int \<Rightarrow> JobList \<Rightarrow> Gap list" where
  "listed_gaps repository runID attempt jobs =
     as_Gaps (snd (attach_jobs repository runID attempt jobs
       \<lparr>ab_Attempt = attempt, ab_Run = zero_run, ab_Jobs = [], ab_Responses = [], ab_quarantinedJobNames = []\<rparr> zero_snapshot))"

lemma attach_jobs_parts:
  assumes "attach_jobs repository runID attempt jobs bundle s = (bundle', s')"
  shows "ab_Jobs bundle' = sort_key wj_ID (filter (own_job runID (jl_Jobs jobs)) (jl_Jobs jobs))"
    and "ab_quarantinedJobNames bundle' = sort (map wj_Name (filter (\<lambda>job. \<not> own_job runID (jl_Jobs jobs) job) (jl_Jobs jobs)))"
    and "ab_Attempt bundle' = ab_Attempt bundle" "ab_Run bundle' = ab_Run bundle"
    and "s' = s\<lparr>as_Gaps := as_Gaps s @ listed_gaps repository runID attempt jobs\<rparr>"
  using assms by (auto simp: attach_jobs_def Let_def triage_kept triage_quarantined empty_triage_def listed_gaps_def zero_snapshot_def)

lemma listed_gaps_material: "g \<in> set (listed_gaps repository runID attempt jobs) \<Longrightarrow> gap_Material g \<and> gap_Attempt g = attempt"
  by (auto simp: listed_gaps_def attach_jobs_def snapshot_defs zero_snapshot_def split: if_splits)

lemma listed_gaps_iff:
  "listed_gaps repository runID attempt jobs = [] \<longleftrightarrow> list_all (own_job runID (jl_Jobs jobs)) (jl_Jobs jobs)"
proof -
  let ?js = "jl_Jobs jobs"
  have count: "0 < jobIDCounts ?js (wj_ID job)" if "job \<in> set ?js" "0 < wj_ID job" for job
    using that by (auto simp: jobIDCounts_def filter_empty_conv)
  have "listed_gaps repository runID attempt jobs = [] \<longleftrightarrow>
      (\<forall>job \<in> set ?js. 0 < wj_ID job \<and> jobIDCounts ?js (wj_ID job) \<le> 1 \<and> wj_RunID job = runID)"
    by (simp add: listed_gaps_def attach_jobs_def Let_def zero_snapshot_def triage_flags empty_triage_def)
      (auto simp: not_le[symmetric])
  also have "\<dots> \<longleftrightarrow> (\<forall>job \<in> set ?js. own_job runID ?js job)"
    using count by (fastforce simp: own_job_def)
  finally show ?thesis by (simp add: list_all_iff)
qed

lemma distinct_map_sort_key [simp]: "distinct (map f (sort_key f xs)) \<longleftrightarrow> distinct (map f xs)"
  by (simp add: distinct_map)

lemma attach_jobs_ok:
  assumes "attach_jobs repository runID attempt jobs bundle s = (bundle', s')"
    and "wr_ID (ab_Run bundle) = runID" "wr_RunAttempt (ab_Run bundle) = ab_Attempt bundle"
  shows "bundle_ok runID bundle'"
  unfolding bundle_ok_def attach_jobs_parts(1,3,4)[OF assms(1)] strictly_sorted_iff
  using assms(2,3) by (auto simp: own_job_def distinct_own_jobs)

lemma answered_more:
  "answered s a \<Longrightarrow> answered (s\<lparr>as_Gaps := as_Gaps s @ gs\<rparr>) a"
  "answered s a \<Longrightarrow> answered (s\<lparr>as_Attempts := as_Attempts s @ bs\<rparr>) a"
  by (auto simp: answered_def)

lemma snapshot_ok_gaps:
  "snapshot_ok runID s \<Longrightarrow> \<forall>g \<in> set gs. gap_Material g \<Longrightarrow> snapshot_ok runID (s\<lparr>as_Gaps := as_Gaps s @ gs\<rparr>)"
  by (auto simp: snapshot_ok_def)

lemma GapFromError_gap [simp]:
  "gap_Material (GapFromError scope r i a e)" "gap_Attempt (GapFromError scope r i a e) = a"
  "gap_Material (identityGap scope r i a d rs)" "gap_Attempt (identityGap scope r i a d rs) = a"
  by (simp_all add: snapshot_defs split: option.splits)

text \<open>
  The three ways a step of the loop can go: a failed or contradictory attempt is a gap,
  the others add one bundle, possibly with gaps about its jobs.
\<close>

lemma collecting_gap:
  assumes "collecting_ok runID \<lparr>co_snapshot = s, co_collected = done_before, co_world = w\<rparr>"
    and "gap_Material g" "gap_Attempt g = a"
  shows "collecting_ok runID \<lparr>co_snapshot = s\<lparr>as_Gaps := as_Gaps s @ [g]\<rparr>, co_collected = a # done_before, co_world = w'\<rparr>"
  using assms by (auto simp: collecting_ok_def snapshot_ok_gaps intro: answered_more) (simp add: answered_def)

lemma collecting_bundle:
  assumes "collecting_ok runID \<lparr>co_snapshot = s, co_collected = done_before, co_world = w\<rparr>"
    and "a \<notin> set done_before" "bundle_ok runID b" "ab_Attempt b = a" "\<forall>g \<in> set gs. gap_Material g"
  shows "collecting_ok runID \<lparr>co_snapshot = s\<lparr>as_Gaps := as_Gaps s @ gs, as_Attempts := as_Attempts s @ [b]\<rparr>,
    co_collected = a # done_before, co_world = w'\<rparr>"
proof -
  have "answered (s\<lparr>as_Gaps := as_Gaps s @ gs, as_Attempts := as_Attempts s @ [b]\<rparr>) x"
    if "answered s x \<or> x = a" for x
    using that assms(4) by (auto simp: answered_def)
  moreover have "distinct (map ab_Attempt (as_Attempts s @ [b]))"
    using assms(1,2,4) by (auto simp: collecting_ok_def snapshot_ok_def)
  ultimately show ?thesis using assms by (auto simp: collecting_ok_def snapshot_ok_def)
qed

lemma collect_attempt_ok:
  assumes "collecting_ok runID c"
  shows "collecting_ok runID (collect_attempt api repository runID attempt c)"
proof (cases "attempt \<in> set (co_collected c)")
  case True
  then show ?thesis using assms by (simp add: collect_attempt_def)
next
  case new: False
  obtain s cs w where c: "c = \<lparr>co_snapshot = s, co_collected = cs, co_world = w\<rparr>" by (cases c)
  obtain r e w1 where get: "GetWorkflowRunAttempt api (rt_Owner repository) (rt_Name repository) runID attempt w = ((r, e), w1)"
    by (metis prod.exhaust)
  obtain jobs je w2 where js: "ListJobsForAttempt api (rt_Owner repository) (rt_Name repository) runID attempt w1 = ((jobs, je), w2)"
    by (metis prod.exhaust)
  have bad: "collecting_ok runID \<lparr>co_snapshot = s\<lparr>as_Gaps := as_Gaps s @ [g]\<rparr>, co_collected = attempt # cs, co_world = w'\<rparr>"
    if "gap_Material g" "gap_Attempt g = attempt" for g w'
    using assms that unfolding c by (rule collecting_gap)
  consider "e \<noteq> None" | "e = None" "wr_ID (or_Value r) \<noteq> runID \<or> wr_RunAttempt (or_Value r) \<noteq> attempt"
    | "e = None" "wr_ID (or_Value r) = runID" "wr_RunAttempt (or_Value r) = attempt" by blast
  then show ?thesis
  proof cases
    case 1
    then show ?thesis using new get
      by (simp add: collect_attempt_def c Let_def) (rule bad, simp_all)
  next
    case 2
    then show ?thesis using new get
      by (simp add: collect_attempt_def c Let_def) (rule bad, simp_all)
  next
    case 3
    define b where "b = \<lparr>ab_Attempt = attempt, ab_Run = or_Value r, ab_Jobs = [],
      ab_Responses = or_Responses r @ jl_Responses jobs, ab_quarantinedJobNames = []\<rparr>"
    have b: "wr_ID (ab_Run b) = runID" "wr_RunAttempt (ab_Run b) = ab_Attempt b" "ab_Attempt b = attempt" "ab_Jobs b = []"
      using 3 by (simp_all add: b_def)
    have new': "attempt \<notin> set cs" using new by (simp add: c)
    show ?thesis
    proof (cases je)
      case None
      obtain b' s' where a: "attach_jobs repository runID attempt jobs b s = (b', s')" by fastforce
      have "bundle_ok runID b'" by (rule attach_jobs_ok[OF a b(1,2)])
      then have "collecting_ok runID \<lparr>co_snapshot = s\<lparr>as_Gaps := as_Gaps s @ listed_gaps repository runID attempt jobs,
          as_Attempts := as_Attempts s @ [b']\<rparr>, co_collected = attempt # cs, co_world = w2\<rparr>"
        using assms new' attach_jobs_parts(3)[OF a] b(3) listed_gaps_material
        unfolding c by (intro collecting_bundle) auto
      then show ?thesis
        using new get js None a 3 attach_jobs_parts(5)[OF a] by (simp add: collect_attempt_def c Let_def b_def)
    next
      case (Some x)
      have "collecting_ok runID \<lparr>co_snapshot = s\<lparr>as_Gaps := as_Gaps s @ [GapFromError ''attempt_jobs'' (rt_ID repository) runID attempt je],
          as_Attempts := as_Attempts s @ [b]\<rparr>, co_collected = attempt # cs, co_world = w2\<rparr>"
        using assms new' b unfolding c by (intro collecting_bundle) (auto simp: bundle_ok_def)
      then show ?thesis
        using new get js Some 3 by (simp add: collect_attempt_def c Let_def b_def)
    qed
  qed
qed

lemma collect_attempt_collected:
  "set (co_collected (collect_attempt api repository runID attempt c)) = insert attempt (set (co_collected c))"
  by (auto simp: collect_attempt_def Let_def split: prod.splits if_splits)

lemma collect_attempts_ok:
  assumes "collecting_ok runID c"
  shows "collecting_ok runID (collect_attempts api repository runID n c)"
    and "set (co_collected (collect_attempts api repository runID n c)) = {1..n} \<union> set (co_collected c)"
proof -
  have "collecting_ok runID (fold (collect_attempt api repository runID) xs c) \<and>
      set (co_collected (fold (collect_attempt api repository runID) xs c)) = set xs \<union> set (co_collected c)" for xs
    using assms by (induction xs arbitrary: c) (auto simp: collect_attempt_ok collect_attempt_collected)
  from this[of "[1..n]"] show "collecting_ok runID (collect_attempts api repository runID n c)"
    and "set (co_collected (collect_attempts api repository runID n c)) = {1..n} \<union> set (co_collected c)"
    by (simp_all add: collect_attempts_def)
qed

section \<open>What a snapshot guarantees\<close>

text \<open>
  The result of the stabilization: the bundles and gaps are in order, a snapshot that is
  not stable says so in a gap or an error, and a stable one has tried every attempt.
\<close>

definition settled_snapshot :: "int \<Rightarrow> AttemptSnapshot \<Rightarrow> goerr option \<Rightarrow> bool" where
  "settled_snapshot runID s err \<longleftrightarrow> snapshot_ok runID s \<and> (as_Stable s \<or> as_Gaps s \<noteq> []) \<and>
     (as_Stable s \<longrightarrow> err = None \<and> wr_ID (as_FinalParent s) = runID \<and> sorted (map ab_Attempt (as_Attempts s)) \<and>
       (\<forall>a. 1 \<le> a \<and> a \<le> wr_RunAttempt (as_FinalParent s) \<longrightarrow> answered s a))"

lemma sort_attempts_ok [simp]:
  "snapshot_ok runID (sort_attempts s) = snapshot_ok runID s" "answered (sort_attempts s) a = answered s a"
  "as_Gaps (sort_attempts s) = as_Gaps s" "as_Stable (sort_attempts s) = as_Stable s"
  "as_FinalParent (sort_attempts s) = as_FinalParent s" "sorted (map ab_Attempt (as_Attempts (sort_attempts s)))"
  by (simp_all add: sort_attempts_def snapshot_ok_def answered_def)

lemma snapshot_ok_other [simp]:
  "snapshot_ok runID (s\<lparr>as_ParentResponses := rs\<rparr>) = snapshot_ok runID s"
  "snapshot_ok runID (s\<lparr>as_FinalParent := p\<rparr>) = snapshot_ok runID s"
  "snapshot_ok runID (s\<lparr>as_Stable := st\<rparr>) = snapshot_ok runID s"
  "answered (s\<lparr>as_ParentResponses := rs\<rparr>) a = answered s a"
  "answered (s\<lparr>as_FinalParent := p\<rparr>) a = answered s a"
  "answered (s\<lparr>as_Stable := st\<rparr>) a = answered s a"
  by (simp_all add: snapshot_ok_def answered_def)

lemma note_gap_settled:
  assumes "snapshot_ok runID s" and "\<not> as_Stable s" and "gap_Material g"
  shows "settled_snapshot runID (note_gap g s) err"
  using assms by (auto simp: settled_snapshot_def note_gap_def snapshot_ok_def)

lemma sort_attempts_settled:
  "\<not> as_Stable s \<Longrightarrow> settled_snapshot runID (sort_attempts s) err = settled_snapshot runID s err"
  by (simp add: settled_snapshot_def)

lemma note_gap_stable [simp]: "as_Stable (note_gap g s) = as_Stable s"
  by (simp add: note_gap_def)

lemma attach_jobs_stable: "attach_jobs repository runID attempt jobs b s = (b', s') \<Longrightarrow> as_Stable s' = as_Stable s"
  by (auto simp: attach_jobs_def Let_def)

lemma collect_attempt_stable:
  "as_Stable (co_snapshot (collect_attempt api repository runID attempt c)) = as_Stable (co_snapshot c)"
  by (auto simp: collect_attempt_def Let_def attach_jobs_stable split: prod.splits if_splits)

lemma collect_attempts_stable:
  "as_Stable (co_snapshot (collect_attempts api repository runID n c)) = as_Stable (co_snapshot c)"
proof -
  have "as_Stable (co_snapshot (fold (collect_attempt api repository runID) xs c)) = as_Stable (co_snapshot c)" for xs
    by (induction xs arbitrary: c) (simp_all add: collect_attempt_stable)
  then show ?thesis by (simp add: collect_attempts_def)
qed

lemma collecting_other [simp]:
  "collecting_ok runID (c\<lparr>co_world := w\<rparr>) = collecting_ok runID c"
  "collecting_ok runID (c\<lparr>co_snapshot := (co_snapshot c)\<lparr>as_ParentResponses := rs\<rparr>\<rparr>) = collecting_ok runID c"
  "collecting_ok runID (c\<lparr>co_snapshot := (co_snapshot c)\<lparr>as_ParentResponses := rs, as_FinalParent := p\<rparr>\<rparr>) = collecting_ok runID c"
  by (simp_all add: collecting_ok_def)

lemma sameRunSnapshot_attempt: "sameRunSnapshot l r \<Longrightarrow> wr_RunAttempt l = wr_RunAttempt r"
  by (simp add: sameRunSnapshot_def split: if_splits)

lemma stabilize_settled:
  assumes "collecting_ok runID c" and "\<not> as_Stable (co_snapshot c)"
    and "stabilize api repository runID passes current c = ((s, err), w')"
  shows "settled_snapshot runID s err"
  using assms
proof (induction passes arbitrary: current c)
  case 0
  have "snapshot_ok runID ((co_snapshot c)\<lparr>as_FinalParent := current\<rparr>)" using "0.prems"(1) by (simp add: collecting_ok_def)
  then have "settled_snapshot runID (note_gap g ((co_snapshot c)\<lparr>as_FinalParent := current\<rparr>)) err" if "gap_Material g" for g
    using "0.prems"(2) that by (intro note_gap_settled) simp_all
  then show ?case using "0.prems"(2,3) by (auto simp: sort_attempts_settled zero_gap_def)
next
  case (Suc passes)
  have ok: "snapshot_ok runID (co_snapshot c)" using Suc.prems(1) by (simp add: collecting_ok_def)
  obtain e w1 where ctx: "at_Err api (co_world c) = (e, w1)" by fastforce
  let ?c = "collect_attempts api repository runID (wr_RunAttempt current) (c\<lparr>co_world := w1\<rparr>)"
  have c1: "collecting_ok runID ?c" "set (co_collected ?c) = {1..wr_RunAttempt current} \<union> set (co_collected c)"
      "\<not> as_Stable (co_snapshot ?c)"
    using Suc.prems(1,2) collect_attempts_ok[of runID "c\<lparr>co_world := w1\<rparr>" api repository "wr_RunAttempt current"]
    by (simp_all add: collect_attempts_stable)
  have ok1: "snapshot_ok runID (co_snapshot ?c)" using c1(1) by (simp add: collecting_ok_def)
  obtain r ne w2 where get: "GetWorkflowRun api (rt_Owner repository) (rt_Name repository) runID (co_world ?c) = ((r, ne), w2)"
    by (metis prod.exhaust)
  let ?s = "(co_snapshot ?c)\<lparr>as_ParentResponses := as_ParentResponses (co_snapshot ?c) @ or_Responses r\<rparr>"
  consider (cancelled) x where "e = Some x" | (malformed) "e = None" "wr_RunAttempt current \<le> 0"
    | (failed) "e = None" "0 < wr_RunAttempt current" "ne \<noteq> None"
    | (other) "e = None" "0 < wr_RunAttempt current" "ne = None" "wr_ID (or_Value r) \<noteq> runID"
    | (same) "e = None" "0 < wr_RunAttempt current" "ne = None" "wr_ID (or_Value r) = runID" "sameRunSnapshot current (or_Value r)"
    | (changed) "e = None" "0 < wr_RunAttempt current" "ne = None" "wr_ID (or_Value r) = runID" "\<not> sameRunSnapshot current (or_Value r)"
    by (cases e) (auto simp: not_le[symmetric])
  then show ?case
  proof cases
    case cancelled
    then show ?thesis using Suc.prems ctx ok by (auto simp: zero_gap_def intro!: note_gap_settled)
  next
    case malformed
    then show ?thesis using Suc.prems ctx ok by (auto simp: zero_gap_def intro!: note_gap_settled)
  next
    case failed
    then obtain x where "ne = Some x" by auto
    then show ?thesis using Suc.prems ctx failed get ok1 c1(3)
      by (auto simp: Let_def intro!: note_gap_settled split: prod.splits option.splits)
  next
    case other
    then show ?thesis using Suc.prems ctx get ok1 c1(3) by (auto simp: Let_def intro!: note_gap_settled)
  next
    case same
    then have s: "s = sort_attempts (?s\<lparr>as_FinalParent := or_Value r, as_Stable := True\<rparr>)" "err = None"
      using Suc.prems ctx get by (auto simp: Let_def)
    have "answered (co_snapshot ?c) a" if "1 \<le> a" "a \<le> wr_RunAttempt (or_Value r)" for a
      using that c1(1,2) sameRunSnapshot_attempt[OF same(5)] by (auto simp: collecting_ok_def)
    then show ?thesis using ok1 same(4) unfolding settled_snapshot_def s by simp
  next
    case changed
    then have "stabilize api repository runID passes (or_Value r)
        (?c\<lparr>co_snapshot := ?s\<lparr>as_FinalParent := or_Value r\<rparr>, co_world := w2\<rparr>) = ((s, err), w')"
      using Suc.prems(3) ctx get by (simp add: Let_def)
    then show ?thesis by (rule Suc.IH[rotated 2]) (use c1 in simp_all)
  qed
qed

lemma Snapshot_settled:
  assumes "Snapshot collector repository runID w = ((s, err), w')"
  shows "s = zero_snapshot \<and> err \<noteq> None \<or> settled_snapshot runID s err"
proof (cases "acl_API collector")
  case None
  then show ?thesis using assms by (auto simp: Snapshot_def)
next
  case (Some api)
  define n where "n = (if acl_MaxStabilizationPasses collector \<le> 0 then 3 else acl_MaxStabilizationPasses collector)"
  obtain parent e w1 where get: "GetWorkflowRun api (rt_Owner repository) (rt_Name repository) runID w = ((parent, e), w1)"
    by (metis prod.exhaust)
  let ?s = "zero_snapshot\<lparr>as_ParentResponses := or_Responses parent\<rparr>"
  have ok: "snapshot_ok runID zero_snapshot" "\<not> as_Stable zero_snapshot"
    by (simp_all add: snapshot_ok_def zero_snapshot_def)
  consider (bad) "rt_ID repository \<le> 0 \<or> rt_Owner repository = [] \<or> rt_Name repository = [] \<or> runID \<le> 0"
    | (run) "\<not> (rt_ID repository \<le> 0 \<or> rt_Owner repository = [] \<or> rt_Name repository = [] \<or> runID \<le> 0)" by blast
  then show ?thesis
  proof cases
    case bad
    then show ?thesis using assms Some by (auto simp: Snapshot_def)
  next
    case run
    show ?thesis
    proof (cases e)
      case err: (Some x)
      then show ?thesis using assms Some run get ok
        by (auto simp: Snapshot_def Let_def intro!: note_gap_settled split: prod.splits option.splits)
    next
      case None
      show ?thesis
      proof (cases "wr_ID (or_Value parent) = runID")
        case False
        then show ?thesis using assms Some run get ok None
          by (auto simp: Snapshot_def Let_def snapshot_ok_def intro!: note_gap_settled)
      next
        case True
        then have "stabilize api repository runID (nat n) (or_Value parent)
            \<lparr>co_snapshot = ?s\<lparr>as_InitialParent := or_Value parent\<rparr>, co_collected = [], co_world = w1\<rparr> = ((s, err), w')"
          using assms Some run get None by (simp add: Snapshot_def Let_def n_def)
        then show ?thesis
          by (intro disjI2, elim stabilize_settled[rotated 2])
             (simp_all add: collecting_ok_def snapshot_ok_def zero_snapshot_def)
      qed
    qed
  qed
qed

text \<open>
  C35: what a snapshot attributes to a run names that run and its attempt.  Each attempt
  has at most one bundle; its run object names the requested run and exactly that
  attempt; its jobs have positive identifiers, each listed once and in increasing
  order, and name the requested run; and every gap is material.
\<close>

theorem snapshot_attributes_own_jobs:
  assumes "Snapshot collector repository runID w = ((s, err), w')"
  shows "distinct (map ab_Attempt (as_Attempts s)) \<and>
    (\<forall>b \<in> set (as_Attempts s). wr_ID (ab_Run b) = runID \<and> wr_RunAttempt (ab_Run b) = ab_Attempt b \<and>
       strictly_sorted (map wj_ID (ab_Jobs b)) \<and> (\<forall>job \<in> set (ab_Jobs b). 0 < wj_ID job \<and> wj_RunID job = runID)) \<and>
    (\<forall>g \<in> set (as_Gaps s). gap_Material g)"
proof -
  have "snapshot_ok runID s"
    using Snapshot_settled[OF assms] by (auto simp: settled_snapshot_def snapshot_ok_def zero_snapshot_def)
  then show ?thesis unfolding snapshot_ok_def bundle_ok_def by blast
qed

text \<open>
  C36: a snapshot is stable or says why not.  Without an error, an unstable snapshot has
  a gap; a stable one ends without error on the requested run, its bundles are in the
  order of the attempts, and every attempt up to the last one of the final parent has a
  bundle or a material gap that names it.
\<close>

theorem stable_snapshot_accounts_for_attempts:
  assumes "Snapshot collector repository runID w = ((s, err), w')"
  shows "(as_Stable s \<or> as_Gaps s \<noteq> [] \<or> err \<noteq> None) \<and>
    (as_Stable s \<longrightarrow> err = None \<and> wr_ID (as_FinalParent s) = runID \<and> strictly_sorted (map ab_Attempt (as_Attempts s)) \<and>
      (\<forall>a. 1 \<le> a \<and> a \<le> wr_RunAttempt (as_FinalParent s) \<longrightarrow>
        (\<exists>b \<in> set (as_Attempts s). ab_Attempt b = a) \<or> (\<exists>g \<in> set (as_Gaps s). gap_Material g \<and> gap_Attempt g = a)))"
  using Snapshot_settled[OF assms] unfolding settled_snapshot_def snapshot_ok_def answered_def strictly_sorted_iff
  by (auto simp: zero_snapshot_def)

lemma sort_mset_eq: "mset xs = mset ys \<Longrightarrow> sort xs = sort ys"
  by (metis mset_sort properties_for_sort sorted_sort)

text \<open>
  C37: contradictory job objects are quarantined, all of them.  A listed job is kept
  exactly when its identifier is positive, occurs once in the listing, and the job names
  the run; a log directory name may be correlated exactly when no quarantined
  job has that name or an empty one; and a gap is recorded exactly when a job was
  quarantined.
\<close>

theorem quarantined_jobs_block_correlation:
  assumes "attach_jobs repository runID attempt jobs bundle s = (bundle', s')"
  shows "set (ab_Jobs bundle') = {job \<in> set (jl_Jobs jobs). own_job runID (jl_Jobs jobs) job} \<and>
    (LogJobNameCorrelationSafe bundle' name \<longleftrightarrow>
      \<not> (\<exists>job \<in> set (jl_Jobs jobs). \<not> own_job runID (jl_Jobs jobs) job \<and> (wj_Name job = [] \<or> wj_Name job = name))) \<and>
    (as_Gaps s' = as_Gaps s \<longleftrightarrow> list_all (own_job runID (jl_Jobs jobs)) (jl_Jobs jobs))"
  using attach_jobs_parts[OF assms]
  by (auto simp: LogJobNameCorrelationSafe_def list_all_iff listed_gaps_iff)

text \<open>
  the order of the response does not choose what is believed.  Two listings with the
  same job objects in any order give the same bundle and the same gaps.
\<close>

theorem job_listing_order_irrelevant:
  assumes "mset (jl_Jobs jobs) = mset (jl_Jobs jobs')" and "jl_Responses jobs = jl_Responses jobs'"
  shows "attach_jobs repository runID attempt jobs bundle s = attach_jobs repository runID attempt jobs' bundle s"
proof -
  let ?xs = "jl_Jobs jobs" and ?ys = "jl_Jobs jobs'"
  have count: "jobIDCounts ?xs = jobIDCounts ?ys" by (rule jobIDCounts_mset[OF assms(1)])
  then have own: "own_job runID ?xs = own_job runID ?ys" by (simp add: own_job_def fun_eq_iff)
  have sets: "set ?xs = set ?ys" using assms(1) by (metis set_mset_mset)
  have names: "sort (map wj_Name (filter P ?xs)) = sort (map wj_Name (filter P ?ys))" for P
    by (metis assms(1) mset_filter mset_map sort_mset_eq)
  have "sort_key wj_ID (filter (own_job runID ?xs) ?xs) = sort_key wj_ID (filter (own_job runID ?xs) ?ys)"
  proof (rule map_sorted_distinct_set_unique[of wj_ID])
    show "inj_on wj_ID (set (sort_key wj_ID (filter (own_job runID ?xs) ?xs)) \<union> set (sort_key wj_ID (filter (own_job runID ?xs) ?ys)))"
      using sets by (auto simp: inj_on_def intro: own_job_inj)
  qed (use distinct_own_jobs[of runID ?xs] distinct_own_jobs[of runID ?ys] own sets in auto)
  then show ?thesis
    using own names[of "\<lambda>job. \<not> own_job runID ?ys job"] assms(2) sets count
    by (simp add: attach_jobs_def Let_def triage_kept triage_quarantined triage_flags empty_triage_def)
qed

section \<open>Attempts are read once\<close>

text \<open>
  An API that keeps a record of its readings: for each request of an attempt the attempt and the run object of the
  answer.  Nothing else changes.
\<close>

definition recording :: "'w AttemptAPI \<Rightarrow> ('w \<times> (int \<times> WorkflowRun) list) AttemptAPI" where
  "recording api =
     \<lparr>at_Err = (\<lambda>(w, reads). let (e, w) = at_Err api w in (e, (w, reads))),
      GetWorkflowRun = (\<lambda>owner name run (w, reads). let (r, w) = GetWorkflowRun api owner name run w in (r, (w, reads))),
      GetWorkflowRunAttempt = (\<lambda>owner name run attempt (w, reads).
        let ((r, e), w) = GetWorkflowRunAttempt api owner name run attempt w in ((r, e), (w, reads @ [(attempt, or_Value r)]))),
      ListJobsForAttempt = (\<lambda>owner name run attempt (w, reads).
        let (r, w) = ListJobsForAttempt api owner name run attempt w in (r, (w, reads)))\<rparr>"

text \<open>Every attempt was read at most once, and the run object of a bundle is the answer to that reading.\<close>

definition read_once :: "AttemptSnapshot \<Rightarrow> (int \<times> WorkflowRun) list \<Rightarrow> bool" where
  "read_once s reads \<longleftrightarrow> distinct (map fst reads) \<and> (\<forall>b \<in> set (as_Attempts s). (ab_Attempt b, ab_Run b) \<in> set reads)"

definition reading_ok :: "('w \<times> (int \<times> WorkflowRun) list) Collecting \<Rightarrow> bool" where
  "reading_ok c \<longleftrightarrow> read_once (co_snapshot c) (snd (co_world c)) \<and> fst ` set (snd (co_world c)) = set (co_collected c)"

lemma recording_keeps:
  "at_Err (recording api) w = (e, w') \<Longrightarrow> snd w' = snd w"
  "GetWorkflowRun (recording api) owner name run w = (r, w') \<Longrightarrow> snd w' = snd w"
  "ListJobsForAttempt (recording api) owner name run attempt w = (jobs, w') \<Longrightarrow> snd w' = snd w"
  "GetWorkflowRunAttempt (recording api) owner name run attempt w = ((a, x), w') \<Longrightarrow> snd w' = snd w @ [(attempt, or_Value a)]"
  by (cases w; auto simp: recording_def split: prod.splits)+

lemma collect_attempt_reading:
  assumes "reading_ok c"
  shows "reading_ok (collect_attempt (recording api) repository runID attempt c)"
proof (cases "attempt \<in> set (co_collected c)")
  case True
  then show ?thesis using assms by (simp add: collect_attempt_def)
next
  case new: False
  obtain r e w1 where get: "GetWorkflowRunAttempt (recording api) (rt_Owner repository) (rt_Name repository) runID attempt (co_world c) = ((r, e), w1)"
    by (metis prod.exhaust)
  obtain jobs je w2 where js: "ListJobsForAttempt (recording api) (rt_Owner repository) (rt_Name repository) runID attempt w1 = ((jobs, je), w2)"
    by (metis prod.exhaust)
  have reads: "snd w1 = snd (co_world c) @ [(attempt, or_Value r)]" "snd w2 = snd w1"
    using recording_keeps(4)[OF get] recording_keeps(3)[OF js] by simp_all
  have fresh: "distinct (map fst (snd (co_world c) @ [(attempt, or_Value r)]))"
    using assms new by (simp add: reading_ok_def read_once_def)
  define b where "b = \<lparr>ab_Attempt = attempt, ab_Run = or_Value r, ab_Jobs = [],
      ab_Responses = or_Responses r @ jl_Responses jobs, ab_quarantinedJobNames = []\<rparr>"
  obtain b' s' where a: "attach_jobs repository runID attempt jobs b (co_snapshot c) = (b', s')" by fastforce
  show ?thesis
    using assms new get js reads fresh a attach_jobs_parts(3-5)[OF a]
    by (auto simp: reading_ok_def read_once_def collect_attempt_def Let_def b_def split: prod.splits if_splits)
qed

lemma collect_attempts_reading: "reading_ok c \<Longrightarrow> reading_ok (collect_attempts (recording api) repository runID n c)"
proof -
  have "reading_ok c \<Longrightarrow> reading_ok (fold (collect_attempt (recording api) repository runID) xs c)" for xs
    by (induction xs arbitrary: c) (simp_all add: collect_attempt_reading)
  then show "reading_ok c \<Longrightarrow> ?thesis" by (simp add: collect_attempts_def)
qed

lemma read_once_other [simp]:
  "read_once (note_gap g s) reads = read_once s reads" "read_once (sort_attempts s) reads = read_once s reads"
  "read_once (s\<lparr>as_ParentResponses := rs\<rparr>) reads = read_once s reads"
  "read_once (s\<lparr>as_FinalParent := p\<rparr>) reads = read_once s reads"
  "read_once (s\<lparr>as_Stable := st\<rparr>) reads = read_once s reads"
  by (simp_all add: read_once_def note_gap_def sort_attempts_def)

lemma collect_attempts_collected:
  "set (co_collected (collect_attempts api repository runID n c)) = {1..n} \<union> set (co_collected c)"
proof -
  have "set (co_collected (fold (collect_attempt api repository runID) xs c)) = set xs \<union> set (co_collected c)" for xs
    by (induction xs arbitrary: c) (auto simp: collect_attempt_collected)
  then show ?thesis by (simp add: collect_attempts_def)
qed

lemma stabilize_reading:
  assumes "reading_ok c" and "\<not> as_Stable (co_snapshot c)"
    and "stabilize (recording api) repository runID passes current c = ((s, err), w')"
  shows "read_once s (snd w') \<and> (as_Stable s \<longrightarrow> {1..wr_RunAttempt (as_FinalParent s)} \<subseteq> fst ` set (snd w'))"
  using assms
proof (induction passes arbitrary: current c)
  case 0
  from "0.prems"(3)[symmetric] show ?case using "0.prems"(1,2) by (simp add: reading_ok_def)
next
  case (Suc passes)
  obtain e w1 where ctx: "at_Err (recording api) (co_world c) = (e, w1)" by (metis prod.exhaust)
  let ?c = "collect_attempts (recording api) repository runID (wr_RunAttempt current) (c\<lparr>co_world := w1\<rparr>)"
  have start: "reading_ok (c\<lparr>co_world := w1\<rparr>)" using Suc.prems(1) recording_keeps(1)[OF ctx] by (simp add: reading_ok_def)
  have ok: "read_once (co_snapshot c) (snd w1)" "reading_ok ?c" "\<not> as_Stable (co_snapshot ?c)"
    using start Suc.prems(2) collect_attempts_reading[OF start] by (simp_all add: reading_ok_def collect_attempts_stable)
  obtain r ne w2 where get: "GetWorkflowRun (recording api) (rt_Owner repository) (rt_Name repository) runID (co_world ?c) = ((r, ne), w2)"
    by (metis prod.exhaust)
  have ok2: "read_once (co_snapshot ?c) (snd w2)" "fst ` set (snd w2) = {1..wr_RunAttempt current} \<union> set (co_collected c)"
    using ok(2) recording_keeps(2)[OF get] by (simp_all add: reading_ok_def collect_attempts_collected)
  let ?s = "(co_snapshot ?c)\<lparr>as_ParentResponses := as_ParentResponses (co_snapshot ?c) @ or_Responses r\<rparr>"
  consider (early) "e \<noteq> None \<or> wr_RunAttempt current \<le> 0"
    | (failed) "e = None" "0 < wr_RunAttempt current" "ne \<noteq> None"
    | (other) "e = None" "0 < wr_RunAttempt current" "ne = None" "wr_ID (or_Value r) \<noteq> runID"
    | (same) "e = None" "0 < wr_RunAttempt current" "ne = None" "wr_ID (or_Value r) = runID" "sameRunSnapshot current (or_Value r)"
    | (changed) "e = None" "0 < wr_RunAttempt current" "ne = None" "wr_ID (or_Value r) = runID" "\<not> sameRunSnapshot current (or_Value r)"
    by (auto simp: not_le[symmetric])
  then show ?case
  proof cases
    case early
    then have "read_once s (snd w') \<and> \<not> as_Stable s" using Suc.prems(2,3) ctx ok(1) by (auto split: option.splits)
    then show ?thesis by blast
  next
    case failed
    then have "read_once s (snd w') \<and> \<not> as_Stable s" using Suc.prems(3) ctx get ok2(1) ok(3)
      by (auto simp: Let_def split: prod.splits option.splits dest!: recording_keeps(1))
    then show ?thesis by blast
  next
    case other
    then show ?thesis using Suc.prems(3) ctx get ok2(1) ok(3) by (auto simp: Let_def)
  next
    case same
    then have s: "s = sort_attempts (?s\<lparr>as_FinalParent := or_Value r, as_Stable := True\<rparr>)" "w' = w2"
      using Suc.prems ctx get by (auto simp: Let_def)
    then show ?thesis using ok2 sameRunSnapshot_attempt[OF same(5)] by (auto simp: sort_attempts_def read_once_def)
  next
    case changed
    then have "stabilize (recording api) repository runID passes (or_Value r)
        (?c\<lparr>co_snapshot := ?s\<lparr>as_FinalParent := or_Value r\<rparr>, co_world := w2\<rparr>) = ((s, err), w')"
      using Suc.prems(3) ctx get by (simp add: Let_def)
    then show ?thesis by (rule Suc.IH[rotated 2]) (use ok2 ok(3) in \<open>simp_all add: reading_ok_def collect_attempts_collected\<close>)
  qed
qed

lemma Snapshot_reading:
  assumes "acl_API collector = Some (recording api)" and "Snapshot collector repository runID (w, []) = ((s, err), w')"
  shows "read_once s (snd w') \<and> (as_Stable s \<longrightarrow> {1..wr_RunAttempt (as_FinalParent s)} \<subseteq> fst ` set (snd w'))"
proof -
  define n where "n = (if acl_MaxStabilizationPasses collector \<le> 0 then 3 else acl_MaxStabilizationPasses collector)"
  obtain parent e w1 where get: "GetWorkflowRun (recording api) (rt_Owner repository) (rt_Name repository) runID (w, []) = ((parent, e), w1)"
    by (metis prod.exhaust)
  have w1: "snd w1 = []" using recording_keeps(2)[OF get] by simp
  let ?s = "zero_snapshot\<lparr>as_ParentResponses := or_Responses parent, as_InitialParent := or_Value parent\<rparr>"
  have none: "as_Attempts zero_snapshot = []" "\<not> as_Stable zero_snapshot" by (simp_all add: zero_snapshot_def)
  have idle: "read_once s' [] \<and> (as_Stable s' \<longrightarrow> P)" if "as_Attempts s' = []" "\<not> as_Stable s'" for s' P
    using that by (simp add: read_once_def)
  have "stabilize (recording api) repository runID (nat n) (or_Value parent)
        \<lparr>co_snapshot = ?s, co_collected = [], co_world = w1\<rparr> = ((s, err), w') \<or>
      as_Attempts s = [] \<and> \<not> as_Stable s \<and> snd w' = []"
    using assms(2) get w1 none unfolding Snapshot_def assms(1)
    by (auto simp: Let_def n_def note_gap_def split: if_splits prod.splits option.splits dest!: recording_keeps(1))
  then show ?thesis
  proof
    assume "stabilize (recording api) repository runID (nat n) (or_Value parent)
        \<lparr>co_snapshot = ?s, co_collected = [], co_world = w1\<rparr> = ((s, err), w')"
    then show ?thesis by (rule stabilize_reading[rotated 2]) (simp_all add: reading_ok_def read_once_def none w1)
  next
    assume "as_Attempts s = [] \<and> \<not> as_Stable s \<and> snd w' = []"
    then show ?thesis by (simp add: idle)
  qed
qed

text \<open>
  C38: an attempt is read once per snapshot.  However often the run changes and however many passes follow, no attempt is
  requested twice; the run object of each bundle is the answer to the one request for its attempt; and a stable snapshot
  requested every attempt up to the last one of the final parent.  A pass that finds the parent changed does not read
  again what was collected before, so that a stable snapshot without a gap can show an attempt as in progress that its
  final parent shows as completed: the witness is such a run.
\<close>

theorem attempts_read_once:
  assumes "acl_API collector = Some (recording api)" and "Snapshot collector repository runID (w, []) = ((s, err), (w', reads))"
  shows "distinct (map fst reads) \<and> (\<forall>b \<in> set (as_Attempts s). map_of reads (ab_Attempt b) = Some (ab_Run b)) \<and>
    (as_Stable s \<longrightarrow> {1..wr_RunAttempt (as_FinalParent s)} \<subseteq> fst ` set reads)"
  using Snapshot_reading[OF assms] by (auto simp: read_once_def)

section \<open>Concrete runs\<close>

text \<open>
  A server with a clock that every request advances: the run is in progress before the
  fourth request and completed from then on.  Each answer is true when it is given.
\<close>

definition racing_run :: "nat \<Rightarrow> WorkflowRun" where
  "racing_run clock = sample_run\<lparr>wr_Status := (if clock < 3 then ''in_progress'' else ''completed''),
     wr_Conclusion := (if clock < 3 then [] else ''success'')\<rparr>"

definition sample_job :: WorkflowJob where
  "sample_job = \<lparr>wj_ID = 7, wj_NodeID = [], wj_RunID = 42, wj_WorkflowName = [], wj_HeadSHA = [], wj_HeadBranch = [],
     wj_Status = ''completed'', wj_Conclusion = ''success'', wj_StartedAt = None, wj_CompletedAt = None,
     wj_Name = ''build'', wj_Steps = [], wj_Labels = [], wj_RunnerID = 0, wj_RunnerName = [],
     wj_RunnerGroupID = None, wj_RunnerGroupName = []\<rparr>"

definition racing_api :: "nat AttemptAPI" where
  "racing_api = \<lparr>at_Err = (\<lambda>clock. (None, clock)),
     GetWorkflowRun = (\<lambda>owner name run clock. ((\<lparr>or_Value = racing_run clock, or_Responses = []\<rparr>, None), Suc clock)),
     GetWorkflowRunAttempt = (\<lambda>owner name run attempt clock.
       ((\<lparr>or_Value = racing_run clock, or_Responses = []\<rparr>, None), Suc clock)),
     ListJobsForAttempt = (\<lambda>owner name run attempt clock.
       ((\<lparr>jl_TotalCount = 1, jl_Jobs = [sample_job], jl_Responses = []\<rparr>, None), Suc clock))\<rparr>"

definition racing_collector :: "nat AttemptCollector" where
  "racing_collector = \<lparr>acl_API = Some racing_api, acl_MaxStabilizationPasses = 3\<rparr>"

lemma racing_snapshot:
  "Snapshot racing_collector sample_target 42 0 =
     ((\<lparr>as_InitialParent = racing_run 0, as_FinalParent = racing_run 3, as_ParentResponses = [],
        as_Attempts = [\<lparr>ab_Attempt = 1, ab_Run = racing_run 1, ab_Jobs = [sample_job], ab_Responses = [],
          ab_quarantinedJobNames = []\<rparr>], as_Gaps = [], as_Stable = True\<rparr>, None), 5)"
  by (simp add: Snapshot_def racing_collector_def racing_api_def sample_target_def racing_run_def sample_run_def
      zero_snapshot_def numeral_3_eq_3 collect_attempts_def collect_attempt_def attach_jobs_def jobIDCounts_def
      sample_job_def empty_triage_def sameRunSnapshot_def sort_attempts_def Let_def upto.simps)

definition recording_racing :: "(nat \<times> (int \<times> WorkflowRun) list) AttemptCollector" where
  "recording_racing = \<lparr>acl_API = Some (recording racing_api), acl_MaxStabilizationPasses = 3\<rparr>"

lemma recording_racing_snapshot:
  "Snapshot recording_racing sample_target 42 (0, []) =
     ((\<lparr>as_InitialParent = racing_run 0, as_FinalParent = racing_run 3, as_ParentResponses = [],
        as_Attempts = [\<lparr>ab_Attempt = 1, ab_Run = racing_run 1, ab_Jobs = [sample_job], ab_Responses = [],
          ab_quarantinedJobNames = []\<rparr>], as_Gaps = [], as_Stable = True\<rparr>, None), (5, [(1, racing_run 1)]))"
  by (simp add: Snapshot_def recording_racing_def recording_def racing_api_def sample_target_def racing_run_def sample_run_def
      zero_snapshot_def numeral_3_eq_3 collect_attempts_def collect_attempt_def attach_jobs_def jobIDCounts_def
      sample_job_def empty_triage_def sameRunSnapshot_def sort_attempts_def Let_def upto.simps)

theorem attempts_read_once_witness:
  "\<exists>s reads. Snapshot recording_racing sample_target 42 (0, []) = ((s, None), (5, reads)) \<and> as_Stable s \<and> as_Gaps s = [] \<and>
     (\<exists>b \<in> set (as_Attempts s). map_of reads (ab_Attempt b) = Some (ab_Run b) \<and>
        ab_Attempt b = wr_RunAttempt (as_FinalParent s) \<and>
        wr_Status (ab_Run b) = ''in_progress'' \<and> wr_Status (as_FinalParent s) = ''completed'')"
proof -
  have "acl_API recording_racing = Some (recording racing_api)" by (simp add: recording_racing_def)
  from attempts_read_once[OF this recording_racing_snapshot] recording_racing_snapshot show ?thesis
    by (auto simp: racing_run_def sample_run_def)
qed

theorem snapshot_attributes_own_jobs_witness:
  "\<exists>s. Snapshot racing_collector sample_target 42 0 = ((s, None), 5) \<and> distinct (map ab_Attempt (as_Attempts s))"
  using snapshot_attributes_own_jobs[OF racing_snapshot] racing_snapshot by auto

theorem stable_snapshot_accounts_for_attempts_witness:
  "\<exists>s. Snapshot racing_collector sample_target 42 0 = ((s, None), 5) \<and> wr_ID (as_FinalParent s) = 42"
  using stable_snapshot_accounts_for_attempts[OF racing_snapshot] racing_snapshot by auto

definition sample_bundle :: AttemptBundle where
  "sample_bundle = \<lparr>ab_Attempt = 1, ab_Run = sample_run, ab_Jobs = [], ab_Responses = [], ab_quarantinedJobNames = []\<rparr>"

definition sample_listing :: "WorkflowJob list \<Rightarrow> JobList" where
  "sample_listing jobs = \<lparr>jl_TotalCount = 2, jl_Jobs = jobs, jl_Responses = []\<rparr>"

theorem quarantined_jobs_block_correlation_witness:
  "\<exists>b s. attach_jobs sample_target 42 1 (sample_listing [sample_job, sample_job\<lparr>wj_ID := 0, wj_Name := ''other''\<rparr>])
       sample_bundle zero_snapshot = (b, s) \<and> \<not> LogJobNameCorrelationSafe b ''other'' \<and> LogJobNameCorrelationSafe b ''build''"
proof -
  obtain b s where a: "attach_jobs sample_target 42 1 (sample_listing [sample_job, sample_job\<lparr>wj_ID := 0, wj_Name := ''other''\<rparr>])
       sample_bundle zero_snapshot = (b, s)" by fastforce
  show ?thesis
    using a quarantined_jobs_block_correlation[OF a, of "''other''"] quarantined_jobs_block_correlation[OF a, of "''build''"]
    by (auto simp: sample_listing_def own_job_def jobIDCounts_def sample_job_def)
qed

theorem job_listing_order_irrelevant_witness:
  "attach_jobs sample_target 42 1 (sample_listing [sample_job, sample_job\<lparr>wj_ID := 3\<rparr>]) sample_bundle zero_snapshot =
   attach_jobs sample_target 42 1 (sample_listing [sample_job\<lparr>wj_ID := 3\<rparr>, sample_job]) sample_bundle zero_snapshot"
  by (rule job_listing_order_irrelevant) (simp_all add: sample_listing_def)

end
