(* ===== verification/Github_Endpoints.thy ===== *)
theory Github_Endpoints
  imports Github_Client Collect_Attempts
begin

text \<open>
  \<open>internal/githubapi/endpoints.go\<close>: the typed routes and the page loops.  The decoders
  of \<open>encoding/json\<close> and \<open>mime.ParseMediaType\<close> are functions of the endpoint: a decoder
  gives the value of the first JSON document of a body and the text behind it.
\<close>

section \<open>Decoding\<close>

type_synonym 'd decoder = "string \<Rightarrow> ('d \<times> string) option"

record 'w Endpoint =
  en_client :: "'w Client"
  en_ParseMediaType :: "string \<Rightarrow> string option"
  en_repository :: "Repository decoder"
  en_repositories :: "Repository list decoder"
  en_repository_page :: "(int \<times> Repository list) decoder"
  en_count :: "int decoder"
  en_run_page :: "(int \<times> WorkflowRun list) decoder"
  en_run :: "WorkflowRun decoder"
  en_job_page :: "(int \<times> WorkflowJob list) decoder"
  en_hash_algorithm :: "string decoder"

definition markLastError :: "ResponseMeta list \<Rightarrow> ErrorClass \<Rightarrow> ResponseMeta list" where
  "markLastError responses class =
     (if responses = [] then [] else butlast responses @ [with_error_class class (last responses)])"

definition malformedError :: "string \<Rightarrow> rawResponse \<Rightarrow> string \<Rightarrow> error" where
  "malformedError operation response message =
     API (Error ErrorMalformedResponse operation (rm_StatusCode (rw_meta response)) message False
       (markLastError (rw_attempts response) ErrorMalformedResponse) None)"

definition paginationError :: "string \<Rightarrow> ResponseMeta list \<Rightarrow> string \<Rightarrow> error" where
  "paginationError operation responses message =
     API (Error ErrorPagination operation 0 message False (markLastError responses ErrorPagination) None)"

definition json_space :: "char \<Rightarrow> bool" where
  "json_space c \<longleftrightarrow> byte c \<in> {0x20, 0x09, 0x0A, 0x0D}"

definition decodeJSON :: "(string \<Rightarrow> string option) \<Rightarrow> 'd decoder \<Rightarrow> rawResponse \<Rightarrow> string \<Rightarrow> error + 'd" where
  "decodeJSON parse_media decode response operation =
     (let mediaType = rm_MediaType (rw_meta response)
      in if mediaType \<noteq> [] \<and> parse_media mediaType \<notin> {Some ''application/json'', Some ''application/vnd.github+json''}
         then Inl (API (Error ErrorUnexpectedMedia operation (rm_StatusCode (rw_meta response))
                ''GitHub returned a non-JSON media type'' False (markLastError (rw_attempts response) ErrorUnexpectedMedia) None))
         else case decode (rw_body response) of
                None \<Rightarrow> Inl (malformedError operation response ''could not decode GitHub JSON'')
              | Some (v, rest) \<Rightarrow>
                  if list_all json_space rest then Inr v
                  else Inl (malformedError operation response ''GitHub JSON contained trailing data''))"

text \<open>
  What a failed decoding leaves behind: the value that was decoded, when only the rest of the body was refused, and otherwise
  the zero value of the type, for which \<open>zero\<close> stands.  (A value that json gave up in the middle counts as not decoded.)
\<close>

definition left_value :: "(string \<Rightarrow> string option) \<Rightarrow> 'd \<Rightarrow> 'd decoder \<Rightarrow> rawResponse \<Rightarrow> 'd" where
  "left_value parse_media zero decode response =
     (let mediaType = rm_MediaType (rw_meta response)
      in if mediaType \<noteq> [] \<and> parse_media mediaType \<notin> {Some ''application/json'', Some ''application/vnd.github+json''} then zero
         else case decode (rw_body response) of None \<Rightarrow> zero | Some (v, rest) \<Rightarrow> v)"

definition decodeObject ::
    "(string \<Rightarrow> string option) \<Rightarrow> 'd \<Rightarrow> 'd decoder \<Rightarrow> rawResponse \<Rightarrow> error option \<Rightarrow> string \<Rightarrow> 'd ObjectResult \<times> error option" where
  "decodeObject parse_media zero decode response requestErr operation =
     (case requestErr of
        Some e \<Rightarrow> (\<lparr>or_Value = zero, or_Responses = rw_attempts response\<rparr>, Some e)
      | None \<Rightarrow>
          (case decodeJSON parse_media decode response operation of
             Inl e \<Rightarrow>
               (\<lparr>or_Value = left_value parse_media zero decode response, or_Responses = rw_attempts response\<rparr>, Some e)
           | Inr v \<Rightarrow> (\<lparr>or_Value = v, or_Responses = rw_attempts response\<rparr>, None)))"

section \<open>Routes\<close>

definition route_spec :: "string \<Rightarrow> string \<Rightarrow> (string \<times> string) list \<Rightarrow> (string \<times> string) list \<Rightarrow> string \<Rightarrow> requestSpec" where
  "route_spec route path query parameters operation =
     \<lparr>rq_routeTemplate = route, rq_path = path, rq_query = query, rq_parameters = parameters, rq_accept = [],
      rq_maxBytes = 0, rq_ifNoneMatch = [], rq_absoluteURL = None, rq_operation = operation\<rparr>"

definition zero_repository :: Repository where
  "zero_repository = \<lparr>rp_ID = 0, rp_NodeID = [], rp_Name = [], rp_FullName = [], rp_Private = False, rp_Visibility = [],
     rp_Archived = False, rp_Disabled = False, rp_Fork = False, rp_Owner = zero_actor, rp_DefaultBranch = [],
     rp_UpdatedAt = None\<rparr>"

definition GetRepository ::
    "'w Endpoint \<Rightarrow> string \<Rightarrow> string \<Rightarrow> 'w \<Rightarrow> (Repository ObjectResult \<times> error option) \<times> 'w" where
  "GetRepository en owner repository w =
     (case repositoryParts owner repository of
        Inl err \<Rightarrow> ((\<lparr>or_Value = zero_repository, or_Responses = []\<rparr>, Some err), w)
      | Inr (ownerPart, repositoryPart) \<Rightarrow>
          (case get_url (en_client en) (route_spec ''/repos/{owner}/{repo}'' (''/repos/'' @ ownerPart @ ''/'' @ repositoryPart)
                  [] [(''owner'', owner), (''repo'', repository)] ''get repository'') w of
             ((response, err), w) \<Rightarrow>
               (decodeObject (en_ParseMediaType en) zero_repository (en_repository en) response err ''get repository'', w)))"

text \<open>
  The specification of the next page: the first one with the absolute URL of the link,
  no query of its own, and the parameters of the link.
\<close>

definition next_spec :: "requestSpec \<Rightarrow> URL \<Rightarrow> requestSpec" where
  "next_spec first_page u =
     first_page\<lparr>rq_absoluteURL := Some u, rq_query := [],
       rq_parameters := paginationParameters (rq_parameters first_page) (Some u)\<rparr>"

text \<open>The page loops; \<open>n\<close> counts the pages that the limit still allows.\<close>

primrec repository_pages ::
    "'w Endpoint \<Rightarrow> requestSpec \<Rightarrow> bool \<Rightarrow> nat \<Rightarrow> RepositoryList \<Rightarrow> int \<Rightarrow> string list \<Rightarrow> requestSpec \<Rightarrow> 'w \<Rightarrow>
     (RepositoryList \<times> error option) \<times> 'w" where
  "repository_pages en first_page wrapped 0 result expectedTotal seenPages spec w =
     ((result, Some (paginationError (rq_operation first_page) (rl_Responses result) ''maximum page count exceeded'')), w)"
| "repository_pages en first_page wrapped (Suc n) result expectedTotal seenPages spec w =
     (case get_url (en_client en) spec w of
        ((response, Some err), w) \<Rightarrow> ((result, Some err), w)
      | ((response, None), w) \<Rightarrow>
          (let result = result\<lparr>rl_Responses := rl_Responses result @ rw_attempts response\<rparr>
           in case (if wrapped then decodeJSON (en_ParseMediaType en) (en_repository_page en) response (rq_operation first_page)
                    else case decodeJSON (en_ParseMediaType en) (en_repositories en) response (rq_operation first_page) of
                           Inl e \<Rightarrow> Inl e | Inr repositories \<Rightarrow> Inr (expectedTotal, repositories)) of
                Inl err \<Rightarrow> ((result, Some err), w)
              | Inr (reported, repositories) \<Rightarrow>
                  (let result = result\<lparr>rl_Repositories := rl_Repositories result @ repositories\<rparr>;
                       expectedTotal = (if reported > expectedTotal then reported else expectedTotal)
                   in case rw_next response of
                        None \<Rightarrow>
                          if wrapped \<and> expectedTotal > int (length (rl_Repositories result)) then
                            ((result, Some (paginationError (rq_operation first_page) (rl_Responses result)
                               ''pagination ended before the reported repository total was collected'')), w)
                          else ((result, None), w)
                      | Some u \<Rightarrow>
                          if URL_String u \<in> set seenPages then
                            ((result, Some (paginationError (rq_operation first_page) (rl_Responses result)
                               ''pagination repeated a next link'')), w)
                          else repository_pages en first_page wrapped n result expectedTotal (URL_String u # seenPages)
                                 (next_spec first_page u) w)))"

definition listRepositories ::
    "'w Endpoint \<Rightarrow> requestSpec \<Rightarrow> bool \<Rightarrow> 'w \<Rightarrow> (RepositoryList \<times> error option) \<times> 'w" where
  "listRepositories en first_page wrapped w =
     repository_pages en first_page wrapped (nat (lm_MaxPages (cl_limits (en_client en))))
       \<lparr>rl_Repositories = [], rl_Responses = []\<rparr> (- 1) [] first_page w"

definition ListOrganizationRepositories ::
    "'w Endpoint \<Rightarrow> string \<Rightarrow> 'w \<Rightarrow> (RepositoryList \<times> error option) \<times> 'w" where
  "ListOrganizationRepositories en organization w =
     (case escapeIdentifier ''organization'' organization of
        Inl err \<Rightarrow> ((\<lparr>rl_Repositories = [], rl_Responses = []\<rparr>, Some err), w)
      | Inr org \<Rightarrow>
          listRepositories en
            (route_spec ''/orgs/{org}/repos'' (''/orgs/'' @ org @ ''/repos'') [(''per_page'', ''100''), (''type'', ''all'')]
              [(''org'', organization), (''per_page'', ''100''), (''type'', ''all'')] ''list organization repositories'') False w)"

definition ListInstallationRepositories :: "'w Endpoint \<Rightarrow> 'w \<Rightarrow> (RepositoryList \<times> error option) \<times> 'w" where
  "ListInstallationRepositories en w =
     listRepositories en
       (route_spec ''/installation/repositories'' ''/installation/repositories'' [(''per_page'', ''100'')]
         [(''per_page'', ''100'')] ''list installation repositories'') True w"

definition ListUserInstallationRepositories ::
    "'w Endpoint \<Rightarrow> int \<Rightarrow> 'w \<Rightarrow> (RepositoryList \<times> error option) \<times> 'w" where
  "ListUserInstallationRepositories en installationID w =
     (if installationID \<le> 0 then
        ((\<lparr>rl_Repositories = [], rl_Responses = []\<rparr>,
          Some (invalidArgument ''list user installation repositories'' ''installation ID must be positive'')), w)
      else
        listRepositories en
          (route_spec ''/user/installations/{installation_id}/repositories''
            (''/user/installations/'' @ show_int installationID @ ''/repositories'') [(''per_page'', ''100'')]
            [(''installation_id'', show_int installationID), (''per_page'', ''100'')]
            ''list user installation repositories'') True w)"

section \<open>Workflow runs\<close>

definition workflowRunsSpec :: "string \<Rightarrow> string \<Rightarrow> string \<Rightarrow> int \<Rightarrow> error + requestSpec" where
  "workflowRunsSpec owner repository created perPage =
     (case repositoryParts owner repository of
        Inl err \<Rightarrow> Inl err
      | Inr (ownerPart, repositoryPart) \<Rightarrow>
          if TrimSpace created = [] \<or> length created > 256 \<or> ContainsAny created [CHR 0x0D, CHR 0x0A]
          then Inl (invalidArgument ''list workflow runs'' ''created filter is empty or invalid'')
          else Inr (route_spec ''/repos/{owner}/{repo}/actions/runs''
                 (''/repos/'' @ ownerPart @ ''/'' @ repositoryPart @ ''/actions/runs'')
                 [(''created'', created), (''per_page'', show_int perPage)]
                 [(''owner'', owner), (''repo'', repository), (''created'', created), (''per_page'', show_int perPage)]
                 ''list workflow runs''))"

definition client_ProbeWorkflowRuns ::
    "'w Endpoint \<Rightarrow> string \<Rightarrow> string \<Rightarrow> string \<Rightarrow> 'w \<Rightarrow> (RunProbe \<times> error option) \<times> 'w" where
  "client_ProbeWorkflowRuns en owner repository created w =
     (case workflowRunsSpec owner repository created 1 of
        Inl err \<Rightarrow> ((\<lparr>pb_TotalCount = 0, pb_Responses = []\<rparr>, Some err), w)
      | Inr spec \<Rightarrow>
          (case get_url (en_client en) spec w of
             ((response, Some err), w) \<Rightarrow> ((\<lparr>pb_TotalCount = 0, pb_Responses = rw_attempts response\<rparr>, Some err), w)
           | ((response, None), w) \<Rightarrow>
               (case decodeJSON (en_ParseMediaType en) (en_count en) response (rq_operation spec) of
                  Inl err \<Rightarrow> ((\<lparr>pb_TotalCount = 0, pb_Responses = rw_attempts response\<rparr>, Some err), w)
                | Inr reported \<Rightarrow> ((\<lparr>pb_TotalCount = reported, pb_Responses = rw_attempts response\<rparr>, None), w))))"

primrec run_pages ::
    "'w Endpoint \<Rightarrow> requestSpec \<Rightarrow> nat \<Rightarrow> RunList \<Rightarrow> nat \<Rightarrow> string list \<Rightarrow> requestSpec \<Rightarrow> 'w \<Rightarrow>
     (RunList \<times> error option) \<times> 'w" where
  "run_pages en first_page 0 result fullPages seenPages spec w =
     ((result\<lparr>ru_Truncated := True\<rparr>,
       Some (paginationError (rq_operation first_page) (ru_Responses result) ''maximum page count exceeded'')), w)"
| "run_pages en first_page (Suc n) result fullPages seenPages spec w =
     (case get_url (en_client en) spec w of
        ((response, Some err), w) \<Rightarrow> ((result, Some err), w)
      | ((response, None), w) \<Rightarrow>
          (let result = result\<lparr>ru_Responses := ru_Responses result @ rw_attempts response\<rparr>
           in case decodeJSON (en_ParseMediaType en) (en_run_page en) response (rq_operation first_page) of
                Inl err \<Rightarrow> ((result, Some err), w)
              | Inr (reported, page) \<Rightarrow>
                  (let result = result\<lparr>ru_TotalCount := (if reported > ru_TotalCount result then reported else ru_TotalCount result),
                                 ru_Runs := ru_Runs result @ page\<rparr>;
                       fullPages = (if length page = 100 then fullPages + 1 else fullPages)
                   in case rw_next response of
                        None \<Rightarrow>
                          (let result = result\<lparr>ru_Truncated := ru_TotalCount result \<ge> 1000 \<or> fullPages \<ge> 10\<rparr>
                           in if \<not> ru_Truncated result \<and> ru_TotalCount result > int (length (ru_Runs result)) then
                                ((result, Some (paginationError (rq_operation first_page) (ru_Responses result)
                                   ''pagination ended before the reported workflow-run total was collected'')), w)
                              else ((result, None), w))
                      | Some u \<Rightarrow>
                          if URL_String u \<in> set seenPages then
                            ((result\<lparr>ru_Truncated := True\<rparr>,
                              Some (paginationError (rq_operation first_page) (ru_Responses result)
                                ''pagination repeated a next link'')), w)
                          else run_pages en first_page n result fullPages (URL_String u # seenPages) (next_spec first_page u) w)))"

definition client_ListWorkflowRuns ::
    "'w Endpoint \<Rightarrow> string \<Rightarrow> string \<Rightarrow> string \<Rightarrow> 'w \<Rightarrow> (RunList \<times> error option) \<times> 'w" where
  "client_ListWorkflowRuns en owner repository created w =
     (let empty = \<lparr>ru_TotalCount = 0, ru_Runs = [], ru_Responses = [], ru_Truncated = False\<rparr>
      in case workflowRunsSpec owner repository created 100 of
           Inl err \<Rightarrow> ((empty, Some err), w)
         | Inr first_page \<Rightarrow>
             run_pages en first_page (nat (lm_MaxPages (cl_limits (en_client en)))) empty 0 [] first_page w)"

definition getWorkflowRunRoute ::
    "'w Endpoint \<Rightarrow> string \<Rightarrow> string \<Rightarrow> int \<Rightarrow> int \<Rightarrow> 'w \<Rightarrow> (WorkflowRun ObjectResult \<times> error option) \<times> 'w" where
  "getWorkflowRunRoute en owner repository runID attempt w =
     (case repositoryParts owner repository of
        Inl err \<Rightarrow> ((\<lparr>or_Value = zero_run, or_Responses = []\<rparr>, Some err), w)
      | Inr (ownerPart, repositoryPart) \<Rightarrow>
          if runID \<le> 0 then
            ((\<lparr>or_Value = zero_run, or_Responses = []\<rparr>,
              Some (invalidArgument ''get workflow run'' ''run ID must be positive'')), w)
          else
            let route = ''/repos/{owner}/{repo}/actions/runs/{run_id}'' @ (if attempt > 0 then ''/attempts/{attempt_number}'' else []);
                path = ''/repos/'' @ ownerPart @ ''/'' @ repositoryPart @ ''/actions/runs/'' @ show_int runID @
                  (if attempt > 0 then ''/attempts/'' @ show_int attempt else []);
                parameters = [(''owner'', owner), (''repo'', repository), (''run_id'', show_int runID)] @
                  (if attempt > 0 then [(''attempt_number'', show_int attempt)] else []);
                operation = (if attempt > 0 then ''get workflow run attempt'' else ''get workflow run'')
            in case get_url (en_client en) (route_spec route path [] parameters operation) w of
                 ((response, err), w) \<Rightarrow>
                   (decodeObject (en_ParseMediaType en) zero_run (en_run en) response err operation, w))"

definition client_GetWorkflowRun ::
    "'w Endpoint \<Rightarrow> string \<Rightarrow> string \<Rightarrow> int \<Rightarrow> 'w \<Rightarrow> (WorkflowRun ObjectResult \<times> error option) \<times> 'w" where
  "client_GetWorkflowRun en owner repository runID w = getWorkflowRunRoute en owner repository runID 0 w"

definition client_GetWorkflowRunAttempt ::
    "'w Endpoint \<Rightarrow> string \<Rightarrow> string \<Rightarrow> int \<Rightarrow> int \<Rightarrow> 'w \<Rightarrow> (WorkflowRun ObjectResult \<times> error option) \<times> 'w" where
  "client_GetWorkflowRunAttempt en owner repository runID attempt w =
     (if attempt \<le> 0 then
        ((\<lparr>or_Value = zero_run, or_Responses = []\<rparr>,
          Some (invalidArgument ''get workflow run attempt'' ''attempt must be positive'')), w)
      else getWorkflowRunRoute en owner repository runID attempt w)"

section \<open>Jobs\<close>

primrec job_pages ::
    "'w Endpoint \<Rightarrow> requestSpec \<Rightarrow> nat \<Rightarrow> JobList \<Rightarrow> string list \<Rightarrow> requestSpec \<Rightarrow> 'w \<Rightarrow> (JobList \<times> error option) \<times> 'w" where
  "job_pages en first_page 0 result seenPages spec w =
     ((result, Some (paginationError (rq_operation first_page) (jl_Responses result) ''maximum page count exceeded'')), w)"
| "job_pages en first_page (Suc n) result seenPages spec w =
     (case get_url (en_client en) spec w of
        ((response, Some err), w) \<Rightarrow> ((result, Some err), w)
      | ((response, None), w) \<Rightarrow>
          (let result = result\<lparr>jl_Responses := jl_Responses result @ rw_attempts response\<rparr>
           in case decodeJSON (en_ParseMediaType en) (en_job_page en) response (rq_operation first_page) of
                Inl err \<Rightarrow> ((result, Some err), w)
              | Inr (reported, page) \<Rightarrow>
                  (let result = result\<lparr>jl_TotalCount := (if reported > jl_TotalCount result then reported else jl_TotalCount result),
                                 jl_Jobs := jl_Jobs result @ page\<rparr>
                   in case rw_next response of
                        None \<Rightarrow>
                          if jl_TotalCount result > int (length (jl_Jobs result)) then
                            ((result, Some (paginationError (rq_operation first_page) (jl_Responses result)
                               ''pagination ended before the reported job total was collected'')), w)
                          else ((result, None), w)
                      | Some u \<Rightarrow>
                          if URL_String u \<in> set seenPages then
                            ((result, Some (paginationError (rq_operation first_page) (jl_Responses result)
                               ''pagination repeated a next link'')), w)
                          else job_pages en first_page n result (URL_String u # seenPages) (next_spec first_page u) w)))"

definition client_ListJobsForAttempt ::
    "'w Endpoint \<Rightarrow> string \<Rightarrow> string \<Rightarrow> int \<Rightarrow> int \<Rightarrow> 'w \<Rightarrow> (JobList \<times> error option) \<times> 'w" where
  "client_ListJobsForAttempt en owner repository runID attempt w =
     (let empty = \<lparr>jl_TotalCount = 0, jl_Jobs = [], jl_Responses = []\<rparr>
      in case repositoryParts owner repository of
           Inl err \<Rightarrow> ((empty, Some err), w)
         | Inr (ownerPart, repositoryPart) \<Rightarrow>
             if runID \<le> 0 \<or> attempt \<le> 0 then
               ((empty, Some (invalidArgument ''list attempt jobs'' ''run ID and attempt must be positive'')), w)
             else
               let first_page = route_spec ''/repos/{owner}/{repo}/actions/runs/{run_id}/attempts/{attempt_number}/jobs''
                     (''/repos/'' @ ownerPart @ ''/'' @ repositoryPart @ ''/actions/runs/'' @ show_int runID @
                       ''/attempts/'' @ show_int attempt @ ''/jobs'')
                     [(''filter'', ''all''), (''per_page'', ''100'')]
                     [(''owner'', owner), (''repo'', repository), (''run_id'', show_int runID),
                      (''attempt_number'', show_int attempt), (''filter'', ''all''), (''per_page'', ''100'')]
                     ''list attempt jobs''
               in job_pages en first_page (nat (lm_MaxPages (cl_limits (en_client en)))) empty [] first_page w)"

section \<open>Complete listings\<close>

text \<open>
  What the collectors rely on when they ask for a list: without an error and unless it says
  that it was cut short, a listing has at least as many items as the server reported.
\<close>

locale counted_listing =
  fixes listing :: "'q \<Rightarrow> 'w \<Rightarrow> ('l \<times> error option) \<times> 'w"
    and reported :: "'l \<Rightarrow> int" and items :: "'l \<Rightarrow> 'a list" and cut_short :: "'l \<Rightarrow> bool"
  assumes complete: "listing q w = ((l, None), w') \<Longrightarrow> \<not> cut_short l \<Longrightarrow> reported l \<le> int (length (items l))"
begin

lemma short_listing_fails:
  "listing q w = ((l, err), w') \<Longrightarrow> \<not> cut_short l \<Longrightarrow> int (length (items l)) < reported l \<Longrightarrow> err \<noteq> None"
  using complete by (metis linorder_not_le)

lemma empty_listing: "listing q w = ((l, None), w') \<Longrightarrow> \<not> cut_short l \<Longrightarrow> items l = [] \<Longrightarrow> reported l \<le> 0"
  using complete[of q w l w'] by simp

end

text \<open>
  The page loops end without an error only at a page without a next link, where they compare
  the largest reported total with what was collected.
\<close>

lemma run_pages_complete:
  assumes "run_pages en first_page n result full seen spec w = ((l, None), w')" and "100 * full \<le> length (ru_Runs result)"
  shows "(\<not> ru_Truncated l \<longrightarrow> ru_TotalCount l < 1000 \<and> ru_TotalCount l \<le> int (length (ru_Runs l))) \<and>
    (ru_Truncated l \<longrightarrow> ru_TotalCount l \<ge> 1000 \<or> length (ru_Runs l) \<ge> 1000)"
  using assms
proof (induction n arbitrary: result full seen spec w)
  case (Suc n)
  obtain response err w1 where get: "get_url (en_client en) spec w = ((response, err), w1)" by (metis prod.exhaust)
  obtain rt page where page: "err = None" "decodeJSON (en_ParseMediaType en) (en_run_page en) response (rq_operation first_page) = Inr (rt, page)"
    using Suc.prems(1) get by (cases err) (auto simp: Let_def split: sum.splits)
  define res where "res = result\<lparr>ru_Responses := ru_Responses result @ rw_attempts response,
     ru_TotalCount := (if rt > ru_TotalCount result then rt else ru_TotalCount result), ru_Runs := ru_Runs result @ page\<rparr>"
  define full' where "full' = (if length page = 100 then full + 1 else full)"
  have full': "100 * full' \<le> length (ru_Runs res)" using Suc.prems(2) by (auto simp: full'_def res_def)
  show ?case
  proof (cases "rw_next response")
    case None
    have "l = res\<lparr>ru_Truncated := ru_TotalCount res \<ge> 1000 \<or> full' \<ge> 10\<rparr>"
        "\<not> (\<not> ru_Truncated l \<and> ru_TotalCount l > int (length (ru_Runs l)))"
      using Suc.prems(1) get page None unfolding res_def full'_def by (auto simp: Let_def split: if_splits)
    then show ?thesis using full' by auto
  next
    case (Some u)
    have "run_pages en first_page n res full' (URL_String u # seen) (next_spec first_page u) w1 = ((l, None), w')"
      using Suc.prems(1) get page Some unfolding res_def full'_def by (auto simp: Let_def split: if_splits)
    then show ?thesis by (rule Suc.IH[OF _ full'])
  qed
qed simp

lemma job_pages_complete:
  assumes "job_pages en first_page n result seen spec w = ((l, None), w')"
  shows "jl_TotalCount l \<le> int (length (jl_Jobs l))"
  using assms
proof (induction n arbitrary: result seen spec w)
  case (Suc n)
  obtain response err w1 where get: "get_url (en_client en) spec w = ((response, err), w1)" by (metis prod.exhaust)
  obtain rt page where page: "err = None" "decodeJSON (en_ParseMediaType en) (en_job_page en) response (rq_operation first_page) = Inr (rt, page)"
    using Suc.prems get by (cases err) (auto simp: Let_def split: sum.splits)
  show ?case
  proof (cases "rw_next response")
    case None
    then show ?thesis using Suc.prems get page by (auto simp: Let_def split: if_splits)
  next
    case (Some u)
    then show ?thesis using Suc.prems get page by (auto simp: Let_def split: if_splits intro: Suc.IH)
  qed
qed simp

interpretation run_listing: counted_listing
  "\<lambda>(owner, repository, created). client_ListWorkflowRuns en owner repository created"
  ru_TotalCount ru_Runs ru_Truncated for en :: "'w Endpoint"
proof
  fix q w l w'
  assume "(case q of (owner, repository, created) \<Rightarrow> client_ListWorkflowRuns en owner repository created) w = ((l, None), w')"
    and "\<not> ru_Truncated l"
  then show "ru_TotalCount l \<le> int (length (ru_Runs l))"
    by (auto simp: client_ListWorkflowRuns_def Let_def split: prod.splits sum.splits dest!: run_pages_complete)
qed

interpretation job_listing: counted_listing
  "\<lambda>(owner, repository, runID, attempt). client_ListJobsForAttempt en owner repository runID attempt"
  jl_TotalCount jl_Jobs "\<lambda>l. False" for en :: "'w Endpoint"
proof
  fix q w l w'
  assume "(case q of (owner, repository, runID, attempt) \<Rightarrow> client_ListJobsForAttempt en owner repository runID attempt) w =
      ((l, None), w')"
  then show "jl_TotalCount l \<le> int (length (jl_Jobs l))"
    by (auto simp: client_ListJobsForAttempt_def Let_def split: prod.splits sum.splits if_splits dest: job_pages_complete)
qed

text \<open>
  C18: a listing without an error is complete or says that it is not.  A listing of workflow
  runs that is not marked as truncated reports fewer than 1000 runs and has at least
  as many as it reports; a truncated one really reached the ceiling of the filtered search, by
  the reported total or by the runs collected; and a listing of jobs always has as many
  as reported.
\<close>

theorem listings_complete_or_truncated:
  assumes "client_ListWorkflowRuns en owner repository created w = ((runs, None), w1)"
    and "client_ListJobsForAttempt en owner repository run attempt w1 = ((jobs, None), w2)"
  shows "(\<not> ru_Truncated runs \<longrightarrow> ru_TotalCount runs < 1000 \<and> ru_TotalCount runs \<le> int (length (ru_Runs runs))) \<and>
    (ru_Truncated runs \<longrightarrow> ru_TotalCount runs \<ge> 1000 \<or> length (ru_Runs runs) \<ge> 1000) \<and>
    jl_TotalCount jobs \<le> int (length (jl_Jobs jobs))"
proof -
  obtain first_page where "run_pages en first_page (nat (lm_MaxPages (cl_limits (en_client en))))
      \<lparr>ru_TotalCount = 0, ru_Runs = [], ru_Responses = [], ru_Truncated = False\<rparr> 0 [] first_page w = ((runs, None), w1)"
    using assms(1) by (auto simp: client_ListWorkflowRuns_def Let_def split: sum.splits)
  from run_pages_complete[OF this] job_listing.complete[of en "(owner, repository, run, attempt)" w1 jobs w2] assms(2)
  show ?thesis by simp
qed

section \<open>Bounds\<close>

text \<open>The endpoint over the recording client, and the bound on one listing.\<close>

definition traced_endpoint :: "'w Endpoint \<Rightarrow> ('w \<times> trace) Endpoint" where
  "traced_endpoint en =
     \<lparr>en_client = traced (en_client en), en_ParseMediaType = en_ParseMediaType en, en_repository = en_repository en,
      en_repositories = en_repositories en, en_repository_page = en_repository_page en, en_count = en_count en,
      en_run_page = en_run_page en, en_run = en_run en, en_job_page = en_job_page en,
      en_hash_algorithm = en_hash_algorithm en\<rparr>"

lemma traced_endpoint_client [simp]: "en_client (traced_endpoint en) = traced (en_client en)"
  by (simp add: traced_endpoint_def)

lemma run_pages_budget:
  assumes "run_pages (traced_endpoint en) first_page n result full seen spec (w, sent0) = (r, (w', sent))"
    and "0 \<le> ry_MaxAttempts (cl_retry (en_client en))" and "inside (cl_base (en_client en)) sent0"
  shows "inside (cl_base (en_client en)) sent \<and>
    int (length sent) \<le> int (length sent0) + int n * (ry_MaxAttempts (cl_retry (en_client en)) + 3)"
  using assms(1,3)
proof (induction n arbitrary: result full seen spec w sent0)
  case (Suc n)
  let ?k = "ry_MaxAttempts (cl_retry (en_client en)) + 3"
  obtain response err w1 sent1 where get: "get_url (traced (en_client en)) spec (w, sent0) = ((response, err), (w1, sent1))"
    by (metis prod.exhaust)
  have one: "inside (cl_base (en_client en)) sent1" "int (length sent1) \<le> int (length sent0) + ?k"
    using get_url_budget[OF get assms(2) Suc.prems(2)] by simp_all
  consider "(w', sent) = (w1, sent1)"
    | res full' seen' spec' where "run_pages (traced_endpoint en) first_page n res full' seen' spec' (w1, sent1) = (r, (w', sent))"
    using Suc.prems(1) get by (auto simp: Let_def split: option.splits sum.splits prod.splits if_splits)
  then show ?case
  proof cases
    case 1
    have "0 \<le> int n * ?k" using assms(2) by simp
    then show ?thesis using one 1 by (simp add: distrib_right)
  next
    case 2
    from Suc.IH[OF 2 one(1)] show ?thesis using one(2) by (simp add: distrib_right)
  qed
qed simp

text \<open>
  C19: listing the runs of a window is bounded and stays inside the origin.  However the pages
  are linked, a listing sends at most as many requests as the page limit times the
  attempts and redirects of one read, all of them inside the configured origin.
\<close>

theorem listing_requests_bounded:
  assumes "client_ListWorkflowRuns (traced_endpoint en) owner repository created (w, []) = (result, (w', sent))"
    and "0 \<le> ry_MaxAttempts (cl_retry (en_client en))" and "0 \<le> lm_MaxPages (cl_limits (en_client en))"
  shows "int (length sent) \<le>
      lm_MaxPages (cl_limits (en_client en)) * (ry_MaxAttempts (cl_retry (en_client en)) + 3) \<and>
    inside (cl_base (en_client en)) sent"
proof (cases "workflowRunsSpec owner repository created 100")
  case (Inl e)
  then show ?thesis using assms by (simp add: client_ListWorkflowRuns_def Let_def inside_def)
next
  case (Inr first_page)
  then have "run_pages (traced_endpoint en) first_page (nat (lm_MaxPages (cl_limits (en_client en))))
      \<lparr>ru_TotalCount = 0, ru_Runs = [], ru_Responses = [], ru_Truncated = False\<rparr> 0 [] first_page (w, []) = (result, (w', sent))"
    using assms(1) by (simp add: client_ListWorkflowRuns_def Let_def)
  from run_pages_budget[OF this assms(2)] show ?thesis using assms(3) by (simp add: inside_def)
qed

section \<open>Concrete listings\<close>

text \<open>A server that answers every request with an empty page.\<close>

definition empty_client :: "unit Client" where
  "empty_client = sample_client\<lparr>cl_Do := (\<lambda>u headers w.
     (Some \<lparr>hr_StatusCode = 200, hr_Header = (\<lambda>name. []), hr_Body = ''p'', hr_BodyFails = False\<rparr>, w)),
     cl_limits := default_limits\<lparr>lm_MaxPages := 2\<rparr>\<rparr>"

definition empty_endpoint :: "unit Endpoint" where
  "empty_endpoint =
     \<lparr>en_client = empty_client, en_ParseMediaType = (\<lambda>m. None), en_repository = (\<lambda>b. None), en_repositories = (\<lambda>b. Some ([], [])),
      en_repository_page = (\<lambda>b. Some ((0, []), [])), en_count = (\<lambda>b. Some (0, [])), en_run_page = (\<lambda>b. Some ((0, []), [])),
      en_run = (\<lambda>b. None), en_job_page = (\<lambda>b. Some ((0, []), [])), en_hash_algorithm = (\<lambda>b. Some (''sha1'', []))\<rparr>"

lemma empty_endpoint_parts [simp]:
  "en_client empty_endpoint = empty_client" "en_run_page empty_endpoint = (\<lambda>b. Some ((0, []), []))"
  "en_job_page empty_endpoint = (\<lambda>b. Some ((0, []), []))" "ry_MaxAttempts (cl_retry empty_client) = 3"
  "lm_MaxPages (cl_limits empty_client) = 2" "cl_Token empty_client () = (Some [], ())" "cl_Err empty_client () = (None, ())"
  by (simp_all add: empty_endpoint_def empty_client_def sample_client_def default_retry_def default_limits_def)

lemma sanitizeDiagnostic_Nil [simp]: "sanitizeDiagnostic [] = []"
  by (simp add: sanitizeDiagnostic_def)

lemma empty_once:
  assumes "0 < rq_maxBytes spec"
  shows "\<exists>r. getOnce empty_client u spec token w = ((r, None), ()) \<and> rw_redirect r = None \<and> rw_next r = None \<and>
    rw_body r = ''p'' \<and> rm_MediaType (rw_meta r) = []"
  using assms
  by (auto simp: getOnce_def empty_client_def sample_client_def judge_response_def readBounded_def isAPIRedirect_def
      responseMetadata_def header_get_def raw_of_def Let_def)

lemma empty_get:
  assumes "rq_absoluteURL spec = None" and "rq_maxBytes spec = 0" and "rq_accept spec = []" and "HasPrefix (rq_path spec) ''/''"
    and "PathUnescape (rq_path spec) = Some p"
  shows "\<exists>r. get_url empty_client spec w = ((r, None), ()) \<and> rw_next r = None \<and>
    rw_body r = ''p'' \<and> rm_MediaType (rw_meta r) = []"
proof -
  define s where "s = complete_spec empty_client spec"
  have s: "0 < rq_maxBytes s" "\<not> (rq_maxBytes s > hardJSONLimit)" "rq_path s = rq_path spec" "rq_absoluteURL s = None"
    using assms(1-3) by (simp_all add: s_def complete_spec_def empty_client_def sample_client_def default_limits_def
        defaultJSONLimit_def hardJSONLimit_def)
  have "rq_path spec \<noteq> []" using assms(4) by (auto simp: HasPrefix_def)
  moreover have "TrimSuffix (EscapedPath sample_base) ''/'' = []"
    by (simp add: sample_base_def EscapedPath_def escape_path_def TrimSuffix_def HasSuffix_def)
  moreover have "cl_base empty_client = sample_base" by (simp add: empty_client_def sample_client_def)
  ultimately obtain target where t: "requestURL empty_client s = Inr target"
    using assms(4,5) s(3,4) by (simp add: requestURL_def Let_def)
  define g where "g = \<lparr>gt_target = target, gt_seen = [URL_String target], gt_redirects = 0, gt_attempts = [], gt_world = ()\<rparr>"
  obtain r where r: "getOnce empty_client target s [] () = ((r, None), ())" "rw_redirect r = None" "rw_next r = None"
      "rw_body r = ''p''" "rm_MediaType (rw_meta r) = []"
    using empty_once[OF s(1)] by metis
  have "request_once empty_client s [] 1 g = Returned (r\<lparr>rw_attempts := [rw_meta r]\<rparr>, None) ()"
    using r(1,2) by (subst request_once.simps) (simp add: g_def Let_def)
  then have "get_attempts empty_client s 3 g = ((r\<lparr>rw_attempts := [rw_meta r]\<rparr>, None), ())"
    by (simp add: numeral_3_eq_3 g_def)
  then have "get_url empty_client spec w = ((r\<lparr>rw_attempts := [rw_meta r]\<rparr>, None), ())"
    using s(2) t by (simp add: get_url_def Let_def s_def[symmetric] g_def)
  then show ?thesis using r by auto
qed

lemma empty_run_spec: "\<exists>spec p. workflowRunsSpec ''o'' ''r'' ''x'' 100 = Inr spec \<and> rq_absoluteURL spec = None \<and> rq_maxBytes spec = 0 \<and>
    rq_accept spec = [] \<and> HasPrefix (rq_path spec) ''/'' \<and> PathUnescape (rq_path spec) = Some p"
proof -
  have "TrimSpace ''x'' = ''x''" by (simp add: TrimSpace_def TrimFunc_def pieces_ascii byte_def trim_pieces_def unicode_IsSpace_def)
  then show ?thesis
    by (simp add: workflowRunsSpec_def repositoryParts_def escapeIdentifier_def ContainsAny_def PathEscape_def segment_safe_def
        unreserved_def byte_def route_spec_def HasPrefix_def PathUnescape_def)
qed

lemma empty_runs:
  "\<exists>l. client_ListWorkflowRuns empty_endpoint ''o'' ''r'' ''x'' () = ((l, None), ()) \<and> \<not> ru_Truncated l"
proof -
  obtain spec p where s: "workflowRunsSpec ''o'' ''r'' ''x'' 100 = Inr spec" "rq_absoluteURL spec = None" "rq_maxBytes spec = 0"
      "rq_accept spec = []" "HasPrefix (rq_path spec) ''/''" "PathUnescape (rq_path spec) = Some p"
    using empty_run_spec by blast
  obtain r where "get_url empty_client spec () = ((r, None), ())" "rw_next r = None" "rw_body r = ''p''" "rm_MediaType (rw_meta r) = []"
    using empty_get[OF s(2-6)] by blast
  then show ?thesis
    by (simp add: client_ListWorkflowRuns_def Let_def s(1) numeral_2_eq_2 decodeJSON_def)
qed

lemma empty_jobs:
  "\<exists>l. client_ListJobsForAttempt empty_endpoint ''o'' ''r'' 4 1 () = ((l, None), ())"
proof -
  have parts: "repositoryParts ''o'' ''r'' = Inr (''o'', ''r'')"
    by (simp add: repositoryParts_def escapeIdentifier_def ContainsAny_def PathEscape_def segment_safe_def unreserved_def byte_def)
  have n: "show_int 4 = ''4''" "show_int 1 = ''1''"
    by (simp_all add: show_int_def show_nat.simps[of 4] show_nat.simps[of "Suc 0"] digit_char_def char_of_def bit_simps)
  define spec where "spec = route_spec ''/repos/{owner}/{repo}/actions/runs/{run_id}/attempts/{attempt_number}/jobs''
     ''/repos/o/r/actions/runs/4/attempts/1/jobs'' [(''filter'', ''all''), (''per_page'', ''100'')]
     [(''owner'', ''o''), (''repo'', ''r''), (''run_id'', ''4''), (''attempt_number'', ''1''), (''filter'', ''all''), (''per_page'', ''100'')]
     ''list attempt jobs''"
  have "\<exists>r. get_url empty_client spec () = ((r, None), ()) \<and> rw_next r = None \<and> rw_body r = ''p'' \<and> rm_MediaType (rw_meta r) = []"
    by (rule empty_get[of _ "''/repos/o/r/actions/runs/4/attempts/1/jobs''"])
       (simp_all add: spec_def route_spec_def HasPrefix_def PathUnescape_def)
  then obtain r where "get_url empty_client spec () = ((r, None), ())" "rw_next r = None" "rw_body r = ''p''" "rm_MediaType (rw_meta r) = []"
    by blast
  then show ?thesis
    by (simp add: client_ListJobsForAttempt_def Let_def parts n spec_def[symmetric] numeral_2_eq_2 decodeJSON_def)
qed

theorem listings_complete_or_truncated_witness:
  "\<exists>runs jobs. client_ListWorkflowRuns empty_endpoint ''o'' ''r'' ''x'' () = ((runs, None), ()) \<and>
     client_ListJobsForAttempt empty_endpoint ''o'' ''r'' 4 1 () = ((jobs, None), ()) \<and>
     ru_TotalCount runs < 1000 \<and> jl_TotalCount jobs \<le> int (length (jl_Jobs jobs))"
proof -
  obtain runs where r: "client_ListWorkflowRuns empty_endpoint ''o'' ''r'' ''x'' () = ((runs, None), ())" "\<not> ru_Truncated runs"
    using empty_runs by blast
  obtain jobs where j: "client_ListJobsForAttempt empty_endpoint ''o'' ''r'' 4 1 () = ((jobs, None), ())"
    using empty_jobs by blast
  from listings_complete_or_truncated[OF r(1) j] r j show ?thesis by blast
qed

theorem listing_requests_bounded_witness:
  "\<exists>result sent. client_ListWorkflowRuns (traced_endpoint empty_endpoint) ''o'' ''r'' ''x'' ((), []) = (result, ((), sent)) \<and>
     int (length sent) \<le> 12"
proof -
  obtain result u where "client_ListWorkflowRuns (traced_endpoint empty_endpoint) ''o'' ''r'' ''x'' ((), []) = (result, u)"
    by (rule prod.exhaust)
  then obtain sent where l: "client_ListWorkflowRuns (traced_endpoint empty_endpoint) ''o'' ''r'' ''x'' ((), []) = (result, ((), sent))"
    by (cases u) auto
  from listing_requests_bounded[OF l] have "int (length sent) \<le> 12" by simp
  with l show ?thesis by blast
qed

end
