(* ===== verification/Github_Git.thy ===== *)
theory Github_Git
  imports Github_Endpoints
begin

text \<open>
  \<open>internal/githubapi/git_tags.go\<close>, \<open>git_commits.go\<close> and \<open>git_peel.go\<close> with the object
  types of \<open>types.go\<close> and the object reads of \<open>endpoints.go\<close>: the typing of a recorded Git
  object as a tag or a commit, and the peeling of a tag chain to its commit.  The prefix
  \<open>Api\<close> keeps the transport types apart from those of the data model.
\<close>

section \<open>Objects\<close>

record ApiObjectID =
  go_Algorithm :: string
  go_Value :: string

datatype ApiObjectKind =
    GitObjectCommit
  | GitObjectTag
  | GitObjectTree
  | GitObjectBlob
  | OtherGitObject string

primrec ApiObjectKind_text :: "ApiObjectKind \<Rightarrow> string" where
  "ApiObjectKind_text GitObjectCommit = ''commit''"
| "ApiObjectKind_text GitObjectTag = ''tag''"
| "ApiObjectKind_text GitObjectTree = ''tree''"
| "ApiObjectKind_text GitObjectBlob = ''blob''"
| "ApiObjectKind_text (OtherGitObject s) = s"

definition ApiObjectKind_of :: "string \<Rightarrow> ApiObjectKind" where
  "ApiObjectKind_of s =
     (if s = ''commit'' then GitObjectCommit else if s = ''tag'' then GitObjectTag else if s = ''tree'' then GitObjectTree
      else if s = ''blob'' then GitObjectBlob else OtherGitObject s)"

definition ApiObjectKind_Valid :: "ApiObjectKind \<Rightarrow> bool" where
  "ApiObjectKind_Valid kind \<longleftrightarrow> kind = GitObjectCommit \<or> kind = GitObjectTag \<or> kind = GitObjectTree \<or> kind = GitObjectBlob"

record ApiObjectTarget =
  ot_Kind :: ApiObjectKind
  ot_ObjectID :: ApiObjectID

record ApiTagObject =
  gtag_TagObjectID :: ApiObjectID
  gtag_NodeID :: string
  gtag_TagName :: string
  gtag_Target :: ApiObjectTarget

record ApiCommitObject =
  gc_CommitObjectID :: ApiObjectID
  gc_NodeID :: string
  gc_TreeObjectID :: ApiObjectID
  gc_ParentObjectIDs :: "ApiObjectID list"

record ApiObjectPeel =
  op_RecordedObjectID :: ApiObjectID
  op_RecordedKind :: ApiObjectKind
  op_TagObjects :: "ApiTagObject list"
  op_CommitObject :: "ApiCommitObject option"
  op_Responses :: "ResponseMeta list"

record ApiContent =
  ac_Type :: string
  ac_Encoding :: string
  ac_Size :: int
  ac_Name :: string
  ac_Path :: string
  ac_SHA :: string
  ac_Content :: string

text \<open>The documents the two object routes decode.\<close>

record TagDocument =
  td_NodeID :: string
  td_Tag :: string
  td_SHA :: string
  td_ObjectType :: string
  td_ObjectSHA :: string

record CommitDocument =
  cd_SHA :: string
  cd_NodeID :: string
  cd_TreeSHA :: string
  cd_ParentSHAs :: "string list"

record 'w GitEndpoint = "'w Endpoint" +
  ge_content :: "ApiContent decoder"
  ge_tag :: "TagDocument decoder"
  ge_commit :: "CommitDocument decoder"

definition zero_id :: ApiObjectID where
  "zero_id = \<lparr>go_Algorithm = [], go_Value = []\<rparr>"

definition zero_tag :: ApiTagObject where
  "zero_tag = \<lparr>gtag_TagObjectID = zero_id, gtag_NodeID = [], gtag_TagName = [],
     gtag_Target = \<lparr>ot_Kind = OtherGitObject [], ot_ObjectID = zero_id\<rparr>\<rparr>"

definition zero_commit :: ApiCommitObject where
  "zero_commit = \<lparr>gc_CommitObjectID = zero_id, gc_NodeID = [], gc_TreeObjectID = zero_id, gc_ParentObjectIDs = []\<rparr>"

definition zero_content :: ApiContent where
  "zero_content = \<lparr>ac_Type = [], ac_Encoding = [], ac_Size = 0, ac_Name = [], ac_Path = [], ac_SHA = [], ac_Content = []\<rparr>"

definition validFullGitObjectID :: "ApiObjectID \<Rightarrow> bool" where
  "validFullGitObjectID object =
     (if go_Algorithm object = ''sha1'' \<or> go_Algorithm object = ''sha256'' then
        \<not> (length (go_Value object) \<noteq> (if go_Algorithm object = ''sha1'' then 40 else 64) \<or>
           go_Value object \<noteq> ToLower (go_Value object)) \<and> hex_decodes (go_Value object)
      else False)"

definition maxGitTagNameBytes :: nat where
  "maxGitTagNameBytes = 4096"

definition maxGitCommitParents :: nat where
  "maxGitCommitParents = 16384"

definition maxGitTagPeelDepth :: nat where
  "maxGitTagPeelDepth = 8"

section \<open>Content\<close>

definition GetRepositoryHashAlgorithm ::
    "'w Endpoint \<Rightarrow> string \<Rightarrow> string \<Rightarrow> 'w \<Rightarrow> (string ObjectResult \<times> error option) \<times> 'w" where
  "GetRepositoryHashAlgorithm en owner repository w =
     (case repositoryParts owner repository of
        Inl err \<Rightarrow> ((\<lparr>or_Value = [], or_Responses = []\<rparr>, Some err), w)
      | Inr (ownerPart, repositoryPart) \<Rightarrow>
          (case get_url (en_client en) (route_spec ''/repos/{owner}/{repo}/hash-algorithm''
                  (''/repos/'' @ ownerPart @ ''/'' @ repositoryPart @ ''/hash-algorithm'') []
                  [(''owner'', owner), (''repo'', repository)] ''get repository hash algorithm'') w of
             ((response, Some err), w) \<Rightarrow> ((\<lparr>or_Value = [], or_Responses = rw_attempts response\<rparr>, Some err), w)
           | ((response, None), w) \<Rightarrow>
               (case decodeJSON (en_ParseMediaType en) (en_hash_algorithm en) response ''get repository hash algorithm'' of
                  Inl err \<Rightarrow> ((\<lparr>or_Value = [], or_Responses = rw_attempts response\<rparr>, Some err), w)
                | Inr algorithm \<Rightarrow>
                    if TrimSpace algorithm = [] then
                      ((\<lparr>or_Value = [], or_Responses = rw_attempts response\<rparr>,
                        Some (malformedError ''get repository hash algorithm'' response ''response omitted hash_algorithm'')), w)
                    else ((\<lparr>or_Value = algorithm, or_Responses = rw_attempts response\<rparr>, None), w))))"

definition GetContentAtObject ::
    "'w GitEndpoint \<Rightarrow> string \<Rightarrow> string \<Rightarrow> string \<Rightarrow> ApiObjectID \<Rightarrow> 'w \<Rightarrow> (ApiContent ObjectResult \<times> error option) \<times> 'w" where
  "GetContentAtObject en owner repository contentPath object w =
     (let fail = (\<lambda>err. ((\<lparr>or_Value = zero_content, or_Responses = []\<rparr>, Some err), w))
      in case repositoryParts owner repository of
           Inl err \<Rightarrow> fail err
         | Inr (ownerPart, repositoryPart) \<Rightarrow>
             (case escapeRepositoryPath contentPath of
                Inl err \<Rightarrow> fail err
              | Inr escapedPath \<Rightarrow>
                  if TrimSpace (go_Algorithm object) = [] \<or> TrimSpace (go_Value object) = [] \<or>
                     ContainsAny (go_Value object) [CHR 0x0D, CHR 0x0A]
                  then fail (invalidArgument ''get repository content'' ''typed Git object ID is incomplete'')
                  else case get_url (en_client en) (route_spec ''/repos/{owner}/{repo}/contents/{path}''
                              (''/repos/'' @ ownerPart @ ''/'' @ repositoryPart @ ''/contents/'' @ escapedPath)
                              [(''ref'', go_Value object)]
                              [(''owner'', owner), (''repo'', repository), (''path'', contentPath),
                               (''ref_algorithm'', go_Algorithm object), (''ref'', go_Value object)]
                              ''get repository content'') w of
                         ((response, err), w) \<Rightarrow>
                           (decodeObject (en_ParseMediaType en) zero_content (ge_content en) response err ''get repository content'', w)))"

definition GetBlob ::
    "'w GitEndpoint \<Rightarrow> string \<Rightarrow> string \<Rightarrow> ApiObjectID \<Rightarrow> 'w \<Rightarrow> (ApiContent ObjectResult \<times> error option) \<times> 'w" where
  "GetBlob en owner repository blob w =
     (let fail = (\<lambda>err. ((\<lparr>or_Value = zero_content, or_Responses = []\<rparr>, Some err), w))
      in case repositoryParts owner repository of
           Inl err \<Rightarrow> fail err
         | Inr (ownerPart, repositoryPart) \<Rightarrow>
             if TrimSpace (go_Algorithm blob) = [] \<or> TrimSpace (go_Value blob) = [] \<or>
                ContainsAny (go_Value blob) [CHR 0x0D, CHR 0x0A, CHR ''/'']
             then fail (invalidArgument ''get Git blob'' ''typed blob object ID is incomplete'')
             else case get_url (en_client en) (route_spec ''/repos/{owner}/{repo}/git/blobs/{file_sha}''
                         (''/repos/'' @ ownerPart @ ''/'' @ repositoryPart @ ''/git/blobs/'' @ PathEscape (go_Value blob)) []
                         [(''owner'', owner), (''repo'', repository), (''blob_algorithm'', go_Algorithm blob),
                          (''file_sha'', go_Value blob)] ''get Git blob'') w of
                    ((response, err), w) \<Rightarrow>
                      (decodeObject (en_ParseMediaType en) zero_content (ge_content en) response err ''get Git blob'', w))"

section \<open>Tags and commits\<close>

text \<open>What \<open>GetGitTag\<close> makes of the document it decoded: an error message or the tag object.\<close>

definition check_tag :: "ApiObjectID \<Rightarrow> TagDocument \<Rightarrow> string + ApiTagObject" where
  "check_tag tagObject document =
     (let returnedTag = \<lparr>go_Algorithm = go_Algorithm tagObject, go_Value = td_SHA document\<rparr>;
          targetKind = ApiObjectKind_of (td_ObjectType document);
          targetID = \<lparr>go_Algorithm = go_Algorithm tagObject, go_Value = td_ObjectSHA document\<rparr>
      in if td_Tag document = [] \<or> length (td_Tag document) > maxGitTagNameBytes \<or> CHR 0x00 \<in> set (td_Tag document)
         then Inl ''Git tag response omitted a bounded tag name''
         else if \<not> validFullGitObjectID returnedTag then Inl ''Git tag response contained an invalid tag object ID''
         else if returnedTag \<noteq> tagObject then Inl ''Git tag response object ID did not match the requested tag object''
         else if \<not> ApiObjectKind_Valid targetKind then Inl ''Git tag response contained an unsupported target object type''
         else if \<not> validFullGitObjectID targetID then Inl ''Git tag response contained an invalid target object ID''
         else Inr \<lparr>gtag_TagObjectID = returnedTag, gtag_NodeID = td_NodeID document, gtag_TagName = td_Tag document,
                gtag_Target = \<lparr>ot_Kind = targetKind, ot_ObjectID = targetID\<rparr>\<rparr>)"

definition GetGitTag ::
    "'w GitEndpoint \<Rightarrow> string \<Rightarrow> string \<Rightarrow> ApiObjectID \<Rightarrow> 'w \<Rightarrow> (ApiTagObject ObjectResult \<times> error option) \<times> 'w" where
  "GetGitTag en owner repository tagObject w =
     (case repositoryParts owner repository of
        Inl err \<Rightarrow> ((\<lparr>or_Value = zero_tag, or_Responses = []\<rparr>, Some err), w)
      | Inr (ownerPart, repositoryPart) \<Rightarrow>
          if \<not> validFullGitObjectID tagObject then
            ((\<lparr>or_Value = zero_tag, or_Responses = []\<rparr>,
              Some (invalidArgument ''get Git tag'' ''tag object ID must be a supported algorithm-qualified full lowercase object ID'')), w)
          else
            case get_url (en_client en) (route_spec ''/repos/{owner}/{repo}/git/tags/{tag_sha}''
                   (''/repos/'' @ ownerPart @ ''/'' @ repositoryPart @ ''/git/tags/'' @ PathEscape (go_Value tagObject)) []
                   [(''owner'', owner), (''repo'', repository), (''tag_algorithm'', go_Algorithm tagObject),
                    (''tag_sha'', go_Value tagObject)] ''get Git tag'') w of
              ((response, Some err), w) \<Rightarrow> ((\<lparr>or_Value = zero_tag, or_Responses = rw_attempts response\<rparr>, Some err), w)
            | ((response, None), w) \<Rightarrow>
                (case decodeJSON (en_ParseMediaType en) (ge_tag en) response ''get Git tag'' of
                   Inl err \<Rightarrow> ((\<lparr>or_Value = zero_tag, or_Responses = rw_attempts response\<rparr>, Some err), w)
                 | Inr document \<Rightarrow>
                     (case check_tag tagObject document of
                        Inl message \<Rightarrow>
                          ((\<lparr>or_Value = zero_tag, or_Responses = rw_attempts response\<rparr>,
                            Some (malformedError ''get Git tag'' response message)), w)
                      | Inr tag \<Rightarrow> ((\<lparr>or_Value = tag, or_Responses = rw_attempts response\<rparr>, None), w))))"

definition check_commit :: "ApiObjectID \<Rightarrow> CommitDocument \<Rightarrow> string + ApiCommitObject" where
  "check_commit commitObject document =
     (let typed = (\<lambda>sha. \<lparr>go_Algorithm = go_Algorithm commitObject, go_Value = sha\<rparr>);
          returned = typed (cd_SHA document); tree = typed (cd_TreeSHA document);
          parents = map typed (cd_ParentSHAs document)
      in if \<not> validFullGitObjectID returned \<or> returned \<noteq> commitObject
         then Inl ''Git commit response object ID was invalid or did not match the request''
         else if \<not> validFullGitObjectID tree then Inl ''Git commit response contained an invalid tree object ID''
         else if length (cd_ParentSHAs document) > maxGitCommitParents then Inl ''Git commit response exceeded the parent limit''
         else if \<not> list_all validFullGitObjectID parents then Inl ''Git commit response contained an invalid parent object ID''
         else Inr \<lparr>gc_CommitObjectID = returned, gc_NodeID = cd_NodeID document, gc_TreeObjectID = tree,
                gc_ParentObjectIDs = parents\<rparr>)"

definition GetGitCommit ::
    "'w GitEndpoint \<Rightarrow> string \<Rightarrow> string \<Rightarrow> ApiObjectID \<Rightarrow> 'w \<Rightarrow> (ApiCommitObject ObjectResult \<times> error option) \<times> 'w" where
  "GetGitCommit en owner repository commitObject w =
     (case repositoryParts owner repository of
        Inl err \<Rightarrow> ((\<lparr>or_Value = zero_commit, or_Responses = []\<rparr>, Some err), w)
      | Inr (ownerPart, repositoryPart) \<Rightarrow>
          if \<not> validFullGitObjectID commitObject then
            ((\<lparr>or_Value = zero_commit, or_Responses = []\<rparr>,
              Some (invalidArgument ''get Git commit''
                ''commit object ID must be a supported algorithm-qualified full lowercase object ID'')), w)
          else
            case get_url (en_client en) (route_spec ''/repos/{owner}/{repo}/git/commits/{commit_sha}''
                   (''/repos/'' @ ownerPart @ ''/'' @ repositoryPart @ ''/git/commits/'' @ PathEscape (go_Value commitObject)) []
                   [(''owner'', owner), (''repo'', repository), (''commit_algorithm'', go_Algorithm commitObject),
                    (''commit_sha'', go_Value commitObject)] ''get Git commit'') w of
              ((response, Some err), w) \<Rightarrow> ((\<lparr>or_Value = zero_commit, or_Responses = rw_attempts response\<rparr>, Some err), w)
            | ((response, None), w) \<Rightarrow>
                (case decodeJSON (en_ParseMediaType en) (ge_commit en) response ''get Git commit'' of
                   Inl err \<Rightarrow> ((\<lparr>or_Value = zero_commit, or_Responses = rw_attempts response\<rparr>, Some err), w)
                 | Inr document \<Rightarrow>
                     (case check_commit commitObject document of
                        Inl message \<Rightarrow>
                          ((\<lparr>or_Value = zero_commit, or_Responses = rw_attempts response\<rparr>,
                            Some (malformedError ''get Git commit'' response message)), w)
                      | Inr commit \<Rightarrow> ((\<lparr>or_Value = commit, or_Responses = rw_attempts response\<rparr>, None), w))))"

section \<open>Peeling\<close>

text \<open>The loop of \<open>peelKnownTagTarget\<close>; \<open>n\<close> counts the depths that remain.\<close>

primrec peel_target ::
    "'w GitEndpoint \<Rightarrow> string \<Rightarrow> string \<Rightarrow> nat \<Rightarrow> ApiObjectID list \<Rightarrow> ApiObjectPeel \<Rightarrow> ApiObjectTarget \<Rightarrow> 'w \<Rightarrow>
     (ApiObjectPeel \<times> error option) \<times> 'w" where
  "peel_target en owner repository 0 visited result target w =
     ((result, Some (Plain (Errorf ''Git tag peel exceeded the maximum depth''))), w)"
| "peel_target en owner repository (Suc n) visited result target w =
     (case cl_Err (en_client en) w of
        (Some err, w) \<Rightarrow> ((result, Some (Plain err)), w)
      | (None, w) \<Rightarrow>
          (case ot_Kind target of
             GitObjectCommit \<Rightarrow>
               (case GetGitCommit en owner repository (ot_ObjectID target) w of
                  ((commit, err), w) \<Rightarrow>
                    (let result = result\<lparr>op_Responses := op_Responses result @ or_Responses commit\<rparr>
                     in case err of
                          Some e \<Rightarrow> ((result, Some (Wrapped ''positively type peeled Git commit'' e)), w)
                        | None \<Rightarrow> ((result\<lparr>op_CommitObject := Some (or_Value commit)\<rparr>, None), w)))
           | GitObjectTag \<Rightarrow>
               if ot_ObjectID target \<in> set visited then
                 ((result, Some (Plain (Errorf ''Git tag peel cycle detected''))), w)
               else
                 (case GetGitTag en owner repository (ot_ObjectID target) w of
                    ((tag, err), w) \<Rightarrow>
                      (let result = result\<lparr>op_Responses := op_Responses result @ or_Responses tag\<rparr>
                       in case err of
                            Some e \<Rightarrow> ((result, Some (Wrapped ''read nested Git tag object'' e)), w)
                          | None \<Rightarrow>
                              peel_target en owner repository n (ot_ObjectID target # visited)
                                (result\<lparr>op_TagObjects := op_TagObjects result @ [or_Value tag]\<rparr>)
                                (gtag_Target (or_Value tag)) w))
           | GitObjectTree \<Rightarrow> ((result, Some (Plain (Errorf ''Git tag peel ended at unsupported tree object''))), w)
           | GitObjectBlob \<Rightarrow> ((result, Some (Plain (Errorf ''Git tag peel ended at unsupported blob object''))), w)
           | OtherGitObject s \<Rightarrow> ((result, Some (Plain (Errorf ''Git tag peel encountered an invalid target kind''))), w)))"

definition peelKnownTagTarget ::
    "'w GitEndpoint \<Rightarrow> string \<Rightarrow> string \<Rightarrow> ApiObjectPeel \<Rightarrow> ApiObjectTarget \<Rightarrow> 'w \<Rightarrow> (ApiObjectPeel \<times> error option) \<times> 'w" where
  "peelKnownTagTarget en owner repository result target w =
     peel_target en owner repository maxGitTagPeelDepth [op_RecordedObjectID result] result target w"

definition PeelGitObjectToCommit ::
    "'w GitEndpoint \<Rightarrow> string \<Rightarrow> string \<Rightarrow> ApiObjectID \<Rightarrow> 'w \<Rightarrow> (ApiObjectPeel \<times> error option) \<times> 'w" where
  "PeelGitObjectToCommit en owner repository recorded w =
     (let result = \<lparr>op_RecordedObjectID = recorded, op_RecordedKind = OtherGitObject [], op_TagObjects = [],
                op_CommitObject = None, op_Responses = []\<rparr>
      in if \<not> validFullGitObjectID recorded then
           ((result, Some (invalidArgument ''peel Git object''
              ''recorded object ID must be a supported algorithm-qualified full lowercase object ID'')), w)
         else
           case GetGitTag en owner repository recorded w of
             ((firstTag, tagErr), w) \<Rightarrow>
               (let result = result\<lparr>op_Responses := op_Responses result @ or_Responses firstTag\<rparr>
                in case tagErr of
                     None \<Rightarrow>
                       peelKnownTagTarget en owner repository
                         (result\<lparr>op_RecordedKind := GitObjectTag, op_TagObjects := op_TagObjects result @ [or_Value firstTag]\<rparr>)
                         (gtag_Target (or_Value firstTag)) w
                   | Some e \<Rightarrow>
                       if \<not> IsClass e ErrorNotFound then ((result, Some (Wrapped ''type recorded Git object as tag'' e)), w)
                       else
                         (case GetGitCommit en owner repository recorded w of
                            ((commit, commitErr), w) \<Rightarrow>
                              (let result = result\<lparr>op_Responses := op_Responses result @ or_Responses commit\<rparr>
                               in case commitErr of
                                    Some e \<Rightarrow>
                                      ((result, Some (Wrapped ''positively type recorded Git object as commit after tag miss'' e)), w)
                                  | None \<Rightarrow>
                                      ((result\<lparr>op_RecordedKind := GitObjectCommit, op_CommitObject := Some (or_Value commit)\<rparr>, None), w)))))"

section \<open>Peeled chains\<close>

text \<open>
  The evidence of a peeled chain: the first tag is the recorded object, each tag names the
  next object, and the last one names the commit.
\<close>

fun tag_chain :: "ApiObjectID \<Rightarrow> ApiTagObject list \<Rightarrow> ApiObjectID \<Rightarrow> bool" where
  "tag_chain i [] c = False"
| "tag_chain i [t] c = (gtag_TagObjectID t = i \<and> gtag_Target t = \<lparr>ot_Kind = GitObjectCommit, ot_ObjectID = c\<rparr>)"
| "tag_chain i (t # ts) c = (gtag_TagObjectID t = i \<and> ot_Kind (gtag_Target t) = GitObjectTag \<and>
     tag_chain (ot_ObjectID (gtag_Target t)) ts c)"

text \<open>The chain so far, which ends at an object not yet read.\<close>

fun open_chain :: "ApiObjectID \<Rightarrow> ApiTagObject list \<Rightarrow> ApiObjectTarget \<Rightarrow> bool" where
  "open_chain i [] target = False"
| "open_chain i [t] target = (gtag_TagObjectID t = i \<and> gtag_Target t = target)"
| "open_chain i (t # ts) target = (gtag_TagObjectID t = i \<and> ot_Kind (gtag_Target t) = GitObjectTag \<and>
     open_chain (ot_ObjectID (gtag_Target t)) ts target)"

lemma open_chain_snoc:
  "open_chain i ts target \<Longrightarrow> ot_Kind target = GitObjectTag \<Longrightarrow> gtag_TagObjectID t = ot_ObjectID target \<Longrightarrow>
    open_chain i (ts @ [t]) (gtag_Target t)"
  by (induction i ts target rule: open_chain.induct) auto

lemma open_chain_commit:
  "open_chain i ts target \<Longrightarrow> ot_Kind target = GitObjectCommit \<Longrightarrow> tag_chain i ts (ot_ObjectID target)"
  by (induction i ts target rule: open_chain.induct) auto

lemma check_tag_Inr:
  assumes "check_tag i document = Inr t"
  shows "gtag_TagObjectID t = i" and "validFullGitObjectID i" and "validFullGitObjectID (ot_ObjectID (gtag_Target t))"
    and "go_Algorithm (ot_ObjectID (gtag_Target t)) = go_Algorithm i"
  using assms by (auto simp: check_tag_def Let_def split: if_splits)

lemma check_commit_Inr:
  assumes "check_commit i document = Inr c"
  shows "gc_CommitObjectID c = i" and "validFullGitObjectID i"
  using assms by (auto simp: check_commit_def Let_def split: if_splits)

lemma GetGitTag_None:
  assumes "GetGitTag en owner repository i w = ((tag, None), w')"
  shows "gtag_TagObjectID (or_Value tag) = i" and "go_Algorithm (ot_ObjectID (gtag_Target (or_Value tag))) = go_Algorithm i"
proof -
  obtain document where "check_tag i document = Inr (or_Value tag)"
    using assms by (auto simp: GetGitTag_def split: sum.splits prod.splits if_splits option.splits)
  from check_tag_Inr[OF this] show "gtag_TagObjectID (or_Value tag) = i"
    and "go_Algorithm (ot_ObjectID (gtag_Target (or_Value tag))) = go_Algorithm i" by simp_all
qed

lemma GetGitCommit_None:
  assumes "GetGitCommit en owner repository i w = ((commit, None), w')"
  shows "gc_CommitObjectID (or_Value commit) = i" and "validFullGitObjectID i"
proof -
  obtain document where "check_commit i document = Inr (or_Value commit)"
    using assms by (auto simp: GetGitCommit_def split: sum.splits prod.splits if_splits option.splits)
  from check_commit_Inr[OF this] show "gc_CommitObjectID (or_Value commit) = i" and "validFullGitObjectID i" by simp_all
qed

text \<open>What the loop keeps of its result.\<close>

definition peeling :: "ApiObjectID list \<Rightarrow> ApiObjectPeel \<Rightarrow> ApiObjectTarget \<Rightarrow> bool" where
  "peeling visited r target \<longleftrightarrow> open_chain (op_RecordedObjectID r) (op_TagObjects r) target \<and>
     distinct (map gtag_TagObjectID (op_TagObjects r)) \<and> set visited = gtag_TagObjectID ` set (op_TagObjects r) \<and>
     op_RecordedKind r = GitObjectTag \<and> op_CommitObject r = None"

lemma peel_target_result:
  assumes "peeling visited r target" and "peel_target en owner repository n visited r target w = ((p, err), w')"
  shows "op_RecordedObjectID p = op_RecordedObjectID r \<and> op_RecordedKind p = GitObjectTag \<and>
    length (op_TagObjects p) \<le> length (op_TagObjects r) + n \<and>
    (err = None \<longrightarrow> length (op_TagObjects p) < length (op_TagObjects r) + n \<and> distinct (map gtag_TagObjectID (op_TagObjects p)) \<and>
      (\<exists>c. op_CommitObject p = Some c \<and> validFullGitObjectID (gc_CommitObjectID c) \<and>
        tag_chain (op_RecordedObjectID p) (op_TagObjects p) (gc_CommitObjectID c))) \<and>
    (err \<noteq> None \<longrightarrow> op_CommitObject p = None)"
  using assms
proof (induction n arbitrary: visited r target w)
  case 0
  then show ?case by (auto simp: peeling_def)
next
  case (Suc n)
  obtain e w1 where ctx: "cl_Err (en_client en) w = (e, w1)" by fastforce
  show ?case
  proof (cases e)
    case (Some x)
    then show ?thesis using Suc.prems ctx by (auto simp: peeling_def)
  next
    case None
    consider (commit) "ot_Kind target = GitObjectCommit" | (tag) "ot_Kind target = GitObjectTag"
      | (other) "ot_Kind target \<notin> {GitObjectCommit, GitObjectTag}" by blast
    then show ?thesis
    proof cases
      case commit
      obtain c ce w2 where get: "GetGitCommit en owner repository (ot_ObjectID target) w1 = ((c, ce), w2)" by (metis prod.exhaust)
      show ?thesis
      proof (cases ce)
        case ok: None
        have "gc_CommitObjectID (or_Value c) = ot_ObjectID target" "validFullGitObjectID (ot_ObjectID target)"
          by (rule GetGitCommit_None[OF get[unfolded ok]])+
        then show ?thesis using Suc.prems ctx None commit get ok
          by (auto simp: peeling_def Let_def dest: open_chain_commit)
      next
        case (Some x)
        then show ?thesis using Suc.prems ctx None commit get by (auto simp: peeling_def Let_def)
      qed
    next
      case tag
      obtain t te w2 where get: "GetGitTag en owner repository (ot_ObjectID target) w1 = ((t, te), w2)" by (metis prod.exhaust)
      show ?thesis
      proof (cases "ot_ObjectID target \<in> set visited")
        case True
        then show ?thesis using Suc.prems ctx None tag by (auto simp: peeling_def)
      next
        case new: False
        show ?thesis
        proof (cases te)
          case (Some x)
          then show ?thesis using Suc.prems ctx None tag new get by (auto simp: peeling_def Let_def)
        next
          case ok: None
          have i: "gtag_TagObjectID (or_Value t) = ot_ObjectID target" by (rule GetGitTag_None(1)[OF get[unfolded ok]])
          let ?r = "r\<lparr>op_Responses := op_Responses r @ or_Responses t, op_TagObjects := op_TagObjects r @ [or_Value t]\<rparr>"
          have "peeling (ot_ObjectID target # visited) ?r (gtag_Target (or_Value t))"
            using Suc.prems(1) i new tag by (auto simp: peeling_def open_chain_snoc)
          from Suc.IH[OF this] show ?thesis
            using Suc.prems(2) ctx None tag new get ok by (auto simp: Let_def)
        qed
      qed
    next
      case other
      then show ?thesis using Suc.prems ctx None by (cases "ot_Kind target") (auto simp: peeling_def)
    qed
  qed
qed

text \<open>
  C17: peeling gives a commit only with the whole chain of evidence.  When it succeeds the
  terminal commit has a full object identifier; without tag objects it is the recorded
  object itself; otherwise the tags, at most eight and all different, start at
  the recorded object and each names the next, the last one the commit.  Every failure
  leaves the result without a commit.
\<close>

theorem peel_evidence_chain:
  assumes "PeelGitObjectToCommit en owner repository recorded w = ((p, err), w')"
  shows "op_RecordedObjectID p = recorded \<and> (err \<noteq> None \<longrightarrow> op_CommitObject p = None) \<and>
    (err = None \<longrightarrow> (\<exists>c. op_CommitObject p = Some c \<and> validFullGitObjectID (gc_CommitObjectID c) \<and>
      (op_RecordedKind p = GitObjectCommit \<and> op_TagObjects p = [] \<and> gc_CommitObjectID c = recorded \<or>
       op_RecordedKind p = GitObjectTag \<and> tag_chain recorded (op_TagObjects p) (gc_CommitObjectID c) \<and>
       distinct (map gtag_TagObjectID (op_TagObjects p)) \<and> length (op_TagObjects p) \<le> 8)))"
proof (cases "validFullGitObjectID recorded")
  case False
  then show ?thesis using assms by (auto simp: PeelGitObjectToCommit_def Let_def)
next
  case valid: True
  obtain t te w1 where tag: "GetGitTag en owner repository recorded w = ((t, te), w1)" by (metis prod.exhaust)
  obtain c ce w2 where com: "GetGitCommit en owner repository recorded w1 = ((c, ce), w2)" by (metis prod.exhaust)
  show ?thesis
  proof (cases te)
    case None
    let ?r = "\<lparr>op_RecordedObjectID = recorded, op_RecordedKind = GitObjectTag, op_TagObjects = [or_Value t],
      op_CommitObject = None, op_Responses = or_Responses t\<rparr>"
    have "gtag_TagObjectID (or_Value t) = recorded" by (rule GetGitTag_None(1)[OF tag[unfolded None]])
    then have ok: "peeling [recorded] ?r (gtag_Target (or_Value t))" by (simp add: peeling_def)
    have "peel_target en owner repository 8 [recorded] ?r (gtag_Target (or_Value t)) w1 = ((p, err), w')"
      using assms valid tag None
      by (simp add: PeelGitObjectToCommit_def peelKnownTagTarget_def maxGitTagPeelDepth_def Let_def)
    from peel_target_result[OF ok this] show ?thesis by auto
  next
    case (Some e)
    then show ?thesis using assms valid tag com GetGitCommit_None[of en owner repository recorded w1 c w2]
      by (auto simp: PeelGitObjectToCommit_def Let_def split: if_splits option.splits)
  qed
qed

text \<open>A server that knows one annotated tag of one commit.\<close>

definition sample_oid :: "char \<Rightarrow> ApiObjectID" where
  "sample_oid c = \<lparr>go_Algorithm = ''sha1'', go_Value = replicate 40 c\<rparr>"

definition tag_endpoint :: "unit GitEndpoint" where
  "tag_endpoint =
     \<lparr>en_client = empty_client, en_ParseMediaType = (\<lambda>m. None), en_repository = (\<lambda>b. None), en_repositories = (\<lambda>b. None),
      en_repository_page = (\<lambda>b. None), en_count = (\<lambda>b. None), en_run_page = (\<lambda>b. None), en_run = (\<lambda>b. None),
      en_job_page = (\<lambda>b. None), en_hash_algorithm = (\<lambda>b. None), ge_content = (\<lambda>b. None),
      ge_tag = (\<lambda>b. Some (\<lparr>td_NodeID = [], td_Tag = ''v1'', td_SHA = replicate 40 CHR ''a'', td_ObjectType = ''commit'',
        td_ObjectSHA = replicate 40 CHR ''b''\<rparr>, [])),
      ge_commit = (\<lambda>b. Some (\<lparr>cd_SHA = replicate 40 CHR ''b'', cd_NodeID = [], cd_TreeSHA = replicate 40 CHR ''c'',
        cd_ParentSHAs = []\<rparr>, []))\<rparr>"

lemma tag_endpoint_parts [simp]:
  "en_client tag_endpoint = empty_client"
  "ge_tag tag_endpoint = (\<lambda>b. Some (\<lparr>td_NodeID = [], td_Tag = ''v1'', td_SHA = replicate 40 CHR ''a'', td_ObjectType = ''commit'',
        td_ObjectSHA = replicate 40 CHR ''b''\<rparr>, []))"
  "ge_commit tag_endpoint = (\<lambda>b. Some (\<lparr>cd_SHA = replicate 40 CHR ''b'', cd_NodeID = [], cd_TreeSHA = replicate 40 CHR ''c'',
        cd_ParentSHAs = []\<rparr>, []))"
  by (simp_all add: tag_endpoint_def)

lemma sample_oid_valid: "c \<in> {CHR ''a'', CHR ''b'', CHR ''c''} \<Longrightarrow> validFullGitObjectID (sample_oid c)"
  by (auto simp: validFullGitObjectID_def sample_oid_def ToLower_def lower_byte_def byte_def hex_decodes_def hex_digit_def
      lower_hex_digit_def list_all_iff)

lemma sample_parts: "repositoryParts ''o'' ''r'' = Inr (''o'', ''r'')"
  by (simp add: repositoryParts_def escapeIdentifier_def ContainsAny_def PathEscape_def segment_safe_def unreserved_def byte_def)

lemma sample_git_get:
  assumes "kind \<in> {''tags'', ''commits''}"
  shows "\<exists>r. get_url empty_client (route_spec route (''/repos/'' @ ''o'' @ ''/'' @ ''r'' @ ''/git/'' @ kind @ ''/'' @ PathEscape s) []
    parameters operation) () = ((r, None), ()) \<and> rm_MediaType (rw_meta r) = []"
proof -
  have plain: "PathUnescape (p @ q) = map_option ((@) p) (PathUnescape q)" if "CHR 0x25 \<notin> set p" for p q
    using that by (induction p) (cases "unescape False q"; auto simp: PathUnescape_def)+
  have "PathUnescape ((''/repos/'' @ ''o'' @ ''/'' @ ''r'' @ ''/git/'' @ kind @ ''/'') @ PathEscape s) =
      Some ((''/repos/'' @ ''o'' @ ''/'' @ ''r'' @ ''/git/'' @ kind @ ''/'') @ s)"
    using assms by (subst plain) (auto simp: unescape_PathEscape)
  then have "PathUnescape (''/repos/'' @ ''o'' @ ''/'' @ ''r'' @ ''/git/'' @ kind @ ''/'' @ PathEscape s) =
      Some (''/repos/'' @ ''o'' @ ''/'' @ ''r'' @ ''/git/'' @ kind @ ''/'' @ s)" by simp
  then show ?thesis
    using empty_get[of "route_spec route (''/repos/'' @ ''o'' @ ''/'' @ ''r'' @ ''/git/'' @ kind @ ''/'' @ PathEscape s) [] parameters operation"]
    by (auto simp: route_spec_def HasPrefix_def)
qed

lemma sample_tag:
  "\<exists>t. GetGitTag tag_endpoint ''o'' ''r'' (sample_oid CHR ''a'') () = ((t, None), ()) \<and>
     gtag_Target (or_Value t) = \<lparr>ot_Kind = GitObjectCommit, ot_ObjectID = sample_oid CHR ''b''\<rparr>"
proof -
  obtain r where r: "get_url empty_client (route_spec ''/repos/{owner}/{repo}/git/tags/{tag_sha}''
      (''/repos/'' @ ''o'' @ ''/'' @ ''r'' @ ''/git/'' @ ''tags'' @ ''/'' @ PathEscape (go_Value (sample_oid CHR ''a''))) []
      [(''owner'', ''o''), (''repo'', ''r''), (''tag_algorithm'', ''sha1''), (''tag_sha'', go_Value (sample_oid CHR ''a''))]
      ''get Git tag'') () = ((r, None), ())" "rm_MediaType (rw_meta r) = []"
    using sample_git_get[of "''tags''"] by blast
  have "check_tag (sample_oid CHR ''a'') \<lparr>td_NodeID = [], td_Tag = ''v1'', td_SHA = replicate 40 CHR ''a'', td_ObjectType = ''commit'',
        td_ObjectSHA = replicate 40 CHR ''b''\<rparr> = Inr \<lparr>gtag_TagObjectID = sample_oid CHR ''a'', gtag_NodeID = [], gtag_TagName = ''v1'',
        gtag_Target = \<lparr>ot_Kind = GitObjectCommit, ot_ObjectID = sample_oid CHR ''b''\<rparr>\<rparr>"
    using sample_oid_valid by (simp add: check_tag_def sample_oid_def Let_def maxGitTagNameBytes_def ApiObjectKind_of_def ApiObjectKind_Valid_def)
  then show ?thesis
    using r sample_oid_valid[of "CHR ''a''"] by (simp add: GetGitTag_def sample_parts decodeJSON_def sample_oid_def)
qed

lemma sample_commit:
  "\<exists>c. GetGitCommit tag_endpoint ''o'' ''r'' (sample_oid CHR ''b'') () = ((c, None), ())"
proof -
  obtain r where r: "get_url empty_client (route_spec ''/repos/{owner}/{repo}/git/commits/{commit_sha}''
      (''/repos/'' @ ''o'' @ ''/'' @ ''r'' @ ''/git/'' @ ''commits'' @ ''/'' @ PathEscape (go_Value (sample_oid CHR ''b''))) []
      [(''owner'', ''o''), (''repo'', ''r''), (''commit_algorithm'', ''sha1''), (''commit_sha'', go_Value (sample_oid CHR ''b''))]
      ''get Git commit'') () = ((r, None), ())" "rm_MediaType (rw_meta r) = []"
    using sample_git_get[of "''commits''"] by blast
  have "\<exists>c. check_commit (sample_oid CHR ''b'') \<lparr>cd_SHA = replicate 40 CHR ''b'', cd_NodeID = [], cd_TreeSHA = replicate 40 CHR ''c'',
        cd_ParentSHAs = []\<rparr> = Inr c"
    using sample_oid_valid by (simp add: check_commit_def sample_oid_def Let_def)
  then show ?thesis
    using r sample_oid_valid[of "CHR ''b''"] by (auto simp: GetGitCommit_def sample_parts decodeJSON_def sample_oid_def)
qed

theorem peel_evidence_chain_witness:
  "\<exists>p c. PeelGitObjectToCommit tag_endpoint ''o'' ''r'' (sample_oid CHR ''a'') () = ((p, None), ()) \<and>
     op_CommitObject p = Some c \<and> validFullGitObjectID (gc_CommitObjectID c)"
proof -
  obtain t where t: "GetGitTag tag_endpoint ''o'' ''r'' (sample_oid CHR ''a'') () = ((t, None), ())"
      "gtag_Target (or_Value t) = \<lparr>ot_Kind = GitObjectCommit, ot_ObjectID = sample_oid CHR ''b''\<rparr>" using sample_tag by blast
  obtain c where c: "GetGitCommit tag_endpoint ''o'' ''r'' (sample_oid CHR ''b'') () = ((c, None), ())" using sample_commit by blast
  obtain p where p: "PeelGitObjectToCommit tag_endpoint ''o'' ''r'' (sample_oid CHR ''a'') () = ((p, None), ())"
    using t c sample_oid_valid[of "CHR ''a''"]
    by (simp add: PeelGitObjectToCommit_def peelKnownTagTarget_def maxGitTagPeelDepth_def numeral_eq_Suc Let_def)
  from peel_evidence_chain[OF p] p show ?thesis by auto
qed

end
