(* ===== verification/Literal_Automaton.thy ===== *)
theory Literal_Automaton
  imports Go_Strings "HOL-Library.Sublist"
begin

text \<open>
  \<open>internal/literalmatch/automaton.go\<close>: the automaton that finds every literal of a query set
  in one pass over a log, its construction (a trie of the literals with failure links set in
  breadth-first order) and the stream matcher that is fed the log in chunks.  The nodes are
  the source's slice, a state is an index into it, and \<open>[]byte\<close> is a list of characters.  The
  three loops that follow failure links or a growing queue are partial functions: \<open>None\<close> is
  a loop that does not end, and that it never happens is proved.
\<close>

section \<open>Construction\<close>

record automatonNode =
  node_next :: "(char \<times> nat) list"
  node_fail :: nat
  node_out :: "nat list"

record automaton =
  am_nodes :: "automatonNode list"
  am_patterns :: "string list"

definition empty_node :: automatonNode where
  "empty_node = \<lparr> node_next = [], node_fail = 0, node_out = [] \<rparr>"

definition transition :: "automatonNode list \<Rightarrow> nat \<Rightarrow> char \<Rightarrow> nat option" where
  "transition nodes state v = map_of (node_next (nodes ! state)) v"

text \<open>The body of the loop over the bytes of a pattern, and the loop over the patterns.\<close>

definition insert_byte :: "char \<Rightarrow> automatonNode list \<times> nat \<Rightarrow> automatonNode list \<times> nat" where
  "insert_byte v = (\<lambda>(nodes, state).
     case transition nodes state v of
       Some t \<Rightarrow> (nodes, t)
     | None \<Rightarrow> (let t = length nodes in
         (nodes[state := (nodes ! state)\<lparr>node_next := (v, t) # node_next (nodes ! state)\<rparr>] @ [empty_node], t)))"

definition insert_pattern :: "nat \<times> string \<Rightarrow> automatonNode list \<Rightarrow> automatonNode list" where
  "insert_pattern = (\<lambda>(index, pattern) nodes.
     (let (grown, state) = fold insert_byte pattern (nodes, 0)
      in grown[state := (grown ! state)\<lparr>node_out := node_out (grown ! state) @ [index]\<rparr>]))"

definition trie_of :: "string list \<Rightarrow> automatonNode list" where
  "trie_of patterns = fold insert_pattern (enumerate 0 patterns) [empty_node]"

definition sortedTransitions :: "(char \<times> nat) list \<Rightarrow> char list" where
  "sortedTransitions values = sort (remdups (map fst values))"

text \<open>The inner loop of \<open>buildFailures\<close>: it follows failure links to a state that has the transition.\<close>

partial_function (option) fall_back :: "automatonNode list \<Rightarrow> char \<Rightarrow> nat \<Rightarrow> nat option" where
  "fall_back nodes v failure =
     (if failure = 0 then Some 0
      else case transition nodes failure v of
             Some candidate \<Rightarrow> Some candidate
           | None \<Rightarrow> fall_back nodes v (node_fail (nodes ! failure)))"

text \<open>A missing key of a Go map reads as the zero value.\<close>

definition link_child ::
    "nat \<Rightarrow> char \<Rightarrow> automatonNode list \<times> nat list \<Rightarrow> (automatonNode list \<times> nat list) option" where
  "link_child state v = (\<lambda>(nodes, queue).
     (let child = (case transition nodes state v of Some t \<Rightarrow> t | None \<Rightarrow> 0)
      in case fall_back nodes v (node_fail (nodes ! state)) of
           None \<Rightarrow> None
         | Some found \<Rightarrow>
             (let failure = (if found = 0
                             then case transition nodes 0 v of
                                    Some candidate \<Rightarrow> if candidate \<noteq> child then candidate else found
                                  | None \<Rightarrow> found
                             else found)
              in Some (nodes[child := (nodes ! child)
                          \<lparr>node_fail := failure,
                           node_out := sort (node_out (nodes ! child) @ node_out (nodes ! failure))\<rparr>],
                       queue @ [child]))))"

primrec link_children ::
    "nat \<Rightarrow> char list \<Rightarrow> automatonNode list \<times> nat list \<Rightarrow> (automatonNode list \<times> nat list) option" where
  "link_children state [] nq = Some nq"
| "link_children state (v # vs) nq = Option.bind (link_child state v nq) (link_children state vs)"

text \<open>The loop over the queue; its argument is what is left of the queue from \<open>head\<close> on.\<close>

partial_function (option) link_queue ::
    "automatonNode list \<Rightarrow> nat list \<Rightarrow> automatonNode list option" where
  "link_queue nodes queue =
     (case queue of
        [] \<Rightarrow> Some nodes
      | state # rest \<Rightarrow>
          Option.bind (link_children state (sortedTransitions (node_next (nodes ! state))) (nodes, rest))
            (\<lambda>nq. link_queue (fst nq) (snd nq)))"

definition enqueue_root :: "char \<Rightarrow> automatonNode list \<times> nat list \<Rightarrow> automatonNode list \<times> nat list" where
  "enqueue_root v = (\<lambda>(nodes, queue).
     (let state = (case transition nodes 0 v of Some t \<Rightarrow> t | None \<Rightarrow> 0)
      in (nodes[state := (nodes ! state)\<lparr>node_fail := 0\<rparr>], queue @ [state])))"

definition buildFailures :: "automatonNode list \<Rightarrow> automatonNode list option" where
  "buildFailures nodes =
     (let (started, queue) = fold enqueue_root (sortedTransitions (node_next (nodes ! 0))) (nodes, [])
      in link_queue started queue)"

definition newAutomaton :: "string list \<Rightarrow> automaton option" where
  "newAutomaton patterns =
     map_option (\<lambda>nodes. \<lparr>am_nodes = nodes, am_patterns = patterns\<rparr>) (buildFailures (trie_of patterns))"

section \<open>Matching\<close>

record matchStat =
  stat_first :: "64 word"
  stat_count :: "64 word"
  stat_found :: bool

record streamMatcher =
  sm_automaton :: automaton
  sm_state :: nat
  sm_offset :: "64 word"
  sm_limit :: int
  sm_stats :: "matchStat list"

definition zero_stat :: matchStat where
  "zero_stat = \<lparr> stat_first = 0, stat_count = 0, stat_found = False \<rparr>"

definition stream :: "automaton \<Rightarrow> int \<Rightarrow> streamMatcher" where
  "stream a limit =
     \<lparr> sm_automaton = a, sm_state = 0, sm_offset = 0, sm_limit = limit,
       sm_stats = replicate (length (am_patterns a)) zero_stat \<rparr>"

definition errByteLimit :: goerr where
  "errByteLimit = Errorf ''literal matching byte limit exceeded''"

text \<open>The loop of \<open>Write\<close> that gives up the longest partial match.\<close>

partial_function (option) retreat :: "automatonNode list \<Rightarrow> char \<Rightarrow> nat \<Rightarrow> nat option" where
  "retreat nodes v state =
     (if state = 0 then Some 0
      else case transition nodes state v of
             Some _ \<Rightarrow> Some state
           | None \<Rightarrow> retreat nodes v (node_fail (nodes ! state)))"

definition advance :: "automatonNode list \<Rightarrow> char \<Rightarrow> nat \<Rightarrow> nat option" where
  "advance nodes v state =
     map_option (\<lambda>s. case transition nodes s v of Some t \<Rightarrow> t | None \<Rightarrow> s) (retreat nodes v state)"

definition record_match :: "string list \<Rightarrow> 64 word \<Rightarrow> nat \<Rightarrow> matchStat list \<Rightarrow> matchStat list" where
  "record_match patterns absoluteEnd patternIndex stats =
     (let stat = stats ! patternIndex;
          located = (if stat_found stat then stat
                     else stat\<lparr>stat_found := True,
                               stat_first := absoluteEnd - of_nat (length (patterns ! patternIndex))\<rparr>);
          counted = (if stat_count located \<noteq> - 1 then located\<lparr>stat_count := stat_count located + 1\<rparr>
                     else located)
      in stats[patternIndex := counted])"

text \<open>
  The loop over the bytes of a chunk.  \<open>last\<close> is \<open>m.offset + uint64(index)\<close>; the offset itself is
  only moved after the loop.
\<close>

fun consume ::
    "automaton \<Rightarrow> string \<Rightarrow> 64 word \<Rightarrow> nat \<Rightarrow> matchStat list \<Rightarrow> (nat \<times> matchStat list) option" where
  "consume a [] position state stats = Some (state, stats)"
| "consume a (v # vs) position state stats =
     (case advance (am_nodes a) v state of
        None \<Rightarrow> None
      | Some reached \<Rightarrow>
          consume a vs (position + 1) reached
            (fold (record_match (am_patterns a) (position + 1)) (node_out (am_nodes a ! reached)) stats))"

text \<open>\<open>ctxErr\<close> is what \<open>m.ctx.Err()\<close> returns; the matcher is unchanged when \<open>Write\<close> fails.\<close>

definition Write :: "goerr option \<Rightarrow> string \<Rightarrow> streamMatcher \<Rightarrow> (streamMatcher \<times> (goerr + nat)) option" where
  "Write ctxErr chunk m =
     (case ctxErr of
        Some e \<Rightarrow> Some (m, Inl e)
      | None \<Rightarrow>
          if 0 \<le> sm_limit m \<and> int (length chunk) > wrap64 (sm_limit m - sint (sm_offset m))
          then Some (m, Inl errByteLimit)
          else case consume (sm_automaton m) chunk (sm_offset m) (sm_state m) (sm_stats m) of
                 None \<Rightarrow> None
               | Some (state, stats) \<Rightarrow>
                   Some (m\<lparr>sm_state := state, sm_stats := stats,
                           sm_offset := sm_offset m + of_nat (length chunk)\<rparr>, Inr (length chunk)))"

text \<open>A writer that copies a source calls \<open>Write\<close> chunk by chunk and stops at the first error.\<close>

fun write_all :: "string list \<Rightarrow> streamMatcher \<Rightarrow> (streamMatcher \<times> goerr option) option" where
  "write_all [] m = Some (m, None)"
| "write_all (chunk # chunks) m =
     (case Write None chunk m of
        None \<Rightarrow> None
      | Some (stopped, Inl e) \<Rightarrow> Some (stopped, Some e)
      | Some (advanced, Inr _) \<Rightarrow> write_all chunks advanced)"

section \<open>The reference: search by definition\<close>

definition occurrences :: "string \<Rightarrow> string \<Rightarrow> nat list" where
  "occurrences pattern content =
     filter (\<lambda>k. take (length pattern) (drop k content) = pattern)
       [0..<Suc (length content) - length pattern]"

definition naive_stat :: "string \<Rightarrow> string \<Rightarrow> matchStat" where
  "naive_stat content pattern =
     (let found = occurrences pattern content in
      if found = [] then zero_stat
      else \<lparr> stat_first = of_nat (hd found),
             stat_count = of_nat (min (length found) (2 ^ 64 - 1)), stat_found = True \<rparr>)"

section \<open>The trie\<close>

text \<open>
  \<open>labels\<close> gives every node the text that leads to it.  The transitions of a labelled list of
  nodes are exactly the extensions of labels by one byte that are labels themselves.
\<close>

definition labelled :: "automatonNode list \<Rightarrow> string list \<Rightarrow> bool" where
  "labelled nodes labels \<longleftrightarrow>
     length labels = length nodes \<and> distinct labels \<and> labels \<noteq> [] \<and> labels ! 0 = [] \<and>
     (\<forall>s < length nodes. \<forall>v t.
        transition nodes s v = Some t \<longleftrightarrow> t < length nodes \<and> labels ! t = labels ! s @ [v]) \<and>
     (\<forall>u v. u @ [v] \<in> set labels \<longrightarrow> u \<in> set labels)"

lemma labelledD:
  assumes "labelled nodes labels"
  shows "length labels = length nodes" "distinct labels" "labels ! 0 = []" "0 < length nodes"
    and "\<And>s v t. s < length nodes \<Longrightarrow>
           transition nodes s v = Some t \<longleftrightarrow> t < length nodes \<and> labels ! t = labels ! s @ [v]"
    and "\<And>u v. u @ [v] \<in> set labels \<Longrightarrow> u \<in> set labels"
proof -
  note parts = assms[unfolded labelled_def]
  show "length labels = length nodes" "distinct labels" "labels ! 0 = []" using parts by blast+
  show "0 < length nodes" using parts by (metis length_greater_0_conv)
  show "transition nodes s v = Some t \<longleftrightarrow> t < length nodes \<and> labels ! t = labels ! s @ [v]"
    if "s < length nodes" for s v t using parts that by blast
  show "u @ [v] \<in> set labels \<Longrightarrow> u \<in> set labels" for u v using parts by blast
qed

lemma labelled_inject:
  assumes "labelled nodes labels" "s < length nodes" "t < length nodes" "labels ! s = labels ! t"
  shows "s = t"
  using assms labelledD(1,2) by (metis nth_eq_iff_index_eq)

lemma labelled_None:
  assumes "labelled nodes labels" "s < length nodes"
  shows "transition nodes s v = None \<longleftrightarrow> labels ! s @ [v] \<notin> set labels"
proof -
  have "transition nodes s v \<noteq> None \<longleftrightarrow> (\<exists>t < length nodes. labels ! t = labels ! s @ [v])"
    using labelledD(5)[OF assms] by (metis not_None_eq)
  also have "\<dots> \<longleftrightarrow> labels ! s @ [v] \<in> set labels"
    using labelledD(1)[OF assms(1)] by (metis in_set_conv_nth)
  finally show ?thesis by blast
qed

lemma labelled_member:
  assumes "labelled nodes labels" "u \<in> set labels"
  obtains s where "s < length nodes" "labels ! s = u"
  using assms labelledD(1) by (metis in_set_conv_nth)

lemma labelled_Nil: "labelled nodes labels \<Longrightarrow> [] \<in> set labels"
  using labelledD(1,3,4) nth_mem by metis

text \<open>Only the transitions count: failure links and outputs may change.\<close>

lemma labelled_cong:
  assumes "labelled nodes labels" "length nodes' = length nodes"
    and "\<And>s. s < length nodes \<Longrightarrow> node_next (nodes' ! s) = node_next (nodes ! s)"
  shows "labelled nodes' labels"
  using assms unfolding labelled_def transition_def by simp

text \<open>Following one byte, and then a whole pattern, creates what is missing and nothing else.\<close>

lemma insert_byte_labelled:
  assumes L: "labelled nodes labels" and s: "s < length nodes"
    and ins: "insert_byte v (nodes, s) = (nodes', t)"
  obtains labels' where "labelled nodes' labels'" "t < length nodes'" "labels' ! t = labels ! s @ [v]"
    "length nodes \<le> length nodes'" "\<forall>k < length nodes. labels' ! k = labels ! k"
    "set labels' = insert (labels ! s @ [v]) (set labels)"
    "map node_out nodes' = map node_out nodes @ replicate (length nodes' - length nodes) []"
proof (cases "transition nodes s v")
  case (Some t')
  then have eq: "nodes' = nodes" "t = t'" using ins by (simp_all add: insert_byte_def)
  have t: "t < length nodes" "labels ! t = labels ! s @ [v]"
    using labelledD(5)[OF L s] Some eq by auto
  have "labels ! s @ [v] \<in> set labels" using t labelledD(1)[OF L] by (metis nth_mem)
  then show ?thesis using that[of labels] L t eq by (simp add: insert_absorb)
next
  case None
  define m where "m = length nodes"
  define grown where "grown = (nodes ! s)\<lparr>node_next := (v, m) # node_next (nodes ! s)\<rparr>"
  have eq: "nodes' = nodes[s := grown] @ [empty_node]" "t = m"
    using ins None by (auto simp: insert_byte_def Let_def m_def grown_def)
  define labels' where "labels' = labels @ [labels ! s @ [v]]"
  have new: "labels ! s @ [v] \<notin> set labels" using None labelled_None[OF L s] by simp
  have lenL: "length labels = m" using labelledD(1)[OF L] m_def by simp
  have tr: "transition nodes' k w =
      (if k = m then None else if k = s \<and> w = v then Some m else transition nodes k w)"
    if "k \<le> m" for k w
    using that s unfolding transition_def eq(1)
    by (auto simp: nth_append m_def grown_def empty_node_def nth_list_update)
  have pc: "u @ [w] \<in> set labels' \<Longrightarrow> u \<in> set labels'" for u w
    using labelledD(6)[OF L] s lenL m_def unfolding labels'_def by auto
  have key: "transition nodes' k w = Some r \<longleftrightarrow> r < length nodes' \<and> labels' ! r = labels' ! k @ [w]"
    if k: "k < length nodes'" for k w r
  proof -
    have len: "length nodes' = Suc m" using eq m_def by simp
    have km: "k \<le> m" using k len by simp
    have no_ext: "labels' ! r \<noteq> labels ! s @ [v] @ [w]" if "r \<le> m" for r
    proof
      assume a: "labels' ! r = labels ! s @ [v] @ [w]"
      have "labels' ! r \<in> set labels'" using that lenL labels'_def by (intro nth_mem) simp
      then have "(labels ! s @ [v]) @ [w] \<in> set labels \<or> (labels ! s @ [v]) @ [w] = labels ! s @ [v]"
        using a labels'_def by auto
      then show False using labelledD(6)[OF L] new by auto
    qed
    show ?thesis
    proof (cases "k = m")
      case True
      then have "labels' ! k @ [w] = labels ! s @ [v] @ [w]" using lenL labels'_def by (simp add: nth_append)
      then show ?thesis using tr[OF km] True no_ext len by auto
    next
      case False
      then have kk: "k < length nodes" using km m_def by simp
      have lk: "labels' ! k = labels ! k" using kk lenL m_def labels'_def by (simp add: nth_append)
      have last: "labels' ! m = labels ! s @ [v]" using lenL labels'_def by (metis nth_append_length)
      have inj: "labels ! k = labels ! s \<longleftrightarrow> k = s" using labelled_inject[OF L kk s] by blast
      have old: "r < m \<Longrightarrow> labels' ! r = labels ! r" using lenL labels'_def by (simp add: nth_append)
      have mem: "r < m \<Longrightarrow> labels ! r \<in> set labels" using lenL by simp
      show ?thesis
      proof (cases "r = m")
        case True
        have "transition nodes k w \<noteq> Some m" using labelledD(5)[OF L kk] m_def by simp
        then show ?thesis using tr[OF km] False True last lk inj len by auto
      next
        case r: False
        show ?thesis
        proof (cases "k = s \<and> w = v")
          case True
          have "\<not> (r < m \<and> labels' ! r = labels ! s @ [v])" using old mem new by metis
          then show ?thesis using tr[OF km] True False r len lk by auto
        next
          case f: False
          then show ?thesis using tr[OF km] False r len lk old labelledD(5)[OF L kk] m_def
            by (auto simp: less_Suc_eq)
        qed
      qed
    qed
  qed
  have L': "labelled nodes' labels'"
    unfolding labelled_def
  proof (intro conjI)
    show "length labels' = length nodes'" using eq lenL m_def labels'_def by simp
    show "distinct labels'" using labelledD(2)[OF L] new labels'_def by simp
    show "labels' \<noteq> []" by (simp add: labels'_def)
    show "labels' ! 0 = []" using labelledD(3,4)[OF L] lenL m_def labels'_def by (simp add: nth_append)
    show "\<forall>k<length nodes'. \<forall>w r. (transition nodes' k w = Some r) = (r < length nodes' \<and> labels' ! r = labels' ! k @ [w])"
      using key by blast
    show "\<forall>u v. u @ [v] \<in> set labels' \<longrightarrow> u \<in> set labels'" using pc by blast
  qed
  have outs: "map node_out nodes' = map node_out nodes @ [[]]"
  proof -
    have "map node_out (nodes[s := grown]) = map node_out nodes"
      using s by (simp add: map_update grown_def) (metis list_update_id nth_map)
    then show ?thesis using eq by (simp add: empty_node_def)
  qed
  show ?thesis
    by (rule that[OF L']) (use eq lenL m_def labels'_def outs in \<open>auto simp: nth_append\<close>)
qed

text \<open>What insertion keeps: the old nodes with their labels and outputs; new nodes report nothing.\<close>

definition grows :: "automatonNode list \<Rightarrow> string list \<Rightarrow> automatonNode list \<Rightarrow> string list \<Rightarrow> bool" where
  "grows nodes labels nodes' labels' \<longleftrightarrow>
     labelled nodes' labels' \<and> length nodes \<le> length nodes' \<and>
     (\<forall>k < length nodes. labels' ! k = labels ! k) \<and>
     map node_out nodes' = map node_out nodes @ replicate (length nodes' - length nodes) []"

lemma grows_trans:
  assumes "grows n1 l1 n2 l2" "grows n2 l2 n3 l3"
  shows "grows n1 l1 n3 l3"
  using assms unfolding grows_def
  by (auto simp: replicate_add[symmetric] simp del: replicate_add)

lemma insert_path_labelled:
  assumes "labelled nodes labels" "s < length nodes" "fold insert_byte p (nodes, s) = (nodes', t)"
  shows "\<exists>labels'. grows nodes labels nodes' labels' \<and> t < length nodes' \<and> labels' ! t = labels ! s @ p \<and>
           set labels' = set labels \<union> {labels ! s @ q | q. prefix q p}"
  using assms
proof (induction p arbitrary: nodes labels s)
  case Nil
  then have "labels ! s \<in> set labels" by (metis labelledD(1) nth_mem)
  then show ?case using Nil by (intro exI[of _ labels]) (auto simp: grows_def)
next
  case (Cons v p)
  obtain n1 t1 where one: "insert_byte v (nodes, s) = (n1, t1)" by fastforce
  from insert_byte_labelled[OF Cons.prems(1,2) one] obtain l1 where
    l1: "labelled n1 l1" "t1 < length n1" "l1 ! t1 = labels ! s @ [v]"
      "length nodes \<le> length n1" "\<forall>k < length nodes. l1 ! k = labels ! k"
      "set l1 = insert (labels ! s @ [v]) (set labels)"
      "map node_out n1 = map node_out nodes @ replicate (length n1 - length nodes) []" by metis
  have g1: "grows nodes labels n1 l1" using l1 by (simp add: grows_def)
  have "fold insert_byte p (n1, t1) = (nodes', t)" using Cons.prems(3) one by simp
  from Cons.IH[OF l1(1,2) this] obtain labels' where
    l': "grows n1 l1 nodes' labels'" "t < length nodes'" "labels' ! t = l1 ! t1 @ p"
      "set labels' = set l1 \<union> {l1 ! t1 @ q | q. prefix q p}" by blast
  have "labels ! s \<in> set labels" using Cons.prems(1,2) by (metis labelledD(1) nth_mem)
  then have "set labels' = set labels \<union> {labels ! s @ q | q. prefix q (v # p)}"
    using l'(4) l1(3,6) by (auto simp: prefix_Cons)
  then show ?case using grows_trans[OF g1 l'(1)] l' l1(3) by auto
qed

text \<open>
  The trie of a list of patterns: its labels are the prefixes of the patterns, and a node
  reports the patterns that are its label.
\<close>

definition prefix_closure :: "string list \<Rightarrow> string set" where
  "prefix_closure ps = insert [] {q. \<exists>p \<in> set ps. prefix q p}"

definition trie_built :: "string list \<Rightarrow> automatonNode list \<Rightarrow> string list \<Rightarrow> bool" where
  "trie_built ps nodes labels \<longleftrightarrow>
     labelled nodes labels \<and> set labels = prefix_closure ps \<and>
     (\<forall>s < length nodes. node_out (nodes ! s) = filter (\<lambda>i. ps ! i = labels ! s) [0..<length ps])"

lemma insert_pattern_built:
  assumes B: "trie_built ps nodes labels"
  shows "\<exists>labels'. trie_built (ps @ [p]) (insert_pattern (length ps, p) nodes) labels'"
proof -
  have L: "labelled nodes labels" and S: "set labels = prefix_closure ps"
    and O: "\<And>s. s < length nodes \<Longrightarrow> node_out (nodes ! s) = filter (\<lambda>i. ps ! i = labels ! s) [0..<length ps]"
    using B by (auto simp: trie_built_def)
  obtain grown t where path: "fold insert_byte p (nodes, 0) = (grown, t)" by fastforce
  from insert_path_labelled[OF L labelledD(4)[OF L] path] obtain labels' where
    g: "grows nodes labels grown labels'" and t: "t < length grown" "labels' ! t = p"
    and S': "set labels' = set labels \<union> {q. prefix q p}"
    using labelledD(3)[OF L] by auto
  define final where "final = grown[t := (grown ! t)\<lparr>node_out := node_out (grown ! t) @ [length ps]\<rparr>]"
  have fin: "insert_pattern (length ps, p) nodes = final"
    by (simp add: insert_pattern_def path final_def)
  have L': "labelled grown labels'" using g by (simp add: grows_def)
  have Lf: "labelled final labels'"
    by (rule labelled_cong[OF L']) (use t(1) in \<open>auto simp: final_def nth_list_update\<close>)
  have set: "set labels' = prefix_closure (ps @ [p])" using S S' by (auto simp: prefix_closure_def)
  have gout: "node_out (grown ! s) = filter (\<lambda>i. ps ! i = labels' ! s) [0..<length ps]"
    if s: "s < length grown" for s
  proof (cases "s < length nodes")
    case True
    have "node_out (grown ! s) = map node_out grown ! s" using s by simp
    also have "\<dots> = node_out (nodes ! s)" using g True s by (simp add: grows_def nth_append)
    finally show ?thesis using O[OF True] g True by (simp add: grows_def)
  next
    case False
    have "node_out (grown ! s) = map node_out grown ! s" using s by simp
    also have "\<dots> = []" using g False s by (simp add: grows_def nth_append)
    finally have out: "node_out (grown ! s) = []" .
    have "ps ! i \<noteq> labels' ! s" if i: "i < length ps" for i
    proof
      assume a: "ps ! i = labels' ! s"
      have "ps ! i \<in> set labels" using S i by (auto simp: prefix_closure_def)
      then obtain k where k: "k < length nodes" "labels ! k = ps ! i" using labelled_member[OF L] by blast
      have le: "length nodes \<le> length grown" "labels' ! k = labels ! k" using g k by (auto simp: grows_def)
      then have "k = s" using labelled_inject[OF L' _ s] k a by simp
      then show False using False k by simp
    qed
    then show ?thesis using out by (simp add: filter_empty_conv)
  qed
  have "node_out (final ! s) = filter (\<lambda>i. (ps @ [p]) ! i = labels' ! s) [0..<length (ps @ [p])]"
    if s: "s < length final" for s
  proof -
    have s': "s < length grown" using s by (simp add: final_def)
    have f: "filter (\<lambda>i. (ps @ [p]) ! i = labels' ! s) [0..<length ps] = node_out (grown ! s)"
      unfolding gout[OF s'] by (rule filter_cong) (auto simp: nth_append)
    have "p = labels' ! s \<longleftrightarrow> s = t" using labelled_inject[OF L' s' t(1)] t(2) by metis
    then have "filter (\<lambda>i. (ps @ [p]) ! i = labels' ! s) [0..<length (ps @ [p])]
        = node_out (grown ! s) @ (if s = t then [length ps] else [])"
      using f by simp
    also have "\<dots> = node_out (final ! s)"
      using t(1) by (simp add: final_def nth_list_update)
    finally show ?thesis by simp
  qed
  then show ?thesis using Lf set unfolding fin trie_built_def by blast
qed

lemma trie_of_built: "\<exists>labels. trie_built ps (trie_of ps) labels"
proof (induction ps rule: rev_induct)
  case Nil
  show ?case
    by (intro exI[of _ "[[]]"])
      (auto simp: trie_built_def trie_of_def labelled_def prefix_closure_def transition_def empty_node_def)
next
  case (snoc p ps)
  then obtain labels where "trie_built ps (trie_of ps) labels" by blast
  from insert_pattern_built[OF this] show ?case by (simp add: trie_of_def enumerate_append_eq)
qed

section \<open>Failure links\<close>

text \<open>
  The state a matcher should be in after a text: the longest suffix of it that is a label.
  The failure link of a node is the state for its label without the first byte.
\<close>

definition longest :: "string set \<Rightarrow> string \<Rightarrow> string \<Rightarrow> bool" where
  "longest S w u \<longleftrightarrow> u \<in> S \<and> suffix u w \<and> (\<forall>v \<in> S. suffix v w \<longrightarrow> length v \<le> length u)"

lemma suffix_same_length: "suffix u w \<Longrightarrow> suffix v w \<Longrightarrow> length u = length v \<Longrightarrow> u = v"
  by (auto simp: suffix_def)

lemma longest_unique: "longest S w u \<Longrightarrow> longest S w v \<Longrightarrow> u = v"
  unfolding longest_def by (meson le_antisym suffix_same_length)

lemma suffix_longest: "longest S w u \<Longrightarrow> v \<in> S \<Longrightarrow> suffix v w \<longleftrightarrow> suffix v u"
  unfolding longest_def by (meson suffix_length_suffix suffix_order.trans)

definition linked :: "automatonNode list \<Rightarrow> string list \<Rightarrow> nat \<Rightarrow> bool" where
  "linked nodes labels s \<longleftrightarrow>
     node_fail (nodes ! s) < length nodes \<and>
     longest (set labels) (tl (labels ! s)) (labels ! node_fail (nodes ! s))"

definition linked_to :: "automatonNode list \<Rightarrow> string list \<Rightarrow> nat \<Rightarrow> bool" where
  "linked_to nodes labels d \<longleftrightarrow>
     (\<forall>s < length nodes. s \<noteq> 0 \<and> length (labels ! s) \<le> d \<longrightarrow> linked nodes labels s)"

text \<open>A candidate for reading \<open>c\<close> after \<open>w\<close>: no label that \<open>c\<close> extends is a longer suffix of \<open>w\<close>.\<close>

definition candidate :: "string list \<Rightarrow> string \<Rightarrow> char \<Rightarrow> string \<Rightarrow> bool" where
  "candidate labels w c u \<longleftrightarrow>
     suffix u w \<and> (\<forall>v. v @ [c] \<in> set labels \<and> suffix v w \<longrightarrow> length v \<le> length u)"

lemma candidate_shorter:
  assumes C: "candidate labels w c u" and no: "u @ [c] \<notin> set labels" and "u \<noteq> []"
    and f: "longest (set labels) (tl u) f" and pc: "\<And>x y. x @ [y] \<in> set labels \<Longrightarrow> x \<in> set labels"
  shows "candidate labels w c f"
proof -
  have su: "suffix u w" using C by (simp add: candidate_def)
  have "suffix f (tl u)" using f by (simp add: longest_def)
  then have "suffix f w" using su suffix_tl by (meson suffix_order.trans)
  moreover have "length v \<le> length f" if v: "v @ [c] \<in> set labels" "suffix v w" for v
  proof -
    have "length v \<le> length u" using C v by (simp add: candidate_def)
    moreover have "v \<noteq> u" using v no by auto
    ultimately have "length v < length u" using v(2) su suffix_same_length by (metis le_neq_implies_less)
    moreover have "suffix (tl u) w" using su suffix_tl by (meson suffix_order.trans)
    ultimately have "suffix v (tl u)" by (intro suffix_length_suffix[OF v(2)]) simp_all
    then show ?thesis using f pc[OF v(1)] by (simp add: longest_def)
  qed
  ultimately show ?thesis by (simp add: candidate_def)
qed

lemma retreat_finds:
  assumes L: "labelled nodes labels" and s: "s < length nodes"
    and F: "linked_to nodes labels (length (labels ! s))"
    and C: "candidate labels w c (labels ! s)"
  shows "\<exists>r < length nodes. retreat nodes c s = Some r \<and> candidate labels w c (labels ! r) \<and>
           (r = 0 \<or> transition nodes r c \<noteq> None) \<and>
           fall_back nodes c s = Some (if r = 0 then 0 else the (transition nodes r c))"
  using s F C
proof (induction "length (labels ! s)" arbitrary: s rule: less_induct)
  case less
  show ?case
  proof (cases "s = 0 \<or> transition nodes s c \<noteq> None")
    case True
    then show ?thesis using less.prems
      by (intro exI[of _ s]) (auto simp: retreat.simps[of nodes c s] fall_back.simps[of nodes c s])
  next
    case False
    let ?f = "node_fail (nodes ! s)"
    have lf: "?f < length nodes" "longest (set labels) (tl (labels ! s)) (labels ! ?f)"
      using less.prems(1,2) False by (auto simp: linked_to_def linked_def)
    have ne: "labels ! s \<noteq> []"
      using False labelled_inject[OF L less.prems(1) labelledD(4)[OF L]] labelledD(3)[OF L] by auto
    have no: "labels ! s @ [c] \<notin> set labels" using False labelled_None[OF L less.prems(1)] by simp
    have "suffix (labels ! ?f) (tl (labels ! s))" using lf by (simp add: longest_def)
    then have short: "length (labels ! ?f) < length (labels ! s)"
      using ne by (metis suffix_length_le length_tl diff_less length_greater_0_conv le_less_trans zero_less_one)
    have "linked_to nodes labels (length (labels ! ?f))"
      using less.prems(2) short by (auto simp: linked_to_def)
    moreover have "candidate labels w c (labels ! ?f)"
      by (rule candidate_shorter[OF less.prems(3) no ne lf(2) labelledD(6)[OF L]])
    ultimately obtain r where r: "r < length nodes" "retreat nodes c ?f = Some r" "candidate labels w c (labels ! r)"
        "r = 0 \<or> transition nodes r c \<noteq> None"
        "fall_back nodes c ?f = Some (if r = 0 then 0 else the (transition nodes r c))"
      using less.hyps[OF short lf(1)] by blast
    moreover have "retreat nodes c s = retreat nodes c ?f" "fall_back nodes c s = fall_back nodes c ?f"
      using False by (auto simp: retreat.simps[of nodes c s] fall_back.simps[of nodes c s])
    ultimately show ?thesis by metis
  qed
qed

text \<open>One byte of the matcher: it goes from the longest match of \<open>w\<close> to the longest match of \<open>w @ [c]\<close>.\<close>

lemma advance_longest:
  assumes L: "labelled nodes labels" and s: "s < length nodes"
    and F: "linked_to nodes labels (length (labels ! s))"
    and W: "longest (set labels) w (labels ! s)"
  shows "\<exists>t < length nodes. advance nodes c s = Some t \<and> longest (set labels) (w @ [c]) (labels ! t)"
proof -
  have "candidate labels w c (labels ! s)"
    using W labelledD(6)[OF L] by (auto simp: candidate_def longest_def)
  from retreat_finds[OF L s F this] obtain r where
    r: "r < length nodes" "retreat nodes c s = Some r" "candidate labels w c (labels ! r)"
      "r = 0 \<or> transition nodes r c \<noteq> None" by blast
  have last: "\<exists>u. v = u @ [c] \<and> suffix u w" if "suffix v (w @ [c])" "v \<noteq> []" for v
    using that by (cases v rule: rev_cases) auto
  show ?thesis
  proof (cases "transition nodes r c")
    case (Some t)
    then have t: "t < length nodes" "labels ! t = labels ! r @ [c]" using labelledD(5)[OF L r(1)] by auto
    have "length v \<le> length (labels ! t)" if "v \<in> set labels" "suffix v (w @ [c])" for v
      using last[OF that(2)] that(1) r(3) t(2) by (cases "v = []") (auto simp: candidate_def)
    moreover have "labels ! t \<in> set labels" using t(1) labelledD(1)[OF L] by simp
    ultimately have "longest (set labels) (w @ [c]) (labels ! t)"
      using t(2) r(3) by (auto simp: longest_def candidate_def)
    then show ?thesis using t(1) Some r(2) by (auto simp: advance_def)
  next
    case None
    then have r0: "r = 0" using r(4) by simp
    have nil: "labels ! r = []" using r0 labelledD(3)[OF L] by simp
    have no: "[c] \<notin> set labels" using None labelled_None[OF L r(1)] nil by simp
    have "v = []" if v: "v \<in> set labels" "suffix v (w @ [c])" for v
    proof (rule ccontr)
      assume "v \<noteq> []"
      from last[OF v(2) this] obtain u where u: "v = u @ [c]" "suffix u w" by blast
      then have "u = []" using r(3) v(1) nil by (auto simp: candidate_def)
      then show False using u v no by simp
    qed
    then have "longest (set labels) (w @ [c]) (labels ! r)"
      using nil labelled_Nil[OF L] by (auto simp: longest_def)
    then show ?thesis using r(1,2) None by (auto simp: advance_def)
  qed
qed

section \<open>The breadth-first construction\<close>

text \<open>
  What the loop of \<open>buildFailures\<close> keeps while it links the transitions \<open>vs\<close> that are left of the
  current state \<open>p\<close>.  \<open>ready\<close> is the set of nodes that have their final failure link and
  output; a node is ready once its parent has been taken from the queue and reached it, and
  the queue holds ready nodes in order of depth, at most one level deeper than \<open>p\<close>.
\<close>

definition reports :: "string list \<Rightarrow> string \<Rightarrow> nat list" where
  "reports ps w = filter (\<lambda>i. suffix (ps ! i) w) [0..<length ps]"

definition linking ::
    "string list \<Rightarrow> automatonNode list \<Rightarrow> string list \<Rightarrow> nat set \<Rightarrow> nat list \<Rightarrow> nat \<Rightarrow> char list \<Rightarrow> bool" where
  "linking ps nodes labels ready queue p vs \<longleftrightarrow>
     labelled nodes labels \<and> set labels = prefix_closure ps \<and>
     0 \<in> ready \<and> p \<in> ready \<and> ready \<subseteq> {..<length nodes} \<and> set queue \<subseteq> ready - {0, p} \<and> distinct queue \<and>
     (\<forall>s \<in> ready. (s \<noteq> 0 \<longrightarrow> linked nodes labels s) \<and> node_out (nodes ! s) = reports ps (labels ! s)) \<and>
     (\<forall>s < length nodes. s \<notin> ready \<longrightarrow>
        node_out (nodes ! s) = filter (\<lambda>i. ps ! i = labels ! s) [0..<length ps]) \<and>
     sorted (map (\<lambda>q. length (labels ! q)) queue) \<and>
     (\<forall>q \<in> set queue. length (labels ! p) \<le> length (labels ! q) \<and> length (labels ! q) \<le> Suc (length (labels ! p))) \<and>
     (\<forall>s < length nodes. \<forall>c t. transition nodes s c = Some t \<longrightarrow>
        (t \<in> ready \<longleftrightarrow> (if s = p then c \<notin> set vs else s \<in> ready - set queue)))"

lemma linkingD:
  assumes "linking ps nodes labels ready queue p vs"
  shows "labelled nodes labels" "set labels = prefix_closure ps" "0 \<in> ready" "p \<in> ready"
    "ready \<subseteq> {..<length nodes}" "set queue \<subseteq> ready - {0, p}" "distinct queue"
    "\<And>s. s \<in> ready \<Longrightarrow> s \<noteq> 0 \<Longrightarrow> linked nodes labels s"
    "\<And>s. s \<in> ready \<Longrightarrow> node_out (nodes ! s) = reports ps (labels ! s)"
    "\<And>s. s < length nodes \<Longrightarrow> s \<notin> ready \<Longrightarrow>
       node_out (nodes ! s) = filter (\<lambda>i. ps ! i = labels ! s) [0..<length ps]"
    "sorted (map (\<lambda>q. length (labels ! q)) queue)"
    "\<And>q. q \<in> set queue \<Longrightarrow> length (labels ! p) \<le> length (labels ! q)"
    "\<And>q. q \<in> set queue \<Longrightarrow> length (labels ! q) \<le> Suc (length (labels ! p))"
    "\<And>s c t. s < length nodes \<Longrightarrow> transition nodes s c = Some t \<Longrightarrow>
        t \<in> ready \<longleftrightarrow> (if s = p then c \<notin> set vs else s \<in> ready - set queue)"
    "p < length nodes"
  using assms unfolding linking_def by blast+

text \<open>Every node at most as deep as the current state is ready.\<close>

lemma linking_shallow:
  assumes J: "linking ps nodes labels ready queue p vs"
    and "t < length nodes" "length (labels ! t) \<le> length (labels ! p)"
  shows "t \<in> ready"
  using assms(2,3)
proof (induction "length (labels ! t)" arbitrary: t rule: less_induct)
  case less
  note L = linkingD(1)[OF J]
  show ?case
  proof (cases "labels ! t" rule: rev_cases)
    case Nil
    then have "t = 0" using labelled_inject[OF L less.prems(1) labelledD(4)[OF L]] labelledD(3)[OF L] by simp
    then show ?thesis using linkingD(3)[OF J] by simp
  next
    case (snoc u c)
    have "labels ! t \<in> set labels" using less.prems(1) labelledD(1)[OF L] by simp
    then have "u \<in> set labels" using snoc labelledD(6)[OF L] by metis
    then obtain s where s: "s < length nodes" "labels ! s = u" using labelled_member[OF L] by blast
    have tr: "transition nodes s c = Some t" using labelledD(5)[OF L s(1)] s(2) snoc less.prems(1) by simp
    have "s \<in> ready" using less.hyps[of s] s snoc less.prems(2) by simp
    moreover have "s \<noteq> p" "s \<notin> set queue"
      using linkingD(12)[OF J, of s] s(2) snoc less.prems(2) by auto
    ultimately show ?thesis using linkingD(14)[OF J s(1) tr] by simp
  qed
qed

lemma linking_linked_to:
  assumes J: "linking ps nodes labels ready queue p vs" and "d \<le> length (labels ! p)"
  shows "linked_to nodes labels d"
  using linking_shallow[OF J] linkingD(8)[OF J] assms(2) by (force simp: linked_to_def)

text \<open>A transition of the current state that has been given its link makes its target ready.\<close>

lemma linking_child:
  assumes J: "linking ps nodes labels ready queue p (v # vs)" and v: "v \<notin> set vs"
    and tr: "transition nodes p v = Some t" and f: "f < length nodes"
    and F: "longest (set labels) (tl (labels ! t)) (labels ! f)"
    and out: "outs = reports ps (labels ! t)"
  shows "linking ps (nodes[t := (nodes ! t)\<lparr>node_fail := f, node_out := outs\<rparr>]) labels
           (insert t ready) (queue @ [t]) p vs"
proof -
  define after where "after = nodes[t := (nodes ! t)\<lparr>node_fail := f, node_out := outs\<rparr>]"
  note L = linkingD(1)[OF J]
  have p: "p < length nodes" using linkingD(15)[OF J] .
  have t: "t < length nodes" "labels ! t = labels ! p @ [v]" using labelledD(5)[OF L p] tr by auto
  have new: "t \<notin> ready" using linkingD(14)[OF J p tr] by simp
  have t0: "t \<noteq> 0" "t \<noteq> p" using new linkingD(3,4)[OF J] by metis+
  have nx: "node_next (after ! s) = node_next (nodes ! s)" for s
    using t(1) by (cases "s < length nodes") (auto simp: after_def nth_list_update)
  have len: "length after = length nodes" by (simp add: after_def)
  have other: "s \<noteq> t \<Longrightarrow> after ! s = nodes ! s" for s by (simp add: after_def)
  have fields: "node_fail (after ! t) = f" "node_out (after ! t) = outs" using t(1) by (simp_all add: after_def)
  have trans: "transition after s c = transition nodes s c" for s c using nx by (simp add: transition_def)
  have once: "s = p \<and> c = v" if "s < length nodes" "transition nodes s c = Some t" for s c
  proof -
    have "labels ! s @ [c] = labels ! p @ [v]" using labelledD(5)[OF L that(1)] that(2) t(2) by simp
    then show ?thesis using labelled_inject[OF L that(1) p] by simp
  qed
  have ready: "(s \<noteq> 0 \<longrightarrow> linked after labels s) \<and> node_out (after ! s) = reports ps (labels ! s)"
    if "s \<in> insert t ready" for s
  proof (cases "s = t")
    case True
    then show ?thesis using fields f F len out by (simp add: linked_def)
  next
    case False
    then show ?thesis using that linkingD(8,9)[OF J, of s] other[OF False] len by (auto simp: linked_def)
  qed
  have children: "u \<in> insert t ready \<longleftrightarrow>
      (if s = p then c \<notin> set vs else s \<in> insert t ready - set (queue @ [t]))"
    if s: "s < length nodes" "transition nodes s c = Some u" for s c u
  proof (cases "u = t")
    case True
    then show ?thesis using once[OF s(1)] s(2) v by auto
  next
    case False
    then have ut: "u \<in> insert t ready \<longleftrightarrow> u \<in> ready" by simp
    have "s = p \<Longrightarrow> c \<noteq> v" using False s(2) tr by auto
    then show ?thesis unfolding ut using linkingD(14)[OF J s] new by auto
  qed
  have "length (labels ! q) \<le> length (labels ! t)" if "q \<in> set queue" for q
    using linkingD(13)[OF J that] t(2) by simp
  then have sorted: "sorted (map (\<lambda>q. length (labels ! q)) (queue @ [t]))"
    using linkingD(11)[OF J] by (simp add: sorted_append)
  have "linking ps after labels (insert t ready) (queue @ [t]) p vs"
    unfolding linking_def
  proof (intro conjI)
    show "labelled after labels" by (rule labelled_cong[OF L len]) (simp add: nx)
    show "set labels = prefix_closure ps" using linkingD(2)[OF J] .
    show "insert t ready \<subseteq> {..<length after}" using linkingD(5)[OF J] t(1) len by simp
    show "set (queue @ [t]) \<subseteq> insert t ready - {0, p}" using linkingD(6)[OF J] t0 by auto
    show "distinct (queue @ [t])" using linkingD(6,7)[OF J] new by auto
    show "\<forall>s\<in>insert t ready. (s \<noteq> 0 \<longrightarrow> linked after labels s) \<and> node_out (after ! s) = reports ps (labels ! s)"
      using ready by blast
    show "\<forall>s<length after. s \<notin> insert t ready \<longrightarrow>
        node_out (after ! s) = filter (\<lambda>i. ps ! i = labels ! s) [0..<length ps]"
      using linkingD(10)[OF J] other len by simp
    show "\<forall>q\<in>set (queue @ [t]). length (labels ! p) \<le> length (labels ! q) \<and> length (labels ! q) \<le> Suc (length (labels ! p))"
      using linkingD(12,13)[OF J] t(2) by auto
    show "\<forall>s<length after. \<forall>c u. transition after s c = Some u \<longrightarrow>
        (u \<in> insert t ready) = (if s = p then c \<notin> set vs else s \<in> insert t ready - set (queue @ [t]))"
      unfolding trans len using children by blast
  qed (use linkingD(3,4)[OF J] sorted in auto)
  then show ?thesis by (simp add: after_def)
qed
lemma sort_disjoint_filters:
  fixes xs :: "'a::linorder list"
  assumes "sorted xs" "\<And>x. x \<in> set xs \<Longrightarrow> \<not> (P x \<and> Q x)"
  shows "sort (filter P xs @ filter Q xs) = filter (\<lambda>x. P x \<or> Q x) xs"
proof (rule properties_for_sort)
  show "mset (filter (\<lambda>x. P x \<or> Q x) xs) = mset (filter P xs @ filter Q xs)"
    using assms(2) by (induction xs) auto
  show "sorted (filter (\<lambda>x. P x \<or> Q x) xs)" using assms(1) by (simp add: sorted_wrt_filter)
qed

text \<open>What a node adds to its own pattern: the output of the node its failure link leads to.\<close>

lemma reports_link:
  assumes S: "set labels = prefix_closure ps" and F: "longest (set labels) (tl w) f" and "w \<noteq> []"
  shows "sort (filter (\<lambda>i. ps ! i = w) [0..<length ps] @ reports ps f) = reports ps w"
proof -
  have sub: "ps ! i \<in> set labels" if "i < length ps" for i
    using that S by (auto simp: prefix_closure_def)
  have fw: "length f < length w"
    using F \<open>w \<noteq> []\<close> suffix_length_le[of f "tl w"] by (cases w) (auto simp: longest_def)
  have split: "suffix v w \<longleftrightarrow> v = w \<or> suffix v f" if "v \<in> set labels" for v
  proof -
    have "suffix v w \<longleftrightarrow> v = w \<or> suffix v (tl w)" using \<open>w \<noteq> []\<close> by (cases w) (auto simp: suffix_Cons)
    then show ?thesis using suffix_longest[OF F that] by simp
  qed
  have "sort (filter (\<lambda>i. ps ! i = w) [0..<length ps] @ filter (\<lambda>i. suffix (ps ! i) f) [0..<length ps])
      = filter (\<lambda>i. ps ! i = w \<or> suffix (ps ! i) f) [0..<length ps]"
    by (rule sort_disjoint_filters) (use fw in \<open>auto dest: suffix_length_le\<close>)
  also have "\<dots> = filter (\<lambda>i. suffix (ps ! i) w) [0..<length ps]"
    by (rule filter_cong) (use split sub in auto)
  finally show ?thesis by (simp add: reports_def)
qed

lemma link_child_linking:
  assumes J: "linking ps nodes labels ready queue p (v # vs)" and v: "v \<notin> set vs" and p0: "p \<noteq> 0"
    and tr: "transition nodes p v = Some t"
  shows "\<exists>after. link_child p v (nodes, queue) = Some (after, queue @ [t]) \<and>
           linking ps after labels (insert t ready) (queue @ [t]) p vs \<and> length after = length nodes \<and>
           (\<forall>s. transition after s = transition nodes s)"
proof -
  note L = linkingD(1)[OF J]
  have p: "p < length nodes" using linkingD(15)[OF J] .
  have t: "t < length nodes" "labels ! t = labels ! p @ [v]" using labelledD(5)[OF L p] tr by auto
  have pne: "labels ! p \<noteq> []"
    using p0 labelled_inject[OF L p labelledD(4)[OF L]] labelledD(3)[OF L] by auto
  let ?f = "node_fail (nodes ! p)"
  have lp: "?f < length nodes" "longest (set labels) (tl (labels ! p)) (labels ! ?f)"
    using linkingD(8)[OF J linkingD(4)[OF J] p0] by (auto simp: linked_def)
  have tlt: "tl (labels ! t) = tl (labels ! p) @ [v]" using t(2) pne by simp
  have fle: "length (labels ! ?f) \<le> length (labels ! p)"
    using lp(2) suffix_length_le[of "labels ! ?f" "tl (labels ! p)"] by (simp add: longest_def)
  have LT: "linked_to nodes labels (length (labels ! ?f))" by (rule linking_linked_to[OF J fle])
  obtain f where f: "f < length nodes" "advance nodes v ?f = Some f"
      "longest (set labels) (tl (labels ! t)) (labels ! f)"
    using advance_longest[OF L lp(1) LT lp(2), of v] tlt by auto
  have "candidate labels (tl (labels ! p)) v (labels ! ?f)"
    using lp(2) labelledD(6)[OF L] by (auto simp: candidate_def longest_def)
  from retreat_finds[OF L lp(1) LT this] obtain r where
    r: "r < length nodes" "retreat nodes v ?f = Some r" "r = 0 \<or> transition nodes r v \<noteq> None"
      "fall_back nodes v ?f = Some (if r = 0 then 0 else the (transition nodes r v))" by blast
  have fr: "f = (case transition nodes r v of Some u \<Rightarrow> u | None \<Rightarrow> r)" using f(2) r(2) by (simp add: advance_def)
  have root: "transition nodes 0 v \<noteq> Some t"
    using labelledD(5)[OF L labelledD(4)[OF L]] labelledD(3)[OF L] t(2) pne by auto
  have nz: "transition nodes r v = Some u \<Longrightarrow> u \<noteq> 0" for u
    using labelledD(5)[OF L r(1), of v u] labelledD(3)[OF L] by (cases "u = 0") auto
  have fdeep: "length (labels ! f) \<le> length (labels ! p)"
    using f(3) tlt pne suffix_length_le[of "labels ! f" "tl (labels ! t)"] by (simp add: longest_def)
  then have fready: "f \<in> ready" by (rule linking_shallow[OF J f(1)])
  have tnew: "t \<notin> ready" using linkingD(14)[OF J p tr] by simp
  define outs where "outs = sort (node_out (nodes ! t) @ node_out (nodes ! f))"
  have outs: "outs = reports ps (labels ! t)"
    using reports_link[OF linkingD(2)[OF J] f(3)] t(2)
      linkingD(9)[OF J fready] linkingD(10)[OF J t(1) tnew] by (simp add: outs_def)
  define after where "after = nodes[t := (nodes ! t)\<lparr>node_fail := f, node_out := outs\<rparr>]"
  have "link_child p v (nodes, queue) = Some (after, queue @ [t])"
    using tr r(3,4) fr root nz unfolding link_child_def after_def outs_def
    by (cases "r = 0") (auto simp: Let_def split: option.splits)
  moreover have "transition after s = transition nodes s" for s
    using t(1) by (cases "s < length nodes") (auto simp: transition_def after_def nth_list_update)
  moreover have "length after = length nodes" by (simp add: after_def)
  moreover have "linking ps after labels (insert t ready) (queue @ [t]) p vs"
    unfolding after_def by (rule linking_child[OF J v tr f(1) f(3) outs])
  ultimately show ?thesis by blast
qed

lemma link_children_linking:
  assumes "linking ps nodes labels ready queue p vs" "distinct vs" "p \<noteq> 0"
    and "\<forall>v \<in> set vs. transition nodes p v \<noteq> None"
  shows "\<exists>after ready' queue'. link_children p vs (nodes, queue) = Some (after, queue') \<and>
           linking ps after labels ready' queue' p [] \<and> length after = length nodes \<and>
           ready' - set queue' = ready - set queue"
  using assms
proof (induction vs arbitrary: nodes ready queue)
  case Nil
  then show ?case by auto
next
  case (Cons v vs)
  obtain t where tr: "transition nodes p v = Some t" using Cons.prems(4) by auto
  have v: "v \<notin> set vs" using Cons.prems(2) by simp
  have tnew: "t \<notin> ready" using linkingD(14)[OF Cons.prems(1) linkingD(15)[OF Cons.prems(1)] tr] by simp
  from link_child_linking[OF Cons.prems(1) v Cons.prems(3) tr] obtain n1 where
    n1: "link_child p v (nodes, queue) = Some (n1, queue @ [t])"
      "linking ps n1 labels (insert t ready) (queue @ [t]) p vs" "length n1 = length nodes"
      "\<forall>s. transition n1 s = transition nodes s" by blast
  have "\<forall>v \<in> set vs. transition n1 p v \<noteq> None" using Cons.prems(4) n1(4) by simp
  from Cons.IH[OF n1(2) _ Cons.prems(3) this] Cons.prems(2) obtain after ready' queue' where
    "link_children p vs (n1, queue @ [t]) = Some (after, queue')" "linking ps after labels ready' queue' p []"
    "length after = length n1" "ready' - set queue' = insert t ready - set (queue @ [t])" by auto
  moreover have "insert t ready - set (queue @ [t]) = ready - set queue" using tnew by auto
  ultimately show ?case using n1(1,3) by auto
qed

lemma sortedTransitions_props:
  "distinct (sortedTransitions (node_next (nodes ! s)))"
  "v \<in> set (sortedTransitions (node_next (nodes ! s))) \<longleftrightarrow> transition nodes s v \<noteq> None"
  by (auto simp: sortedTransitions_def transition_def map_of_eq_None_iff)

text \<open>Taking a state from the queue: all its transitions are still to be linked.\<close>

lemma linking_pop:
  assumes J: "linking ps nodes labels ready (q # queue) p []"
  shows "linking ps nodes labels ready queue q (sortedTransitions (node_next (nodes ! q)))"
proof -
  have q: "q \<in> ready" "q \<noteq> 0" "q \<noteq> p" "q \<notin> set queue" using linkingD(6,7)[OF J] by auto
  have depth: "length (labels ! p) \<le> length (labels ! q)" using linkingD(12)[OF J] by simp
  have near: "length (labels ! q) \<le> length (labels ! r) \<and> length (labels ! r) \<le> Suc (length (labels ! q))"
    if "r \<in> set queue" for r
    using that linkingD(11)[OF J] linkingD(13)[OF J, of r] depth by auto
  have children: "t \<in> ready \<longleftrightarrow>
      (if s = q then c \<notin> set (sortedTransitions (node_next (nodes ! q))) else s \<in> ready - set queue)"
    if "s < length nodes" "transition nodes s c = Some t" for s c t
  proof (cases "s = q")
    case True
    then show ?thesis using linkingD(14)[OF J that] q that(2) by (simp add: sortedTransitions_props)
  next
    case False
    then show ?thesis using linkingD(14)[OF J that] linkingD(4,6)[OF J] by (cases "s = p") auto
  qed
  show ?thesis
    using J q near children unfolding linking_def by auto
qed

lemma link_queue_linking:
  assumes "linking ps nodes labels ready queue p []"
  shows "\<exists>after ready' p'. link_queue nodes queue = Some after \<and> linking ps after labels ready' [] p' []"
  using assms
proof (induction "length nodes - card (ready - set queue)" arbitrary: nodes ready queue p rule: less_induct)
  case less
  note J = less.prems
  show ?case
  proof (cases queue)
    case Nil
    then show ?thesis using J by (auto simp: link_queue.simps[of nodes "[]"])
  next
    case (Cons q rest)
    let ?vs = "sortedTransitions (node_next (nodes ! q))"
    have J': "linking ps nodes labels ready rest q ?vs" using linking_pop J Cons by blast
    have q: "q \<in> ready" "q \<noteq> 0" "q \<notin> set rest" using linkingD(6,7)[OF J] Cons by auto
    from link_children_linking[OF J' sortedTransitions_props(1) q(2)] obtain n1 ready' queue' where
      n1: "link_children q ?vs (nodes, rest) = Some (n1, queue')" "linking ps n1 labels ready' queue' q []"
        "length n1 = length nodes" "ready' - set queue' = ready - set rest"
      using sortedTransitions_props(2)[of _ nodes q] by blast
    have fin: "finite ready" using linkingD(5)[OF J] by (meson finite_lessThan finite_subset)
    have "card (ready - set rest) = Suc (card (ready - set queue))"
      using q fin Cons card_Suc_Diff1[of "ready - set rest" q] by (simp add: Diff_insert2[symmetric])
    moreover have "card (ready - set rest) \<le> length nodes"
      using linkingD(5)[OF J] card_mono[of "{..<length nodes}" "ready - set rest"] by auto
    ultimately have "length n1 - card (ready' - set queue') < length nodes - card (ready - set queue)"
      using n1(3,4) by simp
    from less.hyps[OF this n1(2)] show ?thesis
      using n1(1) Cons by (simp add: link_queue.simps[of nodes "q # rest"])
  qed
qed

text \<open>The first loop of \<open>buildFailures\<close> makes the transitions of the root ready.\<close>

lemma enqueue_root_linking:
  assumes "linking ps nodes labels ready queue 0 vs" "distinct vs" "[] \<notin> set ps"
    and "\<forall>v \<in> set vs. transition nodes 0 v \<noteq> None"
  shows "\<exists>after ready' queue'. fold enqueue_root vs (nodes, queue) = (after, queue') \<and>
           linking ps after labels ready' queue' 0 []"
  using assms
proof (induction vs arbitrary: nodes ready queue)
  case Nil
  then show ?case by auto
next
  case (Cons v vs)
  note J = Cons.prems(1)
  note L = linkingD(1)[OF J]
  obtain t where tr: "transition nodes 0 v = Some t" using Cons.prems(4) by auto
  have t: "t < length nodes" "labels ! t = [v]"
    using labelledD(5)[OF L labelledD(4)[OF L]] labelledD(3)[OF L] tr by auto
  have v: "v \<notin> set vs" using Cons.prems(2) by simp
  have tnew: "t \<notin> ready" using linkingD(14)[OF J labelledD(4)[OF L] tr] by simp
  define n1 where "n1 = nodes[t := (nodes ! t)\<lparr>node_fail := 0\<rparr>]"
  have root: "longest (set labels) (tl (labels ! t)) (labels ! 0)"
    using t(2) labelledD(3)[OF L] labelled_Nil[OF L] by (simp add: longest_def)
  have "node_out (nodes ! t) = filter (\<lambda>i. ps ! i = labels ! t) [0..<length ps]"
    using linkingD(10)[OF J t(1) tnew] .
  also have "\<dots> = reports ps (labels ! t)"
    unfolding reports_def using t(2) Cons.prems(3)
    by (intro filter_cong) (auto simp: suffix_Cons, metis nth_mem)
  finally have outs: "node_out (nodes ! t) = reports ps (labels ! t)" .
  have J1: "linking ps n1 labels (insert t ready) (queue @ [t]) 0 vs"
    using linking_child[OF J v tr labelledD(4)[OF L] root outs] by (simp add: n1_def)
  have same: "transition n1 s = transition nodes s" for s
    using t(1) by (cases "s < length nodes") (auto simp: transition_def n1_def nth_list_update)
  have "\<forall>v \<in> set vs. transition n1 0 v \<noteq> None" using Cons.prems(4) same by simp
  from Cons.IH[OF J1 _ Cons.prems(3) this] Cons.prems(2) obtain after ready' queue' where
    "fold enqueue_root vs (n1, queue @ [t]) = (after, queue')" "linking ps after labels ready' queue' 0 []"
    by auto
  moreover have "enqueue_root v (nodes, queue) = (n1, queue @ [t])"
    using tr by (simp add: enqueue_root_def n1_def)
  ultimately show ?case by auto
qed

lemma linking_start:
  assumes B: "trie_built ps nodes labels" and ne: "[] \<notin> set ps"
  shows "linking ps nodes labels {0} [] 0 (sortedTransitions (node_next (nodes ! 0)))"
proof -
  have L: "labelled nodes labels" using B by (simp add: trie_built_def)
  have pos: "0 < length nodes" using labelledD(4)[OF L] .
  have l0: "labels ! 0 = []" using labelledD(3)[OF L] .
  have "node_out (nodes ! 0) = filter (\<lambda>i. ps ! i = []) [0..<length ps]"
    using B pos l0 by (simp add: trie_built_def)
  then have outs: "node_out (nodes ! 0) = reports ps (labels ! 0)" by (simp add: l0 reports_def)
  have children: "t \<in> {0} \<longleftrightarrow>
      (if s = 0 then c \<notin> set (sortedTransitions (node_next (nodes ! 0))) else s \<in> {0} - set [])"
    if s: "s < length nodes" "transition nodes s c = Some t" for s c t
  proof -
    have "t \<noteq> 0" using labelledD(5)[OF L s(1), of c t] s(2) l0 by (cases "t = 0") auto
    then show ?thesis using s(2) by (cases "s = 0") (auto simp: sortedTransitions_props)
  qed
  show ?thesis
    unfolding linking_def using B L pos outs children by (auto simp: trie_built_def)
qed

text \<open>The finished automaton: every state is linked and reports the patterns its label ends with.\<close>

definition automaton_ok :: "string list \<Rightarrow> automatonNode list \<Rightarrow> string list \<Rightarrow> bool" where
  "automaton_ok ps nodes labels \<longleftrightarrow>
     labelled nodes labels \<and> set labels = prefix_closure ps \<and>
     (\<forall>s < length nodes. (s \<noteq> 0 \<longrightarrow> linked nodes labels s) \<and> node_out (nodes ! s) = reports ps (labels ! s))"

lemma linking_finished:
  assumes J: "linking ps nodes labels ready [] p []"
  shows "automaton_ok ps nodes labels"
proof -
  note L = linkingD(1)[OF J]
  have all: "s < length nodes \<Longrightarrow> s \<in> ready" for s
  proof (induction "length (labels ! s)" arbitrary: s rule: less_induct)
    case less
    show ?case
    proof (cases "labels ! s" rule: rev_cases)
      case Nil
      then have "s = 0" using labelled_inject[OF L less.prems(1) labelledD(4)[OF L]] labelledD(3)[OF L] by simp
      then show ?thesis using linkingD(3)[OF J] by simp
    next
      case (snoc u c)
      have "labels ! s \<in> set labels" using less.prems(1) labelledD(1)[OF L] by simp
      then have "u \<in> set labels" using snoc labelledD(6)[OF L] by metis
      then obtain r where r: "r < length nodes" "labels ! r = u" using labelled_member[OF L] by blast
      have tr: "transition nodes r c = Some s" using labelledD(5)[OF L r(1)] r(2) snoc less.prems(1) by simp
      have "r \<in> ready" using less.hyps[of r] r snoc by simp
      then show ?thesis using linkingD(14)[OF J r(1) tr] by simp
    qed
  qed
  show ?thesis using linkingD(1,2)[OF J] linkingD(8,9)[OF J] all by (simp add: automaton_ok_def)
qed

lemma newAutomaton_ok:
  assumes "[] \<notin> set ps"
  shows "\<exists>a labels. newAutomaton ps = Some a \<and> am_patterns a = ps \<and> automaton_ok ps (am_nodes a) labels"
proof -
  obtain labels where B: "trie_built ps (trie_of ps) labels" using trie_of_built by blast
  from enqueue_root_linking[OF linking_start[OF B assms] sortedTransitions_props(1) assms]
  obtain n1 ready queue where
    n1: "fold enqueue_root (sortedTransitions (node_next (trie_of ps ! 0))) (trie_of ps, []) = (n1, queue)"
      "linking ps n1 labels ready queue 0 []"
    using sortedTransitions_props(2)[of _ "trie_of ps" 0] by blast
  from link_queue_linking[OF n1(2)] obtain after ready' p' where
    "link_queue n1 queue = Some after" "linking ps after labels ready' [] p' []" by blast
  then have "newAutomaton ps = Some \<lparr>am_nodes = after, am_patterns = ps\<rparr>" "automaton_ok ps after labels"
    using n1(1) linking_finished by (auto simp: newAutomaton_def buildFailures_def)
  then show ?thesis by (intro exI[of _ "\<lparr>am_nodes = after, am_patterns = ps\<rparr>"]) auto
qed

section \<open>The matcher\<close>

lemma occurrences_snoc:
  assumes "p \<noteq> []"
  shows "occurrences p (w @ [v]) =
    occurrences p w @ (if suffix p (w @ [v]) then [Suc (length w) - length p] else [])"
proof (cases "length p \<le> Suc (length w)")
  case True
  let ?k = "Suc (length w) - length p"
  have "occurrences p (w @ [v]) =
      filter (\<lambda>k. take (length p) (drop k (w @ [v])) = p) ([0..<?k] @ [?k])"
    using True by (simp add: occurrences_def Suc_diff_le)
  moreover have "filter (\<lambda>k. take (length p) (drop k (w @ [v])) = p) [0..<?k] = occurrences p w"
    unfolding occurrences_def by (rule filter_cong) auto
  moreover have "take (length p) (drop ?k (w @ [v])) = drop ?k (w @ [v])"
    using True by (intro take_all) simp
  moreover have "drop ?k (w @ [v]) = p \<longleftrightarrow> suffix p (w @ [v])"
  proof
    assume "drop ?k (w @ [v]) = p"
    then show "suffix p (w @ [v])" using suffix_drop by metis
  next
    assume "suffix p (w @ [v])"
    then obtain u where u: "w @ [v] = u @ p" by (auto simp: suffix_def)
    have "Suc (length w) = length u + length p" using arg_cong[OF u, of length] by simp
    then have "length u = ?k" by simp
    then show "drop ?k (w @ [v]) = p" using u by simp
  qed
  ultimately show ?thesis by simp
next
  case False
  then have "\<not> suffix p (w @ [v])" using suffix_length_le by fastforce
  then show ?thesis using False by (simp add: occurrences_def)
qed

text \<open>The counter stops at the largest 64-bit value.\<close>

lemma saturated_count: "(of_nat (min n (2 ^ 64 - 1)) :: 64 word) = - 1 \<longleftrightarrow> 2 ^ 64 - 1 \<le> n"
proof (cases "2 ^ 64 - 1 \<le> n")
  case False
  then have "unat (of_nat (min n (2 ^ 64 - 1)) :: 64 word) = n" by (simp add: unat_of_nat)
  moreover have "unat (- 1 :: 64 word) = 2 ^ 64 - 1" by (simp add: unsigned_minus_1_eq_mask mask_eq_exp_minus_1)
  ultimately show ?thesis using False by (metis order_refl)
qed (simp add: min_absorb2)

text \<open>Recording a match that ends at the byte just read is what the reference does with one more byte.\<close>

lemma record_match_naive:
  assumes "i < length ps" "ps ! i \<noteq> []" "suffix (ps ! i) (w @ [v])"
    and "stats ! i = naive_stat w (ps ! i)"
  shows "record_match ps (of_nat (length w) + 1) i stats = stats[i := naive_stat (w @ [v]) (ps ! i)]"
proof -
  define found where "found = occurrences (ps ! i) w"
  have len: "length (ps ! i) \<le> Suc (length w)" using suffix_length_le[OF assms(3)] by simp
  have first: "(of_nat (length w) + 1 - of_nat (length (ps ! i)) :: 64 word) = of_nat (Suc (length w) - length (ps ! i))"
    using len by (simp add: of_nat_diff)
  have occ: "occurrences (ps ! i) (w @ [v]) = found @ [Suc (length w) - length (ps ! i)]"
    using occurrences_snoc[OF assms(2)] assms(3) by (simp add: found_def)
  define cap where "cap n = (of_nat (min n (2 ^ 64 - 1)) :: 64 word)" for n
  have more: "(if cap n \<noteq> - 1 then cap n + 1 else cap n) = cap (Suc n)" for n
    unfolding cap_def saturated_count by (cases "2 ^ 64 - 1 \<le> n") (simp_all add: min_def)
  have new: "naive_stat (w @ [v]) (ps ! i) =
      \<lparr> stat_first = of_nat (hd (found @ [Suc (length w) - length (ps ! i)])),
        stat_count = cap (Suc (length found)), stat_found = True \<rparr>"
    by (simp add: naive_stat_def Let_def occ cap_def)
  show ?thesis
  proof (cases "found = []")
    case True
    then have "stats ! i = zero_stat" using assms(4) by (simp add: naive_stat_def found_def)
    moreover have "cap 0 = 0" by (simp add: cap_def)
    ultimately show ?thesis using new first True more[of 0]
      by (simp add: record_match_def zero_stat_def Let_def)
  next
    case False
    then have "stats ! i = \<lparr> stat_first = of_nat (hd found), stat_count = cap (length found), stat_found = True \<rparr>"
      using assms(4) by (simp add: naive_stat_def found_def cap_def Let_def)
    then show ?thesis using new False more[of "length found"]
      by (auto simp: record_match_def Let_def)
  qed
qed

lemma record_matches_naive:
  assumes "distinct is" "\<forall>i \<in> set is. i < length ps \<and> ps ! i \<noteq> [] \<and> suffix (ps ! i) (w @ [v]) \<and> stats ! i = naive_stat w (ps ! i)"
    and "length stats = length ps"
  shows "length (fold (record_match ps (of_nat (length w) + 1)) is stats) = length ps \<and>
    (\<forall>j < length ps. fold (record_match ps (of_nat (length w) + 1)) is stats ! j =
       (if j \<in> set is then naive_stat (w @ [v]) (ps ! j) else stats ! j))"
  using assms
proof (induction "is" arbitrary: stats)
  case (Cons i "is")
  let ?next = "stats[i := naive_stat (w @ [v]) (ps ! i)]"
  have step: "record_match ps (of_nat (length w) + 1) i stats = ?next"
    using Cons.prems by (intro record_match_naive) auto
  have keep: "\<forall>j \<in> set is. j < length ps \<and> ps ! j \<noteq> [] \<and> suffix (ps ! j) (w @ [v]) \<and> ?next ! j = naive_stat w (ps ! j)"
    using Cons.prems by (metis distinct.simps(2) list.set_intros(2) nth_list_update_neq)
  have "i < length ps" using Cons.prems(2) by simp
  then show ?case using Cons.IH[OF _ keep] Cons.prems(1,3) unfolding fold_simps step
    by (auto simp: nth_list_update)
qed simp

text \<open>The state of a matcher that has read \<open>w\<close>.\<close>

definition matching :: "string list \<Rightarrow> string list \<Rightarrow> string \<Rightarrow> streamMatcher \<Rightarrow> bool" where
  "matching ps labels w m \<longleftrightarrow>
     automaton_ok ps (am_nodes (sm_automaton m)) labels \<and> am_patterns (sm_automaton m) = ps \<and>
     sm_state m < length (am_nodes (sm_automaton m)) \<and> longest (set labels) w (labels ! sm_state m) \<and>
     sm_stats m = map (naive_stat w) ps \<and> sm_offset m = of_nat (length w)"

lemma consume_matching:
  assumes ok: "automaton_ok ps (am_nodes a) labels" and pat: "am_patterns a = ps" and ne: "[] \<notin> set ps"
    and "state < length (am_nodes a)" "longest (set labels) w (labels ! state)"
  shows "\<exists>reached < length (am_nodes a).
    consume a chunk (of_nat (length w)) state (map (naive_stat w) ps) = Some (reached, map (naive_stat (w @ chunk)) ps) \<and>
    longest (set labels) (w @ chunk) (labels ! reached)"
  using assms(4,5)
proof (induction chunk arbitrary: w state)
  case (Cons v chunk)
  have L: "labelled (am_nodes a) labels" and S: "set labels = prefix_closure ps"
    using ok by (auto simp: automaton_ok_def)
  have F: "linked_to (am_nodes a) labels (length (labels ! state))"
    using ok by (simp add: automaton_ok_def linked_to_def)
  from advance_longest[OF L Cons.prems(1) F Cons.prems(2), of v] obtain t where
    t: "t < length (am_nodes a)" "advance (am_nodes a) v state = Some t" "longest (set labels) (w @ [v]) (labels ! t)"
    by blast
  have sub: "i < length ps \<Longrightarrow> ps ! i \<in> set labels" for i using S by (auto simp: prefix_closure_def)
  have "node_out (am_nodes a ! t) = reports ps (labels ! t)" using ok t(1) by (simp add: automaton_ok_def)
  also have "\<dots> = reports ps (w @ [v])"
    unfolding reports_def using suffix_longest[OF t(3)] sub by (intro filter_cong) auto
  finally have out: "node_out (am_nodes a ! t) = reports ps (w @ [v])" .
  have ends: "i \<in> set (reports ps (w @ [v])) \<longleftrightarrow> i < length ps \<and> suffix (ps ! i) (w @ [v])" for i
    by (auto simp: reports_def)
  have quiet: "naive_stat (w @ [v]) (ps ! i) = naive_stat w (ps ! i)"
    if "i < length ps" "\<not> suffix (ps ! i) (w @ [v])" for i
    using occurrences_snoc[of "ps ! i" w v] that ne nth_mem[OF that(1)] by (auto simp: naive_stat_def)
  have nonempty: "ps ! i \<noteq> []" if "i < length ps" for i using ne nth_mem[OF that] by metis
  let ?after = "fold (record_match ps (of_nat (length w) + 1)) (reports ps (w @ [v])) (map (naive_stat w) ps)"
  have rec: "length ?after = length ps \<and>
    (\<forall>j < length ps. ?after ! j = (if j \<in> set (reports ps (w @ [v])) then naive_stat (w @ [v]) (ps ! j) else map (naive_stat w) ps ! j))"
    by (rule record_matches_naive) (use ne nonempty in \<open>auto simp: reports_def\<close>)
  have "?after = map (naive_stat (w @ [v])) ps"
    using rec quiet ends by (intro nth_equalityI) auto
  moreover have "of_nat (length w) + 1 = (of_nat (length (w @ [v])) :: 64 word)" by simp
  ultimately show ?case
    using Cons.IH[OF t(1,3)] t(2) out pat by (simp add: add.commute)
qed auto

lemma naive_stat_Nil: "p \<noteq> [] \<Longrightarrow> naive_stat [] p = zero_stat"
  by (cases p) (simp_all add: naive_stat_def occurrences_def Let_def)

lemma stream_matching:
  assumes "automaton_ok ps (am_nodes a) labels" "am_patterns a = ps" "[] \<notin> set ps"
  shows "matching ps labels [] (stream a limit)"
proof -
  have L: "labelled (am_nodes a) labels" using assms(1) by (simp add: automaton_ok_def)
  have "longest (set labels) [] (labels ! 0)"
    using labelledD(3)[OF L] labelled_Nil[OF L] by (simp add: longest_def)
  moreover have "map (naive_stat []) ps = replicate (length ps) zero_stat"
    unfolding map_replicate_const[symmetric] using naive_stat_Nil assms(3) by (intro map_cong) metis+
  ultimately show ?thesis using assms labelledD(4)[OF L] by (simp add: matching_def stream_def)
qed

text \<open>
  One call of \<open>Write\<close>.  A limit is a 64-bit signed number and the matcher has not passed it, so the
  subtraction of the source does not wrap around.
\<close>

definition within :: "int \<Rightarrow> nat \<Rightarrow> bool" where
  "within limit n \<longleftrightarrow> limit < 0 \<or> int n \<le> limit"

lemma Write_matching:
  assumes M: "matching ps labels w m" and ne: "[] \<notin> set ps"
    and lim: "- (2 ^ 63) \<le> sm_limit m" "sm_limit m < 2 ^ 63" and len: "within (sm_limit m) (length w)"
  shows "within (sm_limit m) (length (w @ chunk)) \<Longrightarrow>
           \<exists>m'. Write None chunk m = Some (m', Inr (length chunk)) \<and> matching ps labels (w @ chunk) m' \<and>
                sm_limit m' = sm_limit m"
    and "\<not> within (sm_limit m) (length (w @ chunk)) \<Longrightarrow> Write None chunk m = Some (m, Inl errByteLimit)"
proof -
  have off: "sm_offset m = of_nat (length w)" using M by (simp add: matching_def)
  have over: "0 \<le> sm_limit m \<and> int (length chunk) > wrap64 (sm_limit m - sint (sm_offset m)) \<longleftrightarrow>
      \<not> within (sm_limit m) (length (w @ chunk))"
  proof (cases "sm_limit m < 0")
    case False
    then have le: "int (length w) \<le> sm_limit m" using len by (simp add: within_def)
    then have "sint (of_nat (length w) :: 64 word) = int (length w)"
      using lim by (simp add: signed_of_nat signed_take_bit_int_eq_self)
    moreover have "wrap64 (sm_limit m - int (length w)) = sm_limit m - int (length w)"
      by (rule wrap64_id) (use le lim in auto)
    ultimately show ?thesis using False off by (auto simp: within_def)
  qed (simp add: within_def)
  { assume "\<not> within (sm_limit m) (length (w @ chunk))"
    then show "Write None chunk m = Some (m, Inl errByteLimit)" using over by (simp add: Write_def) }
  assume "within (sm_limit m) (length (w @ chunk))"
  then have no: "\<not> (0 \<le> sm_limit m \<and> int (length chunk) > wrap64 (sm_limit m - sint (sm_offset m)))"
    using over by blast
  have ok: "automaton_ok ps (am_nodes (sm_automaton m)) labels" "am_patterns (sm_automaton m) = ps"
    using M by (simp_all add: matching_def)
  from consume_matching[OF ok ne, of "sm_state m" w chunk] obtain reached where
    r: "reached < length (am_nodes (sm_automaton m))"
      "consume (sm_automaton m) chunk (sm_offset m) (sm_state m) (sm_stats m) = Some (reached, map (naive_stat (w @ chunk)) ps)"
      "longest (set labels) (w @ chunk) (labels ! reached)"
    using M by (auto simp: matching_def)
  have "Write None chunk m =
      Some (m\<lparr>sm_state := reached, sm_stats := map (naive_stat (w @ chunk)) ps,
              sm_offset := sm_offset m + of_nat (length chunk)\<rparr>, Inr (length chunk))"
    using no r(2) unfolding Write_def by simp
  then show "\<exists>m'. Write None chunk m = Some (m', Inr (length chunk)) \<and> matching ps labels (w @ chunk) m' \<and>
      sm_limit m' = sm_limit m"
    using r ok off by (simp add: matching_def)
qed

text \<open>The chunks a matcher takes before the first one that would exceed the limit.\<close>

fun taken :: "int \<Rightarrow> nat \<Rightarrow> string list \<Rightarrow> string list" where
  "taken limit n [] = []"
| "taken limit n (chunk # chunks) =
     (if within limit (n + length chunk) then chunk # taken limit (n + length chunk) chunks else [])"

lemma taken_prefix: "prefix (taken limit n chunks) chunks"
  by (induction limit n chunks rule: taken.induct) auto

lemma taken_within: "within limit n \<Longrightarrow> within limit (n + length (concat (taken limit n chunks)))"
  by (induction limit n chunks rule: taken.induct) (auto simp: add.assoc)

lemma taken_all: "within limit (n + length (concat chunks)) \<Longrightarrow> taken limit n chunks = chunks"
  by (induction limit n chunks rule: taken.induct) (auto simp: within_def add.assoc)

lemma taken_stops:
  "0 \<le> limit \<Longrightarrow> length (taken limit n chunks) = length chunks \<or>
     limit < int (n + length (concat (take (Suc (length (taken limit n chunks))) chunks)))"
  by (induction limit n chunks rule: taken.induct) (auto simp: within_def add.assoc)

lemma write_all_matching:
  assumes "matching ps labels w m" "[] \<notin> set ps" "- (2 ^ 63) \<le> sm_limit m" "sm_limit m < 2 ^ 63"
    and "within (sm_limit m) (length w)"
  shows "\<exists>m'. write_all chunks m =
           Some (m', if taken (sm_limit m) (length w) chunks = chunks then None else Some errByteLimit) \<and>
         matching ps labels (w @ concat (taken (sm_limit m) (length w) chunks)) m'"
  using assms
proof (induction chunks arbitrary: w m)
  case (Cons chunk chunks)
  show ?case
  proof (cases "within (sm_limit m) (length (w @ chunk))")
    case True
    from Write_matching(1)[OF Cons.prems True] obtain m1 where
      m1: "Write None chunk m = Some (m1, Inr (length chunk))" "matching ps labels (w @ chunk) m1"
        "sm_limit m1 = sm_limit m" by blast
    from Cons.IH[OF m1(2) Cons.prems(2)] show ?thesis using Cons.prems(3,4) True m1 by auto
  next
    case False
    then show ?thesis using Write_matching(2)[OF Cons.prems False] Cons.prems(1) by auto
  qed
qed auto

text \<open>
  C7: A log fed to the stream matcher in any chunks gives for every literal exactly what a search by
  definition gives on the whole log: whether it occurs, the offset of its first occurrence and the
  number of its occurrences, overlapping ones included and stopping at the largest 64-bit value.
  Building the automaton and matching with it always end.
\<close>

theorem literal_search_exact:
  assumes "[] \<notin> set patterns" and "- (2 ^ 63) \<le> limit" and "limit < 2 ^ 63"
    and "within limit (length (concat chunks))"
  shows "\<exists>a m. newAutomaton patterns = Some a \<and> write_all chunks (stream a limit) = Some (m, None) \<and>
           sm_stats m = map (naive_stat (concat chunks)) patterns \<and>
           sm_offset m = of_nat (length (concat chunks))"
proof -
  obtain a labels where a: "newAutomaton patterns = Some a" "am_patterns a = patterns"
      "automaton_ok patterns (am_nodes a) labels"
    using newAutomaton_ok[OF assms(1)] by blast
  note M = stream_matching[OF a(3,2) assms(1), of limit]
  have "sm_limit (stream a limit) = limit" by (simp add: stream_def)
  moreover have "within limit 0" using assms(4) by (auto simp: within_def)
  ultimately show ?thesis
    using write_all_matching[OF M assms(1), of chunks] taken_all[of limit 0 chunks] assms a(1)
    by (auto simp: matching_def)
qed

text \<open>
  A matcher never reads past its byte limit: it takes whole chunks as long as their total stays within
  the limit, then fails with the limit error, and what it has counted until then is exact for
  the part it has read.
\<close>

theorem byte_limit_respected:
  assumes "[] \<notin> set patterns" and "0 \<le> limit" and "limit < 2 ^ 63"
  shows "\<exists>a m k. newAutomaton patterns = Some a \<and> k \<le> length chunks \<and>
           write_all chunks (stream a limit) =
             Some (m, if k = length chunks then None else Some errByteLimit) \<and>
           int (length (concat (take k chunks))) \<le> limit \<and>
           (k = length chunks \<or> limit < int (length (concat (take (Suc k) chunks)))) \<and>
           sm_stats m = map (naive_stat (concat (take k chunks))) patterns"
proof -
  obtain a labels where a: "newAutomaton patterns = Some a" "am_patterns a = patterns"
      "automaton_ok patterns (am_nodes a) labels"
    using newAutomaton_ok[OF assms(1)] by blast
  have lim: "sm_limit (stream a limit) = limit" "within limit 0" using assms(2) by (simp_all add: stream_def within_def)
  define k where "k = length (taken limit 0 chunks)"
  obtain rest where rest: "chunks = taken limit 0 chunks @ rest"
    using taken_prefix[of limit 0 chunks] by (auto simp: prefix_def)
  have k: "taken limit 0 chunks = take k chunks" "k \<le> length chunks"
    using arg_cong[OF rest, of "take k"] arg_cong[OF rest, of length] by (simp_all add: k_def)
  have "taken limit 0 chunks = chunks \<longleftrightarrow> k = length chunks"
    unfolding k(1) using k(2) by (metis le_neq_implies_less length_take min.absorb2 nat_neq_iff take_all order_refl)
  moreover from write_all_matching[OF stream_matching[OF a(3,2) assms(1), of limit] assms(1), of chunks]
  obtain m where "write_all chunks (stream a limit) =
        Some (m, if taken limit 0 chunks = chunks then None else Some errByteLimit)"
      "matching patterns labels (concat (taken limit 0 chunks)) m"
    using lim assms(2,3) by auto
  moreover have "int (length (concat (take k chunks))) \<le> limit"
    using taken_within[OF lim(2), of chunks] assms(2) k by (simp add: within_def)
  moreover have "k = length chunks \<or> limit < int (length (concat (take (Suc k) chunks)))"
    using taken_stops[OF assms(2), of 0 chunks] by (simp add: k_def)
  ultimately show ?thesis using a(1) k by (auto simp: matching_def)
qed

theorem literal_search_exact_witness:
  "\<exists>a m. newAutomaton [''she'', ''he'', ''hers''] = Some a \<and>
     write_all [''us'', ''hers he''] (stream a 9) = Some (m, None) \<and>
     sm_stats m =
      [\<lparr>stat_first = 1, stat_count = 1, stat_found = True\<rparr>, \<lparr>stat_first = 2, stat_count = 2, stat_found = True\<rparr>,
       \<lparr>stat_first = 2, stat_count = 1, stat_found = True\<rparr>]"
proof -
  have stats: "map (naive_stat (concat [''us'', ''hers he''])) [''she'', ''he'', ''hers''] =
      [\<lparr>stat_first = 1, stat_count = 1, stat_found = True\<rparr>, \<lparr>stat_first = 2, stat_count = 2, stat_found = True\<rparr>,
       \<lparr>stat_first = 2, stat_count = 1, stat_found = True\<rparr>]"
    by (simp add: naive_stat_def occurrences_def Let_def upt_rec)
  have pre: "[] \<notin> set [''she'', ''he'', ''hers'']" "- (2 ^ 63) \<le> (9::int)" "(9::int) < 2 ^ 63"
      "within 9 (length (concat [''us'', ''hers he'']))" by (simp_all add: within_def)
  obtain a m where "newAutomaton [''she'', ''he'', ''hers''] = Some a"
      "write_all [''us'', ''hers he''] (stream a 9) = Some (m, None)"
      "sm_stats m = map (naive_stat (concat [''us'', ''hers he''])) [''she'', ''he'', ''hers'']"
    using literal_search_exact[OF pre] by blast
  then show ?thesis unfolding stats by blast
qed

theorem byte_limit_respected_witness:
  "\<exists>a m k. newAutomaton [''ab''] = Some a \<and> k \<le> length [''ab'', ''abab''] \<and>
     write_all [''ab'', ''abab''] (stream a 3) =
       Some (m, if k = length [''ab'', ''abab''] then None else Some errByteLimit) \<and>
     int (length (concat (take k [''ab'', ''abab'']))) \<le> 3"
proof -
  have "[] \<notin> set [''ab'']" "(0::int) \<le> 3" "(3::int) < 2 ^ 63" by simp_all
  from byte_limit_respected[OF this, of "[''ab'', ''abab'']"] show ?thesis by blast
qed

end
