(* ===== verification/Evidence_Json.thy ===== *)
theory Evidence_Json
  imports Go_Utf8 Model_Enums
begin

text \<open>
  \<open>internal/evidence/canonical.go\<close>: the canonical JSON under every content-addressed identifier.
  \<open>govalue\<close> is a Go value as reflection and \<open>encoding/json\<close> see it (a struct is the list of
  its JSON names, omitempty flags and fields), \<open>json\<close> of Model_Enums the tree that decoding the marshalled
  text gives back.  Values are trees, so the checks for pointer cycles of the source never fire.
\<close>

section \<open>Go values and their JSON trees\<close>

datatype govalue =
    GNil
  | GBool bool
  | GInt int
  | GFloat string
  | GString string
  | GPointer "govalue option"
  | GInterface "govalue option"
  | GSlice "govalue list option"
  | GArray "govalue list"
  | GMap "(string \<times> govalue) list option"
  | GStruct "(string \<times> bool \<times> govalue) list"
  | GCustom "goerr + string"

text \<open>What \<open>omitempty\<close> leaves out: false, zero, nil and whatever has length zero.\<close>

primrec empty_value :: "govalue \<Rightarrow> bool" where
  "empty_value GNil = True"
| "empty_value (GBool b) = (\<not> b)"
| "empty_value (GInt i) = (i = 0)"
| "empty_value (GFloat t) = (t = ''0'')"
| "empty_value (GString s) = (s = [])"
| "empty_value (GPointer p) = (p = None)"
| "empty_value (GInterface p) = (p = None)"
| "empty_value (GSlice xs) = (elems xs = [])"
| "empty_value (GArray xs) = (xs = [])"
| "empty_value (GMap kvs) = (elems kvs = [])"
| "empty_value (GStruct fs) = False"
| "empty_value (GCustom r) = False"

text \<open>The first error of a list of results, or all of them.\<close>

primrec collect_all :: "(goerr + 'a) list \<Rightarrow> goerr + 'a list" where
  "collect_all [] = Inr []"
| "collect_all (r # rs) =
     (case r of Inl e \<Rightarrow> Inl e
      | Inr x \<Rightarrow> (case collect_all rs of Inl e \<Rightarrow> Inl e | Inr xs \<Rightarrow> Inr (x # xs)))"

definition or_null :: "('a \<Rightarrow> goerr + json) \<Rightarrow> 'a option \<Rightarrow> goerr + json" where
  "or_null f p = (case p of None \<Rightarrow> Inr JNull | Some v \<Rightarrow> f v)"

lemma or_null_cong [fundef_cong]:
  "p = q \<Longrightarrow> (\<And>v. q = Some v \<Longrightarrow> f v = g v) \<Longrightarrow> or_null f p = or_null g q"
  by (simp add: or_null_def split: option.split)

lemma validate_pointer_cong [fundef_cong]:
  "p = q \<Longrightarrow> (\<And>v. q = Some v \<Longrightarrow> f v = g v) \<Longrightarrow> validate_pointer f p = validate_pointer g q"
  by (simp add: validate_pointer_def split: option.split)

text \<open>\<open>json.Marshal\<close> and the decoding of its output: numbers stay text, keys and strings come back.\<close>

fun marshal :: "govalue \<Rightarrow> goerr + json" where
  "marshal GNil = Inr JNull"
| "marshal (GBool b) = Inr (JBool b)"
| "marshal (GInt i) = Inr (JNumber (show_int i))"
| "marshal (GFloat t) = Inr (JNumber t)"
| "marshal (GString s) = Inr (JString s)"
| "marshal (GPointer p) = or_null marshal p"
| "marshal (GInterface p) = or_null marshal p"
| "marshal (GSlice xs) = or_null (\<lambda>ys. map_sum id JArray (collect_all (map marshal ys))) xs"
| "marshal (GArray xs) = map_sum id JArray (collect_all (map marshal xs))"
| "marshal (GMap kvs) =
     or_null (\<lambda>ls. map_sum id JObject
       (collect_all (map (\<lambda>(k, v). map_sum id (Pair k) (marshal v)) ls))) kvs"
| "marshal (GStruct fs) =
     map_sum id JObject
       (collect_all (map (\<lambda>(name, omit, v). map_sum id (Pair name) (marshal v))
          (filter (\<lambda>(name, omit, v). \<not> (omit \<and> empty_value v)) fs)))"
| "marshal (GCustom r) = map_sum id JString r"

text \<open>\<open>validateCanonicalInput\<close> of \<open>canonical.go\<close>, with the depth of reflection.\<close>

definition nested :: "nat \<Rightarrow> goerr option \<Rightarrow> goerr option" where
  "nested depth e = (if depth > 128 then Some (Errorf ''canonical input exceeds maximum nesting'') else e)"

fun validateCanonicalInput :: "nat \<Rightarrow> govalue \<Rightarrow> goerr option" where
  "validateCanonicalInput depth GNil = None"
| "validateCanonicalInput depth (GBool b) = nested depth None"
| "validateCanonicalInput depth (GInt i) = nested depth None"
| "validateCanonicalInput depth (GFloat t) =
     nested depth (Some (Errorf ''floating-point values are forbidden in identity input''))"
| "validateCanonicalInput depth (GString s) =
     nested depth (require (ValidUTF8 s) (Errorf ''identity input contains invalid UTF-8''))"
| "validateCanonicalInput depth (GPointer p) = nested depth (validate_pointer (validateCanonicalInput (Suc depth)) p)"
| "validateCanonicalInput depth (GInterface p) = nested depth (validate_pointer (validateCanonicalInput (Suc depth)) p)"
| "validateCanonicalInput depth (GSlice xs) =
     nested depth (validate_pointer (\<lambda>ys. first_error (map (validateCanonicalInput (Suc depth)) ys)) xs)"
| "validateCanonicalInput depth (GArray xs) = nested depth (first_error (map (validateCanonicalInput (Suc depth)) xs))"
| "validateCanonicalInput depth (GMap kvs) =
     nested depth (validate_pointer (\<lambda>ls. first_error (map (\<lambda>(k, v).
       first_error [require (ValidUTF8 k) (Errorf ''identity input contains an invalid UTF-8 map key''),
                    validateCanonicalInput (Suc depth) v]) ls)) kvs)"
| "validateCanonicalInput depth (GStruct fs) =
     nested depth (first_error (map (\<lambda>(name, omit, v). validateCanonicalInput (Suc depth) v) fs))"
| "validateCanonicalInput depth (GCustom r) = nested depth None"

section \<open>The canonical writer\<close>

definition utf16_Encode :: "nat list \<Rightarrow> nat list" where
  "utf16_Encode rs =
     concat (map (\<lambda>r. if r < 0x10000 then [r]
                      else [0xD800 + (r - 0x10000) div 0x400, 0xDC00 + (r - 0x10000) mod 0x400]) rs)"

fun less_units :: "nat list \<Rightarrow> nat list \<Rightarrow> bool" where
  "less_units (l # ls) (r # rs) = (if l \<noteq> r then l < r else less_units ls rs)"
| "less_units ls rs = (length ls < length rs)"

definition utf16_units :: "string \<Rightarrow> nat list" where
  "utf16_units s = utf16_Encode (rune_list s)"

definition lessUTF16 :: "string \<Rightarrow> string \<Rightarrow> bool" where
  "lessUTF16 left right = less_units (utf16_units left) (utf16_units right)"

definition json_rune :: "nat \<Rightarrow> string" where
  "json_rune r =
     (if r = 0x22 \<or> r = 0x5C then CHR 0x5C # encode_rune r
      else if r = 0x08 then [CHR 0x5C, CHR ''b'']
      else if r = 0x09 then [CHR 0x5C, CHR ''t'']
      else if r = 0x0A then [CHR 0x5C, CHR ''n'']
      else if r = 0x0C then [CHR 0x5C, CHR ''f'']
      else if r = 0x0D then [CHR 0x5C, CHR ''r'']
      else if r < 0x20 then CHR 0x5C # ''u00'' @ [hex_char (r div 16), hex_char (r mod 16)]
      else encode_rune r)"

definition writeJSONString :: "string \<Rightarrow> goerr + string" where
  "writeJSONString s =
     (if \<not> ValidUTF8 s then Inl (Errorf ''identity input contains invalid UTF-8'')
      else Inr (CHR 0x22 # concat (map json_rune (rune_list s)) @ [CHR 0x22]))"

definition check_number :: "string \<Rightarrow> goerr option" where
  "check_number t =
     first_error
      [require (\<not> ((\<exists>c \<in> set t. c \<in> set ''.eE+'') \<or> t = ''-0''))
         (Errorf (''floating-point or non-canonical number '' @ t @ '' is forbidden in identity input'')),
       require (\<not> (t = [] \<or> (length t > 1 \<and> hd t = CHR ''0'') \<or> (length t > 2 \<and> HasPrefix t ''-0'')))
         (Errorf (''non-canonical integer '' @ t))]"

text \<open>Elements, or members, with commas between them; the first error stops the writer.\<close>

definition comma_separated :: "string list \<Rightarrow> string" where
  "comma_separated parts = join_with CHR '','' parts"

definition write_member :: "string \<times> (goerr + string) \<Rightarrow> goerr + string" where
  "write_member = (\<lambda>(k, r).
     case writeJSONString k of Inl e \<Rightarrow> Inl e
     | Inr name \<Rightarrow> map_sum id (\<lambda>v. name @ '':'' @ v) r)"

primrec writeCanonical :: "json \<Rightarrow> goerr + string" where
  "writeCanonical JNull = Inr ''null''"
| "writeCanonical (JBool b) = Inr (if b then ''true'' else ''false'')"
| "writeCanonical (JNumber t) = (case check_number t of Some e \<Rightarrow> Inl e | None \<Rightarrow> Inr t)"
| "writeCanonical (JString s) = writeJSONString s"
| "writeCanonical (JArray xs) =
     map_sum id (\<lambda>parts. ''['' @ comma_separated parts @ '']'') (collect_all (map writeCanonical xs))"
| "writeCanonical (JObject kvs) =
     map_sum id (\<lambda>parts. ''{'' @ comma_separated parts @ ''}'')
       (collect_all (map write_member (sort_key (utf16_units \<circ> fst) (map (map_prod id writeCanonical) kvs))))"

definition CanonicalJSON :: "govalue \<Rightarrow> goerr + string" where
  "CanonicalJSON v =
     (case validateCanonicalInput 0 v of
        Some e \<Rightarrow> Inl e
      | None \<Rightarrow> (case marshal v of
                   Inl e \<Rightarrow> Inl (Wrapf ''marshal canonical input'' e)
                 | Inr tree \<Rightarrow> writeCanonical tree))"

section \<open>The order of keys\<close>

text \<open>The loop of \<open>lessUTF16\<close> is the lexicographic order, and distinct valid keys have distinct code units.\<close>

lemma less_units_less: "less_units ls rs \<longleftrightarrow> ls < rs"
proof (induction ls arbitrary: rs)
  case Nil
  then show ?case by (cases rs) simp_all
next
  case (Cons l ls)
  then show ?case by (cases rs) auto
qed

lemma lessUTF16_less: "lessUTF16 left right \<longleftrightarrow> utf16_units left < utf16_units right"
  by (simp add: lessUTF16_def less_units_less)

definition surrogate :: "nat \<Rightarrow> bool" where
  "surrogate u \<longleftrightarrow> 0xD800 \<le> u \<and> u < 0xE000"

fun utf16_Decode :: "nat list \<Rightarrow> nat list" where
  "utf16_Decode (u # v # us) =
     (if surrogate u then ((u - 0xD800) * 0x400 + (v - 0xDC00) + 0x10000) # utf16_Decode us
      else u # utf16_Decode (v # us))"
| "utf16_Decode us = us"

lemma utf16_Decode_plain: "\<not> surrogate u \<Longrightarrow> utf16_Decode (u # us) = u # utf16_Decode us"
  by (cases us) simp_all

lemma utf16_Decode_Encode: "\<forall>r \<in> set rs. scalar_value r \<Longrightarrow> utf16_Decode (utf16_Encode rs) = rs"
proof (induction rs)
  case (Cons r rs)
  have IH: "utf16_Decode (utf16_Encode rs) = rs" using Cons by simp
  have r: "scalar_value r" using Cons.prems by simp
  show ?case
  proof (cases "r < 0x10000")
    case True
    then have "\<not> surrogate r" using r by (auto simp: scalar_value_def surrogate_def)
    then show ?thesis using True IH by (simp add: utf16_Encode_def utf16_Decode_plain)
  next
    case False
    define q where "q = r - 0x10000"
    have q: "r = q + 0x10000" "q < 0x100000" using False r by (auto simp: q_def scalar_value_def)
    have "q div 0x400 < 0x400" using q(2) by (simp add: div_less_iff_less_mult)
    then have "surrogate (0xD800 + q div 0x400)" by (simp add: surrogate_def)
    moreover have "q div 0x400 * 0x400 + q mod 0x400 = q" by simp
    ultimately show ?thesis using False IH q by (simp add: utf16_Encode_def)
  qed
qed (simp add: utf16_Encode_def)

lemma utf16_units_inject:
  assumes "ValidUTF8 s" "ValidUTF8 t" "utf16_units s = utf16_units t"
  shows "s = t"
proof -
  have "rune_list s = rune_list t"
    using assms(3) utf16_Decode_Encode rune_list_scalar unfolding utf16_units_def by metis
  then show ?thesis using rune_list_inject assms(1,2) by blast
qed

section \<open>Reading strings back\<close>

definition hex_value :: "char \<Rightarrow> nat" where
  "hex_value c = (if byte c < 0x40 then byte c - 0x30 else byte c - 0x57)"

text \<open>A reader of one rune of a JSON string, the left inverse of \<open>json_rune\<close>.\<close>

definition read_json_rune :: "string \<Rightarrow> nat \<times> string" where
  "read_json_rune s =
     (case s of
        c # d # rest \<Rightarrow>
          if c \<noteq> CHR 0x5C then (fst (decode_rune s), drop (snd (decode_rune s)) s)
          else if d = CHR ''b'' then (0x08, rest) else if d = CHR ''t'' then (0x09, rest)
          else if d = CHR ''n'' then (0x0A, rest) else if d = CHR ''f'' then (0x0C, rest)
          else if d = CHR ''r'' then (0x0D, rest)
          else if d = CHR ''u'' then (hex_value (rest ! 2) * 16 + hex_value (rest ! 3), drop 4 rest)
          else (byte d, rest)
      | _ \<Rightarrow> (fst (decode_rune s), drop (snd (decode_rune s)) s))"

lemma hex_value_char: "d < 16 \<Longrightarrow> hex_value (hex_char d) = d"
  by (simp add: hex_value_def hex_char_def)

lemma encode_rune_ascii: "r < 0x80 \<Longrightarrow> encode_rune r = [char_of r]"
  by (simp add: encode_rune_def)

lemma encode_rune_head:
  assumes "scalar_value r" "r \<noteq> byte c" "byte c < 0x80"
  shows "hd (encode_rune r) \<noteq> c"
proof
  assume "hd (encode_rune r) = c"
  then obtain t where t: "encode_rune r @ [] = c # t" by (cases "encode_rune r") auto
  have "decode_rune (c # t) = (r, length (encode_rune r))" using decode_encode_rune[OF assms(1), of "[]"] t by simp
  then show False using assms(2) decode_rune_ascii[OF assms(3), of t] by simp
qed

lemma read_json_rune:
  assumes r: "scalar_value r"
  shows "read_json_rune (json_rune r @ x) = (r, x)"
proof -
  consider "r = 0x22 \<or> r = 0x5C" | "r \<noteq> 0x22" "r \<noteq> 0x5C" "r < 0x20" | "r \<noteq> 0x22" "r \<noteq> 0x5C" "0x20 \<le> r"
    by linarith
  then show ?thesis
  proof cases
    case 1
    moreover have "json_rune 0x22 = [CHR 0x5C, CHR 0x22]" "json_rune 0x5C = [CHR 0x5C, CHR 0x5C]" by code_simp+
    moreover have "byte (CHR 0x22) = 0x22" "byte (CHR 0x5C) = 0x5C" by (simp_all add: byte_def)
    ultimately show ?thesis by (elim disjE) (simp_all add: read_json_rune_def)
  next
    case 2
    have "r div 16 < 16" "r mod 16 < 16" using 2(3) by (simp_all add: div_less_iff_less_mult)
    then have h: "hex_value (hex_char (r div 16)) * 16 + hex_value (hex_char (r mod 16)) = r"
      by (simp only: hex_value_char div_mult_mod_eq)
    show ?thesis
    proof (cases "r \<in> {0x08, 0x09, 0x0A, 0x0C, 0x0D}")
      case True
      then show ?thesis by (elim insertE emptyE) (simp_all add: json_rune_def read_json_rune_def)
    next
      case False
      then have "json_rune r = CHR 0x5C # ''u00'' @ [hex_char (r div 16), hex_char (r mod 16)]"
        using 2 by (simp add: json_rune_def)
      then show ?thesis by (simp add: read_json_rune_def h)
    qed
  next
    case 3
    have j: "json_rune r = encode_rune r" using 3 by (simp add: json_rune_def)
    have "hd (encode_rune r) \<noteq> CHR 0x5C" by (rule encode_rune_head[OF r]) (use 3 in \<open>simp_all add: byte_def\<close>)
    then obtain c t where ct: "encode_rune r = c # t" "c \<noteq> CHR 0x5C" by (cases "encode_rune r") auto
    have "read_json_rune (c # t @ x) = (fst (decode_rune (c # t @ x)), drop (snd (decode_rune (c # t @ x))) (c # t @ x))"
      using ct(2) by (auto simp: read_json_rune_def split: list.split)
    then show ?thesis using decode_encode_rune[OF r, of x] j ct(1) by simp
  qed
qed

lemma json_rune_head: "scalar_value r \<Longrightarrow> json_rune r \<noteq> [] \<and> hd (json_rune r) \<noteq> CHR 0x22"
  using encode_rune_head[of r "CHR 0x22"] by (auto simp: json_rune_def byte_def)

lemma json_runes_prefix:
  assumes "\<forall>a \<in> set rs. scalar_value a" "\<forall>a \<in> set ss. scalar_value a"
    and "concat (map json_rune rs) @ CHR 0x22 # x = concat (map json_rune ss) @ CHR 0x22 # y"
  shows "rs = ss \<and> x = y"
  using assms
proof (induction rs arbitrary: ss)
  case Nil
  then show ?case using json_rune_head by (cases ss) (auto, metis hd_append list.sel(1))
next
  case (Cons r rs)
  have r: "scalar_value r" using Cons.prems(1) by simp
  show ?case
  proof (cases ss)
    case Nil
    then have "hd (json_rune r @ concat (map json_rune rs) @ CHR 0x22 # x) = CHR 0x22" using Cons.prems(3) by simp
    then show ?thesis using json_rune_head[OF r] by simp
  next
    case (Cons q qs)
    have q: "scalar_value q" using Cons.prems(2) Cons by simp
    have "json_rune r @ concat (map json_rune rs) @ CHR 0x22 # x = json_rune q @ concat (map json_rune qs) @ CHR 0x22 # y"
      using Cons.prems(3) Cons by simp
    then have "r = q \<and> concat (map json_rune rs) @ CHR 0x22 # x = concat (map json_rune qs) @ CHR 0x22 # y"
      using read_json_rune[OF r] read_json_rune[OF q] by (metis prod.inject)
    then show ?thesis using Cons.IH[of qs] Cons.prems Cons by simp
  qed
qed

definition quoted :: "string \<Rightarrow> string" where
  "quoted s = CHR 0x22 # concat (map json_rune (rune_list s)) @ [CHR 0x22]"

lemma writeJSONString_quoted: "writeJSONString s = Inr q \<longleftrightarrow> ValidUTF8 s \<and> q = quoted s"
  by (auto simp: writeJSONString_def quoted_def)

lemma quoted_prefix:
  "ValidUTF8 s \<Longrightarrow> ValidUTF8 t \<Longrightarrow> quoted s @ x = quoted t @ y \<Longrightarrow> s = t \<and> x = y"
  using json_runes_prefix[of "rune_list s" "rune_list t" x y] rune_list_scalar rune_list_inject
  by (auto simp: quoted_def)

section \<open>Canonical text determines the value\<close>

text \<open>
  \<open>plain_text\<close> writes a tree as it is; \<open>sorted_tree\<close> puts the members of every object in the order of the
  canonical form.  What the writer returns is the plain text of the sorted tree.
\<close>

primrec plain_text :: "json \<Rightarrow> string" where
  "plain_text JNull = ''null''"
| "plain_text (JBool b) = (if b then ''true'' else ''false'')"
| "plain_text (JNumber t) = t"
| "plain_text (JString s) = quoted s"
| "plain_text (JArray xs) = CHR ''['' # comma_separated (map plain_text xs) @ '']''"
| "plain_text (JObject kvs) =
     CHR ''{'' # comma_separated (map (\<lambda>(k, v). quoted k @ CHR '':'' # v) (map (map_prod id plain_text) kvs)) @ ''}''"

primrec sorted_tree :: "json \<Rightarrow> json" where
  "sorted_tree JNull = JNull"
| "sorted_tree (JBool b) = JBool b"
| "sorted_tree (JNumber t) = JNumber t"
| "sorted_tree (JString s) = JString s"
| "sorted_tree (JArray xs) = JArray (map sorted_tree xs)"
| "sorted_tree (JObject kvs) = JObject (sort_key (utf16_units \<circ> fst) (map (map_prod id sorted_tree) kvs))"

text \<open>Strings and keys are valid UTF-8 and numbers are integers.\<close>

definition integer_text :: "string \<Rightarrow> bool" where
  "integer_text t \<longleftrightarrow> t \<noteq> [] \<and> (\<forall>c \<in> set t. c = CHR ''-'' \<or> 0x30 \<le> byte c \<and> byte c \<le> 0x39)"

primrec tree_ok :: "json \<Rightarrow> bool" where
  "tree_ok JNull = True"
| "tree_ok (JBool b) = True"
| "tree_ok (JNumber t) = integer_text t"
| "tree_ok (JString s) = ValidUTF8 s"
| "tree_ok (JArray xs) = list_all id (map tree_ok xs)"
| "tree_ok (JObject kvs) = list_all (\<lambda>(k, ok). ValidUTF8 k \<and> ok) (map (map_prod id tree_ok) kvs)"

lemma collect_all_map_Inr [simp]: "collect_all (map Inr xs) = Inr xs"
  by (induction xs) simp_all

lemma collect_all_Inr: "collect_all rs = Inr xs \<longleftrightarrow> rs = map Inr xs"
proof
  show "collect_all rs = Inr xs \<Longrightarrow> rs = map Inr xs"
    by (induction rs arbitrary: xs) (auto split: sum.splits)
qed simp

lemma sort_key_map: "sort_key f (map g xs) = map g (sort_key (f \<circ> g) xs)"
proof (induction xs)
  case (Cons x xs)
  have "insort_key f (g x) (map g ys) = map g (insort_key (f \<circ> g) x ys)" for ys
    by (induction ys) simp_all
  then show ?case using Cons by (simp add: comp_def)
qed simp

lemma write_member_Inr:
  "write_member (k, r) = Inr m \<longleftrightarrow> ValidUTF8 k \<and> (\<exists>v. r = Inr v \<and> m = quoted k @ CHR '':'' # v)"
  by (cases r) (auto simp: write_member_def writeJSONString_quoted writeJSONString_def split: sum.splits if_splits simp flip: quoted_def)

lemma map_eq_map_Inr: "map f xs = map Inr ys \<longleftrightarrow> length ys = length xs \<and> (\<forall>i < length xs. f (xs ! i) = Inr (ys ! i))"
  by (auto simp: list_eq_iff_nth_eq)

lemma map_writes:
  assumes "\<And>x s. x \<in> set xs \<Longrightarrow> w x = Inr s \<Longrightarrow> s = p x" and "map w xs = map Inr parts"
  shows "parts = map p xs"
  using assms by (induction xs arbitrary: parts) (auto simp: Cons_eq_map_conv)

lemma writeCanonical_text: "writeCanonical t = Inr s \<Longrightarrow> s = plain_text (sorted_tree t)"
proof (induction t arbitrary: s)
  case (JArray xs)
  then obtain parts where p: "map writeCanonical xs = map Inr parts" "s = ''['' @ comma_separated parts @ '']''"
    by (auto simp: map_sum_Inr collect_all_Inr)
  have "parts = map (plain_text \<circ> sorted_tree) xs"
    by (rule map_writes[OF _ p(1)]) (use JArray.IH in auto)
  then show ?case using p(2) by simp
next
  case (JObject kvs)
  define order where "order = sort_key (utf16_units \<circ> fst) kvs"
  have members: "set order = set kvs" by (simp add: order_def)
  have w: "sort_key (utf16_units \<circ> fst) (map (map_prod id writeCanonical) kvs) = map (map_prod id writeCanonical) order"
    and n: "sort_key (utf16_units \<circ> fst) (map (map_prod id sorted_tree) kvs) = map (map_prod id sorted_tree) order"
    by (simp_all add: sort_key_map order_def comp_def)
  from JObject.prems obtain parts where
    p: "map (write_member \<circ> map_prod id writeCanonical) order = map Inr parts" "s = ''{'' @ comma_separated parts @ ''}''"
    unfolding writeCanonical.simps w by (auto simp: map_sum_Inr collect_all_Inr)
  have "parts = map (\<lambda>(k, v). quoted k @ CHR '':'' # plain_text (sorted_tree v)) order"
  proof (rule map_writes[OF _ p(1)])
    fix x m
    assume x: "x \<in> set order" and m: "(write_member \<circ> map_prod id writeCanonical) x = Inr m"
    obtain k v where kv: "x = (k, v)" by (cases x)
    have "(k, v) \<in> set kvs" using x members kv by simp
    then show "m = (case x of (k, v) \<Rightarrow> quoted k @ CHR '':'' # plain_text (sorted_tree v))"
      using m kv JObject.IH[of "(k, v)" v] by (auto simp: write_member_Inr)
  qed
  then show ?case using p(2) unfolding sorted_tree.simps n
    by (simp add: comp_def case_prod_beta')
qed (auto simp: writeJSONString_quoted split: option.splits)

primrec integral :: "json \<Rightarrow> bool" where
  "integral JNull = True"
| "integral (JBool b) = True"
| "integral (JNumber t) = integer_text t"
| "integral (JString s) = True"
| "integral (JArray xs) = list_all id (map integral xs)"
| "integral (JObject kvs) = list_all snd (map (map_prod id integral) kvs)"

text \<open>The writer refuses strings that are not valid UTF-8.\<close>

lemma written_tree_ok: "writeCanonical t = Inr s \<Longrightarrow> integral t \<Longrightarrow> tree_ok t"
proof (induction t arbitrary: s)
  case (JArray xs)
  then obtain parts where p: "map writeCanonical xs = map Inr parts"
    by (auto simp: map_sum_Inr collect_all_Inr)
  have "tree_ok x" if "x \<in> set xs" for x
  proof -
    have "writeCanonical x \<in> set (map Inr parts)" using that p by (metis image_eqI set_map)
    then show ?thesis using JArray that by (auto simp: list_all_iff)
  qed
  then show ?case by (simp add: list_all_iff)
next
  case (JObject kvs)
  from JObject.prems(1) obtain parts where
    p: "map write_member (sort_key (utf16_units \<circ> fst) (map (map_prod id writeCanonical) kvs)) = map Inr parts"
    by (auto simp: map_sum_Inr collect_all_Inr)
  have "ValidUTF8 k \<and> tree_ok v" if kv: "(k, v) \<in> set kvs" for k v
  proof -
    have "(k, writeCanonical v) \<in> set (sort_key (utf16_units \<circ> fst) (map (map_prod id writeCanonical) kvs))"
      using kv by force
    then have "write_member (k, writeCanonical v) \<in> set (map Inr parts)" using p by (metis image_eqI set_map)
    then obtain m where "write_member (k, writeCanonical v) = Inr m" by auto
    then show ?thesis using JObject.IH[OF kv, of v] JObject.prems(2) kv by (force simp: write_member_Inr list_all_iff)
  qed
  then show ?case by (auto simp: list_all_iff)
qed (auto simp: writeJSONString_quoted)

lemma tree_ok_sorted: "tree_ok (sorted_tree t) = tree_ok t"
proof (induction t)
  case (JObject kvs)
  then show ?case by (auto simp: list_all_iff)
qed (auto simp: list_all_iff)

text \<open>
  The text of a value is followed by the end, a comma or a closing bracket; two texts
  followed by such a delimiter can only agree when the values agree.
\<close>

definition delimited :: "string \<Rightarrow> bool" where
  "delimited r \<longleftrightarrow> r = [] \<or> hd r \<in> {CHR '','', CHR '']'', CHR ''}''}"

definition closing :: "char \<Rightarrow> bool" where
  "closing c \<longleftrightarrow> c = CHR '']'' \<or> c = CHR ''}''"

definition prefix_free :: "('a \<Rightarrow> string) \<Rightarrow> 'a \<Rightarrow> bool" where
  "prefix_free f x \<longleftrightarrow>
     f x \<noteq> [] \<and> hd (f x) \<notin> {CHR '','', CHR '']'', CHR ''}''}"

lemma delimited_simps [simp]:
  "delimited []" "delimited (CHR '','' # r)" "delimited (CHR '']'' # r)" "delimited (CHR ''}'' # r)"
  "closing c \<Longrightarrow> delimited (c # r)"
  by (auto simp: delimited_def closing_def)

lemma comma_separated_simps [simp]:
  "comma_separated [] = []" "comma_separated [p] = p"
  "comma_separated (p # q # ps) = p @ CHR '','' # comma_separated (q # ps)"
  by (simp_all add: comma_separated_def)

lemma comma_separated_head:
  "prefix_free f x \<Longrightarrow> hd (comma_separated (f x # ps) @ z) = hd (f x)"
  by (cases ps) (auto simp: prefix_free_def)

lemma prefix_free_head: "prefix_free f x \<Longrightarrow> closing c \<Longrightarrow> hd (f x) \<noteq> c"
  by (auto simp: prefix_free_def closing_def)

lemma comma_separated_prefix:
  assumes step: "\<And>x y s s'. x \<in> set xs \<Longrightarrow> y \<in> set ys \<Longrightarrow> delimited s \<Longrightarrow> delimited s' \<Longrightarrow>
             f x @ s = f y @ s' \<Longrightarrow> x = y \<and> s = s'"
    and "\<forall>x \<in> set xs. prefix_free f x" "\<forall>y \<in> set ys. prefix_free f y" "closing c"
    and "comma_separated (map f xs) @ c # r = comma_separated (map f ys) @ c # r'"
  shows "xs = ys \<and> r = r'"
  using assms
proof (induction xs arbitrary: ys)
  case Nil
  show ?case
  proof (cases ys)
    case (Cons y zs)
    then have "prefix_free f y" using Nil.prems(3) by simp
    from comma_separated_head[OF this, of "map f zs" "c # r'"] prefix_free_head[OF this Nil.prems(4)] Nil.prems(5) Cons
    show ?thesis by (metis append_Nil comma_separated_simps(1) list.sel(1) list.simps(8,9))
  qed (use Nil.prems(5) in simp)
next
  case (Cons x xs)
  have fx: "prefix_free f x" using Cons.prems(2) by simp
  show ?case
  proof (cases ys)
    case Nil
    from comma_separated_head[OF fx, of "map f xs" "c # r"] prefix_free_head[OF fx Cons.prems(4)] Cons.prems(5) Nil
    show ?thesis by simp
  next
    case ys: (Cons y zs)
    define tx where "tx = (case xs of [] \<Rightarrow> c # r | _ \<Rightarrow> CHR '','' # comma_separated (map f xs) @ c # r)"
    define ty where "ty = (case zs of [] \<Rightarrow> c # r' | _ \<Rightarrow> CHR '','' # comma_separated (map f zs) @ c # r')"
    have "comma_separated (map f (x # xs)) @ c # r = f x @ tx" by (cases xs) (simp_all add: tx_def)
    moreover have "comma_separated (map f (y # zs)) @ c # r' = f y @ ty" by (cases zs) (simp_all add: ty_def)
    moreover have "delimited tx" "delimited ty"
      using Cons.prems(4) by (simp_all add: tx_def ty_def split: list.split)
    ultimately have eq: "x = y" "tx = ty" using Cons.prems(1)[of x y tx ty] Cons.prems(5) ys by simp_all
    have comma: "c \<noteq> CHR '',''" using Cons.prems(4) by (auto simp: closing_def)
    have rest: "comma_separated (map f xs) @ c # r = comma_separated (map f zs) @ c # r'"
      using eq(2) comma by (cases xs; cases zs) (simp_all add: tx_def ty_def)
    have "xs = zs \<and> r = r'"
    proof (rule Cons.IH)
      show "\<And>a b s s'. a \<in> set xs \<Longrightarrow> b \<in> set zs \<Longrightarrow> delimited s \<Longrightarrow> delimited s' \<Longrightarrow>
          f a @ s = f b @ s' \<Longrightarrow> a = b \<and> s = s'"
        using Cons.prems(1) ys by (metis list.set_intros(2))
    qed (use Cons.prems(2,3,4) ys rest in simp_all)
    then show ?thesis using eq ys by simp
  qed
qed

lemma integer_text_head: "integer_text t \<Longrightarrow> hd t = CHR ''-'' \<or> 0x30 \<le> byte (hd t) \<and> byte (hd t) \<le> 0x39"
  by (cases t) (auto simp: integer_text_def)

definition number_char :: "char \<Rightarrow> bool" where
  "number_char c \<longleftrightarrow> c = CHR ''-'' \<or> 0x30 \<le> byte c \<and> byte c \<le> 0x39"

lemma integer_text_prefix:
  assumes "integer_text t" "integer_text t'" "delimited r" "delimited r'" "t @ r = t' @ r'"
  shows "t = t' \<and> r = r'"
proof -
  have "takeWhile number_char (u @ x) = u" if "integer_text u" "delimited x" for u x
  proof -
    have "\<forall>c \<in> set u. number_char c" using that(1) by (simp add: integer_text_def number_char_def)
    moreover have "takeWhile number_char x = []"
      using that(2) by (cases x) (auto simp: delimited_def number_char_def byte_def)
    ultimately show ?thesis by (simp add: takeWhile_append2)
  qed
  then show ?thesis using assms by (metis append_same_eq same_append_eq)
qed

text \<open>The first character tells which kind of value follows.\<close>

definition value_kind :: "char \<Rightarrow> nat" where
  "value_kind c = (if c = CHR ''n'' then 0 else if c = CHR ''t'' \<or> c = CHR ''f'' then 1 else if c = CHR 0x22 then 3
     else if c = CHR ''['' then 4 else if c = CHR ''{'' then 5 else 2)"

primrec tree_kind :: "json \<Rightarrow> nat" where
  "tree_kind JNull = 0"
| "tree_kind (JBool b) = 1"
| "tree_kind (JNumber t) = 2"
| "tree_kind (JString s) = 3"
| "tree_kind (JArray xs) = 4"
| "tree_kind (JObject kvs) = 5"

lemma digit_kind:
  assumes "c = CHR ''-'' \<or> 0x30 \<le> byte c \<and> byte c \<le> 0x39"
  shows "value_kind c = 2 \<and> c \<notin> {CHR '','', CHR '']'', CHR ''}''}"
proof -
  have "c \<noteq> d" if "d \<noteq> CHR ''-''" "byte d < 0x30 \<or> 0x39 < byte d" for d using assms that by auto
  note ne = this
  have "c \<noteq> CHR ''n''" "c \<noteq> CHR ''t''" "c \<noteq> CHR ''f''" "c \<noteq> CHR 0x22" "c \<noteq> CHR ''[''" "c \<noteq> CHR ''{''"
    "c \<noteq> CHR '',''" "c \<noteq> CHR '']''" "c \<noteq> CHR ''}''"
    by (rule ne; simp add: byte_def)+
  then show ?thesis by (simp add: value_kind_def)
qed

lemma plain_text_head:
  assumes "tree_ok t"
  shows "plain_text t \<noteq> [] \<and> value_kind (hd (plain_text t)) = tree_kind t \<and>
    hd (plain_text t) \<notin> {CHR '','', CHR '']'', CHR ''}''}"
proof (cases t)
  case (JNumber n)
  then have n: "integer_text n" using assms by simp
  then have "n \<noteq> []" by (simp add: integer_text_def)
  then show ?thesis using JNumber digit_kind[OF integer_text_head[OF n]] by simp
qed (simp_all add: value_kind_def quoted_def)

lemma same_kind:
  assumes "tree_ok t" "tree_ok t'" "plain_text t @ r = plain_text t' @ r'"
  shows "tree_kind t = tree_kind t'"
proof -
  have "hd (plain_text t) = hd (plain_text t')"
    using plain_text_head[OF assms(1)] plain_text_head[OF assms(2)] assms(3) by (metis hd_append2)
  then show ?thesis using plain_text_head[OF assms(1)] plain_text_head[OF assms(2)] by simp
qed

definition member_text :: "string \<times> json \<Rightarrow> string" where
  "member_text = (\<lambda>(k, v). quoted k @ CHR '':'' # plain_text v)"

lemma plain_text_object: "plain_text (JObject kvs) = CHR ''{'' # comma_separated (map member_text kvs) @ ''}''"
  by (simp add: member_text_def comp_def case_prod_beta')

lemma plain_text_prefix:
  assumes "tree_ok t" "tree_ok t'" "delimited r" "delimited r'" "plain_text t @ r = plain_text t' @ r'"
  shows "t = t' \<and> r = r'"
  using assms
proof (induction t arbitrary: t' r r')
  case JNull
  then show ?case using same_kind[OF JNull.prems(1,2,5)] by (cases t') simp_all
next
  case (JBool b)
  then show ?case using same_kind[OF JBool.prems(1,2,5)] by (cases t') (simp_all split: if_splits)
next
  case (JNumber n)
  then obtain n' where n': "t' = JNumber n'" using same_kind[OF JNumber.prems(1,2,5)] by (cases t') simp_all
  have "n = n' \<and> r = r'"
    by (rule integer_text_prefix) (use JNumber.prems n' in simp_all)
  then show ?case using n' by simp
next
  case (JString s)
  then obtain s' where s': "t' = JString s'" using same_kind[OF JString.prems(1,2,5)] by (cases t') simp_all
  have "s = s' \<and> r = r'"
    by (rule quoted_prefix) (use JString.prems s' in simp_all)
  then show ?case using s' by simp
next
  case (JArray xs)
  then obtain ys where ys: "t' = JArray ys" using same_kind[OF JArray.prems(1,2,5)] by (cases t') simp_all
  have ok: "\<forall>x \<in> set xs. tree_ok x" "\<forall>y \<in> set ys. tree_ok y"
    using JArray.prems(1,2) ys by (simp_all add: list_all_iff)
  have "xs = ys \<and> r = r'"
  proof (rule comma_separated_prefix[where f = plain_text and c = "CHR '']''"])
    show "\<And>x y s s'. x \<in> set xs \<Longrightarrow> y \<in> set ys \<Longrightarrow> delimited s \<Longrightarrow> delimited s' \<Longrightarrow>
        plain_text x @ s = plain_text y @ s' \<Longrightarrow> x = y \<and> s = s'"
      using JArray.IH ok by blast
    show "\<forall>x \<in> set xs. prefix_free plain_text x" "\<forall>y \<in> set ys. prefix_free plain_text y"
      using ok plain_text_head by (auto simp: prefix_free_def)
    show "comma_separated (map plain_text xs) @ CHR '']'' # r = comma_separated (map plain_text ys) @ CHR '']'' # r'"
      using JArray.prems(5) ys by simp
  qed (simp add: closing_def)
  then show ?case using ys by simp
next
  case (JObject kvs)
  then obtain ls where ls: "t' = JObject ls" using same_kind[OF JObject.prems(1,2,5)] by (cases t') simp_all
  have ok: "\<forall>x \<in> set kvs. ValidUTF8 (fst x) \<and> tree_ok (snd x)" "\<forall>y \<in> set ls. ValidUTF8 (fst y) \<and> tree_ok (snd y)"
    using JObject.prems(1,2) ls by (auto simp: list_all_iff)
  have "kvs = ls \<and> r = r'"
  proof (rule comma_separated_prefix[where f = member_text and c = "CHR ''}''"])
    fix x y s s'
    assume x: "x \<in> set kvs" and y: "y \<in> set ls" and d: "delimited s" "delimited s'"
      and eq: "member_text x @ s = member_text y @ s'"
    have "quoted (fst x) @ CHR '':'' # plain_text (snd x) @ s = quoted (fst y) @ CHR '':'' # plain_text (snd y) @ s'"
      using eq by (simp add: member_text_def case_prod_beta')
    then have "fst x = fst y \<and> CHR '':'' # plain_text (snd x) @ s = CHR '':'' # plain_text (snd y) @ s'"
      using quoted_prefix ok x y by blast
    then have k: "fst x = fst y" and v: "plain_text (snd x) @ s = plain_text (snd y) @ s'" by simp_all
    have "snd x = snd y \<and> s = s'"
      by (rule JObject.IH[of x, OF x _ _ _ d v]) (use ok x y in \<open>auto simp: snds.simps\<close>)
    then show "x = y \<and> s = s'" using k by (simp add: prod_eq_iff)
  next
    show "\<forall>x \<in> set kvs. prefix_free member_text x" "\<forall>y \<in> set ls. prefix_free member_text y"
      by (auto simp: prefix_free_def member_text_def quoted_def)
    show "comma_separated (map member_text kvs) @ CHR ''}'' # r = comma_separated (map member_text ls) @ CHR ''}'' # r'"
      using JObject.prems(5) unfolding ls plain_text_object by simp
  qed (simp add: closing_def)
  then show ?case using ls by simp
qed

text \<open>What passes the input check marshals to integers only.\<close>

lemma nested_None: "nested depth e = None \<longleftrightarrow> depth \<le> 128 \<and> e = None"
  by (simp add: nested_def)

lemma integer_text_show_int: "integer_text (show_int i)"
  using show_nat_digits by (auto simp: integer_text_def show_int_def)

lemma or_null_Inr: "or_null f p = Inr t \<longleftrightarrow> (p = None \<and> t = JNull) \<or> (\<exists>v. p = Some v \<and> f v = Inr t)"
  by (auto simp: or_null_def split: option.split)

lemma collected:
  assumes "collect_all (map f xs) = Inr ts" "\<And>x t. x \<in> set xs \<Longrightarrow> f x = Inr t \<Longrightarrow> P t"
  shows "\<forall>t \<in> set ts. P t"
proof
  fix t
  assume "t \<in> set ts"
  then have "Inr t \<in> set (map f xs)" using assms(1) by (simp add: collect_all_Inr)
  then show "P t" using assms(2) by auto
qed

lemma marshal_integral:
  "validateCanonicalInput depth v = None \<Longrightarrow> marshal v = Inr t \<Longrightarrow> integral t"
proof (induction v arbitrary: depth t rule: marshal.induct)
  case (3 i)
  then show ?case by (auto simp: integer_text_show_int)
next
  case (8 xs)
  show ?case
  proof (cases xs)
    case (Some ys)
    with "8.prems" obtain ts where ts: "collect_all (map marshal ys) = Inr ts" "t = JArray ts"
      by (auto simp: or_null_Inr map_sum_Inr)
    have "\<forall>t \<in> set ts. integral t"
      by (rule collected[OF ts(1)]) (use 8 Some in \<open>auto simp: nested_None\<close>)
    then show ?thesis using ts by (simp add: list_all_iff)
  qed (use 8 in \<open>auto simp: or_null_Inr\<close>)
next
  case (9 xs)
  then obtain ts where ts: "collect_all (map marshal xs) = Inr ts" "t = JArray ts" by (auto simp: map_sum_Inr)
  have "\<forall>t \<in> set ts. integral t"
    by (rule collected[OF ts(1)]) (use 9 in \<open>auto simp: nested_None\<close>)
  then show ?case using ts by (simp add: list_all_iff)
next
  case (10 kvs)
  show ?case
  proof (cases kvs)
    case (Some ls)
    with "10.prems" obtain ts where
      ts: "collect_all (map (\<lambda>(k, v). map_sum id (Pair k) (marshal v)) ls) = Inr ts" "t = JObject ts"
      by (auto simp: or_null_Inr map_sum_Inr)
    have "\<forall>t \<in> set ts. integral (snd t)"
    proof (rule collected[OF ts(1)])
      fix x m
      assume x: "x \<in> set ls" and m: "(case x of (k, v) \<Rightarrow> map_sum id (Pair k) (marshal v)) = Inr m"
      obtain k v where kv: "x = (k, v)" by (cases x)
      have "validateCanonicalInput (Suc depth) v = None" using "10.prems"(1) Some x kv by (auto simp: nested_None)
      then show "integral (snd m)" using "10.IH"[OF Some x kv[symmetric]] m kv by (auto simp: map_sum_Inr)
    qed
    then show ?thesis using ts by (auto simp: list_all_iff)
  qed (use 10 in \<open>auto simp: or_null_Inr\<close>)
next
  case (11 fs)
  let ?kept = "filter (\<lambda>(name, omit, v). \<not> (omit \<and> empty_value v)) fs"
  from "11.prems" obtain ts where
    ts: "collect_all (map (\<lambda>(name, omit, v). map_sum id (Pair name) (marshal v)) ?kept) = Inr ts" "t = JObject ts"
    by (auto simp: map_sum_Inr)
  have "\<forall>t \<in> set ts. integral (snd t)"
  proof (rule collected[OF ts(1)])
    fix x m
    assume x: "x \<in> set ?kept" and m: "(case x of (name, omit, v) \<Rightarrow> map_sum id (Pair name) (marshal v)) = Inr m"
    obtain name omit v where kv: "x = (name, omit, v)" by (cases x)
    have "validateCanonicalInput (Suc depth) v = None" using "11.prems"(1) x kv by (fastforce simp: nested_None)
    then show "integral (snd m)" using "11.IH"[OF x kv[symmetric] refl] m kv by (auto simp: map_sum_Inr)
  qed
  then show ?case using ts by (auto simp: list_all_iff)
qed (auto simp: nested_None or_null_Inr map_sum_Inr)

lemma CanonicalJSON_Inr:
  "CanonicalJSON v = Inr s \<longleftrightarrow>
     validateCanonicalInput 0 v = None \<and> (\<exists>t. marshal v = Inr t \<and> writeCanonical t = Inr s)"
  by (auto simp: CanonicalJSON_def split: option.splits sum.splits)

text \<open>Two values with the same marshalled tree, up to the order of object members.\<close>

definition same_json :: "govalue \<Rightarrow> govalue \<Rightarrow> bool" where
  "same_json v w \<longleftrightarrow> (\<exists>t u. marshal v = Inr t \<and> marshal w = Inr u \<and> sorted_tree t = sorted_tree u)"

lemma canonical_text_iff:
  assumes "CanonicalJSON v = Inr s" and "CanonicalJSON w = Inr s'"
  shows "s = s' \<longleftrightarrow> same_json v w"
proof -
  obtain t u where t: "marshal v = Inr t" "writeCanonical t = Inr s" and u: "marshal w = Inr u" "writeCanonical u = Inr s'"
    and ok: "validateCanonicalInput 0 v = None" "validateCanonicalInput 0 w = None"
    using assms by (auto simp: CanonicalJSON_Inr)
  have "tree_ok (sorted_tree t)" "tree_ok (sorted_tree u)"
    using written_tree_ok t u marshal_integral ok unfolding tree_ok_sorted by blast+
  from plain_text_prefix[OF this, of "[]" "[]"]
  have "plain_text (sorted_tree t) = plain_text (sorted_tree u) \<longleftrightarrow> sorted_tree t = sorted_tree u" by auto
  then show ?thesis using t u writeCanonical_text by (auto simp: same_json_def)
qed

text \<open>
  C8: Canonical JSON identifies a value: two inputs have the same canonical text exactly when they marshal to
  the same tree up to the order of object members. So a content-addressed identifier hashes
  the same bytes for the same identity and different bytes for different ones.
\<close>

theorem canonical_json_faithful:
  assumes "CanonicalJSON v = Inr s" and "CanonicalJSON w = Inr s'"
  shows "\<exists>t u. marshal v = Inr t \<and> marshal w = Inr u \<and> (s = s' \<longleftrightarrow> sorted_tree t = sorted_tree u)"
proof -
  obtain t u where "marshal v = Inr t" "marshal w = Inr u" using assms by (auto simp: CanonicalJSON_Inr)
  then show ?thesis using canonical_text_iff[OF assms] by (auto simp: same_json_def)
qed

text \<open>The members of an object in any order: the same sorted members when the keys are distinct.\<close>

lemma sort_members:
  assumes "mset xs = mset ys" "distinct (map fst xs)" "\<forall>x \<in> set xs. ValidUTF8 (fst x)"
  shows "sort_key (utf16_units \<circ> fst) xs = sort_key (utf16_units \<circ> fst) ys"
proof (rule sort_key_inj_key_eq)
  show "mset xs = mset (sort_key (utf16_units \<circ> fst) ys)" using assms(1) by simp
  show "inj_on (utf16_units \<circ> fst) (set xs)"
  proof (rule inj_onI)
    fix x y
    assume x: "x \<in> set xs" and y: "y \<in> set xs" and "(utf16_units \<circ> fst) x = (utf16_units \<circ> fst) y"
    then have "fst x = fst y" using utf16_units_inject assms(3) by simp
    then show "x = y" using assms(2) x y by (simp add: distinct_map inj_on_def)
  qed
  show "sorted (map (utf16_units \<circ> fst) (sort_key (utf16_units \<circ> fst) ys))" by (rule sorted_sort_key)
qed

lemma canonical_map_reordered:
  assumes perm: "mset ls = mset ms" and dist: "distinct (map fst ls)" and ls: "CanonicalJSON (GMap (Some ls)) = Inr s"
  shows "CanonicalJSON (GMap (Some ms)) = Inr s"
proof -
  have same: "set ls = set ms" using perm mset_eq_setD by blast
  let ?f = "\<lambda>(k :: string, v). map_sum id (Pair k) (marshal v)"
  obtain kvs where v: "validateCanonicalInput 0 (GMap (Some ls)) = None" and kvs: "map ?f ls = map Inr kvs"
      and w: "writeCanonical (JObject kvs) = Inr s"
    using ls by (auto simp: CanonicalJSON_Inr or_null_Inr map_sum_Inr collect_all_Inr)
  have utf: "\<forall>x \<in> set ls. ValidUTF8 (fst x)" using v by (auto simp: nested_None)
  have v': "validateCanonicalInput 0 (GMap (Some ms)) = None"
    using v same by (simp add: nested_None)
  define g where "g x = (fst x, projr (marshal (snd x)))" for x :: "string \<times> govalue"
  have some: "?f x = Inr (g x)" if "x \<in> set ls" for x
  proof -
    have "?f x \<in> set (map Inr kvs)" using that unfolding kvs[symmetric] by simp
    then obtain m where "?f x = Inr m" by auto
    then show ?thesis by (cases x; cases "marshal (snd x)") (simp_all add: g_def)
  qed
  have "map Inr kvs = (map Inr (map g ls) :: (goerr + string \<times> json) list)"
    unfolding kvs[symmetric] map_map by (rule map_cong) (use some in simp_all)
  moreover have "inj (Inr :: string \<times> json \<Rightarrow> goerr + string \<times> json)" by simp
  ultimately have kvs_g: "kvs = map g ls" using inj_map_eq_map by blast
  have ms_g: "map ?f ms = map Inr (map g ms)"
    unfolding map_map by (rule map_cong) (use some same in simp_all)
  have keys: "map fst kvs = map fst ls" unfolding kvs_g by (simp add: g_def comp_def)
  have "sort_key (utf16_units \<circ> fst) (map (map_prod id writeCanonical) kvs)
      = sort_key (utf16_units \<circ> fst) (map (map_prod id writeCanonical) (map g ms))"
  proof (rule sort_members)
    show "mset (map (map_prod id writeCanonical) kvs) = mset (map (map_prod id writeCanonical) (map g ms))"
      unfolding kvs_g using perm by simp
    have "map fst (map (map_prod id writeCanonical) kvs) = map fst ls" using keys by simp
    then show "distinct (map fst (map (map_prod id writeCanonical) kvs))" using dist by simp
    show "\<forall>x \<in> set (map (map_prod id writeCanonical) kvs). ValidUTF8 (fst x)"
      unfolding kvs_g using utf by (auto simp: g_def)
  qed
  then have "writeCanonical (JObject (map g ms)) = Inr s" using w by simp
  moreover have "marshal (GMap (Some ms)) = Inr (JObject (map g ms))"
    by (simp only: marshal.simps or_null_def option.case ms_g collect_all_map_Inr map_sum.simps)
  ultimately show ?thesis using v' by (auto simp only: CanonicalJSON_Inr)
qed

text \<open>
  The iteration order of a Go map does not matter: whatever the order in which its entries
  are visited, the canonical text is the same.
\<close>

theorem canonical_map_order:
  assumes "mset ls = mset ms" and "distinct (map fst ls)"
  shows "CanonicalJSON (GMap (Some ls)) = Inr s \<longleftrightarrow> CanonicalJSON (GMap (Some ms)) = Inr s"
  using assms canonical_map_reordered[of ls ms s] canonical_map_reordered[of ms ls s]
  by (metis mset_eq_imp_distinct_iff mset_map)

text \<open>On ASCII text runes, code units and bytes are the same.\<close>

lemma rune_list_ascii: "\<forall>c \<in> set s. byte c < 0x80 \<Longrightarrow> rune_list s = map byte s"
  by (simp add: rune_list_def runes_ascii_all comp_def)

lemma utf16_units_ascii: "\<forall>c \<in> set s. byte c < 0x80 \<Longrightarrow> utf16_units s = map byte s"
proof -
  assume s: "\<forall>c \<in> set s. byte c < 0x80"
  then have "concat (map (\<lambda>c. if byte c < 0x10000 then [byte c]
      else [0xD800 + (byte c - 0x10000) div 0x400, 0xDC00 + (byte c - 0x10000) mod 0x400]) s) = map byte s"
    by (induction s) auto
  then show ?thesis using s by (simp add: utf16_units_def utf16_Encode_def rune_list_ascii comp_def)
qed

lemma char_of_small:
  "char_of (49::nat) = CHR ''1''" "char_of (50::nat) = CHR ''2''" "char_of (97::nat) = CHR ''a''" "char_of (98::nat) = CHR ''b''"
  by (simp_all add: char_of_def bit_0)

lemmas canonical_evaluation =
  char_of_small
  CanonicalJSON_def nested_def or_null_def validate_pointer_def require_def first_error.simps(2) writeJSONString_def
  write_member_def ValidUTF8_ascii rune_list_ascii utf16_units_ascii json_rune_def encode_rune_def
  check_number_def show_int_def show_nat.simps digit_char_def HasPrefix_def byte_def

theorem canonical_json_faithful_witness:
  "\<exists>t u. marshal (GStruct [(''a'', False, GInt 1), (''b'', True, GString [])]) = Inr t \<and>
     marshal (GMap (Some [(''a'', GInt 1)])) = Inr u \<and> sorted_tree t = sorted_tree u"
proof -
  have "CanonicalJSON (GStruct [(''a'', False, GInt 1), (''b'', True, GString [])]) = Inr (CHR ''{'' # CHR 0x22 # ''a'' @ CHR 0x22 # '':1}'')"
    by (simp add: canonical_evaluation)
  moreover have "CanonicalJSON (GMap (Some [(''a'', GInt 1)])) = Inr (CHR ''{'' # CHR 0x22 # ''a'' @ CHR 0x22 # '':1}'')"
    by (simp add: canonical_evaluation)
  ultimately show ?thesis using canonical_json_faithful by blast
qed

theorem canonical_map_order_witness:
  "CanonicalJSON (GMap (Some [(''b'', GInt 2), (''a'', GInt 1)])) =
     Inr (CHR ''{'' # CHR 0x22 # ''a'' @ CHR 0x22 # '':1,'' @ CHR 0x22 # ''b'' @ CHR 0x22 # '':2}'')"
proof -
  have "CanonicalJSON (GMap (Some [(''a'', GInt 1), (''b'', GInt 2)])) =
     Inr (CHR ''{'' # CHR 0x22 # ''a'' @ CHR 0x22 # '':1,'' @ CHR 0x22 # ''b'' @ CHR 0x22 # '':2}'')"
    by (simp add: canonical_evaluation)
  then show ?thesis
    using canonical_map_order[of "[(''b'', GInt 2), (''a'', GInt 1)]" "[(''a'', GInt 1), (''b'', GInt 2)]"] by simp
qed

section \<open>Comparing Go values through their canonical text\<close>

text \<open>
  A field of two structs of one type: left out of both, or the same JSON. The rules below
  read the equality of the field values off it.
\<close>

definition same_field :: "bool \<Rightarrow> govalue \<Rightarrow> govalue \<Rightarrow> bool" where
  "same_field omit v w \<longleftrightarrow>
     (if omit \<and> (empty_value v \<or> empty_value w) then empty_value v \<and> empty_value w else same_json v w)"

lemma map_of_sorted_tree: "map_of (map (map_prod id sorted_tree) ms) k = map_option sorted_tree (map_of ms k)"
  by (induction ms) auto

lemma sorted_object_eq:
  assumes "sorted_tree (JObject ks) = sorted_tree (JObject ls)" "distinct (map fst ks)" "distinct (map fst ls)"
  shows "map_option sorted_tree (map_of ks k) = map_option sorted_tree (map_of ls k)"
proof -
  let ?ks = "map (map_prod id sorted_tree) ks" and ?ls = "map (map_prod id sorted_tree) ls"
  have "mset ?ks = mset ?ls"
    using arg_cong[OF assms(1)[unfolded sorted_tree.simps json.inject], of mset] by (simp only: mset_sort)
  then have "set ?ks = set ?ls" by (rule mset_eq_setD)
  moreover have "distinct (map fst ?ks)" "distinct (map fst ?ls)" using assms(2,3) by (simp_all add: comp_def)
  ultimately have "map_of ?ks = map_of ?ls" using map_of_inject_set by blast
  then show ?thesis by (metis map_of_sorted_tree)
qed

lemma struct_members:
  assumes "marshal (GStruct fs) = Inr t" "distinct (map fst fs)"
  shows "\<exists>ks. t = JObject ks \<and> distinct (map fst ks) \<and> fst ` set ks \<subseteq> fst ` set fs \<and>
    (\<forall>(n, omit, v) \<in> set fs. if omit \<and> empty_value v then map_of ks n = None
                              else \<exists>u. marshal v = Inr u \<and> map_of ks n = Some u)"
  using assms
proof (induction fs arbitrary: t)
  case Nil
  then show ?case by simp
next
  case (Cons f fs)
  obtain n omit v where f: "f = (n, omit, v)" by (cases f)
  show ?case
  proof (cases "omit \<and> empty_value v")
    case True
    then have "marshal (GStruct fs) = Inr t" using Cons.prems f by simp
    with Cons.IH Cons.prems(2) obtain ks where
      ks: "t = JObject ks" "distinct (map fst ks)" "fst ` set ks \<subseteq> fst ` set fs"
        "\<forall>(n, omit, v) \<in> set fs. if omit \<and> empty_value v then map_of ks n = None
                              else \<exists>u. marshal v = Inr u \<and> map_of ks n = Some u" by auto
    moreover have "map_of ks n = None" using ks(3) Cons.prems(2) f by (force simp: map_of_eq_None_iff)
    ultimately show ?thesis using True f by auto
  next
    case False
    then obtain u ls where u: "marshal v = Inr u" "marshal (GStruct fs) = Inr (JObject ls)" "t = JObject ((n, u) # ls)"
      using Cons.prems(1) f by (auto simp: map_sum_Inr split: sum.splits)
    with Cons.IH[OF u(2)] Cons.prems(2) have
      ls: "distinct (map fst ls)" "fst ` set ls \<subseteq> fst ` set fs"
        "\<forall>(n, omit, v) \<in> set fs. if omit \<and> empty_value v then map_of ls n = None
                              else \<exists>u. marshal v = Inr u \<and> map_of ls n = Some u" by auto
    have n: "n \<notin> fst ` set fs" using Cons.prems(2) f by simp
    have "\<forall>(m, omit, w) \<in> set fs. if omit \<and> empty_value w then map_of ((n, u) # ls) m = None
        else \<exists>x. marshal w = Inr x \<and> map_of ((n, u) # ls) m = Some x"
      using ls(3) n by (force simp: image_iff)
    then show ?thesis using u ls n False f by auto
  qed
qed

lemma struct_member:
  assumes "marshal (GStruct fs) = Inr t" "distinct (map fst fs)" "(n, omit, v) \<in> set fs"
  shows "\<exists>ks. t = JObject ks \<and> distinct (map fst ks) \<and>
    (if omit \<and> empty_value v then map_of ks n = None else \<exists>u. marshal v = Inr u \<and> map_of ks n = Some u)"
proof -
  obtain ks where ks: "t = JObject ks" "distinct (map fst ks)"
    and all: "\<forall>(n, omit, v) \<in> set fs. if omit \<and> empty_value v then map_of ks n = None
                              else \<exists>u. marshal v = Inr u \<and> map_of ks n = Some u"
    using struct_members[OF assms(1,2)] by (elim exE conjE)
  show ?thesis using ks bspec[OF all assms(3)] by (intro exI[of _ ks]) simp
qed

lemma same_struct:
  assumes "same_json (GStruct fs) (GStruct gs)" "distinct (map fst fs)" "distinct (map fst gs)"
    and f: "(n, omit, v) \<in> set fs" and g: "(n, omit, w) \<in> set gs"
  shows "same_field omit v w"
proof -
  obtain t u where t: "marshal (GStruct fs) = Inr t" and u: "marshal (GStruct gs) = Inr u"
    and eq: "sorted_tree t = sorted_tree u" using assms(1) by (auto simp: same_json_def)
  from struct_member[OF t assms(2) f] obtain ks where ks: "t = JObject ks" "distinct (map fst ks)"
      "if omit \<and> empty_value v then map_of ks n = None else \<exists>u. marshal v = Inr u \<and> map_of ks n = Some u"
    by (elim exE conjE)
  from struct_member[OF u assms(3) g] obtain ls where ls: "u = JObject ls" "distinct (map fst ls)"
      "if omit \<and> empty_value w then map_of ls n = None else \<exists>u. marshal w = Inr u \<and> map_of ls n = Some u"
    by (elim exE conjE)
  have "map_option sorted_tree (map_of ks n) = map_option sorted_tree (map_of ls n)"
    by (rule sorted_object_eq) (use eq ks(1,2) ls(1,2) in simp_all)
  then show ?thesis using ks(3) ls(3) by (auto simp: same_field_def same_json_def split: if_splits)
qed

text \<open>Two structs with the same field names: the same JSON field by field.\<close>

fun same_fields :: "(string \<times> bool \<times> govalue) list \<Rightarrow> (string \<times> bool \<times> govalue) list \<Rightarrow> bool" where
  "same_fields ((n, omit, v) # fs) ((m, keep, w) # gs) = (n = m \<and> omit = keep \<and> same_field omit v w \<and> same_fields fs gs)"
| "same_fields fs gs = (fs = gs)"

lemma same_fieldsI:
  assumes "map (\<lambda>(n, omit, v). (n, omit)) fs = map (\<lambda>(n, omit, v). (n, omit)) gs"
    and "\<And>n omit v w. (n, omit, v) \<in> set fs \<Longrightarrow> (n, omit, w) \<in> set gs \<Longrightarrow> same_field omit v w"
  shows "same_fields fs gs"
  using assms
proof (induction fs arbitrary: gs)
  case (Cons f fs)
  then obtain g gs' where gs: "gs = g # gs'" by (cases gs) auto
  have "same_fields fs gs'"
  proof (rule Cons.IH)
    show "map (\<lambda>(n, omit, v). (n, omit)) fs = map (\<lambda>(n, omit, v). (n, omit)) gs'" using Cons.prems(1) gs by simp
    show "same_field omit v w" if "(n, omit, v) \<in> set fs" "(n, omit, w) \<in> set gs'" for n omit v w
      using Cons.prems(2)[of n omit v w] that gs by simp
  qed
  moreover obtain n omit v where f: "f = (n, omit, v)" by (cases f)
  moreover obtain w where g: "g = (n, omit, w)" using Cons.prems(1) gs f by (cases g) simp
  moreover have "same_field omit v w" using Cons.prems(2)[of n omit v w] gs f g by simp
  ultimately show ?case using gs by simp
qed simp

lemma same_structD:
  assumes "same_json (GStruct fs) (GStruct gs)"
    and "map (\<lambda>(n, omit, v). (n, omit)) fs = map (\<lambda>(n, omit, v). (n, omit)) gs" and "distinct (map fst fs)"
  shows "same_fields fs gs"
proof (rule same_fieldsI[OF assms(2)])
  have "map fst fs = map fst gs" using arg_cong[OF assms(2), of "map fst"] by (simp add: comp_def case_prod_beta')
  then show "(n, omit, v) \<in> set fs \<Longrightarrow> (n, omit, w) \<in> set gs \<Longrightarrow> same_field omit v w" for n omit v w
    using same_struct[OF assms(1)] assms(3) by metis
qed

named_theorems same_json_simps

lemma same_json_leaf [same_json_simps]:
  "same_json (GString s) (GString s') \<longleftrightarrow> s = s'"
  "same_json (GInt i) (GInt j) \<longleftrightarrow> i = j"
  "same_json (GBool a) (GBool b) \<longleftrightarrow> a = b"
  "same_json (GCustom (Inr s)) (GCustom (Inr s')) \<longleftrightarrow> s = s'"
  by (auto simp: same_json_def)

lemma same_field_keep [same_json_simps]: "same_field False v w = same_json v w"
  by (simp add: same_field_def)

lemma same_field_omit [same_json_simps]:
  "same_field True (GString s) (GString s') \<longleftrightarrow> s = s'"
  "same_field True (GInt i) (GInt j) \<longleftrightarrow> i = j"
  by (auto simp: same_field_def same_json_leaf)

lemma same_field_pointer:
  "same_field True (GPointer p) (GPointer q) \<longleftrightarrow>
     (if p = None \<or> q = None then p = None \<and> q = None else same_json (GPointer p) (GPointer q))"
  by (auto simp: same_field_def)

lemma same_json_pointer [same_json_simps]:
  assumes "\<And>x. x \<in> set_option p \<union> set_option q \<Longrightarrow> marshal (f x) \<noteq> Inr JNull"
  shows "same_json (GPointer (map_option f p)) (GPointer (map_option f q)) \<longleftrightarrow> rel_option (\<lambda>x y. same_json (f x) (f y)) p q"
proof -
  have "t = JNull" if "sorted_tree t = JNull" for t using that by (cases t) auto
  then show ?thesis using assms
    by (cases p; cases q) (auto simp: same_json_def or_null_def)
qed

lemma same_json_slice [same_json_simps]:
  "same_json (GSlice (map_option (map f) p)) (GSlice (map_option (map f) q)) \<longleftrightarrow>
     rel_option (list_all2 (\<lambda>x y. same_json (f x) (f y))) p q"
proof -
  have "same_json (GSlice (Some (map f xs))) (GSlice (Some (map f ys))) \<longleftrightarrow> list_all2 (\<lambda>x y. same_json (f x) (f y)) xs ys"
    for xs ys
  proof
    assume "same_json (GSlice (Some (map f xs))) (GSlice (Some (map f ys)))"
    then obtain ts us where "map (marshal \<circ> f) xs = map Inr ts" "map (marshal \<circ> f) ys = map Inr us"
      "map sorted_tree ts = map sorted_tree us"
      by (auto simp: same_json_def or_null_def map_sum_Inr collect_all_Inr comp_def)
    then show "list_all2 (\<lambda>x y. same_json (f x) (f y)) xs ys"
      unfolding list_all2_conv_all_nth same_json_def map_eq_map_Inr
      by (metis comp_apply length_map nth_map)
  next
    assume all: "list_all2 (\<lambda>x y. same_json (f x) (f y)) xs ys"
    then have "\<exists>ts us. map marshal (map f xs) = map Inr ts \<and> map marshal (map f ys) = map Inr us \<and>
        map sorted_tree ts = map sorted_tree us"
      by (induction rule: list_all2_induct) (auto simp: same_json_def, metis list.simps(9))
    then show "same_json (GSlice (Some (map f xs))) (GSlice (Some (map f ys)))"
      by (auto simp: same_json_def or_null_def map_sum_Inr collect_all_Inr)
  qed
  then show ?thesis
    by (cases p; cases q) (auto simp: same_json_def or_null_def map_sum_Inr)
qed

lemma same_json_map:
  assumes "same_json (GMap (map_option (map (map_prod id GString)) p)) (GMap (map_option (map (map_prod id GString)) q))"
    and "distinct (map fst (elems p))" "distinct (map fst (elems q))"
  shows "rel_option (\<lambda>ls ms. map_of ls = map_of ms) p q"
proof -
  have m: "marshal (GMap (Some (map (map_prod id GString) ls))) = Inr (JObject (map (map_prod id JString) ls))" for ls
    by (simp add: or_null_def collect_all_Inr map_sum_Inr comp_def map_prod_def case_prod_beta')
  have of: "map_of (map (map_prod id JString) ls) k = map_option JString (map_of ls k)" for ls k
    by (induction ls) auto
  show ?thesis
  proof (cases p; cases q)
    fix ls ms
    assume pq: "p = Some ls" "q = Some ms"
    have "sorted_tree (JObject (map (map_prod id JString) ls)) = sorted_tree (JObject (map (map_prod id JString) ms))"
      using assms(1) unfolding pq same_json_def option.map m by simp
    then have "map_option sorted_tree (map_of (map (map_prod id JString) ls) k) =
        map_option sorted_tree (map_of (map (map_prod id JString) ms) k)" for k
      by (rule sorted_object_eq) (use assms(2,3) pq in \<open>simp_all add: comp_def\<close>)
    then have "map_of ls k = map_of ms k" for k
      unfolding of by (cases "map_of ls k"; cases "map_of ms k") (auto dest: meta_spec[of _ k])
    then show ?thesis using pq by auto
  qed (use assms(1) m in \<open>auto simp: same_json_def or_null_def\<close>)
qed

section \<open>When the canonical text exists\<close>

text \<open>What a value needs for its canonical text to exist, beside the depth limit: integers and valid UTF-8 only.\<close>

fun writable :: "govalue \<Rightarrow> bool" where
  "writable GNil = True"
| "writable (GBool b) = True"
| "writable (GInt i) = True"
| "writable (GFloat t) = False"
| "writable (GString s) = ValidUTF8 s"
| "writable (GPointer p) = pred_option writable p"
| "writable (GInterface p) = pred_option writable p"
| "writable (GSlice xs) = pred_option (list_all writable) xs"
| "writable (GArray xs) = list_all writable xs"
| "writable (GMap kvs) = pred_option (list_all (\<lambda>(k, v). ValidUTF8 k \<and> writable v)) kvs"
| "writable (GStruct fs) = list_all (\<lambda>(name, omit, v). ValidUTF8 name \<and> writable v) fs"
| "writable (GCustom r) = (case r of Inl e \<Rightarrow> False | Inr s \<Rightarrow> ValidUTF8 s)"

lemma collect_all_total:
  assumes "\<And>x. x \<in> set xs \<Longrightarrow> \<exists>t. f x = Inr t \<and> P t"
  shows "\<exists>ts. collect_all (map f xs) = Inr ts \<and> (\<forall>t \<in> set ts. P t)"
  using assms
proof (induction xs)
  case (Cons x xs)
  then obtain t ts where "f x = Inr t" "P t" "collect_all (map f xs) = Inr ts" "\<forall>t \<in> set ts. P t"
    by (metis list.set_intros)
  then show ?case by simp
qed simp

definition written :: "json \<Rightarrow> bool" where
  "written t \<longleftrightarrow> (\<exists>s. writeCanonical t = Inr s)"

lemma written_array: "(\<forall>t \<in> set ts. written t) \<Longrightarrow> written (JArray ts)"
  using collect_all_total[of ts writeCanonical "\<lambda>_. True"] by (auto simp: written_def)

lemma written_object:
  assumes "\<forall>(k, t) \<in> set kvs. ValidUTF8 k \<and> written t"
  shows "written (JObject kvs)"
proof -
  let ?sorted = "sort_key (utf16_units \<circ> fst) (map (map_prod id writeCanonical) kvs)"
  have "\<exists>t. write_member x = Inr t \<and> True" if "x \<in> set ?sorted" for x
    using that assms by (force simp: written_def write_member_def writeJSONString_def)
  from collect_all_total[of ?sorted write_member "\<lambda>_. True", OF this] show ?thesis by (auto simp: written_def)
qed

lemma show_nat_head: "0 < n \<Longrightarrow> hd (show_nat n) \<noteq> CHR ''0''"
proof (induction n rule: show_nat.induct)
  case (1 n)
  show ?case
  proof (cases "n < 10")
    case True
    show ?thesis
    proof
      assume "hd (show_nat n) = CHR ''0''"
      then have "byte (digit_char n) = byte (CHR ''0'')" using True by (simp add: show_nat.simps[of n])
      then show False using True 1(2) by (simp add: byte_digit_char) (simp add: byte_def)
    qed
  next
    case False
    then have "show_nat (n div 10) \<noteq> []" "hd (show_nat (n div 10)) \<noteq> CHR ''0''" using 1(1) by auto
    then show ?thesis using False by (simp add: show_nat.simps[of n])
  qed
qed

lemma check_number_show_int: "check_number (show_int i) = None"
proof -
  have digits: "c \<notin> set (show_nat n)" if "byte c < 48 \<or> 57 < byte c" for c and n :: nat
    using that show_nat_digits[of c n] by auto
  have "(\<exists>c \<in> set (show_int i). c \<in> set ''.eE+'') = False"
    using digits[of "CHR ''.''"] digits[of "CHR ''e''"] digits[of "CHR ''E''"] digits[of "CHR ''+''"]
    by (auto simp: show_int_def byte_def split: if_splits)
  moreover have "show_int i \<noteq> ''-0''" "HasPrefix (show_int i) ''-0'' = False"
  proof -
    have minus: "show_int i = CHR ''-'' # t \<Longrightarrow> t \<noteq> [] \<and> hd t \<noteq> CHR ''0''" for t
      using show_nat_head[of "nat (- i)"] show_nat_no_minus[of "nat i"] by (auto simp: show_int_def split: if_splits)
    then show "show_int i \<noteq> ''-0''" by force
    show "HasPrefix (show_int i) ''-0'' = False" using minus by (force simp: HasPrefix_iff)
  qed
  moreover have "show_int i \<noteq> []" by (simp add: show_int_def)
  moreover have "hd (show_int i) \<noteq> CHR ''0''" if "length (show_int i) > 1"
  proof (cases "0 < i")
    case True
    then show ?thesis using show_nat_head[of "nat i"] by (simp add: show_int_def)
  next
    case False
    then show ?thesis using that by (cases "i = 0") (simp_all add: show_int_def show_nat.simps)
  qed
  ultimately show ?thesis by (simp add: check_number_def)
qed

lemma writable_marshals: "writable v \<Longrightarrow> \<exists>t. marshal v = Inr t \<and> written t"
proof (induction v rule: marshal.induct)
  case (3 i)
  then show ?case by (simp add: written_def check_number_show_int)
next
  case (6 p)
  then show ?case by (cases p) (auto simp: or_null_def written_def)
next
  case (7 p)
  then show ?case by (cases p) (auto simp: or_null_def written_def)
next
  case (8 xs)
  show ?case
  proof (cases xs)
    case (Some ys)
    then obtain ts where "collect_all (map marshal ys) = Inr ts" "\<forall>t \<in> set ts. written t"
      using collect_all_total[of ys marshal written] 8 by (auto simp: list_all_iff)
    then show ?thesis using Some written_array by (auto simp: or_null_def)
  qed (simp add: or_null_def written_def)
next
  case (9 xs)
  then obtain ts where "collect_all (map marshal xs) = Inr ts" "\<forall>t \<in> set ts. written t"
    using collect_all_total[of xs marshal written] by (auto simp: list_all_iff)
  then show ?case using written_array by auto
next
  case (10 kvs)
  show ?case
  proof (cases kvs)
    case (Some ls)
    have "\<exists>m. (case x of (k, v) \<Rightarrow> map_sum id (Pair k) (marshal v)) = Inr m \<and> (case m of (k, t) \<Rightarrow> ValidUTF8 k \<and> written t)"
      if x: "x \<in> set ls" for x
    proof -
      obtain k v where kv: "x = (k, v)" by (cases x)
      then have "ValidUTF8 k" "writable v" using "10.prems" Some x by (auto simp: list_all_iff)
      then show ?thesis using "10.IH"[OF Some x kv[symmetric]] kv by auto
    qed
    then obtain ts where "collect_all (map (\<lambda>(k, v). map_sum id (Pair k) (marshal v)) ls) = Inr ts"
      "\<forall>(k, t) \<in> set ts. ValidUTF8 k \<and> written t"
      using collect_all_total[of ls "\<lambda>(k, v). map_sum id (Pair k) (marshal v)" "\<lambda>(k, t). ValidUTF8 k \<and> written t"] by blast
    then show ?thesis using Some written_object by (auto simp: or_null_def)
  qed (simp add: or_null_def written_def)
next
  case (11 fs)
  let ?kept = "filter (\<lambda>(name, omit, v). \<not> (omit \<and> empty_value v)) fs"
  have "\<exists>m. (case x of (name, omit, v) \<Rightarrow> map_sum id (Pair name) (marshal v)) = Inr m \<and>
      (case m of (k, t) \<Rightarrow> ValidUTF8 k \<and> written t)" if x: "x \<in> set ?kept" for x
  proof -
    obtain name omit v where kv: "x = (name, omit, v)" by (cases x)
    then have "ValidUTF8 name" "writable v" using "11.prems" x by (auto simp: list_all_iff)
    then show ?thesis using "11.IH"[OF x kv[symmetric] refl] kv by auto
  qed
  then obtain ts where "collect_all (map (\<lambda>(name, omit, v). map_sum id (Pair name) (marshal v)) ?kept) = Inr ts"
    "\<forall>(k, t) \<in> set ts. ValidUTF8 k \<and> written t"
    using collect_all_total[of ?kept "\<lambda>(name, omit, v). map_sum id (Pair name) (marshal v)"
        "\<lambda>(k, t). ValidUTF8 k \<and> written t"] by blast
  then show ?case using written_object by auto
qed (auto simp: written_def writeJSONString_def split: sum.splits)

lemma canonical_total: "writable v \<Longrightarrow> validateCanonicalInput 0 v = None \<Longrightarrow> \<exists>s. CanonicalJSON v = Inr s"
  using writable_marshals[of v] by (auto simp: CanonicalJSON_Inr written_def)

end
