(* ===== verification/Go_Rfc3339.thy ===== *)
theory Go_Rfc3339
  imports Go_Time
begin

text \<open>
  \<open>time.Format\<close> with the layout RFC3339Nano for an instant in UTC, the only use the program
  makes of it: civil date, time of day, and the fraction of a second without trailing zeros.
  Days count from the first of January of year 1, as \<open>gotime\<close> does.
\<close>

section \<open>The civil calendar\<close>

definition leap_year :: "int \<Rightarrow> bool" where
  "leap_year y \<longleftrightarrow> 4 dvd y \<and> (\<not> 100 dvd y \<or> 400 dvd y)"

definition year_days :: "int \<Rightarrow> nat" where
  "year_days y = (if leap_year y then 366 else 365)"

definition month_days :: "int \<Rightarrow> nat list" where
  "month_days y = [31, if leap_year y then 29 else 28, 31, 30, 31, 30, 31, 31, 30, 31, 30, 31]"

function year_of_day :: "int \<Rightarrow> nat \<Rightarrow> int \<times> nat" where
  "year_of_day y d = (if d < year_days y then (y, d) else year_of_day (y + 1) (d - year_days y))"
  by pat_completeness auto
termination
  by (relation "measure snd") (auto simp: year_days_def)

declare year_of_day.simps [simp del]

fun month_of_day :: "nat \<Rightarrow> nat list \<Rightarrow> nat \<Rightarrow> nat \<times> nat" where
  "month_of_day m [] d = (m, d)"
| "month_of_day m (l # ls) d = (if d < l then (m, d) else month_of_day (Suc m) ls (d - l))"

text \<open>400 years have 146097 days.\<close>

definition civil_date :: "int \<Rightarrow> int \<times> nat \<times> nat" where
  "civil_date days =
     (let (y, d) = year_of_day (1 + 400 * (days div 146097)) (nat (days mod 146097));
          (m, k) = month_of_day 1 (month_days y) d
      in (y, m, Suc k))"

section \<open>The text\<close>

definition pad :: "nat \<Rightarrow> nat \<Rightarrow> string" where
  "pad w n = replicate (w - length (show_nat n)) (CHR ''0'') @ show_nat n"

definition year_text :: "int \<Rightarrow> string" where
  "year_text y = (if y < 0 then CHR ''-'' # pad 4 (nat (- y)) else pad 4 (nat y))"

definition fraction_text :: "nat \<Rightarrow> string" where
  "fraction_text n = (if n = 0 then [] else CHR ''.'' # rev (dropWhile (\<lambda>c. c = CHR ''0'') (rev (pad 9 n))))"

definition RFC3339Nano :: "gotime \<Rightarrow> string" where
  "RFC3339Nano t =
     (let seconds = ns t div 1000000000; nanos = nat (ns t mod 1000000000);
          day = seconds div 86400; clock = nat (seconds mod 86400);
          (y, m, d) = civil_date day
      in year_text y @ ''-'' @ pad 2 m @ ''-'' @ pad 2 d @ ''T'' @
         pad 2 (clock div 3600) @ '':'' @ pad 2 (clock div 60 mod 60) @ '':'' @ pad 2 (clock mod 60) @
         fraction_text nanos @ ''Z'')"

section \<open>The text determines the instant\<close>

fun days_before :: "int \<Rightarrow> nat \<Rightarrow> nat" where
  "days_before y 0 = 0"
| "days_before y (Suc k) = days_before y k + year_days (y + int k)"

text \<open>The days from the start of a cycle to a civil date.\<close>

lemma year_of_day_inverse:
  "year_of_day y d = (y', d') \<Longrightarrow> \<exists>k. y' = y + int k \<and> d = days_before y k + d' \<and> d' < year_days y'"
proof (induction y d arbitrary: y' d' rule: year_of_day.induct)
  case (1 y d)
  show ?case
  proof (cases "d < year_days y")
    case True
    then show ?thesis using "1.prems" by (intro exI[of _ 0]) (simp add: year_of_day.simps[of y d])
  next
    case False
    have shift: "days_before y (Suc k) = year_days y + days_before (y + 1) k" for k
      by (induction k) (simp_all add: algebra_simps)
    from False "1.prems" "1.IH"[OF False] obtain k where
      "y' = y + 1 + int k" "d - year_days y = days_before (y + 1) k + d'" "d' < year_days y'"
      by (auto simp: year_of_day.simps[of y d])
    then show ?thesis using False shift[of k] by (intro exI[of _ "Suc k"]) auto
  qed
qed

lemma month_of_day_inverse:
  "month_of_day m ls d = (m', d') \<Longrightarrow>
     m \<le> m' \<and> m' \<le> m + length ls \<and> d = sum_list (take (m' - m) ls) + d'"
proof (induction m ls d arbitrary: m' d' rule: month_of_day.induct)
  case (2 m l ls d)
  show ?case
  proof (cases "d < l")
    case False
    with "2.prems" "2.IH"[OF False] have
      h: "Suc m \<le> m'" "m' \<le> Suc m + length ls" "d - l = sum_list (take (m' - Suc m) ls) + d'" by auto
    have "m' - m = Suc (m' - Suc m)" using h by simp
    then show ?thesis using h False by simp
  qed (use "2.prems" in auto)
qed simp

text \<open>The calendar repeats after 400 years, which have 146097 days.\<close>

lemma year_days_cycle: "year_days (y + 400 * q) = year_days y"
proof -
  have "4 dvd y + 400 * q \<longleftrightarrow> 4 dvd y" "100 dvd y + 400 * q \<longleftrightarrow> 100 dvd y" "400 dvd y + 400 * q \<longleftrightarrow> 400 dvd y"
    by (simp_all add: dvd_add_left_iff dvd_mult2)
  then show ?thesis by (simp add: year_days_def leap_year_def)
qed

lemma days_before_cycle: "days_before (y + 400 * q) k = days_before y k"
proof (induction k)
  case (Suc k)
  have "year_days (y + 400 * q + int k) = year_days (y + int k)"
    using year_days_cycle[of "y + int k" q] by (simp add: algebra_simps)
  then show ?case using Suc by simp
qed simp

lemma days_before_closed: "days_before 1 k + k div 100 = 365 * k + k div 4 + k div 400"
proof (induction k)
  case (Suc k)
  have step: "Suc k div n = k div n + (if n dvd Suc k then 1 else 0)" for n
    by (simp add: div_Suc mod_eq_0_iff_dvd)
  have year: "leap_year (1 + int k) \<longleftrightarrow> 4 dvd Suc k \<and> (\<not> 100 dvd Suc k \<or> 400 dvd Suc k)"
  proof -
    have "int n dvd 1 + int k \<longleftrightarrow> n dvd Suc k" for n
      by (metis int_dvd_int_iff of_nat_Suc add.commute)
    from this[of 4] this[of 100] this[of 400] show ?thesis by (simp add: leap_year_def)
  qed
  have "4 dvd Suc k" if "100 dvd Suc k" using that by (rule dvd_trans[rotated]) simp
  moreover have "100 dvd Suc k" if "400 dvd Suc k" using that by (rule dvd_trans[rotated]) simp
  ultimately show ?case
    using Suc step[of 4] step[of 100] step[of 400] year by (simp add: year_days_def split: if_splits)
qed simp

lemma days_before_400: "days_before 1 400 = 146097"
  using days_before_closed[of 400] by simp

lemma days_before_mono: "j \<le> k \<Longrightarrow> days_before y j \<le> days_before y k"
  by (rule lift_Suc_mono_le[of "days_before y"]) simp_all

lemma civil_date_inject:
  assumes "civil_date a = civil_date b"
  shows "a = b"
proof -
  have parts: "\<exists>q k r m e. days = 146097 * q + int (days_before 1 k + r) \<and> k < 400 \<and>
      civil_date days = (1 + 400 * q + int k, m, Suc e) \<and> 1 \<le> m \<and>
      r = sum_list (take (m - 1) (month_days (1 + 400 * q + int k))) + e" for days
  proof -
    define q where "q = days div 146097"
    define d where "d = nat (days mod 146097)"
    have d: "days = 146097 * q + int d" "d < 146097" by (simp_all add: q_def d_def nat_less_iff)
    obtain y r where y: "year_of_day (1 + 400 * q) d = (y, r)" by (cases "year_of_day (1 + 400 * q) d")
    obtain m e where m: "month_of_day 1 (month_days y) r = (m, e)" by (cases "month_of_day 1 (month_days y) r")
    from year_of_day_inverse[OF y] obtain k where
      k: "y = 1 + 400 * q + int k" "d = days_before 1 k + r" by (auto simp: days_before_cycle)
    have "k < 400"
    proof (rule ccontr)
      assume "\<not> k < 400"
      then have "146097 \<le> days_before 1 k" using days_before_mono[of 400 k 1] days_before_400 by simp
      then show False using k(2) d(2) by simp
    qed
    moreover have "civil_date days = (1 + 400 * q + int k, m, Suc e)"
      unfolding civil_date_def q_def[symmetric] d_def[symmetric] y using m k(1) by simp
    moreover have "days = 146097 * q + int (days_before 1 k + r)" using d(1) k(2) by simp
    moreover have "1 \<le> m" "r = sum_list (take (m - 1) (month_days (1 + 400 * q + int k))) + e"
      using month_of_day_inverse[OF m] k(1) by auto
    ultimately show ?thesis by blast
  qed
  from parts[of a] obtain q k r m e where
    A: "a = 146097 * q + int (days_before 1 k + r)" "k < 400" "civil_date a = (1 + 400 * q + int k, m, Suc e)"
      "r = sum_list (take (m - 1) (month_days (1 + 400 * q + int k))) + e" by blast
  from parts[of b] obtain q' k' r' m' e' where
    B: "b = 146097 * q' + int (days_before 1 k' + r')" "k' < 400" "civil_date b = (1 + 400 * q' + int k', m', Suc e')"
      "r' = sum_list (take (m' - 1) (month_days (1 + 400 * q' + int k'))) + e'" by blast
  have eq: "400 * q + int k = 400 * q' + int k'" "m = m'" "e = e'" using assms A(3) B(3) by auto
  have "q = q'" using eq(1) A(2) B(2) by linarith
  then have "k = k'" using eq(1) by simp
  with \<open>q = q'\<close> show ?thesis using A(1,4) B(1,4) eq by simp
qed

text \<open>Padded numbers.\<close>

lemma read_nat_zeros: "read_nat (replicate k (CHR ''0'') @ s) = read_nat s"
  by (induction k) (simp_all add: read_nat_def byte_def)

lemma pad_inject [simp]: "pad w m = pad w n \<longleftrightarrow> m = n"
  by (metis pad_def read_nat_zeros read_show_nat)

lemma pad_digits: "c \<in> set (pad w n) \<Longrightarrow> 48 \<le> byte c \<and> byte c \<le> 57"
  using show_nat_digits[of c n] by (auto simp: pad_def byte_def split: if_splits)

lemma pad_no_dash: "CHR ''-'' \<notin> set (pad w n)"
  using pad_digits[of "CHR ''-''" w n] by (auto simp: byte_def)

lemma show_nat_length: "n < 10 ^ w \<Longrightarrow> 0 < w \<Longrightarrow> length (show_nat n) \<le> w"
proof (induction w arbitrary: n)
  case (Suc w)
  show ?case
  proof (cases "n < 10")
    case True
    then show ?thesis by (simp add: show_nat.simps[of n])
  next
    case False
    then have "0 < w" using Suc.prems(1) by (cases w) simp_all
    moreover have "n div 10 < 10 ^ w" using Suc.prems(1) by (simp add: div_less_iff_less_mult mult.commute)
    ultimately show ?thesis using Suc.IH[of "n div 10"] False by (simp add: show_nat.simps[of n])
  qed
qed simp

lemma pad_length: "n < 10 ^ w \<Longrightarrow> 0 < w \<Longrightarrow> length (pad w n) = w"
  using show_nat_length[of n w] by (simp add: pad_def)

lemma pad_append:
  assumes "m < 10 ^ w" "n < 10 ^ w" "0 < w"
  shows "pad w m @ x = pad w n @ y \<longleftrightarrow> m = n \<and> x = y"
  using pad_length[OF assms(1,3)] pad_length[OF assms(2,3)] by (simp add: append_eq_append_conv)

lemma pad_nonempty: "pad w n \<noteq> []"
  by (simp add: pad_def)

lemma year_text_dash: "year_text y @ CHR ''-'' # x = year_text z @ CHR ''-'' # u \<Longrightarrow> y = z \<and> x = u"
proof -
  assume eq: "year_text y @ CHR ''-'' # x = year_text z @ CHR ''-'' # u"
  have head: "hd (pad 4 n @ v) \<noteq> CHR ''-''" for n v
    using pad_no_dash[of 4 n] pad_nonempty[of 4 n] by (cases "pad 4 n") auto
  have "y < 0 \<longleftrightarrow> z < 0"
    using eq head[of "nat y" "CHR ''-'' # x"] head[of "nat z" "CHR ''-'' # u"]
    by (auto simp: year_text_def split: if_splits) (metis list.sel(1))+
  then show ?thesis
    using eq append_slash_eq[OF pad_no_dash pad_no_dash, of 4 "nat (- y)" x 4 "nat (- z)" u]
      append_slash_eq[OF pad_no_dash pad_no_dash, of 4 "nat y" x 4 "nat z" u]
    by (auto simp: year_text_def split: if_splits)
qed

lemma fraction_text_inject:
  assumes "m < 10 ^ 9" "n < 10 ^ 9" "fraction_text m = fraction_text n"
  shows "m = n"
proof (cases "m = 0 \<or> n = 0")
  case True
  then show ?thesis using assms(3) by (auto simp: fraction_text_def split: if_splits)
next
  case False
  let ?t = "\<lambda>k. dropWhile (\<lambda>c. c = CHR ''0'') (rev (pad 9 k))"
  have "?t m = ?t n" using assms(3) False by (simp add: fraction_text_def)
  moreover have "rev (pad 9 k) = replicate (9 - length (?t k)) (CHR ''0'') @ ?t k" if "k < 10 ^ 9" for k
  proof -
    let ?p = "\<lambda>c. c = CHR ''0''"
    have split: "takeWhile ?p (rev (pad 9 k)) @ ?t k = rev (pad 9 k)" by (rule takeWhile_dropWhile_id)
    have "takeWhile ?p (rev (pad 9 k)) = replicate (length (takeWhile ?p (rev (pad 9 k)))) (CHR ''0'')"
      by (rule replicate_length_same[symmetric]) (auto dest: set_takeWhileD)
    moreover have "length (takeWhile ?p (rev (pad 9 k))) + length (?t k) = 9"
      using arg_cong[OF split, of length] pad_length[OF that] unfolding length_append by simp
    ultimately show ?thesis using split by (metis diff_add_inverse2)
  qed
  ultimately have "rev (pad 9 m) = rev (pad 9 n)" using assms(1,2) by metis
  then show ?thesis by simp
qed

lemma month_of_day_bound:
  "d < sum_list ls \<Longrightarrow> \<forall>l \<in> set ls. l \<le> b \<Longrightarrow> snd (month_of_day m ls d) < b \<and> fst (month_of_day m ls d) < m + length ls"
  by (induction m ls d rule: month_of_day.induct) auto

lemma civil_date_bounds:
  assumes "civil_date days = (y, m, d)"
  shows "m < 100" "d < 100"
proof -
  obtain z r where z: "year_of_day (1 + 400 * (days div 146097)) (nat (days mod 146097)) = (z, r)"
    by (cases "year_of_day (1 + 400 * (days div 146097)) (nat (days mod 146097))")
  have "r < year_days z" using year_of_day_inverse[OF z] by auto
  then have "r < sum_list (month_days z)" by (simp add: year_days_def month_days_def split: if_splits)
  moreover have "\<forall>l \<in> set (month_days z). l \<le> 31" "length (month_days z) = 12" by (simp_all add: month_days_def)
  ultimately have "snd (month_of_day 1 (month_days z) r) < 31" "fst (month_of_day 1 (month_days z) r) < 13"
    using month_of_day_bound[of r "month_days z" 31 1] by simp_all
  then show "m < 100" "d < 100" using assms z by (auto simp: civil_date_def split: prod.splits)
qed

lemma RFC3339Nano_inject:
  assumes "RFC3339Nano t = RFC3339Nano u"
  shows "ns t = ns u"
proof -
  define sec where "sec v = ns v div 1000000000" for v :: gotime
  define clock where "clock v = nat (sec v mod 86400)" for v
  define nanos where "nanos v = nat (ns v mod 1000000000)" for v :: gotime
  obtain y m d where a: "civil_date (sec t div 86400) = (y, m, d)" by (cases "civil_date (sec t div 86400)")
  obtain y' m' d' where b: "civil_date (sec u div 86400) = (y', m', d')" by (cases "civil_date (sec u div 86400)")
  have clock: "clock v < 86400" for v by (simp add: clock_def nat_less_iff)
  have hour: "clock v div 3600 < 10 ^ 2" "clock v div 60 mod 60 < 10 ^ 2" "clock v mod 60 < 10 ^ 2" for v
    using clock[of v] by (simp_all add: div_less_iff_less_mult order_less_trans[OF mod_less_divisor])
  have nano: "nanos v < 10 ^ 9" for v by (simp add: nanos_def nat_less_iff)
  define F where "F v = fraction_text (nanos v) @ ''Z''" for v
  define S where "S v = pad 2 (clock v mod 60) @ F v" for v
  define M where "M v = pad 2 (clock v div 60 mod 60) @ CHR '':'' # S v" for v
  define H where "H v = pad 2 (clock v div 3600) @ CHR '':'' # M v" for v
  have layout: "RFC3339Nano v = (case civil_date (sec v div 86400) of (y, m, d) \<Rightarrow>
      year_text y @ CHR ''-'' # pad 2 m @ CHR ''-'' # pad 2 d @ CHR ''T'' # H v)" for v
    by (simp add: RFC3339Nano_def sec_def clock_def nanos_def Let_def F_def S_def M_def H_def)
  have lim: "m < 10 ^ 2" "m' < 10 ^ 2" "d < 10 ^ 2" "d' < 10 ^ 2"
    using civil_date_bounds[OF a] civil_date_bounds[OF b] by simp_all
  have y: "y = y'" "pad 2 m @ CHR ''-'' # pad 2 d @ CHR ''T'' # H t = pad 2 m' @ CHR ''-'' # pad 2 d' @ CHR ''T'' # H u"
    using year_text_dash assms unfolding layout a b by auto
  have m: "m = m'" "pad 2 d @ CHR ''T'' # H t = pad 2 d' @ CHR ''T'' # H u"
    using y(2) pad_append[OF lim(1,2)] by auto
  have d: "d = d'" "H t = H u" using m(2) pad_append[OF lim(3,4)] by auto
  have h: "clock t div 3600 = clock u div 3600" "M t = M u"
    using d(2) pad_append[OF hour(1) hour(1)] unfolding H_def by auto
  have mi: "clock t div 60 mod 60 = clock u div 60 mod 60" "S t = S u"
    using h(2) pad_append[OF hour(2) hour(2)] unfolding M_def by auto
  have se: "clock t mod 60 = clock u mod 60" "F t = F u"
    using mi(2) pad_append[OF hour(3) hour(3)] unfolding S_def by auto
  have fr: "fraction_text (nanos t) = fraction_text (nanos u)" using se(2) by (simp add: F_def)
  note eq = y(1) m(1) d(1) h(1) mi(1) se(1) fr
  have "sec t div 86400 = sec u div 86400" using civil_date_inject a b eq(1-3) by simp
  moreover have "clock t = clock u"
  proof -
    have "clock v = clock v div 3600 * 3600 + clock v div 60 mod 60 * 60 + clock v mod 60" for v
    proof -
      have "clock v div 60 div 60 * 60 + clock v div 60 mod 60 = clock v div 60" "clock v div 60 * 60 + clock v mod 60 = clock v"
        by (rule div_mult_mod_eq)+
      moreover have "clock v div 3600 = clock v div 60 div 60" using div_mult2_eq[of "clock v" 60 60] by simp
      ultimately show ?thesis by linarith
    qed
    from this[of t] this[of u] show ?thesis using eq(4-6) by simp
  qed
  ultimately have "sec t = sec u"
    unfolding clock_def using div_mult_mod_eq[of "sec t" 86400] div_mult_mod_eq[of "sec u" 86400]
    by (metis eq_nat_nat_iff pos_mod_sign zero_less_numeral)
  moreover have "nanos t = nanos u" by (rule fraction_text_inject[OF nano nano eq(7)])
  ultimately show ?thesis
    unfolding sec_def nanos_def
    by (metis div_mult_mod_eq eq_nat_nat_iff pos_mod_sign zero_less_numeral)
qed

end
