(* ===== verification/Evidence_Objects.thy ===== *)
theory Evidence_Objects
  imports Evidence_Json Go_Rfc3339 Go_Strings Model_Finding
begin

text \<open>
  \<open>internal/evidence/evidence.go\<close> and \<open>internal/evidence/ids.go\<close>, first part: the records of
  an evidence object and their validation, and how the records under an identifier look to
  \<open>encoding/json\<close>.  \<open>url.Parse\<close> is the parameter \<open>parse\<close> and the hexadecimal SHA-256 digest the
  parameter \<open>sha\<close>.
\<close>

section \<open>Vocabularies\<close>

datatype SourceKind =
    SourceWorkflowRunAttemptLog
  | SourceJobLog
  | SourceAPIJSON
  | SourceRepositoryContent
  | SourceDerivedRecord
  | SourceOtherBounded
  | OtherSourceKind string

primrec SourceKind_text :: "SourceKind \<Rightarrow> string" where
  "SourceKind_text SourceWorkflowRunAttemptLog = ''workflow_run_attempt_log''"
| "SourceKind_text SourceJobLog = ''job_log''"
| "SourceKind_text SourceAPIJSON = ''api_json''"
| "SourceKind_text SourceRepositoryContent = ''repository_content''"
| "SourceKind_text SourceDerivedRecord = ''derived_record''"
| "SourceKind_text SourceOtherBounded = ''other_bounded_kind''"
| "SourceKind_text (OtherSourceKind s) = s"

definition sourceKinds :: "SourceKind list" where
  [enum_defs]: "sourceKinds =
     [SourceWorkflowRunAttemptLog, SourceJobLog, SourceAPIJSON, SourceRepositoryContent, SourceDerivedRecord,
      SourceOtherBounded]"

definition SourceKind_of :: "string \<Rightarrow> SourceKind" where
  "SourceKind_of s = enum_of SourceKind_text sourceKinds OtherSourceKind s"

definition SourceKind_Valid :: "SourceKind \<Rightarrow> bool" where
  "SourceKind_Valid k \<longleftrightarrow> k \<in> set sourceKinds"

definition SourceKind_UnmarshalJSON :: "json option \<Rightarrow> goerr + SourceKind" where
  "SourceKind_UnmarshalJSON data =
     (case data of
        Some (JString value) \<Rightarrow>
          if \<not> SourceKind_Valid (SourceKind_of value) then Inl (Errorf (''unknown source kind '' @ value))
          else Inr (SourceKind_of value)
      | Some JNull \<Rightarrow> Inl (Errorf ''unknown source kind '')
      | _ \<Rightarrow> Inl (Wrapf ''decode source kind'' (Errorf ''json'')))"

datatype Provider = ProviderGitHub | ProviderCIRewind | OtherProvider string

primrec Provider_text :: "Provider \<Rightarrow> string" where
  "Provider_text ProviderGitHub = ''github.com''"
| "Provider_text ProviderCIRewind = ''cirewind''"
| "Provider_text (OtherProvider s) = s"

definition Provider_Valid :: "Provider \<Rightarrow> bool" where
  "Provider_Valid p \<longleftrightarrow> p = ProviderGitHub \<or> p = ProviderCIRewind"

datatype RedactionStatus =
    RedactionNotApplicable
  | RedactionNotInspected
  | RedactionStructuredAllowlist
  | RedactionRedacted
  | OtherRedactionStatus string

primrec RedactionStatus_text :: "RedactionStatus \<Rightarrow> string" where
  "RedactionStatus_text RedactionNotApplicable = ''not_applicable''"
| "RedactionStatus_text RedactionNotInspected = ''not_inspected''"
| "RedactionStatus_text RedactionStructuredAllowlist = ''structured_allowlist''"
| "RedactionStatus_text RedactionRedacted = ''redacted''"
| "RedactionStatus_text (OtherRedactionStatus s) = s"

definition RedactionStatus_Valid :: "RedactionStatus \<Rightarrow> bool" where
  "RedactionStatus_Valid s \<longleftrightarrow>
     s = RedactionNotApplicable \<or> s = RedactionNotInspected \<or> s = RedactionStructuredAllowlist \<or> s = RedactionRedacted"

datatype ErrorPhase = ErrorCollect | ErrorDecode | ErrorExtract | ErrorDerive | OtherErrorPhase string

primrec ErrorPhase_text :: "ErrorPhase \<Rightarrow> string" where
  "ErrorPhase_text ErrorCollect = ''collect''"
| "ErrorPhase_text ErrorDecode = ''decode''"
| "ErrorPhase_text ErrorExtract = ''extract''"
| "ErrorPhase_text ErrorDerive = ''derive''"
| "ErrorPhase_text (OtherErrorPhase s) = s"

definition ErrorPhase_Valid :: "ErrorPhase \<Rightarrow> bool" where
  "ErrorPhase_Valid p \<longleftrightarrow> p = ErrorCollect \<or> p = ErrorDecode \<or> p = ErrorExtract \<or> p = ErrorDerive"

section \<open>Checks on text\<close>

definition sensitiveName :: "string \<Rightarrow> bool" where
  "sensitiveName value \<longleftrightarrow>
     list_ex (ToLower_Contains value)
       [''authorization'', ''cookie'', ''token'', ''secret'', ''password'', ''signature'', ''credential'', ''jwt'', ''x-amz'']"

definition looksSensitive :: "string \<Rightarrow> bool" where
  "looksSensitive value \<longleftrightarrow>
     list_ex (ToLower_Contains value)
       [''authorization:'', ''bearer '', ''token='', ''access_token'', ''x-amz-signature'', ''x-goog-signature'', ''sig='']"

definition hasControl :: "string \<Rightarrow> bool" where
  "hasControl value \<longleftrightarrow> list_ex (\<lambda>r. r < 0x20 \<or> r = 0x7F) (rune_list value)"

definition safeRelativePath :: "string \<Rightarrow> bool" where
  "safeRelativePath value \<longleftrightarrow>
     value \<noteq> [] \<and> CHR 0x5C \<notin> set value \<and> \<not> HasPrefix value ''/'' \<and> path_Clean value = value \<and>
     value \<noteq> ''.'' \<and> \<not> HasPrefix value ''../''"

definition checkSHA256 :: "string \<Rightarrow> string \<Rightarrow> goerr option" where
  [validate_defs]: "checkSHA256 value label =
     first_error
      [require (\<not> (length value \<noteq> 64 \<or> value \<noteq> ToLower value))
         (Errorf (label @ '' must be 64 lowercase hexadecimal characters'')),
       require (hex_decodes value) (Errorf (label @ '' is not hexadecimal''))]"

text \<open>The evidence package has its own copies of the checks and the sorting of evidence identifiers.\<close>

definition validateSortedEvidenceIDs :: "EvidenceID list \<Rightarrow> goerr option" where
  "validateSortedEvidenceIDs ids =
     sorted_unique_from EvidenceID_Validate (Errorf ''evidence IDs must be strictly sorted and unique'') None ids"

definition sortEvidenceIDs :: "EvidenceID list \<Rightarrow> EvidenceID list" where
  "sortEvidenceIDs ids = compact (sort ids)"

definition SortedStrings :: "string list \<Rightarrow> string list" where
  "SortedStrings values = compact (sort values)"

section \<open>Logical sources\<close>

text \<open>A map of parameters is nil or an association list with distinct keys.\<close>

type_synonym RequestParameters = "(string \<times> string) slice"

definition check_parameter :: "string \<times> string \<Rightarrow> goerr option" where
  "check_parameter = (\<lambda>(key, v).
     first_error
      [require (\<not> (key = [] \<or> length key > 128 \<or> \<not> ValidUTF8 key \<or> sensitiveName key))
         (Errorf (''request parameter '' @ key @ '' is not allowlist-safe'')),
       require (\<not> (length v > 4096 \<or> \<not> ValidUTF8 v \<or> hasControl v \<or> looksSensitive v))
         (Errorf (''request parameter '' @ key @ '' has an unsafe value''))])"

definition RequestParameters_Validate :: "RequestParameters \<Rightarrow> goerr option" where
  [validate_defs]: "RequestParameters_Validate p =
     first_error
      ([require (p \<noteq> None) (Errorf ''request parameters must be an explicit object''),
        require (\<not> length (elems p) > 64) (Errorf ''too many recorded request parameters'')] @
       map check_parameter (elems p))"

record LogicalSourceIdentity =
  lsi_Kind :: SourceKind
  lsi_CanonicalID :: string
  lsi_Scope :: CoverageScope
  lsi_RequestParameters :: RequestParameters

definition LogicalSourceIdentity_Validate :: "LogicalSourceIdentity \<Rightarrow> goerr option" where
  [validate_defs]: "LogicalSourceIdentity_Validate i =
     first_error
      [require (SourceKind_Valid (lsi_Kind i)) (Errorf (''invalid source kind '' @ SourceKind_text (lsi_Kind i))),
       require (\<not> (lsi_CanonicalID i = [] \<or> length (lsi_CanonicalID i) > 4096 \<or> \<not> ValidUTF8 (lsi_CanonicalID i) \<or>
                   hasControl (lsi_CanonicalID i) \<or> looksSensitive (lsi_CanonicalID i)))
         (Errorf ''logical source canonical ID is unsafe''),
       CoverageScope_Validate (lsi_Scope i),
       RequestParameters_Validate (lsi_RequestParameters i)]"

record LogicalSource =
  ls_ID :: LogicalSourceID
  ls_Kind :: SourceKind
  ls_CanonicalID :: string
  ls_RequestParameters :: RequestParameters

definition LogicalSource_Identity :: "LogicalSource \<Rightarrow> CoverageScope \<Rightarrow> LogicalSourceIdentity" where
  "LogicalSource_Identity s scope =
     \<lparr>lsi_Kind = ls_Kind s, lsi_CanonicalID = ls_CanonicalID s, lsi_Scope = scope,
      lsi_RequestParameters = ls_RequestParameters s\<rparr>"

section \<open>Source, content and redaction\<close>

record SourceDescriptor =
  sd_Provider :: Provider
  sd_APIVersion :: string
  sd_EndpointTemplate :: string
  sd_SourceURL :: string
  sd_RequestParameters :: RequestParameters
  sd_RequestAttempt :: "32 word"
  sd_HTTPStatus :: "int option"

definition safe_source_url :: "URL option \<Rightarrow> bool" where
  "safe_source_url parsed =
     (case parsed of
        None \<Rightarrow> False
      | Some u \<Rightarrow> url_Scheme u = ''https'' \<and> url_Host u \<noteq> [] \<and> \<not> url_User u \<and> url_RawQuery u = [] \<and> url_Fragment u = [])"

definition http_status_ok :: "int option \<Rightarrow> bool" where
  "http_status_ok status = (case status of None \<Rightarrow> True | Some code \<Rightarrow> \<not> (code < 100 \<or> code > 599))"

definition SourceDescriptor_Validate :: "(string \<Rightarrow> URL option) \<Rightarrow> SourceDescriptor \<Rightarrow> goerr option" where
  "SourceDescriptor_Validate parse s =
     first_error
      [require (Provider_Valid (sd_Provider s)) (Errorf (''invalid source provider '' @ Provider_text (sd_Provider s))),
       require (sd_RequestAttempt s \<noteq> 0) (Errorf ''request attempt must be positive''),
       require (\<not> (length (sd_APIVersion s) > 128 \<or> length (sd_EndpointTemplate s) > 2048 \<or>
                   \<not> ValidUTF8 (sd_APIVersion s @ sd_EndpointTemplate s) \<or> looksSensitive (sd_EndpointTemplate s)))
         (Errorf ''source API descriptor is unsafe''),
       require (sd_SourceURL s = [] \<or> safe_source_url (parse (sd_SourceURL s)))
         (Errorf ''source URL must be a query-free HTTPS identifier without user information''),
       require (http_status_ok (sd_HTTPStatus s)) (Errorf ''HTTP status is outside the valid range''),
       RequestParameters_Validate (sd_RequestParameters s)]"

record ContentDescriptor =
  cd_MediaType :: string
  cd_ByteLength :: "64 word"
  cd_DeclaredByteLength :: "64 word option"
  cd_Complete :: bool
  cd_SourceSHA256 :: string
  cd_RetainedPayloadSHA256 :: "string option"
  cd_RawRetained :: bool
  cd_RetainedPath :: string

definition ContentDescriptor_Validate :: "ContentDescriptor \<Rightarrow> goerr option" where
  [validate_defs]: "ContentDescriptor_Validate c =
     first_error
      [require (\<not> (cd_MediaType c = [] \<or> length (cd_MediaType c) > 256 \<or> \<not> ValidUTF8 (cd_MediaType c)))
         (Errorf ''content media type is invalid''),
       checkSHA256 (cd_SourceSHA256 c) ''source SHA-256'',
       validate_pointer (\<lambda>digest. checkSHA256 digest ''retained payload SHA-256'') (cd_RetainedPayloadSHA256 c),
       if cd_RawRetained c
       then require (\<not> (cd_RetainedPayloadSHA256 c = None \<or> \<not> safeRelativePath (cd_RetainedPath c)))
              (Errorf ''raw-retained content requires a retained hash and safe relative path'')
       else require (cd_RetainedPath c = []) (Errorf ''discarded raw content cannot have a retained path'')]"

record ExtractorDescriptor =
  ed_Name :: string
  ed_Version :: string
  ed_RulesetSHA256 :: string

definition ExtractorDescriptor_Validate :: "ExtractorDescriptor \<Rightarrow> goerr option" where
  [validate_defs]: "ExtractorDescriptor_Validate e =
     first_error
      [require (\<not> (ed_Name e = [] \<or> length (ed_Name e) > 128 \<or> ed_Version e = [] \<or> length (ed_Version e) > 128 \<or>
                   \<not> ValidUTF8 (ed_Name e @ ed_Version e)))
         (Errorf ''extractor name or version is invalid''),
       checkSHA256 (ed_RulesetSHA256 e) ''extractor ruleset SHA-256'']"

record RedactionDescriptor =
  rd_Status :: RedactionStatus
  rd_PolicyVersion :: string

definition RedactionDescriptor_Validate :: "RedactionDescriptor \<Rightarrow> goerr option" where
  [validate_defs]: "RedactionDescriptor_Validate r =
     first_error
      [require (RedactionStatus_Valid (rd_Status r)) (Errorf (''invalid redaction status '' @ RedactionStatus_text (rd_Status r))),
       require (\<not> (rd_PolicyVersion r = [] \<or> length (rd_PolicyVersion r) > 128 \<or> \<not> ValidUTF8 (rd_PolicyVersion r)))
         (Errorf ''redaction policy version is invalid'')]"

record RetentionDescriptor =
  rt_MediaType :: string
  rt_ByteLength :: "64 word"
  rt_RawRetained :: bool
  rt_RetainedPayloadSHA256 :: "string option"
  rt_RedactionStatus :: RedactionStatus
  rt_RedactionPolicyVersion :: string

definition RetentionDescriptor_Validate :: "RetentionDescriptor \<Rightarrow> goerr option" where
  [validate_defs]: "RetentionDescriptor_Validate r =
     first_error
      [ContentDescriptor_Validate
         \<lparr>cd_MediaType = rt_MediaType r, cd_ByteLength = rt_ByteLength r, cd_DeclaredByteLength = None,
          cd_Complete = True, cd_SourceSHA256 = replicate 64 (CHR ''0''),
          cd_RetainedPayloadSHA256 = rt_RetainedPayloadSHA256 r, cd_RawRetained = rt_RawRetained r,
          cd_RetainedPath = (if rt_RawRetained r then ''raw/identity-placeholder'' else [])\<rparr>,
       RedactionDescriptor_Validate
         \<lparr>rd_Status = rt_RedactionStatus r, rd_PolicyVersion = rt_RedactionPolicyVersion r\<rparr>]"

record DerivationDescriptor =
  dd_Kind :: string
  dd_ParentEvidenceIDs :: "EvidenceID slice"
  dd_RuleID :: string
  dd_RuleVersion :: string
  dd_ParametersSHA256 :: "string option"

definition DerivationDescriptor_Validate :: "DerivationDescriptor \<Rightarrow> goerr option" where
  [validate_defs]: "DerivationDescriptor_Validate d =
     first_error
      [require (dd_ParentEvidenceIDs d \<noteq> None) (Errorf ''derivation parent evidence IDs must be an explicit array''),
       if dd_Kind d = []
       then require (\<not> (elems (dd_ParentEvidenceIDs d) \<noteq> [] \<or> dd_RuleID d \<noteq> [] \<or> dd_RuleVersion d \<noteq> [] \<or>
                        dd_ParametersSHA256 d \<noteq> None))
              (Errorf ''non-derived evidence cannot have derivation fields'')
       else first_error
             [require (\<not> (dd_RuleID d = [] \<or> dd_RuleVersion d = [] \<or> elems (dd_ParentEvidenceIDs d) = []))
                (Errorf ''derived evidence requires parents and a versioned rule''),
              validateSortedEvidenceIDs (elems (dd_ParentEvidenceIDs d)),
              validate_pointer (\<lambda>digest. checkSHA256 digest ''derivation parameters SHA-256'') (dd_ParametersSHA256 d)]]"

record EvidenceError =
  ee_Phase :: ErrorPhase
  ee_Code :: string
  ee_HTTPStatus :: "int option"
  ee_Retryable :: bool
  ee_PermissionRelated :: "bool option"
  ee_SanitizedMessage :: string
  ee_RawMessageSHA256 :: "string option"

definition EvidenceError_Validate :: "EvidenceError \<Rightarrow> goerr option" where
  [validate_defs]: "EvidenceError_Validate e =
     first_error
      [require (\<not> (\<not> ErrorPhase_Valid (ee_Phase e) \<or> ee_Code e = [] \<or> length (ee_Code e) > 128 \<or> \<not> ValidUTF8 (ee_Code e)))
         (Errorf ''evidence error phase or code is invalid''),
       require (http_status_ok (ee_HTTPStatus e)) (Errorf ''evidence error HTTP status is invalid''),
       require (\<not> (length (ee_SanitizedMessage e) > 2048 \<or> \<not> ValidUTF8 (ee_SanitizedMessage e) \<or>
                   hasControl (ee_SanitizedMessage e) \<or> looksSensitive (ee_SanitizedMessage e)))
         (Errorf ''evidence error message is not safely sanitized''),
       validate_pointer (\<lambda>digest. checkSHA256 digest ''raw error-message SHA-256'') (ee_RawMessageSHA256 e)]"

end
