(* ===== verification/Evidence_Ids.thy ===== *)
theory Evidence_Ids
  imports Evidence_Objects
begin

text \<open>
  \<open>internal/evidence/ids.go\<close> and the rest of \<open>internal/evidence/evidence.go\<close>: the content-addressed
  identifiers. Each constructor builds the struct its digest covers, as \<open>encoding/json\<close> sees it
  (a \<open>govalue\<close>, with the names and omitempty flags of the source's tags), and digests the canonical JSON.
  The parameter \<open>sha\<close> is the hexadecimal SHA-256 digest of a text, \<open>parse\<close> is \<open>url.Parse\<close>.
\<close>

section \<open>What the digests cover\<close>

definition optional_int :: "int option \<Rightarrow> govalue" where
  "optional_int p = GPointer (map_option GInt p)"

definition optional_word :: "'n::len word option \<Rightarrow> govalue" where
  "optional_word p = GPointer (map_option (GInt \<circ> uint) p)"

definition optional_string :: "string option \<Rightarrow> govalue" where
  "optional_string p = GPointer (map_option GString p)"

text \<open>A slice that \<open>append\<close> to nil has built: nil when empty.\<close>

definition built_slice :: "('a \<Rightarrow> govalue) \<Rightarrow> 'a list \<Rightarrow> govalue" where
  "built_slice f xs = GSlice (map_option (map f) (if xs = [] then None else Some xs))"

definition CoverageScope_value :: "CoverageScope \<Rightarrow> govalue" where
  "CoverageScope_value s =
     GStruct [(''repository_id'', True, optional_int (cs_RepositoryID s)),
       (''workflow_path'', True, optional_string (map_option WorkflowPath_string (cs_WorkflowPath s))),
       (''run_id'', True, optional_int (cs_RunID s)),
       (''run_attempt'', True, optional_word (cs_RunAttempt s)),
       (''job_id'', True, optional_int (cs_JobID s)),
       (''step_key'', True, GString (cs_StepKey s))]"

definition RequestParameters_value :: "RequestParameters \<Rightarrow> govalue" where
  "RequestParameters_value p = GMap (map_option (map (map_prod id GString)) p)"

definition Instant_value :: "Instant \<Rightarrow> govalue" where
  "Instant_value i = GCustom (case Instant_Validate i of Some e \<Rightarrow> Inl e | None \<Rightarrow> Inr (RFC3339Nano i))"

definition GitObjectID_value :: "GitObjectID \<Rightarrow> govalue" where
  "GitObjectID_value i =
     GStruct [(''algorithm'', False, GString (HashAlgorithm_text (oid_Algorithm i))), (''value'', False, GString (oid_Value i))]"

definition PackageDigest_value :: "PackageDigest \<Rightarrow> govalue" where
  "PackageDigest_value d =
     GStruct [(''subject'', False, GString (DigestSubject_text (dig_Subject d))),
       (''algorithm'', False, GString (HashAlgorithm_text (dig_Algorithm d))), (''value'', False, GString (dig_Value d))]"

definition JobExecutionIdentity_value :: "JobExecutionIdentity \<Rightarrow> govalue" where
  "JobExecutionIdentity_value i =
     GStruct [(''repository_id'', False, GInt (jid_RepositoryID i)), (''run_id'', False, GInt (jid_RunID i)),
       (''run_attempt'', False, GInt (uint (jid_RunAttempt i))), (''job_id'', False, GInt (jid_JobID i))]"

definition StepIdentity_value :: "StepIdentity \<Rightarrow> govalue" where
  "StepIdentity_value i =
     GStruct [(''job'', False, JobExecutionIdentity_value (sid_Job i)),
       (''timeline_record_id'', True, GString (sid_TimelineRecordID i)),
       (''api_step_number'', True, optional_int (sid_APIStepNumber i)),
       (''ast_ordinal'', True, optional_word (sid_ASTOrdinal i)),
       (''lifecycle_phase'', False, GString (LifecyclePhase_text (sid_LifecyclePhase i))),
       (''occurrence'', False, GInt (uint (sid_Occurrence i)))]"

definition EventInterval_value :: "EventInterval \<Rightarrow> govalue" where
  "EventInterval_value i =
     GStruct [(''start'', False, GPointer (map_option Instant_value (ei_Start i))),
       (''end'', False, GPointer (map_option Instant_value (ei_End i))),
       (''bounds'', False, optional_string (map_option IntervalBounds_text (ei_Bounds i))),
       (''source_precision'', False, GString (SourcePrecision_text (ei_Precision i))),
       (''approximation'', False, GString (TimeApproximation_text (ei_Approximation i))),
       (''basis'', False, GString (EventTimeBasis_text (ei_Basis i)))]"

definition SourceSpan_value :: "SourceSpan \<Rightarrow> govalue" where
  "SourceSpan_value s =
     GStruct [(''byte_start'', False, GInt (uint (ss_ByteStart s))), (''byte_end'', False, GInt (uint (ss_ByteEnd s))),
       (''line_start'', True, GInt (uint (ss_LineStart s))), (''line_end'', True, GInt (uint (ss_LineEnd s)))]"

definition CoverageGapDetail_value :: "CoverageGapDetail \<Rightarrow> govalue" where
  "CoverageGapDetail_value g =
     GStruct [(''reason'', False, GString (GapReason_text (gd_Reason g))), (''retryable'', False, GBool (gd_Retryable g)),
       (''material'', False, GBool (gd_Material g)),
       (''permission_related'', True, GPointer (map_option GBool (gd_PermissionRelated g))),
       (''sanitized_message'', True, GString (gd_SanitizedMessage g))]"

definition PropositionAttribute_value :: "PropositionAttribute \<Rightarrow> govalue" where
  "PropositionAttribute_value a = GStruct [(''name'', False, GString (pa_Name a)), (''value'', False, GString (pa_Value a))]"

definition Proposition_value :: "Proposition \<Rightarrow> govalue" where
  "Proposition_value p =
     GStruct [(''kind'', False, GString (pr_Kind p)),
       (''action_source_object_id'', True,
          GPointer (map_option (GitObjectID_value \<circ> ActionSourceObjectID_object) (pr_ActionSourceObjectID p))),
       (''package_digest'', True, GPointer (map_option PackageDigest_value (pr_PackageDigest p))),
       (''called_workflow_object_id'', True,
          GPointer (map_option (GitObjectID_value \<circ> CalledWorkflowObjectID_object) (pr_CalledWorkflowObjectID p))),
       (''attributes'', False, GSlice (map_option (map PropositionAttribute_value) (pr_Attributes p)))]"

definition RetentionDescriptor_value :: "RetentionDescriptor \<Rightarrow> govalue" where
  "RetentionDescriptor_value r =
     GStruct [(''media_type'', False, GString (rt_MediaType r)), (''byte_length'', False, GInt (uint (rt_ByteLength r))),
       (''raw_retained'', False, GBool (rt_RawRetained r)),
       (''retained_payload_sha256'', False, optional_string (rt_RetainedPayloadSHA256 r)),
       (''redaction_status'', False, GString (RedactionStatus_text (rt_RedactionStatus r))),
       (''redaction_policy_version'', False, GString (rt_RedactionPolicyVersion r))]"

section \<open>Identifiers\<close>

definition canonicalID :: "(string \<Rightarrow> string) \<Rightarrow> string \<Rightarrow> govalue \<Rightarrow> goerr + string" where
  "canonicalID sha prefix input =
     (case CanonicalJSON input of Inl e \<Rightarrow> Inl e | Inr preimage \<Rightarrow> Inr (prefix @ sha preimage))"

definition CanonicalSHA256 :: "(string \<Rightarrow> string) \<Rightarrow> govalue \<Rightarrow> goerr + string" where
  "CanonicalSHA256 sha input =
     (case CanonicalJSON input of Inl e \<Rightarrow> Inl e | Inr preimage \<Rightarrow> Inr (sha preimage))"

text \<open>Early returns before a final digest.\<close>

definition guarded :: "goerr option \<Rightarrow> goerr + 'a \<Rightarrow> goerr + 'a" where
  "guarded checks result = (case checks of Some e \<Rightarrow> Inl e | None \<Rightarrow> result)"

lemma guarded_Inr: "guarded checks result = Inr x \<longleftrightarrow> checks = None \<and> result = Inr x"
  by (simp add: guarded_def split: option.split)

definition source_preimage :: "LogicalSourceIdentity \<Rightarrow> govalue" where
  "source_preimage i =
     GStruct [(''version'', False, GString ''src1''), (''kind'', False, GString (SourceKind_text (lsi_Kind i))),
       (''canonical_id'', False, GString (lsi_CanonicalID i)), (''scope'', False, CoverageScope_value (lsi_Scope i)),
       (''request_parameters'', False, RequestParameters_value (lsi_RequestParameters i))]"

definition NewLogicalSourceID :: "(string \<Rightarrow> string) \<Rightarrow> LogicalSourceIdentity \<Rightarrow> goerr + LogicalSourceID" where
  "NewLogicalSourceID sha i =
     guarded (LogicalSourceIdentity_Validate i) (map_sum id LogicalSourceID (canonicalID sha ''src1:'' (source_preimage i)))"

definition evidence_preimage :: "LogicalSourceID \<Rightarrow> string \<Rightarrow> RetentionDescriptor \<Rightarrow> govalue" where
  "evidence_preimage source digest retention =
     GStruct [(''version'', False, GString ''ev1''), (''logical_source_id'', False, GString (LogicalSourceID_string source)),
       (''source_content_sha256'', False, GString digest), (''retention'', False, RetentionDescriptor_value retention)]"

definition NewEvidenceID ::
  "(string \<Rightarrow> string) \<Rightarrow> LogicalSourceID \<Rightarrow> string \<Rightarrow> RetentionDescriptor \<Rightarrow> goerr + EvidenceID" where
  "NewEvidenceID sha source digest retention =
     guarded (first_error [LogicalSourceID_Validate source, checkSHA256 digest ''source-content SHA-256'',
                RetentionDescriptor_Validate retention])
       (map_sum id EvidenceID (canonicalID sha ''ev1:'' (evidence_preimage source digest retention)))"

definition derived_preimage :: "DerivationDescriptor \<Rightarrow> string \<Rightarrow> govalue" where
  "derived_preimage d digest =
     GStruct [(''version'', False, GString ''derived1''), (''kind'', False, GString (dd_Kind d)),
       (''parent_evidence_ids'', False, GSlice (map_option (map (GString \<circ> EvidenceID_string)) (dd_ParentEvidenceIDs d))),
       (''rule_id'', False, GString (dd_RuleID d)), (''rule_version'', False, GString (dd_RuleVersion d)),
       (''parameters_sha256'', True, optional_string (dd_ParametersSHA256 d)),
       (''derived_payload_sha256'', False, GString digest)]"

definition sorted_parents :: "DerivationDescriptor \<Rightarrow> DerivationDescriptor" where
  "sorted_parents d =
     d\<lparr>dd_ParentEvidenceIDs := (let parents = sortEvidenceIDs (elems (dd_ParentEvidenceIDs d))
                               in if parents = [] then None else Some parents)\<rparr>"

definition derived_source :: "string \<Rightarrow> LogicalSourceID \<Rightarrow> LogicalSource" where
  "derived_source canonical i =
     \<lparr>ls_ID = i, ls_Kind = SourceDerivedRecord, ls_CanonicalID = canonical, ls_RequestParameters = Some []\<rparr>"

definition NewDerivedLogicalSource ::
  "(string \<Rightarrow> string) \<Rightarrow> CoverageScope \<Rightarrow> DerivationDescriptor \<Rightarrow> string \<Rightarrow> goerr + LogicalSource" where
  "NewDerivedLogicalSource sha scope d digest =
     (if dd_Kind d = [] then Inl (Errorf ''derived logical source requires derivation metadata'')
      else let e = sorted_parents d in
        guarded (first_error [DerivationDescriptor_Validate e, checkSHA256 digest ''derived payload SHA-256''])
          (case canonicalID sha ''derived1:'' (derived_preimage e digest) of
             Inl err \<Rightarrow> Inl err
           | Inr canonical \<Rightarrow>
               map_sum id (derived_source canonical)
                 (NewLogicalSourceID sha (LogicalSource_Identity (derived_source canonical (LogicalSourceID [])) scope))))"

definition collection_preimage :: "EvidenceID \<times> CollectionSessionID \<times> RequestID \<times> Instant \<times> 32 word \<Rightarrow> govalue" where
  "collection_preimage = (\<lambda>(evidence, session, request, ended, attempt).
     GStruct [(''version'', False, GString ''obs1''), (''evidence_id'', False, GString (EvidenceID_string evidence)),
       (''collection_session_id'', False, GString (CollectionSessionID_string session)),
       (''request_id'', False, GString (RequestID_string request)),
       (''collection_ended_at'', False, Instant_value ended), (''request_attempt'', False, GInt (uint attempt))])"

definition NewCollectionObservationID ::
  "(string \<Rightarrow> string) \<Rightarrow> EvidenceID \<Rightarrow> CollectionSessionID \<Rightarrow> RequestID \<Rightarrow> Instant \<Rightarrow> 32 word \<Rightarrow>
   goerr + CollectionObservationID" where
  "NewCollectionObservationID sha evidence session request ended attempt =
     guarded (first_error [EvidenceID_Validate evidence, CollectionSessionID_Validate session, RequestID_Validate request,
                Instant_Validate ended, require (attempt \<noteq> 0) (Errorf ''request attempt must be positive'')])
       (map_sum id CollectionObservationID (canonicalID sha ''obs1:''
          (collection_preimage (evidence, session, request, ended, attempt))))"

text \<open>The identifiers of the records of \<open>model\<close>: the record's own ID is replaced before validation and digest.\<close>

definition zero_digest :: string where
  "zero_digest = replicate 64 (CHR ''0'')"

definition runtime_preimage :: "RuntimeActionObservation \<Rightarrow> govalue" where
  "runtime_preimage ob =
     GStruct [(''version'', False, GString ''rtobs1''),
       (''kind'', False, GString (RuntimeObservationKind_text (ro_Kind ob))),
       (''execution'', False, JobExecutionIdentity_value (ro_Execution ob)),
       (''step'', True, GPointer (map_option StepIdentity_value (ro_Step ob))),
       (''action_repository'', False, GString (RepositorySlug_string (ro_ActionRepository ob))),
       (''action_subpath'', True, GString (ro_ActionSubpath ob)),
       (''declared_ref'', True, GString (ro_DeclaredRef ob)),
       (''source_object_id'', True, GPointer (map_option (GitObjectID_value \<circ> ActionSourceObjectID_object) (ro_SourceObjectID ob))),
       (''package_digest'', True, GPointer (map_option PackageDigest_value (ro_PackageDigest ob))),
       (''immutable_version'', True, GString (ro_ImmutableVersion ob)),
       (''event_time'', False, EventInterval_value (ro_EventTime ob)),
       (''source_evidence_ids'', False, built_slice (GString \<circ> EvidenceID_string) (ro_SourceEvidenceIDs ob)),
       (''source_span'', False, SourceSpan_value (ro_SourceSpan ob)),
       (''extractor_name'', False, GString (ro_ExtractorName ob)),
       (''extractor_version'', False, GString (ro_ExtractorVersion ob)),
       (''ruleset_sha256'', False, GString (ro_RulesetSHA256 ob))]"

definition NewRuntimeObservationID :: "(string \<Rightarrow> string) \<Rightarrow> RuntimeActionObservation \<Rightarrow> goerr + RuntimeObservationID" where
  "NewRuntimeObservationID sha observation =
     (let ob = observation\<lparr>ro_ID := RuntimeObservationID (''rtobs1:'' @ zero_digest),
                 ro_SourceEvidenceIDs := SortEvidenceIDs (ro_SourceEvidenceIDs observation)\<rparr>
      in guarded (RuntimeActionObservation_Validate ob)
           (map_sum id RuntimeObservationID (canonicalID sha ''rtobs1:'' (runtime_preimage ob))))"

text \<open>The comparison with the identifier that was recorded.\<close>

definition expect_id :: "string \<Rightarrow> goerr + 'a \<Rightarrow> 'a \<Rightarrow> goerr option" where
  "expect_id message expected actual =
     (case expected of
        Inl e \<Rightarrow> Some e
      | Inr i \<Rightarrow> require (i = actual) (Errorf message))"

lemma expect_id_None [simp]: "expect_id message expected actual = None \<longleftrightarrow> expected = Inr actual"
  by (auto simp: expect_id_def split: sum.split)

definition ValidateRuntimeObservationIdentity :: "(string \<Rightarrow> string) \<Rightarrow> RuntimeActionObservation \<Rightarrow> goerr option" where
  "ValidateRuntimeObservationIdentity sha ob =
     first_error [RuntimeActionObservation_Validate ob,
       expect_id ''runtime observation ID does not match its canonical identity'' (NewRuntimeObservationID sha ob) (ro_ID ob)]"

definition unit_preimage :: "CoverageUnit \<Rightarrow> govalue" where
  "unit_preimage u =
     GStruct [(''version'', False, GString ''cov1''), (''kind'', False, GString (CoverageKind_text (cu_Kind u))),
       (''scope'', False, CoverageScope_value (cu_Scope u)), (''logical_key'', False, GString (cu_LogicalKey u)),
       (''required_for_negative'', False, GBool (cu_RequiredForNegative u))]"

definition NewCoverageUnitID :: "(string \<Rightarrow> string) \<Rightarrow> CoverageUnit \<Rightarrow> goerr + CoverageUnitID" where
  "NewCoverageUnitID sha u =
     guarded (CoverageUnit_Validate (u\<lparr>cu_ID := CoverageUnitID (''cov1:'' @ zero_digest)\<rparr>))
       (map_sum id CoverageUnitID (canonicalID sha ''cov1:'' (unit_preimage u)))"

definition ValidateCoverageUnitIdentity :: "(string \<Rightarrow> string) \<Rightarrow> CoverageUnit \<Rightarrow> goerr option" where
  "ValidateCoverageUnitIdentity sha u =
     first_error [CoverageUnit_Validate u, expect_id ''coverage unit ID does not match its canonical identity'' (NewCoverageUnitID sha u) (cu_ID u)]"

definition assessment_preimage :: "CoverageAssessment \<Rightarrow> govalue" where
  "assessment_preimage a =
     GStruct [(''version'', False, GString ''cova1''),
       (''coverage_unit_id'', False, GString (CoverageUnitID_string (ca_UnitID a))),
       (''status'', False, GString (CoverageStatus_text (ca_Status a))),
       (''expected_count'', True, optional_word (ca_ExpectedCount a)),
       (''observed_count'', False, GInt (uint (ca_ObservedCount a))),
       (''gap'', True, GPointer (map_option CoverageGapDetail_value (ca_Gap a))),
       (''evidence_ids'', False, built_slice (GString \<circ> EvidenceID_string) (ca_EvidenceIDs a))]"

definition NewCoverageAssessmentID :: "(string \<Rightarrow> string) \<Rightarrow> CoverageAssessment \<Rightarrow> goerr + CoverageAssessmentID" where
  "NewCoverageAssessmentID sha assessment =
     (let a = assessment\<lparr>ca_ID := CoverageAssessmentID (''cova1:'' @ zero_digest),
                ca_EvidenceIDs := SortEvidenceIDs (ca_EvidenceIDs assessment)\<rparr>
      in guarded (CoverageAssessment_Validate a)
           (map_sum id CoverageAssessmentID (canonicalID sha ''cova1:'' (assessment_preimage a))))"

definition ValidateCoverageAssessmentIdentity :: "(string \<Rightarrow> string) \<Rightarrow> CoverageAssessment \<Rightarrow> goerr option" where
  "ValidateCoverageAssessmentIdentity sha a =
     first_error [CoverageAssessment_Validate a, expect_id ''coverage assessment ID does not match its canonical identity'' (NewCoverageAssessmentID sha a) (ca_ID a)]"

definition coverage_observation_preimage :: "CoverageAssessmentID \<times> CollectionSessionID \<times> Instant \<Rightarrow> govalue" where
  "coverage_observation_preimage = (\<lambda>(assessment, session, observed).
     GStruct [(''version'', False, GString ''covobs1''),
       (''coverage_assessment_id'', False, GString (CoverageAssessmentID_string assessment)),
       (''collection_session_id'', False, GString (CollectionSessionID_string session)),
       (''observed_at'', False, Instant_value observed)])"

definition NewCoverageObservationID ::
  "(string \<Rightarrow> string) \<Rightarrow> CoverageAssessmentID \<Rightarrow> CollectionSessionID \<Rightarrow> Instant \<Rightarrow> goerr + CoverageObservationID" where
  "NewCoverageObservationID sha assessment session observed =
     guarded (first_error [CoverageAssessmentID_Validate assessment, CollectionSessionID_Validate session,
                Instant_Validate observed])
       (map_sum id CoverageObservationID (canonicalID sha ''covobs1:''
          (coverage_observation_preimage (assessment, session, observed))))"

definition ValidateCoverageObservationIdentity :: "(string \<Rightarrow> string) \<Rightarrow> CoverageObservation \<Rightarrow> goerr option" where
  "ValidateCoverageObservationIdentity sha ob =
     first_error [CoverageObservation_Validate ob,
       expect_id ''coverage observation ID does not match its canonical identity''
         (NewCoverageObservationID sha (co_AssessmentID ob) (co_CollectionSessionID ob) (co_ObservedAt ob)) (co_ID ob)]"

section \<open>Findings\<close>

text \<open>
  \<open>apiVersionMajorPattern\<close>: lower-case group, slash, \<open>v\<close> and a number without leading zero, then
  an optional \<open>alpha\<close> or \<open>beta\<close> number.  The group has no slash, so the first slash ends it.
\<close>

definition positive_number :: "string \<Rightarrow> bool" where
  "positive_number s \<longleftrightarrow> s \<noteq> [] \<and> hd s \<noteq> CHR ''0'' \<and> list_all decimal_digit s"

definition pre_release :: "string \<Rightarrow> bool" where
  "pre_release s \<longleftrightarrow>
     s = [] \<or> (HasPrefix s ''alpha'' \<and> positive_number (drop 5 s)) \<or> (HasPrefix s ''beta'' \<and> positive_number (drop 4 s))"

definition IncidentAPIMajor :: "string \<Rightarrow> goerr + string" where
  "IncidentAPIMajor v =
     (let group = takeWhile (\<lambda>c. c \<noteq> CHR ''/'') v; tail = dropWhile (\<lambda>c. c \<noteq> CHR ''/'') v;
          digits = takeWhile decimal_digit (drop 2 tail); rest = dropWhile decimal_digit (drop 2 tail)
      in if group \<noteq> [] \<and> list_all (\<lambda>c. lower_letter c \<or> decimal_digit c \<or> c \<in> set ''.-'') group \<and>
            HasPrefix tail ''/v'' \<and> positive_number digits \<and> pre_release rest
         then Inr (CHR ''v'' # digits)
         else Inl (Errorf (''incident API version '' @ v @ '' does not encode a supported major'')))"

record findingSubjectIdentity =
  si_RepositoryID :: RepositoryID
  si_WorkflowPath :: "WorkflowPath option"
  si_WorkflowObjectID :: "WorkflowDefinitionObjectID option"
  si_WorkflowUnknown :: bool
  si_RunID :: "WorkflowRunID option"
  si_RunAttempt :: "RunAttempt option"
  si_JobID :: "JobID option"
  si_StepKey :: string

text \<open>The step key of a validated subject exists: \<open>None\<close> is the panic of \<open>Key\<close> on a nil step number.\<close>

definition subjectIdentity :: "FindingSubject \<Rightarrow> findingSubjectIdentity option" where
  "subjectIdentity s =
     map_option (\<lambda>key.
       \<lparr>si_RepositoryID = rs_ID (fs_Repository s), si_WorkflowPath = ws_Path (fs_Workflow s),
        si_WorkflowObjectID = ws_DefinitionObjectID (fs_Workflow s),
        si_WorkflowUnknown = (ws_Path (fs_Workflow s) = None), si_RunID = fs_RunID s, si_RunAttempt = fs_RunAttempt s,
        si_JobID = fs_JobID s, si_StepKey = key\<rparr>)
       (case fs_Step s of None \<Rightarrow> Some [] | Some step \<Rightarrow> StepIdentity_Key step)"

definition findingSubjectIdentity_value :: "findingSubjectIdentity \<Rightarrow> govalue" where
  "findingSubjectIdentity_value i =
     GStruct [(''repository_id'', False, GInt (si_RepositoryID i)),
       (''workflow_path'', False, optional_string (map_option WorkflowPath_string (si_WorkflowPath i))),
       (''workflow_object_id'', False,
          GPointer (map_option (GitObjectID_value \<circ> WorkflowDefinitionObjectID_object) (si_WorkflowObjectID i))),
       (''workflow_unknown'', False, GBool (si_WorkflowUnknown i)), (''run_id'', False, optional_int (si_RunID i)),
       (''run_attempt'', False, optional_word (si_RunAttempt i)), (''job_id'', False, optional_int (si_JobID i)),
       (''step_key'', True, GString (si_StepKey i))]"

record FindingLogicalInput =
  fli_IncidentID :: string
  fli_IncidentAPI :: string
  fli_IndicatorID :: string
  fli_Subject :: FindingSubject
  fli_PropositionKind :: string

definition finding_preimage :: "FindingLogicalInput \<Rightarrow> string \<Rightarrow> findingSubjectIdentity \<Rightarrow> govalue" where
  "finding_preimage input major subject =
     GStruct [(''version'', False, GString ''find1''), (''incident_id'', False, GString (fli_IncidentID input)),
       (''incident_api_major'', False, GString major), (''indicator_id'', False, GString (fli_IndicatorID input)),
       (''subject'', False, findingSubjectIdentity_value subject),
       (''proposition_kind'', False, GString (fli_PropositionKind input))]"

text \<open>The case of a subject without identity is the panic that \<open>subject_identity_total\<close> excludes.\<close>

definition NewFindingID :: "(string \<Rightarrow> string) \<Rightarrow> FindingLogicalInput \<Rightarrow> goerr + FindingID" where
  "NewFindingID sha input =
     guarded (first_error
        [require (\<not> (fli_IncidentID input = [] \<or> fli_IndicatorID input = [] \<or> fli_PropositionKind input = []))
           (Errorf ''finding identity requires incident, indicator, and proposition kind''),
         FindingSubject_Validate (fli_Subject input)])
      (case IncidentAPIMajor (fli_IncidentAPI input) of
         Inl e \<Rightarrow> Inl e
       | Inr major \<Rightarrow>
           (case subjectIdentity (fli_Subject input) of
              None \<Rightarrow> Inl (Errorf ''nil pointer dereference'')
            | Some subject \<Rightarrow> map_sum id FindingID (canonicalID sha ''find1:'' (finding_preimage input major subject))))"

record FindingRevisionInput =
  fri_FindingID :: FindingID
  fri_CanonicalPackSHA256 :: string
  fri_State :: FindingState
  fri_Provenance :: ProvenanceLevel
  fri_EvidenceIDs :: "EvidenceID list"
  fri_CoverageIDs :: "CoverageAssessmentID list"
  fri_RuleVersion :: string
  fri_Proposition :: Proposition

definition revision_preimage :: "FindingRevisionInput \<Rightarrow> govalue" where
  "revision_preimage i =
     GStruct [(''version'', False, GString ''frev1''), (''finding_id'', False, GString (FindingID_string (fri_FindingID i))),
       (''canonical_pack_sha256'', False, GString (fri_CanonicalPackSHA256 i)),
       (''state'', False, GString (FindingState_text (fri_State i))),
       (''provenance'', False, GString (ProvenanceLevel_text (fri_Provenance i))),
       (''evidence_ids'', False, built_slice (GString \<circ> EvidenceID_string) (fri_EvidenceIDs i)),
       (''coverage_ids'', False, built_slice (GString \<circ> CoverageAssessmentID_string) (fri_CoverageIDs i)),
       (''rule_version'', False, GString (fri_RuleVersion i)), (''proposition'', False, Proposition_value (fri_Proposition i))]"

definition normal_revision :: "FindingRevisionInput \<Rightarrow> FindingRevisionInput" where
  "normal_revision i =
     i\<lparr>fri_EvidenceIDs := SortEvidenceIDs (fri_EvidenceIDs i), fri_CoverageIDs := SortCoverageAssessmentIDs (fri_CoverageIDs i),
       fri_Proposition := NormalizeProposition (fri_Proposition i)\<rparr>"

definition NewFindingRevisionID :: "(string \<Rightarrow> string) \<Rightarrow> FindingRevisionInput \<Rightarrow> goerr + FindingRevisionID" where
  "NewFindingRevisionID sha input =
     (let i = normal_revision input in
      guarded (first_error
        ([FindingID_Validate (fri_FindingID i),
          checkSHA256 (fri_CanonicalPackSHA256 i) ''canonical pack SHA-256'',
          require (\<not> (\<not> FindingState_Valid (fri_State i) \<or> \<not> ProvenanceLevel_Valid (fri_Provenance i) \<or> fri_RuleVersion i = []))
            (Errorf ''finding revision has invalid state, provenance, or rule version''),
          Proposition_Validate (fri_Proposition i)] @
         map EvidenceID_Validate (fri_EvidenceIDs i) @ map CoverageAssessmentID_Validate (fri_CoverageIDs i)))
       (map_sum id FindingRevisionID (canonicalID sha ''frev1:'' (revision_preimage i))))"

definition logical_input :: "Finding \<Rightarrow> FindingLogicalInput" where
  "logical_input f =
     \<lparr>fli_IncidentID = ir_ID (fi_Incident f), fli_IncidentAPI = ir_APIVersion (fi_Incident f),
      fli_IndicatorID = fi_IndicatorID f, fli_Subject = fi_Subject f, fli_PropositionKind = pr_Kind (fi_Proposition f)\<rparr>"

definition revision_input :: "Finding \<Rightarrow> FindingRevisionInput" where
  "revision_input f =
     \<lparr>fri_FindingID = fi_FindingID f, fri_CanonicalPackSHA256 = ir_CanonicalPackSHA256 (fi_Incident f),
      fri_State = fi_State f, fri_Provenance = fi_ProvenanceLevel f, fri_EvidenceIDs = elems (fi_EvidenceObjectIDs f),
      fri_CoverageIDs = elems (fi_CollectionCoverage f), fri_RuleVersion = dr_RuleVersion (fi_Derivation f),
      fri_Proposition = fi_Proposition f\<rparr>"

definition ValidateFindingIdentity :: "(string \<Rightarrow> string) \<Rightarrow> Finding \<Rightarrow> goerr option" where
  "ValidateFindingIdentity sha f =
     first_error [Finding_Validate f,
       expect_id ''finding ID does not match its canonical identity'' (NewFindingID sha (logical_input f)) (fi_FindingID f),
       expect_id ''finding revision ID does not match its canonical identity'' (NewFindingRevisionID sha (revision_input f)) (fi_FindingRevisionID f)]"

section \<open>Evidence objects, observations and envelopes\<close>

definition LogicalSource_Validate :: "(string \<Rightarrow> string) \<Rightarrow> LogicalSource \<Rightarrow> CoverageScope \<Rightarrow> goerr option" where
  "LogicalSource_Validate sha s scope =
     first_error [LogicalSourceID_Validate (ls_ID s), LogicalSourceIdentity_Validate (LogicalSource_Identity s scope),
       expect_id ''logical source ID does not match its canonical identity'' (NewLogicalSourceID sha (LogicalSource_Identity s scope)) (ls_ID s)]"

record EvidenceObject =
  eo_SchemaVersion :: string
  eo_ID :: EvidenceID
  eo_LogicalSource :: LogicalSource
  eo_Source :: SourceDescriptor
  eo_Scope :: CoverageScope
  eo_EventTime :: EventInterval
  eo_Content :: ContentDescriptor
  eo_Extractor :: ExtractorDescriptor
  eo_Redaction :: RedactionDescriptor
  eo_Derivation :: DerivationDescriptor
  eo_Errors :: "EvidenceError slice"

definition EvidenceSchemaVersion :: string where
  "EvidenceSchemaVersion = ''cirewind.evidence/v1alpha1''"

definition retention_of :: "EvidenceObject \<Rightarrow> RetentionDescriptor" where
  "retention_of e =
     \<lparr>rt_MediaType = cd_MediaType (eo_Content e), rt_ByteLength = cd_ByteLength (eo_Content e),
      rt_RawRetained = cd_RawRetained (eo_Content e), rt_RetainedPayloadSHA256 = cd_RetainedPayloadSHA256 (eo_Content e),
      rt_RedactionStatus = rd_Status (eo_Redaction e), rt_RedactionPolicyVersion = rd_PolicyVersion (eo_Redaction e)\<rparr>"

definition check_derived :: "(string \<Rightarrow> string) \<Rightarrow> EvidenceObject \<Rightarrow> goerr option" where
  "check_derived sha e =
     (if dd_Kind (eo_Derivation e) \<noteq> [] then
        first_error
         [require (\<not> (sd_Provider (eo_Source e) \<noteq> ProviderCIRewind \<or> ls_Kind (eo_LogicalSource e) \<noteq> SourceDerivedRecord))
            (Errorf ''derived evidence must use the CIRewind provider and derived-record source kind''),
          (case NewDerivedLogicalSource sha (eo_Scope e) (eo_Derivation e) (cd_SourceSHA256 (eo_Content e)) of
             Inl err \<Rightarrow> Some err
           | Inr expected \<Rightarrow>
               require (\<not> (ls_ID expected \<noteq> ls_ID (eo_LogicalSource e) \<or>
                           ls_CanonicalID expected \<noteq> ls_CanonicalID (eo_LogicalSource e)))
                 (Errorf ''derived logical source does not match its parent/rule/payload identity''))]
      else require (ls_Kind (eo_LogicalSource e) \<noteq> SourceDerivedRecord)
             (Errorf ''derived-record source requires derivation metadata''))"

definition EvidenceObject_Validate ::
  "(string \<Rightarrow> URL option) \<Rightarrow> (string \<Rightarrow> string) \<Rightarrow> EvidenceObject \<Rightarrow> goerr option" where
  "EvidenceObject_Validate parse sha e =
     first_error
      ([require (eo_SchemaVersion e = EvidenceSchemaVersion) (Errorf (''unsupported evidence schema '' @ eo_SchemaVersion e)),
        EvidenceID_Validate (eo_ID e),
        LogicalSource_Validate sha (eo_LogicalSource e) (eo_Scope e),
        SourceDescriptor_Validate parse (eo_Source e),
        CoverageScope_Validate (eo_Scope e),
        EventInterval_Validate (eo_EventTime e),
        ContentDescriptor_Validate (eo_Content e),
        ExtractorDescriptor_Validate (eo_Extractor e),
        RedactionDescriptor_Validate (eo_Redaction e),
        DerivationDescriptor_Validate (eo_Derivation e),
        check_derived sha e,
        require (eo_Errors e \<noteq> None) (Errorf ''evidence errors must be an explicit array'')] @
       map EvidenceError_Validate (elems (eo_Errors e)) @
       [require (\<not> (\<not> cd_Complete (eo_Content e) \<and> elems (eo_Errors e) = []))
          (Errorf ''incomplete evidence requires a typed error''),
        expect_id ''evidence ID does not match content and retention identity'' (NewEvidenceID sha (ls_ID (eo_LogicalSource e)) (cd_SourceSHA256 (eo_Content e)) (retention_of e))
          (eo_ID e),
        require (eo_ID e \<notin> set (elems (dd_ParentEvidenceIDs (eo_Derivation e))))
          (Errorf ''evidence object cannot derive from itself'')])"

record CollectionObservation =
  ob_ID :: CollectionObservationID
  ob_EvidenceID :: EvidenceID
  ob_CollectionSessionID :: CollectionSessionID
  ob_RequestID :: RequestID
  ob_RequestAttempt :: "32 word"
  ob_CollectionTime :: CollectionWindow

definition CollectionObservation_Validate :: "(string \<Rightarrow> string) \<Rightarrow> CollectionObservation \<Rightarrow> goerr option" where
  "CollectionObservation_Validate sha ob =
     first_error
      [CollectionObservationID_Validate (ob_ID ob), EvidenceID_Validate (ob_EvidenceID ob),
       CollectionSessionID_Validate (ob_CollectionSessionID ob), RequestID_Validate (ob_RequestID ob),
       require (ob_RequestAttempt ob \<noteq> 0) (Errorf ''collection request attempt must be positive''),
       CollectionWindow_Validate (ob_CollectionTime ob),
       expect_id ''collection observation ID does not match its canonical identity''
         (NewCollectionObservationID sha (ob_EvidenceID ob) (ob_CollectionSessionID ob) (ob_RequestID ob)
            (cw_EndedAt (ob_CollectionTime ob)) (ob_RequestAttempt ob)) (ob_ID ob)]"

record Envelope =
  en_Evidence :: EvidenceObject
  en_Observation :: CollectionObservation

definition Envelope_Validate :: "(string \<Rightarrow> URL option) \<Rightarrow> (string \<Rightarrow> string) \<Rightarrow> Envelope \<Rightarrow> goerr option" where
  "Envelope_Validate parse sha e =
     first_error
      [EvidenceObject_Validate parse sha (en_Evidence e), CollectionObservation_Validate sha (en_Observation e),
       require (eo_ID (en_Evidence e) = ob_EvidenceID (en_Observation e))
         (Errorf ''collection observation references a different evidence object'')]"

text \<open>\<open>factory.go\<close>: the envelope of a collected source. Raw bytes are digested and not retained.\<close>

record EnvelopeInput =
  in_Kind :: SourceKind
  in_CanonicalSourceID :: string
  in_Provider :: Provider
  in_APIVersion :: string
  in_EndpointTemplate :: string
  in_SourceURL :: string
  in_RequestParameters :: RequestParameters
  in_RequestAttempt :: "32 word"
  in_HTTPStatus :: "int option"
  in_Scope :: CoverageScope
  in_EventTime :: EventInterval
  in_MediaType :: string
  in_SourceBytes :: "char slice"
  in_Complete :: bool
  in_Extractor :: ExtractorDescriptor
  in_Redaction :: RedactionDescriptor
  in_Errors :: "EvidenceError slice"
  in_CollectionSession :: CollectionSessionID
  in_RequestID :: RequestID
  in_CollectionTime :: CollectionWindow

definition explicit :: "'a slice \<Rightarrow> 'a slice" where
  "explicit xs = Some (elems xs)"

definition with_defaults :: "EnvelopeInput \<Rightarrow> EnvelopeInput" where
  "with_defaults i =
     i\<lparr>in_RequestParameters := explicit (in_RequestParameters i), in_Errors := explicit (in_Errors i),
       in_RequestAttempt := (if in_RequestAttempt i = 0 then 1 else in_RequestAttempt i),
       in_EventTime :=
         (if SourcePrecision_text (ei_Precision (in_EventTime i)) = []
          then \<lparr>ei_Start = None, ei_End = None, ei_Bounds = None, ei_Precision = PrecisionUnknown,
                ei_Approximation = ApproximationUnknown, ei_Basis = TimeBasisUnknown\<rparr>
          else in_EventTime i)\<rparr>"

definition source_of :: "EnvelopeInput \<Rightarrow> LogicalSourceIdentity" where
  "source_of i =
     \<lparr>lsi_Kind = in_Kind i, lsi_CanonicalID = in_CanonicalSourceID i, lsi_Scope = in_Scope i,
      lsi_RequestParameters = in_RequestParameters i\<rparr>"

definition retention_for :: "EnvelopeInput \<Rightarrow> RetentionDescriptor" where
  "retention_for i =
     \<lparr>rt_MediaType = in_MediaType i, rt_ByteLength = of_nat (length (elems (in_SourceBytes i))), rt_RawRetained = False,
      rt_RetainedPayloadSHA256 = None, rt_RedactionStatus = rd_Status (in_Redaction i),
      rt_RedactionPolicyVersion = rd_PolicyVersion (in_Redaction i)\<rparr>"

definition envelope_for ::
  "EnvelopeInput \<Rightarrow> LogicalSourceID \<Rightarrow> string \<Rightarrow> EvidenceID \<Rightarrow> CollectionObservationID \<Rightarrow> Envelope" where
  "envelope_for i source digest evidence observation =
     \<lparr>en_Evidence =
        \<lparr>eo_SchemaVersion = EvidenceSchemaVersion, eo_ID = evidence,
         eo_LogicalSource = \<lparr>ls_ID = source, ls_Kind = in_Kind i, ls_CanonicalID = in_CanonicalSourceID i,
           ls_RequestParameters = in_RequestParameters i\<rparr>,
         eo_Source = \<lparr>sd_Provider = in_Provider i, sd_APIVersion = in_APIVersion i,
           sd_EndpointTemplate = in_EndpointTemplate i, sd_SourceURL = in_SourceURL i,
           sd_RequestParameters = in_RequestParameters i, sd_RequestAttempt = in_RequestAttempt i,
           sd_HTTPStatus = in_HTTPStatus i\<rparr>,
         eo_Scope = in_Scope i, eo_EventTime = in_EventTime i,
         eo_Content = \<lparr>cd_MediaType = in_MediaType i, cd_ByteLength = of_nat (length (elems (in_SourceBytes i))),
           cd_DeclaredByteLength = None, cd_Complete = in_Complete i, cd_SourceSHA256 = digest,
           cd_RetainedPayloadSHA256 = None, cd_RawRetained = False, cd_RetainedPath = []\<rparr>,
         eo_Extractor = in_Extractor i, eo_Redaction = in_Redaction i,
         eo_Derivation = \<lparr>dd_Kind = [], dd_ParentEvidenceIDs = Some [], dd_RuleID = [], dd_RuleVersion = [],
           dd_ParametersSHA256 = None\<rparr>,
         eo_Errors = in_Errors i\<rparr>,
      en_Observation =
        \<lparr>ob_ID = observation, ob_EvidenceID = evidence, ob_CollectionSessionID = in_CollectionSession i,
         ob_RequestID = in_RequestID i, ob_RequestAttempt = in_RequestAttempt i, ob_CollectionTime = in_CollectionTime i\<rparr>\<rparr>"

definition NewEnvelope ::
  "(string \<Rightarrow> URL option) \<Rightarrow> (string \<Rightarrow> string) \<Rightarrow> EnvelopeInput \<Rightarrow> goerr + Envelope" where
  "NewEnvelope parse sha input =
     (let i = with_defaults input; digest = sha (elems (in_SourceBytes i)) in
      if in_SourceBytes i = None then Inl (Errorf ''source bytes must be an explicit byte slice'')
      else case NewLogicalSourceID sha (source_of i) of
        Inl e \<Rightarrow> Inl (Wrapf ''logical source'' e)
      | Inr source \<Rightarrow>
          (case NewEvidenceID sha source digest (retention_for i) of
             Inl e \<Rightarrow> Inl (Wrapf ''evidence identity'' e)
           | Inr evidence \<Rightarrow>
               (case NewCollectionObservationID sha evidence (in_CollectionSession i) (in_RequestID i)
                       (cw_EndedAt (in_CollectionTime i)) (in_RequestAttempt i) of
                  Inl e \<Rightarrow> Inl (Wrapf ''collection observation identity'' e)
                | Inr observation \<Rightarrow>
                    (let envelope = envelope_for i source digest evidence observation
                     in guarded (Envelope_Validate parse sha envelope) (Inr envelope)))))"

section \<open>The digests cover every field\<close>

lemma marshal_not_null [same_json_simps]:
  "marshal (GStruct fs) \<noteq> Inr JNull" "marshal (GString s) \<noteq> Inr JNull" "marshal (GInt i) \<noteq> Inr JNull"
  "marshal (GBool b) \<noteq> Inr JNull" "marshal (GCustom r) \<noteq> Inr JNull"
  by (auto simp: map_sum_Inr)

lemma same_optional [same_json_simps]:
  "same_json (optional_int p) (optional_int q) \<longleftrightarrow> p = q"
  "same_json (optional_string s) (optional_string t) \<longleftrightarrow> s = t"
  "same_json (optional_word v) (optional_word w) \<longleftrightarrow> v = (w :: 'n::len word option)"
  by (simp_all add: optional_int_def optional_string_def optional_word_def same_json_simps option.rel_eq
      flip: word_uint_eq_iff)

lemma same_omitted_pointer [same_json_simps]:
  assumes "\<And>x. x \<in> set_option p \<union> set_option q \<Longrightarrow> marshal (f x) \<noteq> Inr JNull"
  shows "same_field True (GPointer (map_option f p)) (GPointer (map_option f q)) \<longleftrightarrow>
    rel_option (\<lambda>x y. same_json (f x) (f y)) p q"
  using same_json_pointer[of p q f, OF assms] by (cases p; cases q) (simp_all add: same_field_pointer)

lemma same_omitted_optional [same_json_simps]:
  "same_field True (optional_int p) (optional_int q) \<longleftrightarrow> p = q"
  "same_field True (optional_string s) (optional_string t) \<longleftrightarrow> s = t"
  "same_field True (optional_word v) (optional_word w) \<longleftrightarrow> v = (w :: 'n::len word option)"
  by (simp_all add: optional_int_def optional_string_def optional_word_def same_json_simps option.rel_eq
      eq_commute[of None] flip: word_uint_eq_iff)

lemma same_built_slice [same_json_simps]:
  "same_json (built_slice f xs) (built_slice f ys) \<longleftrightarrow> list_all2 (\<lambda>x y. same_json (f x) (f y)) xs ys"
  unfolding built_slice_def same_json_slice by (auto simp: list_all2_Nil list_all2_Nil2)

lemma repository_path_inject [simp]: "map_option WorkflowPath_string p = map_option WorkflowPath_string q \<longleftrightarrow> p = q"
  by (cases p; cases q) (auto simp: WorkflowPath.expand)

lemma CoverageScope_value_inject:
  "same_json (CoverageScope_value s) (CoverageScope_value t) \<Longrightarrow> s = t"
  unfolding CoverageScope_value_def
  by (drule same_structD) (simp_all add: same_json_simps)

lemma JobExecutionIdentity_value_inject:
  "same_json (JobExecutionIdentity_value i) (JobExecutionIdentity_value j) \<Longrightarrow> i = j"
  unfolding JobExecutionIdentity_value_def
  by (drule same_structD) (simp_all add: same_json_simps flip: word_uint_eq_iff)

lemma StepIdentity_value_inject:
  assumes "same_json (StepIdentity_value i) (StepIdentity_value j)"
    and "LifecyclePhase_Valid (sid_LifecyclePhase i)" "LifecyclePhase_Valid (sid_LifecyclePhase j)"
  shows "i = j"
  using same_structD[OF assms(1)[unfolded StepIdentity_value_def]] assms(2,3)
  by (simp add: same_json_simps LifecyclePhase_enum.repr_inject JobExecutionIdentity_value_inject flip: word_uint_eq_iff)

lemma GitObjectID_value_inject:
  assumes "same_json (GitObjectID_value i) (GitObjectID_value j)"
    and "HashAlgorithm_Valid (oid_Algorithm i)" "HashAlgorithm_Valid (oid_Algorithm j)"
  shows "i = j"
  using same_structD[OF assms(1)[unfolded GitObjectID_value_def]] assms(2,3)
  by (simp add: same_json_simps HashAlgorithm_enum.repr_inject)

lemma rel_option_eqI:
  assumes "rel_option R p q" "\<And>x y. p = Some x \<Longrightarrow> q = Some y \<Longrightarrow> R x y \<Longrightarrow> x = y"
  shows "p = q"
  using assms(1)
proof (cases rule: option.rel_cases)
  case (Some x y)
  then show ?thesis using assms(2) by metis
qed simp

lemma list_all2_eqI:
  assumes "list_all2 R xs ys" "\<And>x y. R x y \<Longrightarrow> x = y"
  shows "xs = ys"
  using assms(1) by (induction rule: list_all2_induct) (use assms(2) in blast)+

lemma PackageDigest_value_inject:
  assumes "same_json (PackageDigest_value i) (PackageDigest_value j)"
    and "DigestSubject_Valid (dig_Subject i)" "DigestSubject_Valid (dig_Subject j)" "dig_Algorithm i = dig_Algorithm j"
  shows "i = j"
  using same_structD[OF assms(1)[unfolded PackageDigest_value_def]] assms(2-4)
  by (simp add: same_json_simps DigestSubject_enum.repr_inject)

lemma Instant_value_inject:
  assumes "same_json (Instant_value t) (Instant_value u)" "Instant_Validate t = None" "Instant_Validate u = None"
  shows "t = u"
proof -
  have "RFC3339Nano t = RFC3339Nano u" using assms by (simp add: Instant_value_def same_json_simps)
  then have "ns t = ns u" by (rule RFC3339Nano_inject)
  moreover have "utc t" "utc u" using assms(2,3) by (simp_all add: normalized_def)
  ultimately show ?thesis by (simp add: gotime_eqI)
qed

lemma interval_start:
  assumes "EventInterval_Validate i = None" "ei_Start i = Some t"
  shows "Instant_Validate t = None"
  using assms(1) unfolding EventInterval_Validate_def assms(2)
  by (cases "ei_End i") simp_all

lemma interval_end:
  assumes "EventInterval_Validate i = None" "ei_End i = Some t"
  shows "Instant_Validate t = None"
  using assms(1) unfolding EventInterval_Validate_def assms(2)
  by (cases "ei_Start i") simp_all

lemma interval_bounds:
  assumes "EventInterval_Validate i = None" "ei_Bounds i = Some b"
  shows "IntervalBounds_Valid b"
  using assms(1) unfolding EventInterval_Validate_def assms(2)
  by (cases "ei_Start i"; cases "ei_End i") simp_all

lemma interval_enums:
  assumes "EventInterval_Validate i = None"
  shows "SourcePrecision_Valid (ei_Precision i)" "TimeApproximation_Valid (ei_Approximation i)" "EventTimeBasis_Valid (ei_Basis i)"
  using assms unfolding EventInterval_Validate_def first_error_None require_None by blast+

lemma EventInterval_value_inject:
  assumes "same_json (EventInterval_value i) (EventInterval_value j)"
    and valid: "EventInterval_Validate i = None" "EventInterval_Validate j = None"
  shows "i = j"
proof -
  have custom: "marshal (Instant_value t) \<noteq> Inr JNull" for t by (simp add: Instant_value_def same_json_simps)
  have same: "same_fields
     [(''start'', False, GPointer (map_option Instant_value (ei_Start i))), (''end'', False, GPointer (map_option Instant_value (ei_End i))),
       (''bounds'', False, optional_string (map_option IntervalBounds_text (ei_Bounds i))),
       (''source_precision'', False, GString (SourcePrecision_text (ei_Precision i))),
       (''approximation'', False, GString (TimeApproximation_text (ei_Approximation i))),
       (''basis'', False, GString (EventTimeBasis_text (ei_Basis i)))]
     [(''start'', False, GPointer (map_option Instant_value (ei_Start j))), (''end'', False, GPointer (map_option Instant_value (ei_End j))),
       (''bounds'', False, optional_string (map_option IntervalBounds_text (ei_Bounds j))),
       (''source_precision'', False, GString (SourcePrecision_text (ei_Precision j))),
       (''approximation'', False, GString (TimeApproximation_text (ei_Approximation j))),
       (''basis'', False, GString (EventTimeBasis_text (ei_Basis j)))]"
    by (rule same_structD[OF assms(1)[unfolded EventInterval_value_def]]) simp_all
  have "ei_Start i = ei_Start j"
    by (rule rel_option_eqI[of "\<lambda>t u. same_json (Instant_value t) (Instant_value u)"])
      (use same in \<open>simp add: same_json_simps custom\<close>, metis Instant_value_inject interval_start valid)
  moreover have "ei_End i = ei_End j"
    by (rule rel_option_eqI[of "\<lambda>t u. same_json (Instant_value t) (Instant_value u)"])
      (use same in \<open>simp add: same_json_simps custom\<close>, metis Instant_value_inject interval_end valid)
  moreover have "ei_Bounds i = ei_Bounds j"
    using same interval_bounds[OF valid(1)] interval_bounds[OF valid(2)]
    by (cases "ei_Bounds i"; cases "ei_Bounds j") (simp_all add: same_json_simps IntervalBounds_enum.repr_inject)
  ultimately show ?thesis using same interval_enums[OF valid(1)] interval_enums[OF valid(2)]
    by (simp add: same_json_simps SourcePrecision_enum.repr_inject TimeApproximation_enum.repr_inject
        EventTimeBasis_enum.repr_inject)
qed

lemma SourceSpan_value_inject: "same_json (SourceSpan_value s) (SourceSpan_value t) \<Longrightarrow> s = t"
  unfolding SourceSpan_value_def
  by (drule same_structD) (simp_all add: same_json_simps flip: word_uint_eq_iff)

lemma CoverageGapDetail_value_inject:
  assumes "same_json (CoverageGapDetail_value g) (CoverageGapDetail_value h)"
    and "GapReason_Valid (gd_Reason g)" "GapReason_Valid (gd_Reason h)"
  shows "g = h"
  using same_structD[OF assms(1)[unfolded CoverageGapDetail_value_def]] assms(2,3)
  by (simp add: same_json_simps GapReason_enum.repr_inject option.rel_eq)

lemma PropositionAttribute_value_inject:
  "same_json (PropositionAttribute_value a) (PropositionAttribute_value b) \<Longrightarrow> a = b"
  unfolding PropositionAttribute_value_def
  by (drule same_structD) (simp_all add: same_json_simps)

lemma RedactionStatus_text_inject:
  "RedactionStatus_Valid s \<Longrightarrow> RedactionStatus_Valid t \<Longrightarrow> RedactionStatus_text s = RedactionStatus_text t \<longleftrightarrow> s = t"
  by (cases s; cases t) (simp_all add: RedactionStatus_Valid_def)

lemma RetentionDescriptor_value_inject:
  assumes "same_json (RetentionDescriptor_value r) (RetentionDescriptor_value s)"
    and "RedactionStatus_Valid (rt_RedactionStatus r)" "RedactionStatus_Valid (rt_RedactionStatus s)"
  shows "r = s"
  using same_structD[OF assms(1)[unfolded RetentionDescriptor_value_def]] assms(2,3)
  by (simp add: same_json_simps RedactionStatus_text_inject flip: word_uint_eq_iff)

lemma marshal_object_id_not_null [same_json_simps]:
  "marshal (GitObjectID_value i) \<noteq> Inr JNull" "marshal (PackageDigest_value d) \<noteq> Inr JNull"
  "marshal (StepIdentity_value st) \<noteq> Inr JNull" "marshal (CoverageGapDetail_value g) \<noteq> Inr JNull"
  by (simp_all only: GitObjectID_value_def PackageDigest_value_def StepIdentity_value_def CoverageGapDetail_value_def
      same_json_simps not_False_eq_True)

lemma object_id_pointer:
  assumes "rel_option (\<lambda>x y. same_json (GitObjectID_value (f x)) (GitObjectID_value (f y))) p q"
    and "\<And>x. p = Some x \<Longrightarrow> GitObjectID_Validate (f x) = None" "\<And>x. q = Some x \<Longrightarrow> GitObjectID_Validate (f x) = None"
    and "\<And>x y. f x = f y \<Longrightarrow> x = y"
  shows "p = q"
proof (rule rel_option_eqI[OF assms(1)])
  fix x y
  assume xy: "p = Some x" "q = Some y" "same_json (GitObjectID_value (f x)) (GitObjectID_value (f y))"
  have "HashAlgorithm_Valid (oid_Algorithm (f x))" "HashAlgorithm_Valid (oid_Algorithm (f y))"
    using assms(2)[OF xy(1)] assms(3)[OF xy(2)] by (simp_all add: GitObjectID_Validate_def)
  then show "x = y" using GitObjectID_value_inject[of "f x" "f y"] xy(3) assms(4) by simp
qed

lemma package_digest_pointer:
  assumes "rel_option (\<lambda>x y. same_json (PackageDigest_value x) (PackageDigest_value y)) p q"
    and "validate_pointer PackageDigest_Validate p = None" "validate_pointer PackageDigest_Validate q = None"
  shows "p = q"
proof (rule rel_option_eqI[OF assms(1)])
  fix x y
  assume xy: "p = Some x" "q = Some y" "same_json (PackageDigest_value x) (PackageDigest_value y)"
  have "PackageDigest_Validate x = None" "PackageDigest_Validate y = None" using assms(2,3) xy by simp_all
  then show "x = y" using PackageDigest_value_inject[OF xy(3)] by (simp add: PackageDigest_Validate_def)
qed

lemma Proposition_value_inject:
  assumes "same_json (Proposition_value p) (Proposition_value q)"
    and valid: "Proposition_Validate p = None" "Proposition_Validate q = None"
  shows "p = q"
proof -
  note same = same_structD[OF assms(1)[unfolded Proposition_value_def]]
  have parts: "\<And>x. pr_ActionSourceObjectID r = Some x \<Longrightarrow> GitObjectID_Validate (ActionSourceObjectID_object x) = None"
    "\<And>x. pr_CalledWorkflowObjectID r = Some x \<Longrightarrow> GitObjectID_Validate (CalledWorkflowObjectID_object x) = None"
    "validate_pointer PackageDigest_Validate (pr_PackageDigest r) = None"
    if "Proposition_Validate r = None" for r
    using that by (auto simp: Proposition_Validate_def ActionSourceObjectID_Validate_def CalledWorkflowObjectID_Validate_def)
  have "pr_ActionSourceObjectID p = pr_ActionSourceObjectID q"
    by (rule object_id_pointer[where f = ActionSourceObjectID_object, OF _ parts(1)[OF valid(1)] parts(1)[OF valid(2)] ActionSourceObjectID.expand])
      (use same in \<open>simp add: same_json_simps\<close>)
  moreover have "pr_CalledWorkflowObjectID p = pr_CalledWorkflowObjectID q"
    by (rule object_id_pointer[where f = CalledWorkflowObjectID_object, OF _ parts(2)[OF valid(1)] parts(2)[OF valid(2)] CalledWorkflowObjectID.expand])
      (use same in \<open>simp add: same_json_simps\<close>)
  moreover have "pr_PackageDigest p = pr_PackageDigest q"
    by (rule package_digest_pointer[OF _ parts(3)[OF valid(1)] parts(3)[OF valid(2)]])
      (use same in \<open>simp add: same_json_simps\<close>)
  moreover have "pr_Attributes p = pr_Attributes q"
    by (rule rel_option_eqI[of "list_all2 (\<lambda>a b. same_json (PropositionAttribute_value a) (PropositionAttribute_value b))"])
      (use same in \<open>simp add: same_json_simps\<close>, erule list_all2_eqI, erule PropositionAttribute_value_inject)
  moreover have "pr_Kind p = pr_Kind q" using same by (simp add: same_json_simps)
  ultimately show ?thesis by simp
qed

lemma findingSubjectIdentity_value_inject:
  assumes "same_json (findingSubjectIdentity_value i) (findingSubjectIdentity_value j)"
    and "validate_pointer WorkflowDefinitionObjectID_Validate (si_WorkflowObjectID i) = None"
    and "validate_pointer WorkflowDefinitionObjectID_Validate (si_WorkflowObjectID j) = None"
  shows "i = j"
proof -
  note same = same_structD[OF assms(1)[unfolded findingSubjectIdentity_value_def]]
  have parts: "GitObjectID_Validate (WorkflowDefinitionObjectID_object x) = None"
    if "validate_pointer WorkflowDefinitionObjectID_Validate (si_WorkflowObjectID k) = None" "si_WorkflowObjectID k = Some x"
    for k x using that by (simp add: WorkflowDefinitionObjectID_Validate_def)
  have "si_WorkflowObjectID i = si_WorkflowObjectID j"
    by (rule object_id_pointer[where f = WorkflowDefinitionObjectID_object,
          OF _ parts[OF assms(2)] parts[OF assms(3)] WorkflowDefinitionObjectID.expand])
      (use same in \<open>simp add: same_json_simps\<close>, blast)
  then show ?thesis using same by (simp add: same_json_simps)
qed

section \<open>Identifiers bind what they name\<close>

text \<open>Two inputs collide when their preimages differ and have the same digest.\<close>

definition collision :: "(string \<Rightarrow> string) \<Rightarrow> govalue \<Rightarrow> govalue \<Rightarrow> bool" where
  "collision sha v w \<longleftrightarrow> (\<exists>t u. CanonicalJSON v = Inr t \<and> CanonicalJSON w = Inr u \<and> t \<noteq> u \<and> sha t = sha u)"

lemma canonicalID_Inr:
  "canonicalID sha prefix v = Inr s \<longleftrightarrow> (\<exists>t. CanonicalJSON v = Inr t \<and> s = prefix @ sha t)"
  by (auto simp: canonicalID_def split: sum.split)

text \<open>
  The contract of a constructor of identifiers: after its checks it wraps the digest of a preimage, and
  the preimage determines the key, what the identifier stands for. \<open>wf\<close> is what Go's types guarantee of an input.
\<close>

locale content_address =
  fixes wf :: "'a \<Rightarrow> bool" and checks :: "'a \<Rightarrow> goerr option" and prefix :: string and wrap :: "string \<Rightarrow> 'i"
    and preimage :: "'a \<Rightarrow> govalue" and key :: "'a \<Rightarrow> 'k" and new :: "(string \<Rightarrow> string) \<Rightarrow> 'a \<Rightarrow> goerr + 'i"
  assumes new_eq: "new sha x = guarded (checks x) (map_sum id wrap (canonicalID sha prefix (preimage x)))"
    and wrap_inject: "wrap s = wrap t \<longleftrightarrow> s = t"
    and preimage_key: "wf x \<Longrightarrow> wf y \<Longrightarrow> checks x = None \<Longrightarrow> checks y = None \<Longrightarrow> same_json (preimage x) (preimage y) \<Longrightarrow> key x = key y"
begin

lemma new_Inr: "new sha x = Inr i \<longleftrightarrow> checks x = None \<and> (\<exists>t. CanonicalJSON (preimage x) = Inr t \<and> i = wrap (prefix @ sha t))"
  by (auto simp: new_eq guarded_Inr map_sum_Inr canonicalID_Inr)

lemma binds:
  assumes "wf x" "wf y" "new sha x = Inr i" "new sha y = Inr i"
  shows "key x = key y \<or> collision sha (preimage x) (preimage y)"
proof -
  obtain t u where t: "CanonicalJSON (preimage x) = Inr t" "i = wrap (prefix @ sha t)"
    and u: "CanonicalJSON (preimage y) = Inr u" "i = wrap (prefix @ sha u)"
    and ok: "checks x = None" "checks y = None" using assms(3,4) by (auto simp: new_Inr)
  then have sha: "sha t = sha u" by (simp add: wrap_inject)
  show ?thesis
  proof (cases "t = u")
    case True
    then have "same_json (preimage x) (preimage y)" using canonical_text_iff[OF t(1) u(1)] by simp
    then show ?thesis using preimage_key assms(1,2) ok by blast
  qed (use t u sha in \<open>auto simp: collision_def\<close>)
qed

end

text \<open>When the key also determines the preimage, equal keys have equal identifiers.\<close>

locale content_identity = content_address +
  assumes key_preimage: "key x = key y \<Longrightarrow> preimage x = preimage y"
begin

lemma identifies:
  assumes "wf x" "wf y" "new sha x = Inr i" "new sha y = Inr j"
  shows "i = j \<longleftrightarrow> key x = key y \<or> collision sha (preimage x) (preimage y)"
proof
  assume "i = j"
  then show "key x = key y \<or> collision sha (preimage x) (preimage y)" using binds assms by blast
next
  assume "key x = key y \<or> collision sha (preimage x) (preimage y)"
  then show "i = j"
  proof
    assume "key x = key y"
    then have "preimage x = preimage y" by (rule key_preimage)
    then show ?thesis using assms(3,4) by (auto simp: new_Inr)
  next
    assume "collision sha (preimage x) (preimage y)"
    then show ?thesis using assms(3,4) by (auto simp: new_Inr collision_def)
  qed
qed

end

text \<open>The parameters of a request are a Go map: the keys of the association list are distinct.\<close>

definition source_key :: "LogicalSourceIdentity \<Rightarrow> SourceKind \<times> string \<times> CoverageScope \<times> (string \<rightharpoonup> string)" where
  "source_key i = (lsi_Kind i, lsi_CanonicalID i, lsi_Scope i, map_of (elems (lsi_RequestParameters i)))"

lemma SourceKind_text_inject:
  "SourceKind_Valid k \<Longrightarrow> SourceKind_Valid l \<Longrightarrow> SourceKind_text k = SourceKind_text l \<longleftrightarrow> k = l"
  by (cases k; cases l) (simp_all add: SourceKind_Valid_def sourceKinds_def)

definition go_map :: "RequestParameters \<Rightarrow> bool" where
  "go_map p \<longleftrightarrow> distinct (map fst (elems p))"

lemma source_preimage_key:
  assumes same: "same_json (source_preimage i) (source_preimage j)"
    and ok: "LogicalSourceIdentity_Validate i = None" "LogicalSourceIdentity_Validate j = None"
    and maps: "go_map (lsi_RequestParameters i)" "go_map (lsi_RequestParameters j)"
  shows "source_key i = source_key j"
proof -
  note fields = same_structD[OF same[unfolded source_preimage_def]]
  have "same_json (RequestParameters_value (lsi_RequestParameters i)) (RequestParameters_value (lsi_RequestParameters j))"
    using fields by (simp add: same_json_simps)
  from same_json_map[OF this[unfolded RequestParameters_value_def]] maps
  have p: "map_of (elems (lsi_RequestParameters i)) = map_of (elems (lsi_RequestParameters j))"
    by (cases "lsi_RequestParameters i"; cases "lsi_RequestParameters j") (simp_all add: go_map_def)
  have "SourceKind_Valid (lsi_Kind i)" "SourceKind_Valid (lsi_Kind j)"
    using ok by (simp_all add: LogicalSourceIdentity_Validate_def)
  then show ?thesis using fields p
    by (auto simp: source_key_def same_json_simps SourceKind_text_inject dest: CoverageScope_value_inject)
qed

interpretation source_address: content_address "\<lambda>i. go_map (lsi_RequestParameters i)" LogicalSourceIdentity_Validate "''src1:''"
    LogicalSourceID source_preimage source_key NewLogicalSourceID
  by unfold_locales (simp_all add: NewLogicalSourceID_def source_preimage_key)

definition evidence_checks :: "LogicalSourceID \<times> string \<times> RetentionDescriptor \<Rightarrow> goerr option" where
  "evidence_checks = (\<lambda>(source, digest, retention).
     first_error [LogicalSourceID_Validate source, checkSHA256 digest ''source-content SHA-256'',
       RetentionDescriptor_Validate retention])"

lemma evidence_preimage_inject:
  assumes "same_json (evidence_preimage s d r) (evidence_preimage s' d' r')"
    and "RetentionDescriptor_Validate r = None" "RetentionDescriptor_Validate r' = None"
  shows "s = s' \<and> d = d' \<and> r = r'"
proof -
  note fields = same_structD[OF assms(1)[unfolded evidence_preimage_def]]
  have "RedactionStatus_Valid (rt_RedactionStatus q)" if "RetentionDescriptor_Validate q = None" for q
    using that by (simp add: RetentionDescriptor_Validate_def RedactionDescriptor_Validate_def)
  then have "r = r'" using fields assms(2,3) RetentionDescriptor_value_inject[of r r'] by (simp add: same_json_simps)
  then show ?thesis using fields by (simp add: same_json_simps LogicalSourceID.expand)
qed

interpretation evidence_identity: content_identity "\<lambda>x. True" evidence_checks "''ev1:''" EvidenceID
    "\<lambda>(source, digest, retention). evidence_preimage source digest retention" "\<lambda>x. x"
    "\<lambda>sha (source, digest, retention). NewEvidenceID sha source digest retention"
  by unfold_locales
    (auto simp: NewEvidenceID_def evidence_checks_def split: prod.splits dest!: evidence_preimage_inject)

lemma revision_preimage_inject:
  assumes same: "same_json (revision_preimage i) (revision_preimage j)"
    and states: "FindingState_Valid (fri_State i)" "FindingState_Valid (fri_State j)"
      "ProvenanceLevel_Valid (fri_Provenance i)" "ProvenanceLevel_Valid (fri_Provenance j)"
    and propositions: "Proposition_Validate (fri_Proposition i) = None" "Proposition_Validate (fri_Proposition j) = None"
  shows "i = j"
proof -
  note fields = same_structD[OF same[unfolded revision_preimage_def]]
  have "fri_Proposition i = fri_Proposition j"
    by (rule Proposition_value_inject[OF _ propositions]) (use fields in \<open>simp add: same_json_simps\<close>)
  moreover have "fri_EvidenceIDs i = fri_EvidenceIDs j"
    by (rule list_all2_eqI[of "\<lambda>x y. EvidenceID_string x = EvidenceID_string y"])
      (use fields in \<open>simp_all add: same_json_simps EvidenceID.expand\<close>)
  moreover have "fri_CoverageIDs i = fri_CoverageIDs j"
    by (rule list_all2_eqI[of "\<lambda>x y. CoverageAssessmentID_string x = CoverageAssessmentID_string y"])
      (use fields in \<open>simp_all add: same_json_simps CoverageAssessmentID.expand\<close>)
  ultimately show ?thesis using fields states
    by (simp add: same_json_simps FindingState_enum.repr_inject ProvenanceLevel_enum.repr_inject FindingID.expand)
qed

definition revision_checks :: "FindingRevisionInput \<Rightarrow> goerr option" where
  "revision_checks input =
     (let i = normal_revision input in
      first_error
        ([FindingID_Validate (fri_FindingID i),
          checkSHA256 (fri_CanonicalPackSHA256 i) ''canonical pack SHA-256'',
          require (\<not> (\<not> FindingState_Valid (fri_State i) \<or> \<not> ProvenanceLevel_Valid (fri_Provenance i) \<or> fri_RuleVersion i = []))
            (Errorf ''finding revision has invalid state, provenance, or rule version''),
          Proposition_Validate (fri_Proposition i)] @
         map EvidenceID_Validate (fri_EvidenceIDs i) @ map CoverageAssessmentID_Validate (fri_CoverageIDs i)))"

interpretation revision_identity: content_identity "\<lambda>x. True" revision_checks "''frev1:''" FindingRevisionID
    "\<lambda>i. revision_preimage (normal_revision i)" normal_revision NewFindingRevisionID
proof unfold_locales
  show "normal_revision x = normal_revision y"
    if "revision_checks x = None" "revision_checks y = None"
      "same_json (revision_preimage (normal_revision x)) (revision_preimage (normal_revision y))" for x y
    by (rule revision_preimage_inject[OF that(3)]) (use that(1,2) in \<open>simp_all add: revision_checks_def Let_def\<close>)
qed (simp_all add: NewFindingRevisionID_def revision_checks_def Let_def)

text \<open>A record of \<open>model\<close> is identified without the identifier it carries, with its evidence sorted.\<close>

definition runtime_key :: "RuntimeActionObservation \<Rightarrow> RuntimeActionObservation" where
  "runtime_key ob = ob\<lparr>ro_ID := RuntimeObservationID (''rtobs1:'' @ zero_digest),
     ro_SourceEvidenceIDs := SortEvidenceIDs (ro_SourceEvidenceIDs ob)\<rparr>"

definition assessment_key :: "CoverageAssessment \<Rightarrow> CoverageAssessment" where
  "assessment_key a = a\<lparr>ca_ID := CoverageAssessmentID (''cova1:'' @ zero_digest),
     ca_EvidenceIDs := SortEvidenceIDs (ca_EvidenceIDs a)\<rparr>"

lemma evidence_ids_eq:
  assumes "list_all2 (\<lambda>x y. same_json ((GString \<circ> EvidenceID_string) x) ((GString \<circ> EvidenceID_string) y)) xs ys"
  shows "xs = ys"
  by (rule list_all2_eqI[OF assms]) (simp add: same_json_simps EvidenceID.expand)

lemma runtime_valid_parts:
  assumes "RuntimeActionObservation_Validate ob = None"
  shows "RuntimeObservationKind_Valid (ro_Kind ob)" "EventInterval_Validate (ro_EventTime ob) = None"
    "validate_pointer PackageDigest_Validate (ro_PackageDigest ob) = None"
    "\<And>st. ro_Step ob = Some st \<Longrightarrow> LifecyclePhase_Valid (sid_LifecyclePhase st)"
    "\<And>x. ro_SourceObjectID ob = Some x \<Longrightarrow> GitObjectID_Validate (ActionSourceObjectID_object x) = None"
  using assms unfolding RuntimeActionObservation_Validate_def first_error_None
  by (auto simp: StepIdentity_Validate_def ActionSourceObjectID_Validate_def)

lemma runtime_preimage_inject:
  assumes same: "same_json (runtime_preimage a) (runtime_preimage b)"
    and ok: "RuntimeActionObservation_Validate a = None" "RuntimeActionObservation_Validate b = None"
    and id: "ro_ID a = ro_ID b"
  shows "a = b"
proof -
  note fields = same_structD[OF same[unfolded runtime_preimage_def]]
  note va = runtime_valid_parts[OF ok(1)] and vb = runtime_valid_parts[OF ok(2)]
  have "ro_Step a = ro_Step b"
    by (rule rel_option_eqI[of "\<lambda>x y. same_json (StepIdentity_value x) (StepIdentity_value y)"])
      (use fields in \<open>simp add: same_json_simps\<close>, rule StepIdentity_value_inject, simp_all add: va(4) vb(4))
  moreover have "ro_SourceObjectID a = ro_SourceObjectID b"
    by (rule object_id_pointer[where f = ActionSourceObjectID_object, OF _ va(5) vb(5) ActionSourceObjectID.expand])
      (use fields in \<open>simp_all add: same_json_simps\<close>)
  moreover have "ro_PackageDigest a = ro_PackageDigest b"
    by (rule package_digest_pointer[OF _ va(3) vb(3)]) (use fields in \<open>simp add: same_json_simps\<close>)
  moreover have "ro_EventTime a = ro_EventTime b"
    by (rule EventInterval_value_inject[OF _ va(2) vb(2)]) (use fields in \<open>simp add: same_json_simps\<close>)
  moreover have "ro_SourceEvidenceIDs a = ro_SourceEvidenceIDs b"
    by (rule evidence_ids_eq) (use fields in \<open>simp add: same_json_simps\<close>)
  moreover have "ro_SourceSpan a = ro_SourceSpan b"
    by (rule SourceSpan_value_inject) (use fields in \<open>simp add: same_json_simps\<close>)
  moreover have "ro_Execution a = ro_Execution b"
    by (rule JobExecutionIdentity_value_inject) (use fields in \<open>simp add: same_json_simps\<close>)
  moreover have "ro_Kind a = ro_Kind b \<and> ro_ActionRepository a = ro_ActionRepository b \<and>
      ro_ActionSubpath a = ro_ActionSubpath b \<and> ro_DeclaredRef a = ro_DeclaredRef b \<and>
      ro_ImmutableVersion a = ro_ImmutableVersion b \<and> ro_ExtractorName a = ro_ExtractorName b \<and>
      ro_ExtractorVersion a = ro_ExtractorVersion b \<and> ro_RulesetSHA256 a = ro_RulesetSHA256 b"
    using fields by (simp add: same_json_simps RuntimeObservationKind_enum.repr_inject[OF va(1) vb(1)] RepositorySlug.expand)
  ultimately show ?thesis using id by simp
qed

interpretation runtime_identity: content_identity "\<lambda>x. True" "\<lambda>ob. RuntimeActionObservation_Validate (runtime_key ob)"
    "''rtobs1:''" RuntimeObservationID "\<lambda>ob. runtime_preimage (runtime_key ob)" runtime_key NewRuntimeObservationID
  by unfold_locales
    (auto simp: NewRuntimeObservationID_def runtime_key_def[symmetric] Let_def
      intro!: runtime_preimage_inject, simp_all add: runtime_key_def)

lemma assessment_preimage_inject:
  assumes same: "same_json (assessment_preimage a) (assessment_preimage b)"
    and ok: "CoverageAssessment_Validate a = None" "CoverageAssessment_Validate b = None" and id: "ca_ID a = ca_ID b"
  shows "a = b"
proof -
  note fields = same_structD[OF same[unfolded assessment_preimage_def]]
  have v: "CoverageStatus_Valid (ca_Status c)" "\<And>g. ca_Gap c = Some g \<Longrightarrow> GapReason_Valid (gd_Reason g)"
    if "CoverageAssessment_Validate c = None" for c
    using that unfolding CoverageAssessment_Validate_def first_error_None
    by (auto simp: CoverageGapDetail_Validate_def split: option.splits if_splits)
  have "ca_Gap a = ca_Gap b"
    by (rule rel_option_eqI[of "\<lambda>x y. same_json (CoverageGapDetail_value x) (CoverageGapDetail_value y)"])
      (use fields in \<open>simp add: same_json_simps\<close>, rule CoverageGapDetail_value_inject, simp_all add: v(2)[OF ok(1)] v(2)[OF ok(2)])
  moreover have "ca_EvidenceIDs a = ca_EvidenceIDs b"
    by (rule evidence_ids_eq) (use fields in \<open>simp add: same_json_simps\<close>)
  ultimately show ?thesis using fields id
    by (simp add: same_json_simps CoverageStatus_enum.repr_inject v(1)[OF ok(1)] v(1)[OF ok(2)] CoverageUnitID.expand flip: word_uint_eq_iff)
qed

interpretation assessment_identity: content_identity "\<lambda>x. True" "\<lambda>a. CoverageAssessment_Validate (assessment_key a)"
    "''cova1:''" CoverageAssessmentID "\<lambda>a. assessment_preimage (assessment_key a)" assessment_key NewCoverageAssessmentID
  by unfold_locales
    (auto simp: NewCoverageAssessmentID_def assessment_key_def[symmetric] Let_def
      intro!: assessment_preimage_inject, simp_all add: assessment_key_def)

text \<open>A unit, the two kinds of observation and a finding.\<close>

definition unit_key :: "CoverageUnit \<Rightarrow> CoverageUnit" where
  "unit_key u = u\<lparr>cu_ID := CoverageUnitID (''cov1:'' @ zero_digest)\<rparr>"

interpretation unit_identity: content_identity "\<lambda>x. True" "\<lambda>u. CoverageUnit_Validate (unit_key u)"
    "''cov1:''" CoverageUnitID unit_preimage unit_key NewCoverageUnitID
proof unfold_locales
  fix u w
  assume ok: "CoverageUnit_Validate (unit_key u) = None" "CoverageUnit_Validate (unit_key w) = None"
    and same: "same_json (unit_preimage u) (unit_preimage w)"
  have "CoverageKind_Valid (cu_Kind u)" "CoverageKind_Valid (cu_Kind w)"
    using ok by (simp_all add: CoverageUnit_Validate_def unit_key_def)
  then show "unit_key u = unit_key w" using same_structD[OF same[unfolded unit_preimage_def]]
    by (auto simp: same_json_simps unit_key_def CoverageKind_enum.repr_inject dest: CoverageScope_value_inject)
next
  show "unit_preimage u = unit_preimage w" if "unit_key u = unit_key w" for u w
    using that by (cases u; cases w) (simp add: unit_key_def unit_preimage_def)
qed (simp_all add: NewCoverageUnitID_def unit_key_def)

definition subject_of :: "FindingLogicalInput \<Rightarrow> findingSubjectIdentity" where
  "subject_of input = the (subjectIdentity (fli_Subject input))"

definition major_of :: "FindingLogicalInput \<Rightarrow> string" where
  "major_of input = projr (IncidentAPIMajor (fli_IncidentAPI input))"

definition finding_key :: "FindingLogicalInput \<Rightarrow> string \<times> string \<times> string \<times> findingSubjectIdentity \<times> string" where
  "finding_key input = (fli_IncidentID input, major_of input, fli_IndicatorID input, subject_of input, fli_PropositionKind input)"

definition finding_checks :: "FindingLogicalInput \<Rightarrow> goerr option" where
  "finding_checks input =
     first_error
       [require (\<not> (fli_IncidentID input = [] \<or> fli_IndicatorID input = [] \<or> fli_PropositionKind input = []))
          (Errorf ''finding identity requires incident, indicator, and proposition kind''),
        FindingSubject_Validate (fli_Subject input),
        (case IncidentAPIMajor (fli_IncidentAPI input) of Inl e \<Rightarrow> Some e | Inr major \<Rightarrow> None),
        require (subjectIdentity (fli_Subject input) \<noteq> None) (Errorf ''nil pointer dereference'')]"

lemma subject_identity_total:
  assumes "FindingSubject_Validate s = None"
  shows "\<exists>i. subjectIdentity s = Some i \<and> validate_pointer WorkflowDefinitionObjectID_Validate (si_WorkflowObjectID i) = None"
proof -
  have "\<exists>key. (case fs_Step s of None \<Rightarrow> Some [] | Some step \<Rightarrow> StepIdentity_Key step) = Some key"
    using assms by (cases "fs_Step s")
      (auto simp: FindingSubject_Validate_def StepIdentity_Validate_def StepIdentity_Key_def Let_def split: option.splits)
  moreover have "validate_pointer WorkflowDefinitionObjectID_Validate (ws_DefinitionObjectID (fs_Workflow s)) = None"
    using assms by (simp add: FindingSubject_Validate_def WorkflowSubject_Validate_def)
  ultimately show ?thesis by (auto simp: subjectIdentity_def)
qed

lemma NewFindingID_guarded:
  "NewFindingID sha x = guarded (finding_checks x)
     (map_sum id FindingID (canonicalID sha ''find1:'' (finding_preimage x (major_of x) (subject_of x))))"
  by (auto simp: NewFindingID_def finding_checks_def guarded_def first_error.simps require_def major_of_def subject_of_def
      split: sum.split option.split)

interpretation finding_identity: content_identity "\<lambda>x. True" finding_checks "''find1:''" FindingID
    "\<lambda>x. finding_preimage x (major_of x) (subject_of x)" finding_key NewFindingID
proof unfold_locales
  fix x y
  assume ok: "finding_checks x = None" "finding_checks y = None"
    and same: "same_json (finding_preimage x (major_of x) (subject_of x)) (finding_preimage y (major_of y) (subject_of y))"
  note fields = same_structD[OF same[unfolded finding_preimage_def]]
  have v: "validate_pointer WorkflowDefinitionObjectID_Validate (si_WorkflowObjectID (subject_of z)) = None"
    if "finding_checks z = None" for z
    using that subject_identity_total[of "fli_Subject z"] by (auto simp: finding_checks_def subject_of_def)
  have "subject_of x = subject_of y"
    by (rule findingSubjectIdentity_value_inject[OF _ v[OF ok(1)] v[OF ok(2)]])
      (use fields in \<open>simp add: same_json_simps\<close>)
  then show "finding_key x = finding_key y" using fields by (simp add: finding_key_def same_json_simps)
qed (simp_all add: NewFindingID_guarded finding_key_def finding_preimage_def)

interpretation coverage_observation_identity: content_identity "\<lambda>x. True"
    "\<lambda>(assessment, session, observed). first_error [CoverageAssessmentID_Validate assessment,
       CollectionSessionID_Validate session, Instant_Validate observed]"
    "''covobs1:''" CoverageObservationID coverage_observation_preimage "\<lambda>x. x"
    "\<lambda>sha (assessment, session, observed). NewCoverageObservationID sha assessment session observed"
proof unfold_locales
  fix x y :: "CoverageAssessmentID \<times> CollectionSessionID \<times> Instant"
  assume ok: "(case x of (a, s, t) \<Rightarrow> first_error [CoverageAssessmentID_Validate a, CollectionSessionID_Validate s,
      Instant_Validate t]) = None" "(case y of (a, s, t) \<Rightarrow> first_error [CoverageAssessmentID_Validate a,
      CollectionSessionID_Validate s, Instant_Validate t]) = None"
    and same: "same_json (coverage_observation_preimage x) (coverage_observation_preimage y)"
  obtain a s t b r u where xy: "x = (a, s, t)" "y = (b, r, u)" by (cases x; cases y)
  note fields = same_structD[OF same[unfolded coverage_observation_preimage_def xy prod.case]]
  have "t = u" by (rule Instant_value_inject) (use fields ok xy in \<open>simp_all add: same_json_simps\<close>)
  then show "x = y" using fields xy by (simp add: same_json_simps CoverageAssessmentID.expand CollectionSessionID.expand)
qed (auto simp: NewCoverageObservationID_def coverage_observation_preimage_def)

definition collection_checks :: "EvidenceID \<times> CollectionSessionID \<times> RequestID \<times> Instant \<times> 32 word \<Rightarrow> goerr option" where
  "collection_checks = (\<lambda>(evidence, session, request, ended, attempt).
     first_error [EvidenceID_Validate evidence, CollectionSessionID_Validate session, RequestID_Validate request,
       Instant_Validate ended, require (attempt \<noteq> 0) (Errorf ''request attempt must be positive'')])"

interpretation collection_identity: content_identity "\<lambda>x. True" collection_checks "''obs1:''" CollectionObservationID
    collection_preimage "\<lambda>x. x"
    "\<lambda>sha (evidence, session, request, ended, attempt). NewCollectionObservationID sha evidence session request ended attempt"
proof unfold_locales
  fix x y :: "EvidenceID \<times> CollectionSessionID \<times> RequestID \<times> Instant \<times> 32 word"
  assume ok: "collection_checks x = None" "collection_checks y = None"
    and same: "same_json (collection_preimage x) (collection_preimage y)"
  obtain e s r t n e' s' r' t' n' where xy: "x = (e, s, r, t, n)" "y = (e', s', r', t', n')" by (cases x; cases y)
  note fields = same_structD[OF same[unfolded collection_preimage_def xy prod.case]]
  have "t = t'" by (rule Instant_value_inject) (use fields ok xy in \<open>simp_all add: same_json_simps collection_checks_def\<close>)
  then show "x = y" using fields xy
    by (simp add: same_json_simps EvidenceID.expand CollectionSessionID.expand RequestID.expand flip: word_uint_eq_iff)
qed (auto simp: NewCollectionObservationID_def collection_preimage_def collection_checks_def)

text \<open>What validated records say of their own identifiers.\<close>

lemma evidence_id_bound:
  assumes "NewEvidenceID sha s d r = Inr i" and "NewEvidenceID sha s' d' r' = Inr i"
  shows "s = s' \<and> d = d' \<and> r = r' \<or> collision sha (evidence_preimage s d r) (evidence_preimage s' d' r')"
  using evidence_identity.binds[where x = "(s, d, r)" and y = "(s', d', r')"] assms by simp

lemma valid_evidence_ids:
  assumes "EvidenceObject_Validate parse sha g = None"
  shows "NewEvidenceID sha (ls_ID (eo_LogicalSource g)) (cd_SourceSHA256 (eo_Content g)) (retention_of g) = Inr (eo_ID g)"
    "NewLogicalSourceID sha (LogicalSource_Identity (eo_LogicalSource g) (eo_Scope g)) = Inr (ls_ID (eo_LogicalSource g))"
  using assms by (simp_all add: EvidenceObject_Validate_def LogicalSource_Validate_def)

lemma valid_runtime_key: "RuntimeActionObservation_Validate ob = None \<Longrightarrow>
    runtime_key ob = ob\<lparr>ro_ID := RuntimeObservationID (''rtobs1:'' @ zero_digest)\<rparr>"
  by (simp add: runtime_key_def RuntimeActionObservation_Validate_def evidence_list.accepted_canonical)

lemma valid_assessment_key: "CoverageAssessment_Validate a = None \<Longrightarrow>
    assessment_key a = a\<lparr>ca_ID := CoverageAssessmentID (''cova1:'' @ zero_digest)\<rparr>"
  by (simp add: assessment_key_def CoverageAssessment_Validate_def evidence_list.accepted_canonical)

section \<open>Statements\<close>

text \<open>
  An evidence identifier stands for its logical source, the digest of its source and its retention
  descriptor: two accepted constructions get the same identifier exactly when all three are equal, short
  of a collision of the digest on the two preimages the constructor hashed.
\<close>

theorem evidence_id_identifies:
  assumes "NewEvidenceID sha s d r = Inr i" and "NewEvidenceID sha s' d' r' = Inr j"
  shows "i = j \<longleftrightarrow> s = s' \<and> d = d' \<and> r = r' \<or> collision sha (evidence_preimage s d r) (evidence_preimage s' d' r')"
  using evidence_identity.identifies[where x = "(s, d, r)" and y = "(s', d', r')"] assms by simp

text \<open>
  A logical source identifier stands for the kind, the canonical identifier, the scope and the
  request parameters as a map, short of a collision of the digest on the two preimages.
\<close>

theorem source_id_binds:
  assumes "NewLogicalSourceID sha x = Inr i" and "NewLogicalSourceID sha y = Inr i"
    and "go_map (lsi_RequestParameters x)" and "go_map (lsi_RequestParameters y)"
  shows "lsi_Kind x = lsi_Kind y \<and> lsi_CanonicalID x = lsi_CanonicalID y \<and> lsi_Scope x = lsi_Scope y \<and>
      map_of (elems (lsi_RequestParameters x)) = map_of (elems (lsi_RequestParameters y)) \<or>
    collision sha (source_preimage x) (source_preimage y)"
  using source_address.binds[OF assms(3,4,1,2)] by (simp add: source_key_def)

text \<open>
  C10: A finding identifier stands for the incident and its major API version, the indicator, the identity of
  the subject and the kind of proposition, and a revision identifier for everything of the revision in
  normal form: identifiers are equal exactly when these are, short of a collision on the preimages.
\<close>

theorem finding_ids_identify:
  "(NewFindingID sha x = Inr i \<and> NewFindingID sha y = Inr j \<longrightarrow>
      (i = j \<longleftrightarrow> finding_key x = finding_key y \<or>
         collision sha (finding_preimage x (major_of x) (subject_of x)) (finding_preimage y (major_of y) (subject_of y)))) \<and>
   (NewFindingRevisionID sha a = Inr k \<and> NewFindingRevisionID sha b = Inr l \<longrightarrow>
      (k = l \<longleftrightarrow> normal_revision a = normal_revision b \<or>
         collision sha (revision_preimage (normal_revision a)) (revision_preimage (normal_revision b))))"
  using finding_identity.identifies revision_identity.identifies by blast

text \<open>
  C11: A record of a coverage or runtime report that validates against its own identifier is determined by it: two
  such observations, assessments, units or coverage observations with one identifier are the same record, short of a
  collision of the digest on their two preimages.
\<close>

theorem validated_records_pinned:
  "(ValidateRuntimeObservationIdentity sha a = None \<and> ValidateRuntimeObservationIdentity sha b = None \<and> ro_ID a = ro_ID b \<longrightarrow>
      a = b \<or> collision sha (runtime_preimage (runtime_key a)) (runtime_preimage (runtime_key b))) \<and>
   (ValidateCoverageAssessmentIdentity sha c = None \<and> ValidateCoverageAssessmentIdentity sha d = None \<and> ca_ID c = ca_ID d \<longrightarrow>
      c = d \<or> collision sha (assessment_preimage (assessment_key c)) (assessment_preimage (assessment_key d))) \<and>
   (ValidateCoverageUnitIdentity sha u = None \<and> ValidateCoverageUnitIdentity sha v = None \<and> cu_ID u = cu_ID v \<longrightarrow>
      u = v \<or> collision sha (unit_preimage u) (unit_preimage v)) \<and>
   (ValidateCoverageObservationIdentity sha p = None \<and> ValidateCoverageObservationIdentity sha q = None \<and> co_ID p = co_ID q \<longrightarrow>
      p = q \<or> collision sha (coverage_observation_preimage (co_AssessmentID p, co_CollectionSessionID p, co_ObservedAt p))
        (coverage_observation_preimage (co_AssessmentID q, co_CollectionSessionID q, co_ObservedAt q)))"
  (is "(?A \<longrightarrow> ?a) \<and> (?C \<longrightarrow> ?c) \<and> (?U \<longrightarrow> ?u) \<and> (?P \<longrightarrow> ?p)")
proof (intro conjI impI)
  assume A: ?A
  then show ?a
    using runtime_identity.binds[where x = a and y = b and sha = sha and i = "ro_ID b"] valid_runtime_key[of a] valid_runtime_key[of b]
    by (cases a; cases b) (simp add: ValidateRuntimeObservationIdentity_def)
next
  assume C: ?C
  then show ?c
    using assessment_identity.binds[where x = c and y = d and sha = sha and i = "ca_ID d"] valid_assessment_key[of c] valid_assessment_key[of d]
    by (cases c; cases d) (simp add: ValidateCoverageAssessmentIdentity_def)
next
  assume U: ?U
  then show ?u
    using unit_identity.binds[where x = u and y = v and sha = sha and i = "cu_ID v"]
    by (cases u; cases v) (simp add: ValidateCoverageUnitIdentity_def unit_key_def)
next
  assume P: ?P
  then show ?p
    using coverage_observation_identity.binds[where x = "(co_AssessmentID p, co_CollectionSessionID p, co_ObservedAt p)"
        and y = "(co_AssessmentID q, co_CollectionSessionID q, co_ObservedAt q)" and sha = sha and i = "co_ID q"]
    by (cases p; cases q) (auto simp: ValidateCoverageObservationIdentity_def)
qed

text \<open>
  C9: Two evidence objects that validate with the same identifier have the same source digest, the same
  retention and the same logical source with the same scope, short of a collision on their evidence or their source
  preimages. So the identifier pins the bytes and where they came from.
\<close>

theorem valid_evidence_pinned:
  assumes "EvidenceObject_Validate parse sha e = None" and "EvidenceObject_Validate parse sha f = None"
    and "eo_ID e = eo_ID f"
    and "go_map (ls_RequestParameters (eo_LogicalSource e))" and "go_map (ls_RequestParameters (eo_LogicalSource f))"
  shows "cd_SourceSHA256 (eo_Content e) = cd_SourceSHA256 (eo_Content f) \<and> retention_of e = retention_of f \<and>
      source_key (LogicalSource_Identity (eo_LogicalSource e) (eo_Scope e)) =
        source_key (LogicalSource_Identity (eo_LogicalSource f) (eo_Scope f)) \<or>
    collision sha (evidence_preimage (ls_ID (eo_LogicalSource e)) (cd_SourceSHA256 (eo_Content e)) (retention_of e))
      (evidence_preimage (ls_ID (eo_LogicalSource f)) (cd_SourceSHA256 (eo_Content f)) (retention_of f)) \<or>
    collision sha (source_preimage (LogicalSource_Identity (eo_LogicalSource e) (eo_Scope e)))
      (source_preimage (LogicalSource_Identity (eo_LogicalSource f) (eo_Scope f)))"
proof -
  let ?i = "LogicalSource_Identity (eo_LogicalSource e) (eo_Scope e)" and ?j = "LogicalSource_Identity (eo_LogicalSource f) (eo_Scope f)"
  note new = valid_evidence_ids[OF assms(1)] valid_evidence_ids[OF assms(2)]
  have wf: "go_map (lsi_RequestParameters ?i)" "go_map (lsi_RequestParameters ?j)"
    using assms(4,5) by (simp_all add: LogicalSource_Identity_def)
  show ?thesis
  proof (cases "ls_ID (eo_LogicalSource e) = ls_ID (eo_LogicalSource f)")
    case True
    have "source_key ?i = source_key ?j \<or> collision sha (source_preimage ?i) (source_preimage ?j)"
      by (rule source_address.binds[OF wf]) (use new(2,4) True in simp_all)
    then show ?thesis using evidence_id_bound[OF new(1), unfolded assms(3), OF new(3)] by blast
  next
    case False
    then show ?thesis using evidence_id_bound[OF new(1), unfolded assms(3), OF new(3)] by blast
  qed
qed

text \<open>
  C12: An envelope the factory returns validates, and it says what was collected: the digest and the length of
  the bytes, nothing retained, identifiers that agree between the evidence and its observation, an attempt that is
  not zero, and a typed error when the source is incomplete.
\<close>

theorem envelope_faithful:
  assumes "NewEnvelope parse sha input = Inr e"
  shows "Envelope_Validate parse sha e = None \<and>
    (\<exists>bytes. in_SourceBytes input = Some bytes \<and> cd_SourceSHA256 (eo_Content (en_Evidence e)) = sha bytes \<and>
       cd_ByteLength (eo_Content (en_Evidence e)) = of_nat (length bytes)) \<and>
    \<not> cd_RawRetained (eo_Content (en_Evidence e)) \<and> cd_RetainedPath (eo_Content (en_Evidence e)) = [] \<and>
    eo_ID (en_Evidence e) = ob_EvidenceID (en_Observation e) \<and> ob_RequestAttempt (en_Observation e) \<noteq> 0 \<and>
    eo_Scope (en_Evidence e) = in_Scope input \<and>
    elems (eo_Errors (en_Evidence e)) = elems (in_Errors input) \<and>
    (cd_Complete (eo_Content (en_Evidence e)) \<or> elems (in_Errors input) \<noteq> [])"
proof -
  define i where "i = with_defaults input"
  obtain bytes where bytes: "in_SourceBytes i = Some bytes" "in_SourceBytes input = Some bytes"
    using assms by (cases "in_SourceBytes input") (auto simp: NewEnvelope_def i_def with_defaults_def Let_def)
  obtain source evidence observation where
    e: "e = envelope_for i source (sha bytes) evidence observation" and v: "Envelope_Validate parse sha e = None"
    using assms bytes
    by (auto simp: NewEnvelope_def i_def[symmetric] Let_def guarded_Inr split: sum.splits)
  have "ob_RequestAttempt (en_Observation e) \<noteq> 0"
    using v by (simp add: Envelope_Validate_def CollectionObservation_Validate_def)
  moreover have "cd_Complete (eo_Content (en_Evidence e)) \<or> elems (eo_Errors (en_Evidence e)) \<noteq> []"
    using v by (simp add: Envelope_Validate_def EvidenceObject_Validate_def)
  ultimately show ?thesis using v bytes
    by (simp add: e envelope_for_def) (simp add: i_def with_defaults_def explicit_def)
qed

text \<open>Samples over a digest that is constant, so that every two identifiers of one kind agree.\<close>

definition constant_sha :: "string \<Rightarrow> string" where
  "constant_sha t = sample_digest"

lemma sample_digest_accepted [simp]: "checkSHA256 sample_digest label = None"
  using hex_digest_iff[of sample_digest 32] sample_digest by (simp add: checkSHA256_def)

lemma zero_digest_accepted: "length zero_digest = 64" "list_all lower_hex_digit zero_digest"
  by (simp_all add: zero_digest_def lower_hex_digit_def byte_def list_all_iff)

lemma zero_ids_valid [simp]:
  "CoverageUnitID_Validate (CoverageUnitID (''cov1:'' @ zero_digest)) = None"
  "CoverageAssessmentID_Validate (CoverageAssessmentID (''cova1:'' @ zero_digest)) = None"
  unfolding CoverageUnitID_Validate_def CoverageAssessmentID_Validate_def CoverageUnitID.sel CoverageAssessmentID.sel
  using zero_digest_accepted validateVersionedID_iff[of "''cov1:''" "''cov''"] validateVersionedID_iff[of "''cova1:''" "''cova''"]
  by (simp_all add: lower_letter_def byte_def)

lemma sample_evidence_ids_valid [simp]:
  "LogicalSourceID_Validate (LogicalSourceID (''src1:'' @ sample_digest)) = None"
  "CollectionObservationID_Validate (CollectionObservationID (''obs1:'' @ sample_digest)) = None"
  unfolding LogicalSourceID_Validate_def CollectionObservationID_Validate_def LogicalSourceID.sel CollectionObservationID.sel
  using sample_digest validateVersionedID_iff[of "''src1:''" "''src''"] validateVersionedID_iff[of "''obs1:''" "''obs''"]
  by (simp_all add: lower_letter_def byte_def)

lemma constant_id:
  "writable v \<Longrightarrow> validateCanonicalInput 0 v = None \<Longrightarrow> canonicalID constant_sha prefix v = Inr (prefix @ sample_digest)"
  using canonical_total[of v] by (auto simp: canonicalID_def constant_sha_def)

lemma sample_digest_utf8 [simp]: "ValidUTF8 (''src1:'' @ sample_digest)" "ValidUTF8 (''ev1:'' @ sample_digest)"
  "ValidUTF8 (''cov1:'' @ sample_digest)" "ValidUTF8 (''cova1:'' @ sample_digest)" "ValidUTF8 sample_digest"
  by (simp_all add: ValidUTF8_ascii sample_digest_def byte_def)

definition sample_retention :: "64 word \<Rightarrow> RetentionDescriptor" where
  "sample_retention n = \<lparr>rt_MediaType = ''text/plain'', rt_ByteLength = n, rt_RawRetained = False,
     rt_RetainedPayloadSHA256 = None, rt_RedactionStatus = RedactionNotInspected, rt_RedactionPolicyVersion = ''1''\<rparr>"

lemmas preimage_evaluation =
  optional_int_def optional_string_def optional_word_def built_slice_def nested_None ValidUTF8_ascii byte_def

lemma sample_evidence_id:
  "NewEvidenceID constant_sha (LogicalSourceID (''src1:'' @ sample_digest)) sample_digest (sample_retention n) =
     Inr (EvidenceID (''ev1:'' @ sample_digest))"
proof -
  let ?p = "evidence_preimage (LogicalSourceID (''src1:'' @ sample_digest)) sample_digest (sample_retention n)"
  have "RetentionDescriptor_Validate (sample_retention n) = None"
    using zero_digest_accepted hex_digest_iff[of zero_digest 32]
    by (simp add: sample_retention_def validate_defs RedactionStatus_Valid_def ValidUTF8_ascii byte_def flip: zero_digest_def)
  moreover have "writable ?p" "validateCanonicalInput 0 ?p = None"
    by (simp_all add: evidence_preimage_def RetentionDescriptor_value_def sample_retention_def preimage_evaluation del: append.simps)
  ultimately show ?thesis by (simp add: NewEvidenceID_def guarded_Inr constant_id del: append.simps)
qed

theorem evidence_id_identifies_witness:
  "collision constant_sha
     (evidence_preimage (LogicalSourceID (''src1:'' @ sample_digest)) sample_digest (sample_retention 1))
     (evidence_preimage (LogicalSourceID (''src1:'' @ sample_digest)) sample_digest (sample_retention 2))"
  using evidence_id_identifies[OF sample_evidence_id[of 1] sample_evidence_id[of 2]] by (simp add: sample_retention_def)

definition sample_scope :: CoverageScope where
  "sample_scope = \<lparr>cs_RepositoryID = Some 1, cs_WorkflowPath = None, cs_RunID = Some 7, cs_RunAttempt = None,
     cs_JobID = None, cs_StepKey = []\<rparr>"

definition sample_source :: "string \<Rightarrow> LogicalSourceIdentity" where
  "sample_source name = \<lparr>lsi_Kind = SourceJobLog, lsi_CanonicalID = name, lsi_Scope = sample_scope,
     lsi_RequestParameters = Some [(''page'', ''1'')]\<rparr>"

lemmas sample_text =
  SourceKind_Valid_def sourceKinds_def hasControl_def looksSensitive_def sensitiveName_def check_parameter_def ToLower_Contains_def
  ValidUTF8_ascii rune_list_ascii runes_ascii_all infix_of.simps lower_rune_def byte_def

lemma sample_source_id:
  assumes "name = ''a'' \<or> name = ''b''"
  shows "NewLogicalSourceID constant_sha (sample_source name) = Inr (LogicalSourceID (''src1:'' @ sample_digest))"
proof -
  let ?p = "source_preimage (sample_source name)"
  have "LogicalSourceIdentity_Validate (sample_source name) = None"
    using assms by (elim disjE) (simp_all add: sample_source_def sample_scope_def validate_defs sample_text)
  moreover have "writable ?p" "validateCanonicalInput 0 ?p = None"
    using assms
    by (elim disjE; simp add: source_preimage_def CoverageScope_value_def RequestParameters_value_def sample_source_def
        sample_scope_def preimage_evaluation)+
  ultimately show ?thesis by (simp add: NewLogicalSourceID_def guarded_Inr constant_id del: append.simps)
qed

theorem source_id_binds_witness:
  "collision constant_sha (source_preimage (sample_source ''a'')) (source_preimage (sample_source ''b''))"
  using source_id_binds[OF sample_source_id[of "''a''"] sample_source_id[of "''b''"]]
  by (simp add: sample_source_def go_map_def)

definition sample_input :: "string \<Rightarrow> EnvelopeInput" where
  "sample_input bytes =
     \<lparr>in_Kind = SourceJobLog, in_CanonicalSourceID = ''a'', in_Provider = ProviderGitHub, in_APIVersion = ''v3'',
      in_EndpointTemplate = ''/logs'', in_SourceURL = [], in_RequestParameters = Some [(''page'', ''1'')],
      in_RequestAttempt = 0, in_HTTPStatus = Some 200, in_Scope = sample_scope, in_EventTime = sample_event_time,
      in_MediaType = ''text/plain'', in_SourceBytes = Some bytes, in_Complete = True,
      in_Extractor = \<lparr>ed_Name = ''x'', ed_Version = ''1'', ed_RulesetSHA256 = sample_digest\<rparr>,
      in_Redaction = \<lparr>rd_Status = RedactionNotInspected, rd_PolicyVersion = ''1''\<rparr>, in_Errors = None,
      in_CollectionSession = CollectionSessionID ''s1'', in_RequestID = RequestID ''r1'',
      in_CollectionTime = \<lparr>cw_StartedAt = \<lparr>ns = 5, utc = True\<rparr>, cw_EndedAt = \<lparr>ns = 7, utc = True\<rparr>\<rparr>\<rparr>"

definition sample_envelope :: "string \<Rightarrow> Envelope" where
  "sample_envelope bytes =
     envelope_for (with_defaults (sample_input bytes)) (LogicalSourceID (''src1:'' @ sample_digest)) sample_digest
       (EvidenceID (''ev1:'' @ sample_digest)) (CollectionObservationID (''obs1:'' @ sample_digest))"

lemma sample_collection_id:
  "NewCollectionObservationID constant_sha (EvidenceID (''ev1:'' @ sample_digest)) (CollectionSessionID ''s1'') (RequestID ''r1'')
     \<lparr>ns = 7, utc = True\<rparr> 1 = Inr (CollectionObservationID (''obs1:'' @ sample_digest))"
proof -
  let ?x = "(EvidenceID (''ev1:'' @ sample_digest), CollectionSessionID ''s1'', RequestID ''r1'', \<lparr>ns = 7, utc = True\<rparr>, 1)"
  have "ValidUTF8 (RFC3339Nano \<lparr>ns = 7, utc = True\<rparr>)"
    by (rule ValidUTF8_ascii) code_simp
  moreover have "Instant_value \<lparr>ns = 7, utc = True\<rparr> = GCustom (Inr (RFC3339Nano \<lparr>ns = 7, utc = True\<rparr>))"
    by (simp add: Instant_value_def Instant_Validate_def first_error.simps require_def IsZero_def)
  ultimately have "writable (collection_preimage ?x)" "validateCanonicalInput 0 (collection_preimage ?x) = None"
    by (simp_all add: collection_preimage_def preimage_evaluation del: append.simps)
  then show ?thesis
    using sample_ids_valid(1)
    by (simp add: NewCollectionObservationID_def guarded_Inr collection_preimage_def constant_id normalized_def
        CollectionSessionID_Validate_def RequestID_Validate_def
        validateOpaqueID_def validBoundedIdentityText_def hasASCIIControl_bytes ValidUTF8_ascii byte_def del: append.simps)
qed

lemma sample_fields:
  "eo_SchemaVersion (en_Evidence (sample_envelope bytes)) = EvidenceSchemaVersion"
  "eo_ID (en_Evidence (sample_envelope bytes)) = EvidenceID (''ev1:'' @ sample_digest)"
  "ls_ID (eo_LogicalSource (en_Evidence (sample_envelope bytes))) = LogicalSourceID (''src1:'' @ sample_digest)"
  "ls_Kind (eo_LogicalSource (en_Evidence (sample_envelope bytes))) = SourceJobLog"
  "LogicalSource_Identity (eo_LogicalSource (en_Evidence (sample_envelope bytes))) sample_scope
     = sample_source ''a''"
  "eo_Scope (en_Evidence (sample_envelope bytes)) = sample_scope"
  "eo_EventTime (en_Evidence (sample_envelope bytes)) = sample_event_time"
  "eo_Errors (en_Evidence (sample_envelope bytes)) = Some []"
  "cd_Complete (eo_Content (en_Evidence (sample_envelope bytes)))"
  "cd_SourceSHA256 (eo_Content (en_Evidence (sample_envelope bytes))) = sample_digest"
  "retention_of (en_Evidence (sample_envelope bytes)) = sample_retention (of_nat (length bytes))"
  "dd_Kind (eo_Derivation (en_Evidence (sample_envelope bytes))) = []"
  "dd_ParentEvidenceIDs (eo_Derivation (en_Evidence (sample_envelope bytes))) = Some []"
  by (simp_all add: sample_envelope_def envelope_for_def LogicalSource_Identity_def sample_source_def with_defaults_def
      sample_input_def explicit_def retention_of_def sample_retention_def sample_event_time_def del: append.simps)

lemma sample_parts_validate:
  "SourceDescriptor_Validate parse (eo_Source (en_Evidence (sample_envelope bytes))) = None"
  "CoverageScope_Validate sample_scope = None" "EventInterval_Validate sample_event_time = None"
  "ContentDescriptor_Validate (eo_Content (en_Evidence (sample_envelope bytes))) = None"
  "ExtractorDescriptor_Validate (eo_Extractor (en_Evidence (sample_envelope bytes))) = None"
  "RedactionDescriptor_Validate (eo_Redaction (en_Evidence (sample_envelope bytes))) = None"
  "DerivationDescriptor_Validate (eo_Derivation (en_Evidence (sample_envelope bytes))) = None"
  by (simp_all add: sample_envelope_def envelope_for_def with_defaults_def explicit_def sample_input_def sample_scope_def
      sample_event_time_def SourceDescriptor_Validate_def Provider_Valid_def http_status_ok_def RedactionStatus_Valid_def
      SourcePrecision_defs TimeApproximation_defs EventTimeBasis_defs RequestParameters_Validate_def
      ContentDescriptor_Validate_def ExtractorDescriptor_Validate_def RedactionDescriptor_Validate_def
      DerivationDescriptor_Validate_def EventInterval_Validate_def CoverageScope_Validate_def RepositoryID_Validate_def
      WorkflowRunID_Validate_def validatePositive_def sample_text)

lemma sample_evidence_validates: "EvidenceObject_Validate parse constant_sha (en_Evidence (sample_envelope bytes)) = None"
  using sample_source_id[of "''a''"] sample_ids_valid(1)
  by (simp add: EvidenceObject_Validate_def LogicalSource_Validate_def check_derived_def sample_fields sample_parts_validate
      sample_evidence_id NewLogicalSourceID_def guarded_Inr del: append.simps)

lemma sample_envelope_validates: "Envelope_Validate parse constant_sha (sample_envelope bytes) = None"
proof -
  have "ob_ID (en_Observation (sample_envelope bytes)) = CollectionObservationID (''obs1:'' @ sample_digest)"
    "ob_EvidenceID (en_Observation (sample_envelope bytes)) = EvidenceID (''ev1:'' @ sample_digest)"
    "ob_CollectionSessionID (en_Observation (sample_envelope bytes)) = CollectionSessionID ''s1''"
    "ob_RequestID (en_Observation (sample_envelope bytes)) = RequestID ''r1''"
    "ob_RequestAttempt (en_Observation (sample_envelope bytes)) = 1"
    "ob_CollectionTime (en_Observation (sample_envelope bytes)) =
       \<lparr>cw_StartedAt = \<lparr>ns = 5, utc = True\<rparr>, cw_EndedAt = \<lparr>ns = 7, utc = True\<rparr>\<rparr>"
    by (simp_all add: sample_envelope_def envelope_for_def with_defaults_def sample_input_def del: append.simps)
  moreover have "CollectionWindow_Validate \<lparr>cw_StartedAt = \<lparr>ns = 5, utc = True\<rparr>, cw_EndedAt = \<lparr>ns = 7, utc = True\<rparr>\<rparr> = None"
    by (simp add: CollectionWindow_Validate_def normalized_def Before_def)
  ultimately show ?thesis
    using sample_collection_id sample_evidence_validates
    by (simp add: Envelope_Validate_def CollectionObservation_Validate_def sample_fields NewCollectionObservationID_def guarded_Inr
        del: append.simps)
qed

lemma sample_envelope_built: "NewEnvelope parse constant_sha (sample_input bytes) = Inr (sample_envelope bytes)"
proof -
  have "source_of (with_defaults (sample_input bytes)) = sample_source ''a''"
    "retention_for (with_defaults (sample_input bytes)) = sample_retention (of_nat (length bytes))"
    "in_SourceBytes (with_defaults (sample_input bytes)) = Some bytes" "in_SourceBytes (sample_input bytes) = Some bytes"
    "in_CollectionSession (with_defaults (sample_input bytes)) = CollectionSessionID ''s1''"
    "in_RequestID (with_defaults (sample_input bytes)) = RequestID ''r1''"
    "cw_EndedAt (in_CollectionTime (with_defaults (sample_input bytes))) = \<lparr>ns = 7, utc = True\<rparr>"
    "in_RequestAttempt (with_defaults (sample_input bytes)) = 1"
    by (simp_all add: source_of_def retention_for_def with_defaults_def sample_input_def explicit_def sample_source_def
        sample_retention_def)
  then show ?thesis
    using sample_envelope_validates[of parse bytes] sample_source_id[of "''a''"]
    by (simp add: NewEnvelope_def Let_def constant_sha_def[of bytes] sample_evidence_id sample_collection_id guarded_Inr
        del: append.simps flip: sample_envelope_def)
qed

theorem valid_evidence_pinned_witness:
  "eo_ID (en_Evidence (sample_envelope ''x'')) = eo_ID (en_Evidence (sample_envelope ''xy'')) \<and>
   collision constant_sha
     (evidence_preimage (LogicalSourceID (''src1:'' @ sample_digest)) sample_digest (sample_retention 1))
     (evidence_preimage (LogicalSourceID (''src1:'' @ sample_digest)) sample_digest (sample_retention 2))"
proof -
  have map: "go_map (ls_RequestParameters (eo_LogicalSource (en_Evidence (sample_envelope bytes))))" for bytes
    by (simp add: sample_envelope_def envelope_for_def with_defaults_def explicit_def sample_input_def go_map_def)
  have id: "eo_ID (en_Evidence (sample_envelope ''x'')) = eo_ID (en_Evidence (sample_envelope ''xy''))"
    by (simp add: sample_fields)
  have "sample_retention 1 \<noteq> sample_retention 2" by (simp add: sample_retention_def)
  moreover have "\<not> collision sha v v" for sha v by (auto simp: collision_def)
  ultimately show ?thesis
    using valid_evidence_pinned[OF sample_evidence_validates sample_evidence_validates id map map] id
    by (simp add: sample_fields)
qed

theorem envelope_faithful_witness:
  "\<exists>e. NewEnvelope (\<lambda>_. None) constant_sha (sample_input ''xy'') = Inr e \<and>
     Envelope_Validate (\<lambda>_. None) constant_sha e = None \<and> cd_ByteLength (eo_Content (en_Evidence e)) = 2"
  using envelope_faithful[OF sample_envelope_built[of "\<lambda>_. None" "''xy''"]] sample_envelope_built[of "\<lambda>_. None" "''xy''"]
  by (auto simp: sample_input_def)

definition sample_logical :: "string \<Rightarrow> FindingLogicalInput" where
  "sample_logical indicator = \<lparr>fli_IncidentID = ''inc'', fli_IncidentAPI = ''a/v1'', fli_IndicatorID = indicator,
     fli_Subject = sample_subject, fli_PropositionKind = ''execution''\<rparr>"

definition sample_revision :: "string \<Rightarrow> FindingRevisionInput" where
  "sample_revision ver = \<lparr>fri_FindingID = FindingID (''find1:'' @ sample_digest), fri_CanonicalPackSHA256 = sample_digest,
     fri_State = NoMatchConfirmed, fri_Provenance = L4Certain, fri_EvidenceIDs = [], fri_CoverageIDs = [],
     fri_RuleVersion = ver, fri_Proposition = sample_proposition\<lparr>pr_Attributes := Some [\<lparr>pa_Name = ''n'', pa_Value = ''v''\<rparr>]\<rparr>\<rparr>"

lemma sample_finding_id:
  assumes "indicator = ''a'' \<or> indicator = ''b''"
  shows "NewFindingID constant_sha (sample_logical indicator) = Inr (FindingID (''find1:'' @ sample_digest))"
proof -
  have major: "IncidentAPIMajor ''a/v1'' = Inr ''v1''"
    by (simp add: IncidentAPIMajor_def positive_number_def pre_release_def HasPrefix_def lower_letter_def decimal_digit_def byte_def)
  have subject: "subjectIdentity sample_subject = Some \<lparr>si_RepositoryID = 1, si_WorkflowPath = None, si_WorkflowObjectID = None,
      si_WorkflowUnknown = True, si_RunID = Some 7, si_RunAttempt = Some 1, si_JobID = Some 9, si_StepKey = []\<rparr>" (is "_ = Some ?s")
    by (simp add: subjectIdentity_def sample_subject_def)
  have "writable (finding_preimage (sample_logical indicator) ''v1'' ?s)"
    "validateCanonicalInput 0 (finding_preimage (sample_logical indicator) ''v1'' ?s) = None"
    using assms by (auto simp: finding_preimage_def findingSubjectIdentity_value_def sample_logical_def preimage_evaluation)
  then show ?thesis using assms sample_subject_valid
    by (auto simp: NewFindingID_def guarded_Inr sample_logical_def major subject constant_id simp del: append.simps)
qed

lemma sample_revision_id:
  assumes "ver = ''1'' \<or> ver = ''2''"
  shows "NewFindingRevisionID constant_sha (sample_revision ver) = Inr (FindingRevisionID (''frev1:'' @ sample_digest))"
proof -
  have normal: "normal_revision (sample_revision ver) = sample_revision ver"
    by (simp add: normal_revision_def sample_revision_def NormalizeProposition_def sample_proposition_def
        evidence_list.canon_fixed coverage_list.canon_fixed)
  have attributes: "Proposition_Validate (fri_Proposition (sample_revision ver)) = None"
    by (simp add: sample_revision_def sample_proposition_def Proposition_Validate_def validMachineName_def machine_rune_def
        byte_def runes_ascii_all validateBoundedText_def ascii_text require_def)
  have "ValidUTF8 (''find1:'' @ sample_digest)" by (simp add: ValidUTF8_ascii sample_digest_def byte_def)
  then have "writable (revision_preimage (sample_revision ver))"
    "validateCanonicalInput 0 (revision_preimage (sample_revision ver)) = None"
    using assms
    by (auto simp: revision_preimage_def Proposition_value_def PropositionAttribute_value_def sample_revision_def
        sample_proposition_def preimage_evaluation simp del: append.simps)
  moreover have "fri_FindingID (sample_revision ver) = FindingID (''find1:'' @ sample_digest)"
    "fri_CanonicalPackSHA256 (sample_revision ver) = sample_digest" "FindingState_Valid (fri_State (sample_revision ver))"
    "ProvenanceLevel_Valid (fri_Provenance (sample_revision ver))" "fri_RuleVersion (sample_revision ver) \<noteq> []"
    "fri_EvidenceIDs (sample_revision ver) = []" "fri_CoverageIDs (sample_revision ver) = []"
    using assms by (auto simp: sample_revision_def enum_defs)
  ultimately show ?thesis using attributes sample_ids_valid(4)
    by (simp add: NewFindingRevisionID_def Let_def guarded_Inr normal constant_id first_error.simps(1) del: append.simps)
qed

theorem finding_ids_identify_witness:
  "\<exists>s t. collision constant_sha (finding_preimage (sample_logical ''a'') ''v1'' s) (finding_preimage (sample_logical ''b'') ''v1'' t) \<and>
     collision constant_sha (revision_preimage (normal_revision (sample_revision ''1'')))
       (revision_preimage (normal_revision (sample_revision ''2'')))"
proof -
  have "major_of (sample_logical n) = ''v1''" for n
    by (simp add: major_of_def sample_logical_def IncidentAPIMajor_def positive_number_def pre_release_def HasPrefix_def
        lower_letter_def decimal_digit_def byte_def)
  moreover have "finding_key (sample_logical ''a'') \<noteq> finding_key (sample_logical ''b'')"
    by (simp add: finding_key_def sample_logical_def)
  moreover have "normal_revision (sample_revision ''1'') \<noteq> normal_revision (sample_revision ''2'')"
    by (simp add: normal_revision_def sample_revision_def)
  ultimately show ?thesis
    using finding_ids_identify[where sha = constant_sha and x = "sample_logical ''a''" and y = "sample_logical ''b''"
        and a = "sample_revision ''1''" and b = "sample_revision ''2''" and i = "FindingID (''find1:'' @ sample_digest)"
        and j = "FindingID (''find1:'' @ sample_digest)" and k = "FindingRevisionID (''frev1:'' @ sample_digest)"
        and l = "FindingRevisionID (''frev1:'' @ sample_digest)"]
      sample_finding_id[of "''a''"] sample_finding_id[of "''b''"] sample_revision_id[of "''1''"] sample_revision_id[of "''2''"]
    by (auto simp del: append.simps)
qed

lemma sample_unit_identity:
  assumes "key = ''a'' \<or> key = ''b''"
  shows "ValidateCoverageUnitIdentity constant_sha (sample_unit\<lparr>cu_LogicalKey := key\<rparr>) = None"
proof -
  let ?u = "sample_unit\<lparr>cu_LogicalKey := key\<rparr>"
  have valid: "CoverageUnit_Validate ?u = None" "CoverageUnit_Validate (?u\<lparr>cu_ID := CoverageUnitID (''cov1:'' @ zero_digest)\<rparr>) = None"
    using assms sample_accepted(1)
    by (auto simp: accepted_units_def CoverageUnit_Validate_def sample_unit_def validBoundedIdentityText_def hasASCIIControl_bytes
        ValidUTF8_ascii byte_def simp del: append.simps)
  have "writable (unit_preimage ?u)" "validateCanonicalInput 0 (unit_preimage ?u) = None"
    using assms by (auto simp: unit_preimage_def CoverageScope_value_def sample_unit_def preimage_evaluation)
  then show ?thesis using valid
    by (simp add: ValidateCoverageUnitIdentity_def NewCoverageUnitID_def guarded_Inr constant_id sample_unit_def del: append.simps)
qed

theorem validated_records_pinned_witness:
  "collision constant_sha (unit_preimage (sample_unit\<lparr>cu_LogicalKey := ''a''\<rparr>)) (unit_preimage (sample_unit\<lparr>cu_LogicalKey := ''b''\<rparr>))"
  using validated_records_pinned[where sha = constant_sha and u = "sample_unit\<lparr>cu_LogicalKey := ''a''\<rparr>"
      and v = "sample_unit\<lparr>cu_LogicalKey := ''b''\<rparr>"] sample_unit_identity[of "''a''"] sample_unit_identity[of "''b''"]
  by (simp add: sample_unit_def)

end
