(* ===== verification/Exposure.thy ===== *)
theory Exposure
  imports Go_Time Prelude "HOL-Library.AList"
begin

text \<open>
  \<open>internal/exposure/exposure.go\<close>: conservative propositions about credentials, runners and downstream
  resources of an affected step. \<open>strings.ToUpper\<close> and \<open>strings.ToLower\<close> on arbitrary Unicode text are the
  parameters \<open>upper\<close> and \<open>lower\<close>. \<open>sort.Slice\<close> with an order that does not separate all facts is the parameter
  \<open>sort_slice\<close>, of which only the documented result is used: the same elements, none after a smaller one. Slices are values:
  that the sorting happens in the caller's array is not modelled.
\<close>

section \<open>Inputs and facts\<close>

datatype Basis = BasisRuntimeObserved | BasisStaticInferred | OtherBasis string

primrec Basis_text :: "Basis \<Rightarrow> string" where
  "Basis_text BasisRuntimeObserved = ''runtime-observed''"
| "Basis_text BasisStaticInferred = ''static-inferred''"
| "Basis_text (OtherBasis s) = s"

record Permission =
  pm_Name :: string
  pm_Access :: string
  pm_Basis :: Basis
  pm_EvidenceIDs :: "string list"






record StepInterval =
  iv_Start :: gotime
  iv_End :: gotime

record SynchronizationEdge =
  se_FromStep :: string
  se_ToStep :: string
  se_EvidenceIDs :: "string list"



record Fact =
  fact_Kind :: string
  fact_Name :: string
  fact_Capability :: string
  fact_Basis :: string
  fact_Conclusion :: string
  fact_EvidenceIDs :: "string list"


section \<open>Permissions\<close>

definition sortedUnique :: "string list \<Rightarrow> string list" where
  "sortedUnique values =
     foldl (\<lambda>result v. if v \<noteq> [] \<and> (result = [] \<or> last result \<noteq> v) then result @ [v] else result) [] (sort values)"

definition merge_permission :: "(string \<Rightarrow> string) \<Rightarrow> bool \<Rightarrow> (string \<times> Permission) list \<Rightarrow> Permission \<Rightarrow> (string \<times> Permission) list" where
  "merge_permission lower hasRuntime byName permission =
     (if hasRuntime \<and> pm_Basis permission \<noteq> BasisRuntimeObserved then byName
      else let name = lower (pm_Name permission) in
        if name = [] then byName
        else let evidence = (case map_of byName name of
                None \<Rightarrow> pm_EvidenceIDs permission
              | Some previous \<Rightarrow> pm_EvidenceIDs previous @ pm_EvidenceIDs permission)
          in AList.update name (permission\<lparr>pm_Name := name, pm_Access := lower (pm_Access permission),
               pm_EvidenceIDs := sortedUnique evidence\<rparr>) byName)"

definition effectivePermissions :: "(string \<Rightarrow> string) \<Rightarrow> Permission list \<Rightarrow> Permission list" where
  "effectivePermissions lower input =
     (let hasRuntime = list_ex (\<lambda>p. pm_Basis p = BasisRuntimeObserved) input
      in sort_key pm_Name (map snd (foldl (merge_permission lower hasRuntime) [] input)))"

definition permission_facts :: "Permission \<Rightarrow> Fact list" where
  "permission_facts p =
     \<lparr>fact_Kind = ''GITHUB_TOKEN'', fact_Name = pm_Name p, fact_Capability = pm_Access p, fact_Basis = Basis_text (pm_Basis p),
      fact_Conclusion = ''The affected lifecycle could use the job token permission '' @ pm_Name p @ '': '' @ pm_Access p @
        ''; repository activity was not established.'', fact_EvidenceIDs = sortedUnique (pm_EvidenceIDs p)\<rparr> #
     (if pm_Name p = ''id-token'' \<and> pm_Access p = ''write''
      then [\<lparr>fact_Kind = ''OIDC_MINTING_CAPABILITY'', fact_Name = [], fact_Capability = ''id-token: write'',
             fact_Basis = Basis_text (pm_Basis p),
             fact_Conclusion = ''The affected lifecycle could request a GitHub OIDC token; no token request, relying-party trust, exchange, cloud identity, or role assumption was established.'',
             fact_EvidenceIDs = sortedUnique (pm_EvidenceIDs p)\<rparr>]
      else [])"

section \<open>Secrets\<close>



section \<open>Runner and resources\<close>





section \<open>The analysis\<close>



definition HappensBefore :: "string \<Rightarrow> string \<Rightarrow> (string \<times> StepInterval) list \<Rightarrow> SynchronizationEdge list \<Rightarrow> bool" where
  "HappensBefore fromStep toStep intervals edges \<longleftrightarrow>
     (case (map_of intervals fromStep, map_of intervals toStep) of
        (Some f, Some t) \<Rightarrow> \<not> IsZero (iv_End f) \<and> \<not> IsZero (iv_Start t) \<and> Before (iv_End f) (iv_Start t)
      | _ \<Rightarrow> False) \<or>
     list_ex (\<lambda>e. se_FromStep e = fromStep \<and> se_ToStep e = toStep \<and> se_EvidenceIDs e \<noteq> []) edges"

section \<open>Lists of evidence\<close>

lemma sortedUnique_remdups: "sortedUnique vs = remdups_adj (filter (\<lambda>v. v \<noteq> []) (sort vs))"
proof -
  let ?f = "\<lambda>result v. if v \<noteq> [] \<and> (result = [] \<or> last result \<noteq> v) then result @ [v] else (result :: string list)"
  have "foldl ?f r xs = (if r = [] then remdups_adj (filter (\<lambda>v. v \<noteq> []) xs)
      else butlast r @ remdups_adj (last r # filter (\<lambda>v. v \<noteq> []) xs))" for r xs
  proof (induction xs arbitrary: r)
    case Nil
    then show ?case by simp
  next
    case (Cons x xs)
    then show ?case by (cases "r = []"; cases "x = []") (auto simp: butlast_append)
  qed
  from this[of "[]" "sort vs"] show ?thesis by (simp add: sortedUnique_def)
qed

lemma set_sortedUnique [simp]: "set (sortedUnique vs) = set vs - {[]}"
  by (auto simp: sortedUnique_remdups)

lemma sorted_sortedUnique: "strictly_sorted (sortedUnique vs)"
  unfolding sortedUnique_remdups by (rule strictly_sorted_remdups_adj) (simp add: sorted_filter[of id, simplified])

lemma sortedUnique_eq_iff: "sortedUnique vs = sortedUnique ws \<longleftrightarrow> set vs - {[]} = set ws - {[]}"
  using strictly_sorted_set_eq sorted_sortedUnique set_sortedUnique by metis

section \<open>Effective permissions\<close>

text \<open>The entries that count for a name, and the permission they make.\<close>

definition entries :: "(string \<Rightarrow> string) \<Rightarrow> bool \<Rightarrow> string \<Rightarrow> Permission list \<Rightarrow> Permission list" where
  "entries lower hasRuntime name = filter (\<lambda>p. (hasRuntime \<longrightarrow> pm_Basis p = BasisRuntimeObserved) \<and> lower (pm_Name p) = name)"

definition merged :: "(string \<Rightarrow> string) \<Rightarrow> string \<Rightarrow> Permission list \<Rightarrow> Permission" where
  "merged lower name ps = (last ps)\<lparr>pm_Name := name, pm_Access := lower (pm_Access (last ps)),
     pm_EvidenceIDs := sortedUnique (concat (map pm_EvidenceIDs ps))\<rparr>"

lemma merge_permissions:
  "distinct (map fst (foldl (merge_permission lower rt) [] ps)) \<and>
   (\<forall>n. map_of (foldl (merge_permission lower rt) [] ps) n =
      (if n = [] \<or> entries lower rt n ps = [] then None else Some (merged lower n (entries lower rt n ps))))"
proof (induction ps rule: rev_induct)
  case Nil
  then show ?case by (simp add: entries_def)
next
  case (snoc p ps)
  define m where "m = foldl (merge_permission lower rt) [] ps"
  have m: "distinct (map fst m)" "\<And>n. map_of m n =
      (if n = [] \<or> entries lower rt n ps = [] then None else Some (merged lower n (entries lower rt n ps)))"
    using snoc by (simp_all add: m_def)
  show ?case
  proof (cases "rt \<and> pm_Basis p \<noteq> BasisRuntimeObserved \<or> lower (pm_Name p) = []")
    case True
    then have "merge_permission lower rt m p = m" by (auto simp: merge_permission_def Let_def)
    moreover have "n \<noteq> [] \<Longrightarrow> entries lower rt n (ps @ [p]) = entries lower rt n ps" for n
      using True by (auto simp: entries_def)
    ultimately show ?thesis using m by (simp flip: m_def)
  next
    case False
    let ?n = "lower (pm_Name p)"
    have e: "entries lower rt n (ps @ [p]) = entries lower rt n ps @ (if n = ?n then [p] else [])" for n
      using False by (auto simp: entries_def)
    have "merge_permission lower rt m p = AList.update ?n (merged lower ?n (entries lower rt ?n ps @ [p])) m"
    proof (cases "entries lower rt ?n ps = []")
      case True
      then have "map_of m ?n = None" by (simp add: m(2))
      moreover have "\<not> (rt \<and> pm_Basis p \<noteq> BasisRuntimeObserved)" using False by blast
      ultimately show ?thesis using False True by (auto simp: merge_permission_def Let_def merged_def)
    next
      case ne: False
      then have "map_of m ?n = Some (merged lower ?n (entries lower rt ?n ps))" using False by (simp add: m(2))
      moreover have "\<not> (rt \<and> pm_Basis p \<noteq> BasisRuntimeObserved)" using False by blast
      moreover have "sortedUnique (sortedUnique as @ bs) = sortedUnique (as @ bs)" for as bs
        unfolding sortedUnique_eq_iff by auto
      ultimately show ?thesis using False by (auto simp: merge_permission_def Let_def merged_def)
    qed
    then show ?thesis using m False by (auto simp: e update_conv' distinct_update simp flip: m_def)
  qed
qed

text \<open>
  The effective permissions have one entry per name, in the order of the names. It carries the access and the
  basis of the last entry that counts for the name and the evidence of all of them, and once any permission
  was observed at runtime only such permissions count.
\<close>

theorem effective_permissions_spec:
  "strictly_sorted (map pm_Name (effectivePermissions lower ps)) \<and>
   set (effectivePermissions lower ps) =
     (let rt = \<exists>p \<in> set ps. pm_Basis p = BasisRuntimeObserved
      in {merged lower n (entries lower rt n ps) | n. n \<noteq> [] \<and> entries lower rt n ps \<noteq> []})"
proof -
  define rt where "rt = list_ex (\<lambda>p. pm_Basis p = BasisRuntimeObserved) ps"
  define m where "m = foldl (merge_permission lower rt) [] ps"
  have m: "distinct (map fst m)" "\<And>n. map_of m n =
      (if n = [] \<or> entries lower rt n ps = [] then None else Some (merged lower n (entries lower rt n ps)))"
    using merge_permissions[of lower rt ps] by (simp_all add: m_def)
  have eff: "effectivePermissions lower ps = sort_key pm_Name (map snd m)"
    by (simp add: effectivePermissions_def Let_def rt_def m_def)
  have key: "pm_Name p = n" if "(n, p) \<in> set m" for n p
    using map_of_is_SomeI[OF m(1) that] m(2)[of n] by (auto simp: merged_def split: if_splits)
  have "map pm_Name (map snd m) = map fst m" using key by auto
  then have "distinct (map pm_Name (map snd m))" using m(1) by metis
  then have "strictly_sorted (map pm_Name (sort_key pm_Name (map snd m)))"
    unfolding strictly_sorted_iff by (metis distinct_map distinct_sort set_sort sorted_sort_key)
  moreover have "set (map snd m) = {merged lower n (entries lower rt n ps) | n. n \<noteq> [] \<and> entries lower rt n ps \<noteq> []}"
  proof -
    have "set (map snd m) = {p. \<exists>n. map_of m n = Some p}"
      using map_of_is_SomeI[OF m(1)] by (force dest: map_of_SomeD)
    then show ?thesis by (auto simp: m(2) split: if_splits)
  qed
  moreover have "(\<exists>p \<in> set ps. pm_Basis p = BasisRuntimeObserved) = rt" by (simp add: rt_def list_ex_iff)
  ultimately show ?thesis by (simp add: eff Let_def)
qed

section \<open>What is claimed\<close>

















text \<open>
  Without synchronization edges, and when no step ends before it starts, happening before is a strict order of the
  steps: irreflexive, asymmetric and transitive. So no cycle of causation can be read off the intervals.
\<close>

theorem happens_before_strict_order:
  assumes "\<forall>(k, i) \<in> set intervals. \<not> Before (iv_End i) (iv_Start i)"
  shows "\<not> HappensBefore a a intervals [] \<and>
    (HappensBefore a b intervals [] \<longrightarrow> \<not> HappensBefore b a intervals []) \<and>
    (HappensBefore a b intervals [] \<and> HappensBefore b c intervals [] \<longrightarrow> HappensBefore a c intervals [])"
proof -
  have ok: "ns (iv_Start i) \<le> ns (iv_End i)" if "map_of intervals k = Some i" for k i
    using assms map_of_SomeD[OF that] by (auto simp: Before_def)
  show ?thesis
    by (cases "map_of intervals a"; cases "map_of intervals b"; cases "map_of intervals c")
      (auto simp: HappensBefore_def Before_def dest!: ok)
qed

text \<open>
  The access of a permission that is listed twice is the last one: an entry that grants id-token: write followed by one
  that does not gives no OIDC fact, although the evidence of both is cited for the remaining one, and the
  reversed list gives the fact.
\<close>

theorem permission_access_last_wins:
  assumes "lower ''id-token'' = ''id-token''" "lower ''write'' = ''write''" "lower ''read'' = ''read''"
  shows "\<exists>p q. effectivePermissions lower [p, q] = [q\<lparr>pm_EvidenceIDs := [''e1'', ''e2'']\<rparr>] \<and>
      effectivePermissions lower [q, p] = [p\<lparr>pm_EvidenceIDs := [''e1'', ''e2'']\<rparr>] \<and>
      length (concat (map permission_facts (effectivePermissions lower [p, q]))) = 1 \<and>
      length (concat (map permission_facts (effectivePermissions lower [q, p]))) = 2"
proof -
  let ?p = "\<lparr>pm_Name = ''id-token'', pm_Access = ''write'', pm_Basis = BasisStaticInferred, pm_EvidenceIDs = [''e1'']\<rparr>"
  let ?q = "\<lparr>pm_Name = ''id-token'', pm_Access = ''read'', pm_Basis = BasisStaticInferred, pm_EvidenceIDs = [''e2'']\<rparr>"
  have u: "sortedUnique [''e1''] = [''e1'']" "sortedUnique [''e2''] = [''e2'']" "sortedUnique [''e1'', ''e2''] = [''e1'', ''e2'']"
    "sortedUnique [''e2'', ''e1''] = [''e1'', ''e2'']"
    by (simp_all add: sortedUnique_def)
  have "effectivePermissions lower [?p, ?q] = [?q\<lparr>pm_EvidenceIDs := [''e1'', ''e2'']\<rparr>]"
    "effectivePermissions lower [?q, ?p] = [?p\<lparr>pm_EvidenceIDs := [''e1'', ''e2'']\<rparr>]"
    using assms by (simp_all add: effectivePermissions_def merge_permission_def Let_def u)
  then show ?thesis by (intro exI[of _ ?p] exI[of _ ?q]) (simp add: permission_facts_def)
qed

theorem permission_access_last_wins_witness:
  "\<exists>p q. length (concat (map permission_facts (effectivePermissions (\<lambda>s. s) [p, q]))) = 1 \<and>
     length (concat (map permission_facts (effectivePermissions (\<lambda>s. s) [q, p]))) = 2"
  using permission_access_last_wins[of "\<lambda>s. s"] by blast





theorem happens_before_strict_order_witness:
  "\<not> HappensBefore ''b'' ''a'' [(''a'', \<lparr>iv_Start = \<lparr>ns = 1, utc = True\<rparr>, iv_End = \<lparr>ns = 2, utc = True\<rparr>\<rparr>),
     (''b'', \<lparr>iv_Start = \<lparr>ns = 3, utc = True\<rparr>, iv_End = \<lparr>ns = 4, utc = True\<rparr>\<rparr>)] []"
  using happens_before_strict_order[of "[(''a'', \<lparr>iv_Start = \<lparr>ns = 1, utc = True\<rparr>, iv_End = \<lparr>ns = 2, utc = True\<rparr>\<rparr>),
     (''b'', \<lparr>iv_Start = \<lparr>ns = 3, utc = True\<rparr>, iv_End = \<lparr>ns = 4, utc = True\<rparr>\<rparr>)]" "''a''" "''b''" "''b''"]
  by (simp add: HappensBefore_def time_defs)

end
