(* ===== verification/Sanitize.thy ===== *)
theory Sanitize
  imports Go_Strings Go_Utf8 "HOL-Library.Sublist"
begin

text \<open>
  Hostile text made safe for one kind of output (sanitize/text.go): a terminal line, a text node of HTML or SVG, a box
  of fixed width, a cell of a spreadsheet. A byte position of the source is the rest of the text from there on.
\<close>

section \<open>Runes\<close>

text \<open>The tables \<open>unicode.Bidi_Control\<close> and \<open>unicode.Cf\<close> of Unicode 15 and \<open>unicode.IsControl\<close>.\<close>

definition unicode_Bidi_Control :: "nat \<Rightarrow> bool" where
  "unicode_Bidi_Control r \<longleftrightarrow> r = 0x61C \<or> (0x200E \<le> r \<and> r \<le> 0x200F) \<or> (0x202A \<le> r \<and> r \<le> 0x202E) \<or>
     (0x2066 \<le> r \<and> r \<le> 0x2069)"

definition unicode_Cf :: "nat \<Rightarrow> bool" where
  "unicode_Cf r = list_ex (\<lambda>(lo, hi). lo \<le> r \<and> r \<le> hi)
     [(0xAD, 0xAD), (0x600, 0x605), (0x61C, 0x61C), (0x6DD, 0x6DD), (0x70F, 0x70F), (0x890, 0x891), (0x8E2, 0x8E2),
      (0x180E, 0x180E), (0x200B, 0x200F), (0x202A, 0x202E), (0x2060, 0x2064), (0x2066, 0x206F), (0xFEFF, 0xFEFF),
      (0xFFF9, 0xFFFB), (0x110BD, 0x110BD), (0x110CD, 0x110CD), (0x13430, 0x1343F), (0x1BCA0, 0x1BCA3),
      (0x1D173, 0x1D17A), (0xE0001, 0xE0001), (0xE0020, 0xE007F)]"

definition control_rune :: "nat \<Rightarrow> bool" where
  "control_rune r \<longleftrightarrow> r < 0x20 \<or> (0x7F \<le> r \<and> r < 0xA0)"

definition isUnsafeRune :: "nat \<Rightarrow> bool" where
  "isUnsafeRune r \<longleftrightarrow> (0x80 \<le> r \<and> r \<le> 0x9F) \<or> unicode_Bidi_Control r"

definition presentationSafeRune :: "nat \<Rightarrow> bool" where
  "presentationSafeRune r \<longleftrightarrow>
     (if r < 0x20 \<or> r = 0x7F \<or> (0x80 \<le> r \<and> r \<le> 0x9F) \<or> isUnsafeRune r then False
      else if r > 0x10FFFF \<or> (0xD800 \<le> r \<and> r \<le> 0xDFFF) then False
      else if (0xFDD0 \<le> r \<and> r \<le> 0xFDEF) \<or> r mod 0x10000 = 0xFFFE \<or> r mod 0x10000 = 0xFFFF then False
      else 0x20 \<le> r \<and> (r \<le> 0xD7FF \<or> (0xE000 \<le> r \<and> r \<le> 0xFFFD) \<or> 0x10000 \<le> r))"

definition displayUnits :: "nat \<Rightarrow> int" where
  "displayUnits r = (if r \<le> 0x7F then 1 else 2)"

definition displayTextUnits :: "string \<Rightarrow> int" where
  "displayTextUnits s = sum_list (map displayUnits (rune_list s))"

section \<open>Escape sequences\<close>

text \<open>The scan for the final byte of a control sequence: what follows it, or the end of the text.\<close>

fun after_csi :: "string \<Rightarrow> string" where
  "after_csi [] = []"
| "after_csi (c # s) = (if 0x40 \<le> byte c \<and> byte c \<le> 0x7E then s else after_csi s)"

text \<open>The scan for BEL or for ESC followed by a backslash.\<close>

fun after_st :: "string \<Rightarrow> string" where
  "after_st [] = []"
| "after_st (c # s) =
     (if byte c = 0x07 then s
      else if byte c = 0x1B \<and> s \<noteq> [] \<and> hd s = CHR 0x5C then tl s
      else after_st s)"

text \<open>The text after the escape sequence that starts at its first byte.\<close>

definition skipEscape :: "string \<Rightarrow> string" where
  "skipEscape s =
     (case s of
        esc # c # t \<Rightarrow>
          if c = CHR ''['' then after_csi t
          else if c \<in> {CHR '']'', CHR ''P'', CHR ''X'', CHR ''^'', CHR ''_''} then after_st t
          else t
      | _ \<Rightarrow> [])"

lemma after_csi_shorter: "length (after_csi s) \<le> length s"
  by (induction s) auto

lemma after_st_shorter: "length (after_st s) \<le> length s"
  by (induction s rule: after_st.induct) (auto intro: le_trans[OF _ le_SucI])

lemma skipEscape_shorter: "s \<noteq> [] \<Longrightarrow> length (skipEscape s) < length s"
  using after_csi_shorter after_st_shorter
  by (auto simp: skipEscape_def less_Suc_eq_le le_SucI split: list.split)

lemma drop_rune_shorter: "s \<noteq> [] \<Longrightarrow> length (drop (snd (decode_rune s)) s) < length s"
  using decode_rune_size[of s] by simp

lemma tl_shorter: "s \<noteq> [] \<Longrightarrow> length (tl s) < length s"
  by simp

lemmas shorter = skipEscape_shorter drop_rune_shorter tl_shorter

section \<open>Terminal text\<close>





section \<open>Text of a document\<close>

definition line_break :: "nat \<Rightarrow> bool" where
  "line_break r \<longleftrightarrow> r = 0x0A \<or> r = 0x0D \<or> r = 0x09 \<or> r = 0x2028 \<or> r = 0x2029"

text \<open>The loop with its text so far and the flag \<open>pendingSpace\<close>; it returns the text and whether it was cut.\<close>

function present_loop :: "int \<Rightarrow> string \<Rightarrow> string \<Rightarrow> bool \<Rightarrow> string \<times> bool" where
  "present_loop maxBytes s b pending =
     (if s = [] then (b, False)
      else if byte (hd s) = 0x1B then present_loop maxBytes (skipEscape s) b pending
      else if line_break (fst (decode_rune s)) then
        present_loop maxBytes (drop (snd (decode_rune s)) s) b (b \<noteq> [])
      else if \<not> presentationSafeRune (fst (decode_rune s)) then
        present_loop maxBytes (drop (snd (decode_rune s)) s) b pending
      else if pending \<and> maxBytes < int (length b) + 1 then (b, True)
      else if maxBytes < int (length (if pending then b @ '' '' else b)) + int (length (encode_rune (fst (decode_rune s))))
        then (if pending then b @ '' '' else b, True)
      else present_loop maxBytes (drop (snd (decode_rune s)) s)
             ((if pending then b @ '' '' else b) @ encode_rune (fst (decode_rune s))) False)"
  by pat_completeness auto
termination
  by (relation "measure (\<lambda>(m, s, b, p). length s)") (simp_all only: in_measure prod.case shorter wf_measure de_Morgan_disj simp_thms)

declare present_loop.simps [simp del]

text \<open>\<open>utf8.DecodeLastRuneInString\<close>: the bytes of the last rune are looked for among the last four.\<close>

definition decode_last_size :: "string \<Rightarrow> nat" where
  "decode_last_size s =
     (if s = [] then 0
      else if byte (last s) < 0x80 then 1
      else let starts = filter (\<lambda>k. k \<le> length s \<and> \<not> cont_byte (s ! (length s - k))) [2, 3, 4];
               k = (case starts of [] \<Rightarrow> min 5 (length s) | k # _ \<Rightarrow> k)
           in if snd (decode_rune (drop (length s - k) s)) = k then k else 1)"

definition without_last :: "string \<Rightarrow> string" where
  "without_last s = take (length s - decode_last_size s) s"

lemma decode_last_size_pos: "s \<noteq> [] \<Longrightarrow> 0 < decode_last_size s"
  by (auto simp: decode_last_size_def Let_def split: list.splits)

lemma TrimSpace_shorter: "length (TrimSpace s) \<le> length s"
proof -
  obtain a b where "s = a @ TrimSpace s @ b" using TrimFunc_infix unfolding TrimSpace_def by blast
  then have "length s = length a + (length (TrimSpace s) + length b)" by (metis length_append)
  then show ?thesis by linarith
qed

lemma without_last_shorter: "s \<noteq> [] \<Longrightarrow> length (without_last s) < length s"
  using decode_last_size_pos by (simp add: without_last_def)

definition truncationSuffix :: string where
  "truncationSuffix = '' '' @ encode_rune 0x2026 @ '' [truncated]''"

function shorten_bytes :: "int \<Rightarrow> string \<Rightarrow> string" where
  "shorten_bytes maxBytes v =
     (if v \<noteq> [] \<and> maxBytes < int (length v) + int (length truncationSuffix)
      then shorten_bytes maxBytes (TrimSpace (without_last v)) else v)"
  by pat_completeness auto
termination
  by (relation "measure (\<lambda>(m, s). length s)")
    (use le_less_trans[OF TrimSpace_shorter without_last_shorter] in auto)

declare shorten_bytes.simps [simp del]

definition appendByteTruncationSuffix :: "string \<Rightarrow> int \<Rightarrow> string" where
  "appendByteTruncationSuffix value maxBytes =
     (let short = shorten_bytes maxBytes (TrimSpace value)
      in if maxBytes < int (length truncationSuffix) then [] else TrimSpace short @ truncationSuffix)"

definition Presentation :: "string \<Rightarrow> int \<Rightarrow> string \<times> bool" where
  "Presentation value maxBytes =
     (if maxBytes \<le> 0 then ([], value \<noteq> [])
      else let (text, truncated) = present_loop maxBytes value [] False;
               result = TrimSpace text
           in (TrimSpace (if truncated then appendByteTruncationSuffix result maxBytes else result), truncated))"

section \<open>Text of a fixed width\<close>

definition ellipsis :: string where
  "ellipsis = encode_rune 0x2026"

function shorten_units :: "int \<Rightarrow> string \<Rightarrow> string" where
  "shorten_units maxUnits v =
     (if v \<noteq> [] \<and> maxUnits < displayTextUnits v + displayTextUnits ellipsis
      then shorten_units maxUnits (TrimSpace (without_last v)) else v)"
  by pat_completeness auto
termination
  by (relation "measure (\<lambda>(m, s). length s)")
    (use le_less_trans[OF TrimSpace_shorter without_last_shorter] in auto)

declare shorten_units.simps [simp del]

definition appendDisplayEllipsis :: "string \<Rightarrow> int \<Rightarrow> string" where
  "appendDisplayEllipsis value maxUnits =
     (let short = shorten_units maxUnits (TrimSpace value)
      in if maxUnits < displayTextUnits ellipsis then [] else short @ ellipsis)"

fun display_loop :: "int \<Rightarrow> int \<Rightarrow> nat list \<Rightarrow> string \<Rightarrow> int \<Rightarrow> int \<Rightarrow> string \<times> bool" where
  "display_loop maxRunes maxUnits [] b shown units = (b, False)"
| "display_loop maxRunes maxUnits (r # rs) b shown units =
     (if maxRunes \<le> shown \<or> maxUnits < units + displayUnits r then (b, True)
      else display_loop maxRunes maxUnits rs (b @ encode_rune r) (shown + 1) (units + displayUnits r))"

definition TruncateDisplay :: "string \<Rightarrow> int \<Rightarrow> int \<Rightarrow> string \<times> bool" where
  "TruncateDisplay value maxRunes maxUnits =
     (if maxRunes \<le> 0 \<or> maxUnits \<le> 0 then ([], value \<noteq> [])
      else let (text, truncated) = display_loop maxRunes maxUnits (rune_list value) [] 0 0;
               result = TrimSpace text
           in (if truncated then appendDisplayEllipsis result maxUnits else result, truncated))"

text \<open>How many runes fit into a line, and the position of the last white space among them.\<close>

fun line_limit :: "int \<Rightarrow> nat list \<Rightarrow> nat \<Rightarrow> int \<Rightarrow> nat option \<Rightarrow> nat \<times> nat option" where
  "line_limit maxUnits [] limit units lastSpace = (limit, lastSpace)"
| "line_limit maxUnits (r # rs) limit units lastSpace =
     (if maxUnits < units + displayUnits r then (limit, lastSpace)
      else line_limit maxUnits rs (Suc limit) (units + displayUnits r)
             (if unicode_IsSpace r then Some limit else lastSpace))"

text \<open>One line and the number of runes it uses up.\<close>

definition wrap_line :: "int \<Rightarrow> nat list \<Rightarrow> string \<times> nat" where
  "wrap_line maxUnits rs =
     (let (fit, lastSpace) = line_limit maxUnits rs 0 0 None;
          limit = (if fit = 0 then 1 else fit);
          cut = (case lastSpace of
                   Some l \<Rightarrow> if limit < length rs \<and> 0 < l then l else limit
                 | None \<Rightarrow> limit);
          line = TrimSpace (encode_runes (take cut rs))
      in if line = [] then (encode_runes (take limit rs), limit) else (line, cut))"

text \<open>The lines, at most as many as are left, and the runes that found no line.\<close>

fun wrap_lines :: "int \<Rightarrow> nat \<Rightarrow> nat list \<Rightarrow> string list \<times> nat list" where
  "wrap_lines maxUnits 0 rs = ([], rs)"
| "wrap_lines maxUnits (Suc n) rs =
     (if rs = [] then ([], [])
      else let (line, cut) = wrap_line maxUnits rs;
               (lines, rest) = wrap_lines maxUnits n (dropWhile unicode_IsSpace (drop cut rs))
           in (line # lines, rest))"

definition WrapDisplay :: "string \<Rightarrow> int \<Rightarrow> int \<Rightarrow> int \<Rightarrow> string list \<times> bool" where
  "WrapDisplay value maxRunes maxUnits maxLines =
     (if maxRunes \<le> 0 \<or> maxUnits \<le> 0 \<or> maxLines \<le> 0 then ([''[unavailable]''], value \<noteq> [])
      else let rs = take (nat maxRunes) (rune_list value);
               (wrapped, rest) = wrap_lines maxUnits (nat maxLines) rs;
               truncated = (length rs < length (rune_list value) \<or> rest \<noteq> []);
               lines = (if wrapped = [] then [''[unavailable]''] else wrapped)
           in (if truncated then butlast lines @ [appendDisplayEllipsis (last lines) maxUnits] else lines, truncated))"

section \<open>Spreadsheet cells\<close>

text \<open>The text after the leading bytes that a spreadsheet may drop.\<close>

function probe_cell :: "string \<Rightarrow> string" where
  "probe_cell s =
     (if s \<noteq> [] \<and> (decode_rune s = (rune_error, 1) \<or> control_rune (fst (decode_rune s)) \<or>
        unicode_IsSpace (fst (decode_rune s)) \<or> unicode_Cf (fst (decode_rune s)))
      then probe_cell (drop (snd (decode_rune s)) s) else s)"
  by pat_completeness auto
termination
  by (relation "measure length") (use decode_rune_size in fastforce)+

declare probe_cell.simps [simp del]

definition formula_start :: "string \<Rightarrow> bool" where
  "formula_start value \<longleftrightarrow>
     probe_cell value \<noteq> [] \<and> fst (decode_rune (probe_cell value)) \<in> {0x3D, 0x2B, 0x2D, 0x40}"

definition CSVCell :: "string \<Rightarrow> string" where
  "CSVCell value = (if formula_start value then CHR 0x27 # value else value)"

section \<open>Encoded text\<close>

text \<open>Text that encodes runes with a property; the loops build such text and trimming and cutting keep it.\<close>

definition text_of :: "(nat \<Rightarrow> bool) \<Rightarrow> string \<Rightarrow> bool" where
  "text_of P s \<longleftrightarrow> ValidUTF8 s \<and> list_all P (rune_list s)"

definition trim_list :: "nat list \<Rightarrow> nat list" where
  "trim_list rs = rev (dropWhile unicode_IsSpace (rev (dropWhile unicode_IsSpace rs)))"

lemma valid_encode: "list_all scalar_value rs \<Longrightarrow> ValidUTF8 (encode_runes rs)"
  by (auto simp: ValidUTF8_def runes_encode_runes list_all_iff rune_error_def encode_rune_def)

lemma text_ofE:
  assumes "text_of P s"
  obtains rs where "s = encode_runes rs" "list_all scalar_value rs" "list_all P rs"
  using assms that[of "rune_list s"] encode_rune_list[of s] rune_list_scalar[of _ s] by (simp add: text_of_def list_all_iff)

lemma text_of_encode: "list_all scalar_value rs \<Longrightarrow> list_all P rs \<Longrightarrow> text_of P (encode_runes rs)"
  by (simp add: text_of_def valid_encode rune_list_encode list_all_iff)

lemma encode_runes_append [simp]: "encode_runes (xs @ ys) = encode_runes xs @ encode_runes ys"
  by (simp add: encode_runes_def)

lemma text_of_append: "text_of P s \<Longrightarrow> text_of P t \<Longrightarrow> text_of P (s @ t)"
  by (elim text_ofE) (simp flip: encode_runes_append add: text_of_encode)

lemma text_of_Nil [simp]: "text_of P []"
  by (simp add: text_of_def ValidUTF8_def rune_list_def)

lemma text_of_rune: "scalar_value r \<Longrightarrow> P r \<Longrightarrow> text_of P (encode_rune r)"
  using text_of_encode[of "[r]" P] by simp

lemma pieces_encode: "list_all scalar_value rs \<Longrightarrow> pieces (encode_runes rs) = map (\<lambda>r. (r, encode_rune r)) rs"
  unfolding pieces_def
  by (induction rs) (simp_all add: runes_encode)

lemma TrimSpace_encode: "list_all scalar_value rs \<Longrightarrow> TrimSpace (encode_runes rs) = encode_runes (trim_list rs)"
  unfolding TrimSpace_def TrimFunc_def trim_pieces_def trim_list_def encode_runes_def
  by (simp add: pieces_encode[unfolded encode_runes_def] dropWhile_map rev_map comp_def)

lemma set_trim_list: "set (trim_list rs) \<subseteq> set rs"
  unfolding trim_list_def by (auto dest!: set_dropWhileD)

lemma text_of_TrimSpace: "text_of P s \<Longrightarrow> text_of P (TrimSpace s)"
  using set_trim_list by (elim text_ofE) (fastforce simp: TrimSpace_encode list_all_iff intro!: text_of_encode)
section \<open>What safe text is\<close>

text \<open>
  The runes that are allowed, by their code points: no C0 control, DEL or C1 control and no bidirectional control of
  Unicode; for a document further only code points of XML's \<open>Char\<close> that are characters, and no line or paragraph separator.
\<close>

definition bidi_controls :: "nat list" where
  "bidi_controls = [0x061C, 0x200E, 0x200F, 0x202A, 0x202B, 0x202C, 0x202D, 0x202E, 0x2066, 0x2067, 0x2068, 0x2069]"

definition noncharacters :: "nat list" where
  "noncharacters = [0xFDD0..<0xFDF0] @ concat (map (\<lambda>plane. [plane * 0x10000 + 0xFFFE, plane * 0x10000 + 0xFFFF]) [0..<17])"

definition terminal_rune :: "nat \<Rightarrow> bool" where
  "terminal_rune r \<longleftrightarrow> 0x20 \<le> r \<and> r \<notin> {0x7F..0x9F} \<and> r \<notin> set bidi_controls"

definition xml_char :: "nat \<Rightarrow> bool" where
  "xml_char r \<longleftrightarrow> r \<in> {0x09, 0x0A, 0x0D} \<union> {0x20..0xD7FF} \<union> {0xE000..0xFFFD} \<union> {0x10000..0x10FFFF}"

definition document_rune :: "nat \<Rightarrow> bool" where
  "document_rune r \<longleftrightarrow> xml_char r \<and> terminal_rune r \<and> r \<notin> set noncharacters \<and> r \<notin> {0x2028, 0x2029}"




text \<open>The filters of the source are these sets of runes, and \<open>skipEscape\<close> skips these sequences.\<close>

lemma unsafe_bidi: "unicode_Bidi_Control r \<longleftrightarrow> r \<in> set bidi_controls"
  unfolding unicode_Bidi_Control_def bidi_controls_def by simp presburger

lemma terminal_rune_code: "terminal_rune r \<longleftrightarrow> 0x20 \<le> r \<and> r \<noteq> 0x7F \<and> \<not> isUnsafeRune r"
  unfolding terminal_rune_def isUnsafeRune_def unsafe_bidi by auto

lemma noncharacter_iff:
  "r \<in> set noncharacters \<longleftrightarrow> (0xFDD0 \<le> r \<and> r < 0xFDF0) \<or> r \<le> 0x10FFFF \<and> (r mod 0x10000 = 0xFFFE \<or> r mod 0x10000 = 0xFFFF)"
proof -
  have "r \<in> set (concat (map (\<lambda>plane. [plane * 0x10000 + 0xFFFE, plane * 0x10000 + 0xFFFF]) [0..<17])) \<longleftrightarrow>
      (\<exists>plane < 17. r = plane * 0x10000 + 0xFFFE \<or> r = plane * 0x10000 + 0xFFFF)"
    by (simp only: set_concat set_map set_upt) auto
  also have "\<dots> \<longleftrightarrow> r \<le> 0x10FFFF \<and> (r mod 0x10000 = 0xFFFE \<or> r mod 0x10000 = 0xFFFF)"
  proof
    assume *: "r \<le> 0x10FFFF \<and> (r mod 0x10000 = 0xFFFE \<or> r mod 0x10000 = 0xFFFF)"
    define q where "q = r div 0x10000"
    have "r = q * 0x10000 + r mod 0x10000" by (simp add: q_def)
    then show "\<exists>plane < 17. r = plane * 0x10000 + 0xFFFE \<or> r = plane * 0x10000 + 0xFFFF"
      using * by (intro exI[of _ q]) linarith
  qed auto
  finally show ?thesis by (simp only: noncharacters_def set_append set_upt Un_iff atLeastLessThan_iff)
qed

lemma document_rune_code: "document_rune r \<longleftrightarrow> presentationSafeRune r \<and> \<not> line_break r"
proof -
  define nonchar where "nonchar \<longleftrightarrow> r mod 0x10000 = 0xFFFE \<or> r mod 0x10000 = 0xFFFF"
  have *: "r = 0xFFFE \<or> r = 0xFFFF \<longrightarrow> nonchar" by (auto simp: nonchar_def)
  show ?thesis
    unfolding document_rune_def terminal_rune_code xml_char_def noncharacter_iff presentationSafeRune_def line_break_def
      Un_iff insert_iff atLeastAtMost_iff empty_iff isUnsafeRune_def nonchar_def[symmetric]
    by (cases "unicode_Bidi_Control r"; cases nonchar; simp) (use * in presburger)
qed








section \<open>Terminal text is safe\<close>



lemma encode_space: "encode_rune 0x20 = '' ''"
  by code_simp

lemma length_replacement [simp]: "length (encode_rune rune_error) = 3"
  by (simp add: encode_rune_def rune_error_def)

lemma text_of_space: "P 0x20 \<Longrightarrow> text_of P '' ''"
  using text_of_rune[of "0x20" P] by (simp add: encode_space scalar_value_def)




text \<open>Text that is safe already is copied.\<close>

lemma encode_first: "scalar_value r \<Longrightarrow> r < 0x80 \<Longrightarrow> byte (hd (encode_rune r @ s)) = r"
  by (simp add: encode_rune_def)

lemma encode_first_high:
  assumes "scalar_value r" "0x80 \<le> r" shows "0x80 \<le> byte (hd (encode_rune r @ s))"
proof (rule ccontr)
  assume "\<not> ?thesis"
  moreover obtain c t where "encode_rune r @ s = c # t" by (cases "encode_rune r") auto
  ultimately show False using decode_encode_rune[OF assms(1), of s] decode_rune_ascii[of c t] assms by simp
qed


lemma first_not_control:
  assumes "scalar_value r" "0x20 \<le> r" "r \<noteq> 0x7F"
  shows "0x20 \<le> byte (hd (encode_rune r @ s))" "byte (hd (encode_rune r @ s)) \<noteq> 0x7F"
  using assms encode_first[of r s] encode_first_high[of r s] by (cases "r < 0x80"; simp)+









section \<open>Document text is safe\<close>

lemma document_space: "document_rune 0x20"
  by (simp add: document_rune_code presentationSafeRune_def isUnsafeRune_def unicode_Bidi_Control_def line_break_def)

text \<open>What the loop returns at once, and what it goes on with.\<close>

lemma present_loop_step:
  "(\<exists>e cut. present_loop m s b p = (b @ e, cut) \<and> text_of document_rune e \<and> (e \<noteq> [] \<longrightarrow> int (length (b @ e)) \<le> m)) \<or>
   (\<exists>s' e p'. length s' < length s \<and> present_loop m s b p = present_loop m s' (b @ e) p' \<and>
      text_of document_rune e \<and> (e \<noteq> [] \<longrightarrow> int (length (b @ e)) \<le> m))"
proof (cases "s = []")
  case True
  then show ?thesis by (intro disjI1 exI[of _ "[]"] exI[of _ False]) (simp add: present_loop.simps)
next
  case False
  note more = False and eq = present_loop.simps[of m s b p]
  let ?r = "fst (decode_rune s)" and ?t = "drop (snd (decode_rune s)) s" and ?b = "if p then b @ '' '' else b"
  consider "byte (hd s) = 0x1B" | "byte (hd s) \<noteq> 0x1B" "line_break ?r"
    | "byte (hd s) \<noteq> 0x1B" "\<not> line_break ?r" "\<not> presentationSafeRune ?r"
    | "byte (hd s) \<noteq> 0x1B" "document_rune ?r" "p \<and> m < int (length b) + 1"
    | "byte (hd s) \<noteq> 0x1B" "document_rune ?r" "\<not> (p \<and> m < int (length b) + 1)"
    unfolding document_rune_code by blast
  then show ?thesis
  proof cases
    case 1
    then have "present_loop m s b p = present_loop m (skipEscape s) (b @ []) p" using more eq by simp
    then show ?thesis using skipEscape_shorter[OF more] text_of_Nil by blast
  next
    case 2
    then have "present_loop m s b p = present_loop m ?t (b @ []) (b \<noteq> [])" using more eq by simp
    then show ?thesis using drop_rune_shorter[OF more] text_of_Nil by blast
  next
    case 3
    then have "present_loop m s b p = present_loop m ?t (b @ []) p" using more eq by simp
    then show ?thesis using drop_rune_shorter[OF more] text_of_Nil by blast
  next
    case 4
    then have "present_loop m s b p = (b @ [], True)" using more eq by (simp add: document_rune_code)
    then show ?thesis using text_of_Nil by blast
  next
    case 5
    have r: "scalar_value ?r" using decode_scalar[OF more] .
    let ?e = "if p then '' '' else []"
    have e: "text_of document_rune ?e" "?b = b @ ?e" "?e \<noteq> [] \<longrightarrow> int (length (b @ ?e)) \<le> m"
      using 5 text_of_space[of document_rune, OF document_space] by auto
    have safe: "text_of document_rune (?e @ encode_rune ?r)"
      using e(1) text_of_rune[OF r, of document_rune] 5 by (intro text_of_append) auto
    have "present_loop m s b p = (b @ ?e, True) \<or>
        present_loop m s b p = present_loop m ?t (b @ ?e @ encode_rune ?r) False \<and> int (length (b @ ?e @ encode_rune ?r)) \<le> m"
      using more eq 5 by (auto simp: document_rune_code)
    then show ?thesis using e safe drop_rune_shorter[OF more] by blast
  qed
qed

lemma present_loop_safe:
  "text_of document_rune b \<Longrightarrow> int (length b) \<le> m \<Longrightarrow>
   text_of document_rune (fst (present_loop m s b p)) \<and> int (length (fst (present_loop m s b p))) \<le> m"
proof (induction s arbitrary: b p rule: length_induct)
  case (1 s)
  from present_loop_step[of m s b p] show ?case
    using 1 text_of_append by (elim disjE exE conjE) (auto simp: text_of_append)
qed


section \<open>Cutting the last rune\<close>

lemma encode_tail_cont: "scalar_value r \<Longrightarrow> c \<in> set (tl (encode_rune r)) \<Longrightarrow> cont_byte c"
proof -
  have m: "(0x80 + n mod 64) mod 256 = 0x80 + n mod 64" for n :: nat by simp
  have l: "n mod 64 \<le> 63" for n :: nat by (simp add: less_Suc_eq_le[symmetric])
  show "c \<in> set (tl (encode_rune r)) \<Longrightarrow> cont_byte c"
    using l by (auto simp: encode_rune_def cont_byte_def m split: if_splits)
qed

lemma encode_head_start: "scalar_value r \<Longrightarrow> \<not> cont_byte (hd (encode_rune r))"
proof -
  assume "scalar_value r"
  then have "r div 64 < 32 \<or> 0x800 \<le> r" "r div 4096 < 16 \<or> 0x10000 \<le> r" "r div 262144 < 5"
    by (auto simp: scalar_value_def div_less_iff_less_mult)
  then show ?thesis by (auto simp: encode_rune_def cont_byte_def)
qed

lemma encode_size: "length (encode_rune r) \<in> {1, 2, 3, 4}"
  by (simp add: encode_rune_def)

lemma decode_last_encode:
  assumes "scalar_value r"
  shows "decode_last_size (s @ encode_rune r) = length (encode_rune r)"
proof (cases "tl (encode_rune r) = []")
  case True
  then obtain c where c: "encode_rune r = [c]" by (cases "encode_rune r") auto
  then have "byte c < 0x80"
    using decode_encode_rune[OF assms, of "[]"] assms
    by (auto simp: encode_rune_def split: if_splits)
  then show ?thesis by (simp add: decode_last_size_def c)
next
  case False
  let ?e = "encode_rune r" and ?s = "s @ encode_rune r"
  define k where "k = length ?e"
  obtain h t where e: "?e = h # t" by (cases ?e) auto
  have k: "k \<in> {2, 3, 4}" using encode_size[of r] False e by (auto simp: k_def)
  have last_c: "\<not> byte (last ?s) < 0x80"
  proof -
    have "last ?s = last t" "t \<noteq> []" using e False by auto
    then have "cont_byte (last ?s)" using encode_tail_cont[OF assms, of "last t"] e by simp
    then show ?thesis by (simp add: cont_byte_def)
  qed
  have at: "?s ! (length ?s - j) = ?e ! (k - j)" if "j \<le> k" for j
  proof -
    have "length ?s - j = length s + (k - j)" using that by (simp add: k_def)
    then show ?thesis by (simp only: nth_append_length_plus)
  qed
  have inner: "cont_byte (?s ! (length ?s - j))" if "2 \<le> j" "j < k" for j
  proof -
    have "k - j = Suc (k - j - 1)" "k - j - 1 < length t" using that e k_def by auto
    then have "?e ! (k - j) \<in> set (tl ?e)" using e by (metis list.sel(3) nth_Cons_Suc nth_mem)
    then show ?thesis using at[of j] that encode_tail_cont[OF assms] by simp
  qed
  have first: "\<not> cont_byte (?s ! (length ?s - k))"
    using at[of k] encode_head_start[OF assms] e by simp
  have len: "k \<le> length ?s" by (simp add: k_def)
  have "\<exists>js. filter (\<lambda>j. j \<le> length ?s \<and> \<not> cont_byte (?s ! (length ?s - j))) [2, 3, 4] = k # js"
    using k inner[of 2] inner[of 3] first len by auto
  then obtain js where js: "filter (\<lambda>j. j \<le> length ?s \<and> \<not> cont_byte (?s ! (length ?s - j))) [2, 3, 4] = k # js" by blast
  have "drop (length ?s - k) ?s = ?e" by (simp add: k_def)
  then have "snd (decode_rune (drop (length ?s - k) ?s)) = k"
    using decode_encode_rune[OF assms, of "[]"] by (simp add: k_def)
  then show ?thesis using js last_c unfolding decode_last_size_def Let_def
    by (simp only: js list.case if_True if_False refl) (simp add: k_def)
qed

lemma without_last_encode:
  assumes "list_all scalar_value rs"
  shows "without_last (encode_runes rs) = encode_runes (butlast rs)"
proof (cases rs rule: rev_cases)
  case (snoc qs r)
  then show ?thesis using assms by (simp add: without_last_def decode_last_encode)
qed (simp add: without_last_def)

lemma text_of_without_last: "text_of P s \<Longrightarrow> text_of P (without_last s)"
  by (elim text_ofE)
    (simp add: without_last_encode, intro text_of_encode; simp add: list_all_iff; blast dest: in_set_butlastD)

lemma shorten_bytes_safe:
  "text_of P v \<Longrightarrow> text_of P (shorten_bytes m v) \<and>
   (shorten_bytes m v = [] \<or> int (length (shorten_bytes m v)) + int (length truncationSuffix) \<le> m)"
proof (induction m v rule: shorten_bytes.induct)
  case (1 m v)
  show ?case
  proof (cases "v \<noteq> [] \<and> m < int (length v) + int (length truncationSuffix)")
    case True
    then show ?thesis
      using "1.IH"[OF True text_of_TrimSpace[OF text_of_without_last[OF "1.prems"]]] shorten_bytes.simps[of m v] by simp
  next
    case False
    then show ?thesis using "1.prems" shorten_bytes.simps[of m v] by (metis linorder_not_less)
  qed
qed

definition suffix_runes :: "nat list" where
  "suffix_runes = [0x5B, 0x74, 0x72, 0x75, 0x6E, 0x63, 0x61, 0x74, 0x65, 0x64, 0x5D]"

lemma encode_suffix: "encode_runes (0x20 # suffix_runes) = '' [truncated]''"
  by (simp add: suffix_runes_def encode_rune_def char_of_eq_iff)

lemma truncationSuffix_eq: "truncationSuffix = encode_runes (0x20 # 0x2026 # 0x20 # suffix_runes)"
  using encode_suffix by (simp add: truncationSuffix_def encode_space)

lemma suffix_safe: "list_all scalar_value (0x20 # 0x2026 # 0x20 # suffix_runes)"
  "list_all document_rune (0x20 # 0x2026 # 0x20 # suffix_runes)"
  by (simp_all add: suffix_runes_def scalar_value_def document_rune_code presentationSafeRune_def isUnsafeRune_def
      unicode_Bidi_Control_def line_break_def)



lemma trim_list_keeps:
  assumes "\<not> unicode_IsSpace x" "\<not> unicode_IsSpace (last (x # us))"
  shows "\<exists>ps. trim_list (rs @ x # us) = ps @ x # us"
proof -
  obtain ps where ps: "dropWhile unicode_IsSpace (rs @ x # us) = ps @ x # us"
  proof (cases "\<forall>y \<in> set rs. unicode_IsSpace y")
    case True
    then show thesis using assms(1) that[of "[]"] by (simp add: dropWhile_append)
  next
    case False
    then have "dropWhile unicode_IsSpace (rs @ x # us) = dropWhile unicode_IsSpace rs @ x # us"
      by (simp only: dropWhile_append if_False)
    then show thesis by (rule that)
  qed
  have "rev (ps @ x # us) = last (x # us) # tl (rev (x # us) @ rev ps)"
    by (metis append_is_Nil_conv hd_append2 hd_rev list.collapse list.distinct(1) rev_append rev_is_Nil_conv)
  then show ?thesis unfolding trim_list_def ps using assms(2)
    by (metis dropWhile.simps(2) rev_rev_ident)
qed

lemma document_basic: "document_rune r \<Longrightarrow> 0x20 \<le> r \<and> r \<noteq> 0x7F"
  by (simp add: document_rune_code presentationSafeRune_def split: if_splits)

lemma present_loop_copies:
  "list_all scalar_value rs \<Longrightarrow> list_all document_rune rs \<Longrightarrow> int (length b) \<le> m \<Longrightarrow>
   if int (length (b @ encode_runes rs)) \<le> m
   then present_loop m (encode_runes rs) b False = (b @ encode_runes rs, False)
   else snd (present_loop m (encode_runes rs) b False)"
proof (induction rs arbitrary: b)
  case Nil
  then show ?case by (simp add: present_loop.simps)
next
  case (Cons r rs)
  let ?s = "encode_rune r @ encode_runes rs"
  have r: "scalar_value r" "0x20 \<le> r" "r \<noteq> 0x7F" "presentationSafeRune r" "\<not> line_break r"
    using Cons.prems document_basic[of r] by (auto simp: document_rune_code)
  have "byte (hd ?s) \<noteq> 0x1B" using first_not_control[OF r(1-3), of "encode_runes rs"] by linarith
  then have "present_loop m ?s b False =
      (if m < int (length b) + int (length (encode_rune r)) then (b, True)
       else present_loop m (encode_runes rs) (b @ encode_rune r) False)"
    using r by (subst present_loop.simps) (simp add: decode_encode_rune[OF r(1)])
  then show ?case using Cons.IH[of "b @ encode_rune r"] Cons.prems by (simp split: if_splits)
qed


lemma Presentation_parts:
  assumes "0 < m" "present_loop m v [] False = (t, c)"
  shows "text_of document_rune t \<and> int (length t) \<le> m \<and>
    Presentation v m = (TrimSpace (if c then appendByteTruncationSuffix (TrimSpace t) m else TrimSpace t), c)"
  using present_loop_safe[of "[]" m v False] assms by (simp add: Presentation_def)





text \<open>Where there is room for it, document text that was cut ends with the visible mark of the cut.\<close>

theorem cut_text_is_marked:
  assumes "snd (Presentation v m)" and "int (length truncationSuffix) \<le> m"
  shows "HasSuffix (fst (Presentation v m)) (tl truncationSuffix)"
proof -
  have pos: "0 < m" using assms(2) by (simp add: truncationSuffix_def)
  obtain t c where l: "present_loop m v [] False = (t, c)" by fastforce
  have p: "text_of document_rune t" "Presentation v m = (TrimSpace (appendByteTruncationSuffix (TrimSpace t) m), True)"
    using Presentation_parts[OF pos l] assms(1) by auto
  let ?s = "TrimSpace (shorten_bytes m (TrimSpace (TrimSpace t)))"
  have a: "appendByteTruncationSuffix (TrimSpace t) m = ?s @ truncationSuffix"
    using assms(2) by (simp add: appendByteTruncationSuffix_def Let_def)
  have "text_of document_rune ?s"
    by (intro text_of_TrimSpace conjunct1[OF shorten_bytes_safe] p(1))
  then obtain rs where rs: "?s = encode_runes rs" "list_all scalar_value rs" by (elim text_ofE)
  let ?x = "0x20 # suffix_runes"
  have *: "rs @ 0x20 # 0x2026 # ?x = (rs @ [0x20]) @ 0x2026 # ?x" by simp
  obtain ps where ps: "trim_list (rs @ 0x20 # 0x2026 # ?x) = ps @ 0x2026 # ?x"
    unfolding * using trim_list_keeps[of "0x2026" ?x "rs @ [0x20]"] by (auto simp: unicode_IsSpace_def suffix_runes_def)
  have "TrimSpace (?s @ truncationSuffix) = TrimSpace (encode_runes (rs @ 0x20 # 0x2026 # ?x))"
    by (simp only: rs truncationSuffix_eq encode_runes_append)
  also have "\<dots> = encode_runes ps @ tl truncationSuffix"
    using rs(2) suffix_safe(1) by (subst TrimSpace_encode) (simp_all add: ps truncationSuffix_eq encode_space)
  finally show ?thesis unfolding p(2) a by (auto simp: HasSuffix_iff)
qed

theorem cut_text_is_marked_witness:
  "HasSuffix (fst (Presentation (replicate 17 CHR ''a'') 16)) (tl truncationSuffix)"
proof (rule cut_text_is_marked)
  let ?rs = "replicate 17 (0x61::nat)"
  have a: "encode_rune 0x61 = ''a''" by code_simp
  have "encode_runes (replicate n 0x61) = replicate n CHR ''a''" for n by (induction n) (simp_all add: a)
  then have eq: "replicate 17 CHR ''a'' = encode_runes ?rs" by (rule sym)
  have "snd (present_loop 16 (encode_runes ?rs) [] False)"
    using present_loop_copies[of ?rs "[]" 16]
    by (simp add: list_all_iff eq[symmetric] scalar_value_def document_rune_code presentationSafeRune_def isUnsafeRune_def
        unicode_Bidi_Control_def line_break_def)
  then show "snd (Presentation (replicate 17 CHR ''a'') 16)"
    by (auto simp: Presentation_def eq Let_def split: prod.split)
  show "int (length truncationSuffix) \<le> 16" by (simp add: truncationSuffix_def encode_rune_def)
qed

section \<open>Text of a fixed width fits\<close>

lemma displayUnits_pos: "1 \<le> displayUnits r" "displayUnits r \<le> 2"
  by (simp_all add: displayUnits_def)

lemma units_encode: "list_all scalar_value rs \<Longrightarrow> displayTextUnits (encode_runes rs) = sum_list (map displayUnits rs)"
  by (simp add: displayTextUnits_def rune_list_encode list_all_iff)

lemma units_nonneg: "0 \<le> sum_list (map displayUnits rs)"
  using displayUnits_pos(1) by (induction rs) (auto intro: order_trans[OF zero_le_one] add_nonneg_nonneg)

lemma units_ellipsis: "displayTextUnits ellipsis = 2"
  using units_encode[of "[0x2026]"] by (simp add: ellipsis_def scalar_value_def displayUnits_def)

lemma units_trim: "sum_list (map displayUnits (trim_list rs)) \<le> sum_list (map displayUnits rs)"
proof -
  have drop_units: "sum_list (map displayUnits (dropWhile p xs)) \<le> sum_list (map displayUnits xs)" for p xs
    by (induction xs) (auto simp: displayUnits_def)
  have rev_units: "sum_list (map displayUnits (rev xs)) = sum_list (map displayUnits xs)" for xs
    by (simp add: rev_map[symmetric])
  show ?thesis unfolding trim_list_def rev_units
    using drop_units[of unicode_IsSpace rs] drop_units[of unicode_IsSpace "rev (dropWhile unicode_IsSpace rs)"]
    by (simp add: rev_units)
qed

lemma set_trim_scalar: "list_all scalar_value rs \<Longrightarrow> list_all scalar_value (trim_list rs)"
  using set_trim_list[of rs] by (auto simp: list_all_iff)

lemma units_TrimSpace: "text_of P s \<Longrightarrow> displayTextUnits (TrimSpace s) \<le> displayTextUnits s"
  by (elim text_ofE) (simp add: TrimSpace_encode units_encode set_trim_scalar units_trim)

lemma units_append: "text_of P s \<Longrightarrow> text_of Q t \<Longrightarrow> displayTextUnits (s @ t) = displayTextUnits s + displayTextUnits t"
proof (elim text_ofE)
  fix xs ys assume "s = encode_runes xs" "t = encode_runes ys" "list_all scalar_value xs" "list_all scalar_value ys"
  then show ?thesis by (simp flip: encode_runes_append add: units_encode)
qed

text \<open>Trimming and cutting add no rune.\<close>

lemma length_trim_list: "length (trim_list rs) \<le> length rs"
  unfolding trim_list_def by (metis length_dropWhile_le length_rev order_trans)

lemma rune_count_TrimSpace: "text_of P s \<Longrightarrow> length (rune_list (TrimSpace s)) \<le> length (rune_list s)"
  by (elim text_ofE) (use set_trim_scalar length_trim_list in \<open>simp add: TrimSpace_encode rune_list_encode list_all_iff\<close>)

lemma list_all_butlast: "list_all P xs \<Longrightarrow> list_all P (butlast xs)"
  by (induction xs) auto

lemma rune_count_without_last: "text_of P s \<Longrightarrow> length (rune_list (without_last s)) \<le> length (rune_list s)"
  by (elim text_ofE) (use list_all_butlast[of scalar_value] in \<open>simp add: without_last_encode rune_list_encode list_all_iff\<close>)

lemma rune_count_append:
  "text_of P s \<Longrightarrow> text_of Q t \<Longrightarrow> length (rune_list (s @ t)) = length (rune_list s) + length (rune_list t)"
proof (elim text_ofE)
  fix xs ys assume "s = encode_runes xs" "t = encode_runes ys" "list_all scalar_value xs" "list_all scalar_value ys"
  then show ?thesis by (simp flip: encode_runes_append add: rune_list_encode list_all_iff ball_Un)
qed

text \<open>The text an ellipsis is added to, and what comes out.\<close>

definition plain_text :: "string \<Rightarrow> bool" where
  "plain_text = text_of (\<lambda>r. True)"

lemma plain_ellipsis: "plain_text ellipsis"
  unfolding plain_text_def ellipsis_def by (rule text_of_rune) (simp_all add: scalar_value_def)

lemma shorten_units_fits:
  "plain_text v \<Longrightarrow> plain_text (shorten_units m v) \<and> length (rune_list (shorten_units m v)) \<le> length (rune_list v) \<and>
   (shorten_units m v = [] \<or> displayTextUnits (shorten_units m v) + displayTextUnits ellipsis \<le> m)"
proof (induction m v rule: shorten_units.induct)
  case (1 m v)
  show ?case
  proof (cases "v \<noteq> [] \<and> m < displayTextUnits v + displayTextUnits ellipsis")
    case True
    moreover have "plain_text (TrimSpace (without_last v))" "length (rune_list (TrimSpace (without_last v))) \<le> length (rune_list v)"
      using "1.prems" text_of_TrimSpace text_of_without_last rune_count_TrimSpace rune_count_without_last
      unfolding plain_text_def by (blast, meson order_trans)
    ultimately show ?thesis using "1.IH" shorten_units.simps[of m v] by simp
  next
    case False
    then have "shorten_units m v = v" using shorten_units.simps[of m v] by (simp only: if_False)
    then show ?thesis using "1.prems" False by auto
  qed
qed

lemma units_Nil [simp]: "displayTextUnits [] = 0"
  by (simp add: displayTextUnits_def rune_list_def)

lemma appendDisplayEllipsis_fits:
  assumes "plain_text v" "0 \<le> m"
  shows "plain_text (appendDisplayEllipsis v m) \<and> displayTextUnits (appendDisplayEllipsis v m) \<le> m \<and>
    length (rune_list (appendDisplayEllipsis v m)) \<le> Suc (length (rune_list v)) \<and>
    (2 \<le> m \<longrightarrow> HasSuffix (appendDisplayEllipsis v m) ellipsis)"
proof -
  let ?s = "shorten_units m (TrimSpace v)"
  have s: "plain_text ?s" "length (rune_list ?s) \<le> length (rune_list v)" "?s = [] \<or> displayTextUnits ?s + displayTextUnits ellipsis \<le> m"
    using shorten_units_fits[of "TrimSpace v" m] assms(1) text_of_TrimSpace rune_count_TrimSpace
    unfolding plain_text_def by (blast, meson order_trans, blast)
  have one: "length (rune_list ellipsis) = 1" "rune_list [] = []"
    using rune_list_encode[of "[0x2026]"] by (simp_all add: ellipsis_def scalar_value_def rune_list_def)
  show ?thesis
    using s assms(2) text_of_append[of "\<lambda>r. True" ?s ellipsis] plain_ellipsis
      units_append[of "\<lambda>r. True" ?s "\<lambda>r. True" ellipsis] rune_count_append[of "\<lambda>r. True" ?s "\<lambda>r. True" ellipsis]
    by (auto simp: appendDisplayEllipsis_def Let_def plain_text_def units_ellipsis one HasSuffix_iff)
qed

lemma display_loop_text:
  "list_all scalar_value (qs @ rs) \<Longrightarrow> b = encode_runes qs \<Longrightarrow> u = sum_list (map displayUnits qs) \<Longrightarrow> u \<le> m \<Longrightarrow>
   n = int (length qs) \<Longrightarrow> n \<le> k \<Longrightarrow>
   (\<exists>ps. fst (display_loop k m rs b n u) = encode_runes ps \<and> list_all scalar_value ps \<and>
      int (length ps) \<le> k \<and> sum_list (map displayUnits ps) \<le> m \<and>
      (snd (display_loop k m rs b n u) \<or> ps = qs @ rs))"
proof (induction rs arbitrary: qs b n u)
  case (Cons r rs)
  show ?case
  proof (cases "k \<le> n \<or> m < u + displayUnits r")
    case True
    then show ?thesis using Cons.prems by (intro exI[of _ qs]) auto
  next
    case False
    then show ?thesis using Cons.IH[of "qs @ [r]" "b @ encode_rune r" "u + displayUnits r" "n + 1"] Cons.prems by simp
  qed
qed auto

lemma rune_list_scalars: "list_all scalar_value (rune_list v)"
  using rune_list_scalar by (auto simp: list_all_iff)

text \<open>
  Display text is no wider than the given number of units and, apart from the mark of a cut, no longer than
  the given number of runes; text that was not cut is the whole text without white space at its ends.
\<close>

theorem display_text_fits:
  "displayTextUnits (fst (TruncateDisplay v k m)) \<le> max 0 m \<and>
   int (length (rune_list (fst (TruncateDisplay v k m)))) \<le> max 0 k + (if snd (TruncateDisplay v k m) then 1 else 0) \<and>
   (snd (TruncateDisplay v k m) \<or> fst (TruncateDisplay v k m) = TrimSpace (encode_runes (rune_list v)))"
proof (cases "k \<le> 0 \<or> m \<le> 0")
  case True
  then show ?thesis by (auto simp: TruncateDisplay_def rune_list_def)
next
  case False
  obtain t c where l: "display_loop k m (rune_list v) [] 0 0 = (t, c)" by fastforce
  obtain ps where ps: "t = encode_runes ps" "list_all scalar_value ps" "int (length ps) \<le> k"
      "sum_list (map displayUnits ps) \<le> m" "c \<or> ps = rune_list v"
    using display_loop_text[of "[]" "rune_list v" "[]" 0 m 0 k] l False rune_list_scalars by auto
  have t: "plain_text t" "plain_text (TrimSpace t)" "int (length (rune_list (TrimSpace t))) \<le> k" "displayTextUnits (TrimSpace t) \<le> m"
    using ps text_of_encode[of ps] text_of_TrimSpace[of _ t] rune_count_TrimSpace[of "\<lambda>r. True" t] units_TrimSpace[of "\<lambda>r. True" t]
    by (auto simp: plain_text_def rune_list_encode list_all_iff units_encode)
  show ?thesis using appendDisplayEllipsis_fits[OF t(2), of m] t ps(5) False
    by (cases c) (auto simp: TruncateDisplay_def l ps(1))
qed

text \<open>A text cut at the limit of runes is one rune longer than the limit, since the ellipsis is added to it.\<close>

theorem ellipsis_exceeds_rune_limit: "length (rune_list (fst (TruncateDisplay ''abc'' 2 100))) = 3"
proof -
  have abc: "rune_list ''abc'' = [0x61, 0x62, 0x63]" by (simp add: rune_list_def runes_ascii_all byte_def)
  have ab: "encode_rune 0x61 @ encode_rune 0x62 = ''ab''" by (simp add: encode_rune_def char_of_eq_iff)
  have pt: "plain_text ''ab''" unfolding plain_text_def ab[symmetric]
    by (intro text_of_append text_of_rune) (simp_all add: scalar_value_def)
  have runes_ab: "rune_list ''ab'' = [0x61, 0x62]" by (simp add: rune_list_def runes_ascii_all byte_def)
  have trim: "TrimSpace ''ab'' = ''ab''"
    by (simp add: TrimSpace_def TrimFunc_def trim_pieces_def pieces_ascii byte_def unicode_IsSpace_def)
  have "shorten_units 100 ''ab'' = ''ab''"
    by (subst shorten_units.simps) (simp add: displayTextUnits_def runes_ab displayUnits_def units_ellipsis[unfolded displayTextUnits_def])
  then have "TruncateDisplay ''abc'' 2 100 = (''ab'' @ ellipsis, True)"
    by (simp add: TruncateDisplay_def abc ab displayUnits_def appendDisplayEllipsis_def trim units_ellipsis append_Nil
        del: append.simps(2))
  moreover have "length (rune_list ellipsis) = 1"
    using rune_list_encode[of "[0x2026]"] by (simp add: ellipsis_def scalar_value_def)
  ultimately show ?thesis
    using rune_count_append[of "\<lambda>r. True" "''ab''" "\<lambda>r. True" ellipsis] pt plain_ellipsis
    by (simp add: plain_text_def runes_ab del: append.simps)
qed
section \<open>Wrapped text\<close>

text \<open>What can be seen of a text: its runes without white space.\<close>

definition visible :: "nat list \<Rightarrow> nat list" where
  "visible rs = filter (\<lambda>r. \<not> unicode_IsSpace r) rs"

lemma visible_append [simp]: "visible (xs @ ys) = visible xs @ visible ys"
  by (simp add: visible_def)

lemma visible_dropWhile [simp]: "visible (dropWhile unicode_IsSpace rs) = visible rs"
  by (induction rs) (simp_all add: visible_def)

lemma visible_rev: "visible (rev rs) = rev (visible rs)"
  by (simp add: visible_def rev_filter)

lemma visible_trim [simp]: "visible (trim_list rs) = visible rs"
  by (simp add: trim_list_def visible_rev)

lemma line_limit_fits:
  "u \<le> m \<Longrightarrow> line_limit m rs n u sp = (l, sp') \<Longrightarrow>
   n \<le> l \<and> l - n \<le> length rs \<and> u + sum_list (map displayUnits (take (l - n) rs)) \<le> m \<and>
   (sp' = sp \<or> (\<exists>i. sp' = Some i \<and> n \<le> i \<and> i < l))"
proof (induction m rs n u sp arbitrary: l sp' rule: line_limit.induct)
  case (2 m r rs n u sp)
  show ?case
  proof (cases "m < u + displayUnits r")
    case False
    from "2.prems" False have "line_limit m rs (Suc n) (u + displayUnits r) (if unicode_IsSpace r then Some n else sp) = (l, sp')"
      by simp
    from "2.IH"[OF False _ this] False have ih: "Suc n \<le> l" "l - Suc n \<le> length rs"
        "u + displayUnits r + sum_list (map displayUnits (take (l - Suc n) rs)) \<le> m"
        "sp' = (if unicode_IsSpace r then Some n else sp) \<or> (\<exists>i. sp' = Some i \<and> Suc n \<le> i \<and> i < l)" by auto
    have "l - n = Suc (l - Suc n)" using ih(1) by simp
    then show ?thesis using ih by (auto split: if_splits)
  qed (use "2.prems" in auto)
qed simp

lemma units_take: "i \<le> j \<Longrightarrow> sum_list (map displayUnits (take i rs)) \<le> sum_list (map displayUnits (take j rs))"
proof -
  assume "i \<le> j"
  then have "take j rs = take i rs @ take (j - i) (drop i rs)" by (metis take_add le_add_diff_inverse)
  then show ?thesis using units_nonneg[of "take (j - i) (drop i rs)"] by simp
qed

lemma wrap_line_fits:
  assumes "wrap_line m rs = (line, used)" "rs \<noteq> []" "2 \<le> m \<or> 0 < m" "list_all scalar_value rs"
  shows "0 < used \<and> used \<le> length rs \<and> visible (rune_list line) = visible (take used rs) \<and> plain_text line \<and>
    displayTextUnits line \<le> max 2 m"
proof -
  obtain fit sp where l: "line_limit m rs 0 0 None = (fit, sp)" by fastforce
  have f: "fit \<le> length rs" "sum_list (map displayUnits (take fit rs)) \<le> m" "sp = None \<or> (\<exists>i. sp = Some i \<and> i < fit)"
    using line_limit_fits[OF _ l] assms(3) by auto
  define limit where "limit = (if fit = 0 then 1 else fit)"
  define c where "c = (case sp of Some i \<Rightarrow> if limit < length rs \<and> 0 < i then i else limit | None \<Rightarrow> limit)"
  have "Suc 0 \<le> length rs" using assms(2) by (cases rs) auto
  then have lim: "0 < limit" "limit \<le> length rs" using f(1) by (auto simp: limit_def)
  have c: "0 < c" "c \<le> limit" using f(3) lim(1) by (auto simp: c_def limit_def split: option.splits)
  have lu: "sum_list (map displayUnits (take limit rs)) \<le> max 2 m"
  proof (cases "fit = 0")
    case True
    then show ?thesis using displayUnits_pos(2)[of "hd rs"] assms(2) by (simp add: limit_def take_Suc)
  qed (use f(2) in \<open>simp add: limit_def\<close>)
  have sc: "list_all scalar_value (take i rs)" for i using assms(4) by (auto simp: list_all_iff dest: in_set_takeD)
  have w: "wrap_line m rs =
      (let line = TrimSpace (encode_runes (take c rs)) in if line = [] then (encode_runes (take limit rs), limit) else (line, c))"
    by (simp only: wrap_line_def l Let_def prod.case flip: limit_def c_def)
  show ?thesis
  proof (cases "TrimSpace (encode_runes (take c rs)) = []")
    case True
    then have "line = encode_runes (take limit rs)" "used = limit" using assms(1) w by auto
    then show ?thesis using lim lu sc[of limit] text_of_encode[of "take limit rs"]
      by (simp add: units_encode rune_list_encode list_all_iff plain_text_def)
  next
    case False
    then have eq: "line = encode_runes (trim_list (take c rs))" "used = c" using assms(1) w sc by (auto simp: TrimSpace_encode)
    have "sum_list (map displayUnits (trim_list (take c rs))) \<le> max 2 m"
      using units_trim[of "take c rs"] units_take[OF c(2), of rs] lu by linarith
    then show ?thesis using eq c lim set_trim_scalar[OF sc[of c]] text_of_encode[of "trim_list (take c rs)"]
      by (simp add: units_encode rune_list_encode list_all_iff plain_text_def)
  qed
qed

lemma wrap_lines_fit:
  "wrap_lines m n rs = (lines, rest) \<Longrightarrow> 0 < m \<Longrightarrow> list_all scalar_value rs \<Longrightarrow>
   length lines \<le> n \<and> visible (concat (map rune_list lines)) @ visible rest = visible rs \<and>
   list_all plain_text lines \<and> list_all (\<lambda>l. displayTextUnits l \<le> max 2 m) lines \<and>
   (lines = [] \<longrightarrow> n = 0 \<or> rs = []) \<and> (rs = [] \<longrightarrow> lines = [] \<and> rest = [])"
proof (induction m n rs arbitrary: lines rest rule: wrap_lines.induct)
  case (2 m n rs)
  show ?case
  proof (cases "rs = []")
    case False
    obtain line used where l: "wrap_line m rs = (line, used)" by fastforce
    let ?next = "dropWhile unicode_IsSpace (drop used rs)"
    obtain ls r where r: "wrap_lines m n ?next = (ls, r)" by fastforce
    have eq: "lines = line # ls" "rest = r" using 2(2) False l r by auto
    have w: "visible (rune_list line) = visible (take used rs)" "plain_text line" "displayTextUnits line \<le> max 2 m"
      using wrap_line_fits[OF l False] 2(3,4) by auto
    have "list_all scalar_value ?next" using 2(4) by (auto simp: list_all_iff dest!: set_dropWhileD in_set_dropD)
    then have ih: "length ls \<le> n" "visible (concat (map rune_list ls)) @ visible r = visible ?next"
        "list_all plain_text ls" "list_all (\<lambda>l. displayTextUnits l \<le> max 2 m) ls"
      using 2(1)[OF False l[symmetric] refl _ 2(3)] r by auto
    have "visible rs = visible (take used rs) @ visible (drop used rs)"
      by (metis append_take_drop_id visible_append)
    then show ?thesis using eq w ih False by simp
  qed (use 2(2) in \<open>auto simp: visible_def\<close>)
qed (simp add: visible_def)

text \<open>What the lines of a wrapped text promise; where there is nothing to wrap, or no room, a placeholder is exact.\<close>

definition wrap_ok :: "string \<Rightarrow> int \<Rightarrow> int \<Rightarrow> int \<Rightarrow> string list \<times> bool \<Rightarrow> bool" where
  "wrap_ok v k m n result =
     (if k \<le> 0 \<or> m \<le> 0 \<or> n \<le> 0 \<or> v = [] then result = ([''[unavailable]''], v \<noteq> [])
      else case result of (lines, truncated) \<Rightarrow>
        lines \<noteq> [] \<and> int (length lines) \<le> n \<and> list_all (\<lambda>l. displayTextUnits l \<le> max 2 m) lines \<and>
        (if truncated
         then prefix (visible (concat (map rune_list (butlast lines)))) (visible (rune_list v)) \<and>
           (if 2 \<le> m then HasSuffix (last lines) ellipsis else last lines = [])
         else visible (concat (map rune_list lines)) = visible (rune_list v)))"

text \<open>
  C31: Wrapping a text that is not empty, with positive limits, yields at least one line and at most the given number, none
  wider than the given number of units (two at least, the width of one wide rune); unless text was cut, the lines show
  exactly the visible runes of the text, and otherwise the lines before the last show a beginning of them and the last one
  ends in an ellipsis (or is empty, where an ellipsis is too wide). The empty text, or a limit that is not positive, gives
  the one line \<open>[unavailable]\<close>, however wide that is, and counts as cut exactly when there was text.
\<close>

theorem wrapped_text_complete: "wrap_ok v k m n (WrapDisplay v k m n)"
proof (cases "k \<le> 0 \<or> m \<le> 0 \<or> n \<le> 0 \<or> v = []")
  case True
  then show ?thesis by (cases "nat n") (auto simp: WrapDisplay_def wrap_ok_def rune_list_def)
next
  case False
  let ?rs = "take (nat k) (rune_list v)"
  obtain ls r where w: "wrap_lines m (nat n) ?rs = (ls, r)" by fastforce
  have sc: "list_all scalar_value ?rs" using rune_list_scalars[of v] by (auto simp: list_all_iff dest: in_set_takeD)
  have pos: "0 < m" "nat n \<noteq> 0" using False by simp_all
  have ok: "length ls \<le> nat n" "visible (concat (map rune_list ls)) @ visible r = visible ?rs" "list_all plain_text ls"
      "list_all (\<lambda>l. displayTextUnits l \<le> max 2 m) ls" "ls = [] \<longrightarrow> ?rs = []" "?rs = [] \<longrightarrow> ls = [] \<and> r = []"
    using wrap_lines_fit[OF w pos(1) sc] pos(2) by blast+
  have pre: "prefix (visible ?rs) (visible (rune_list v))"
    by (metis append_take_drop_id prefixI visible_append)
  have "rune_list v \<noteq> []" using False by (cases "v = []") (auto simp: rune_list_def runes.simps[of v])
  then have ne: "ls \<noteq> []" using ok(5) False by auto
  let ?t = "length ?rs < length (rune_list v) \<or> r \<noteq> []"
  have res: "WrapDisplay v k m n = (if ?t then butlast ls @ [appendDisplayEllipsis (last ls) m] else ls, ?t)"
    using False w ne by (simp add: WrapDisplay_def)
  have l: "int (length ls) \<le> n" using ok(1) False by linarith
  have split: "ls = butlast ls @ [last ls]" using ne by simp
  have last_ok: "plain_text (last ls)" using ok(3) ne by (simp add: list_all_iff)
  have "list_all (\<lambda>l. displayTextUnits l \<le> max 2 m) (butlast ls @ [appendDisplayEllipsis (last ls) m])"
    using list_all_butlast[OF ok(4)] appendDisplayEllipsis_fits[OF last_ok, of m] False by auto
  moreover have "prefix (visible (concat (map rune_list (butlast ls)))) (visible (rune_list v))"
  proof -
    have "concat (map rune_list ls) = concat (map rune_list (butlast ls)) @ rune_list (last ls)"
      by (subst split) (simp only: map_append concat_append list.map concat.simps append_Nil2)
    then have "prefix (visible (concat (map rune_list (butlast ls)))) (visible ?rs)"
      using ok(2) by (metis append.assoc prefixI visible_append)
    then show ?thesis using pre by (rule prefix_order.trans)
  qed
  moreover have "visible (concat (map rune_list ls)) = visible (rune_list v)" if "\<not> ?t"
  proof -
    have "r = []" "?rs = rune_list v" using that by (auto simp: not_less)
    then show ?thesis using ok(2) by (simp add: visible_def)
  qed
  moreover have "if 2 \<le> m then HasSuffix (appendDisplayEllipsis (last ls) m) ellipsis else appendDisplayEllipsis (last ls) m = []"
    using appendDisplayEllipsis_fits[OF last_ok, of m] pos(1) by (auto simp: appendDisplayEllipsis_def units_ellipsis Let_def)
  ultimately show ?thesis using ne l ok(4) False unfolding res wrap_ok_def by (cases ?t) (simp_all add: not_less)
qed

section \<open>Cells\<close>

lemma probe_quote: "probe_cell (CHR 0x27 # v) = CHR 0x27 # v"
  by (subst probe_cell.simps)
    (simp add: decode_rune_def byte_def rune_error_def control_rune_def unicode_IsSpace_def unicode_Cf_def)

lemma quote_no_formula: "\<not> formula_start (CHR 0x27 # v)"
  by (simp add: formula_start_def probe_quote decode_rune_def byte_def)

text \<open>
  No cell starts a formula, not even behind characters that a spreadsheet drops; the text of the cell is kept, behind an
  apostrophe where one was needed, and a cell made safe is not changed again.
\<close>

theorem csv_cell_no_formula:
  "\<not> formula_start (CSVCell v) \<and> CSVCell v \<in> {v, CHR 0x27 # v} \<and> CSVCell (CSVCell v) = CSVCell v"
  using quote_no_formula by (simp add: CSVCell_def)

end
