(* ===== verification/Ledger.thy ===== *)
theory Ledger
  imports Model_Enums Go_Strings "HOL-Library.Sublist"
begin

text \<open>
  The append-only JSONL ledger (ledger/ledger.go). The operating system's file and encoding/json are the records
  file_api and json_api of functions; bufio.Writer is written out. Every method holds the mutex of the writer from its
  first line to its last, so concurrent calls are a sequence of calls.
\<close>

section \<open>The buffered file\<close>

text \<open>
  A file of the operating system: \<open>os.File.Write\<close> writes all bytes (None) or returns an error with the number of bytes
  it wrote. A file descriptor is a number.
\<close>

record 'w file_api =
  fa_open :: "string \<Rightarrow> 'w \<Rightarrow> (goerr + nat) \<times> 'w"
  fa_write :: "nat \<Rightarrow> string \<Rightarrow> 'w \<Rightarrow> (nat \<times> goerr) option \<times> 'w"
  fa_sync :: "nat \<Rightarrow> 'w \<Rightarrow> goerr option \<times> 'w"
  fa_close :: "nat \<Rightarrow> 'w \<Rightarrow> goerr option \<times> 'w"

text \<open>\<open>bufio.Writer\<close>: the bytes not yet written and the error that, once set, every call returns.\<close>

record buffered =
  bw_data :: string
  bw_err :: "goerr option"

definition buffer_size :: nat where
  "buffer_size = 64 * 1024"

definition Flush :: "'w file_api \<Rightarrow> nat \<Rightarrow> buffered \<Rightarrow> 'w \<Rightarrow> goerr option \<times> buffered \<times> 'w" where
  "Flush api h b w =
     (if bw_err b \<noteq> None \<or> bw_data b = [] then (bw_err b, b, w)
      else case fa_write api h (bw_data b) w of
             (None, w') \<Rightarrow> (None, b\<lparr>bw_data := []\<rparr>, w')
           | (Some (n, e), w') \<Rightarrow> (Some e, b\<lparr>bw_data := drop n (bw_data b), bw_err := Some e\<rparr>, w'))"

text \<open>
  \<open>bufio.Writer.Write\<close> on a buffer without an error: what does not fit goes to the file directly when the buffer is
  empty, otherwise the buffer is filled and flushed first.
\<close>

definition write_through :: "'w file_api \<Rightarrow> nat \<Rightarrow> string \<Rightarrow> buffered \<Rightarrow> 'w \<Rightarrow> goerr option \<times> buffered \<times> 'w" where
  "write_through api h p b w =
     (if length p \<le> buffer_size then (None, b\<lparr>bw_data := p\<rparr>, w)
      else case fa_write api h p w of
             (None, w') \<Rightarrow> (None, b, w')
           | (Some (n, e), w') \<Rightarrow> (Some e, b\<lparr>bw_err := Some e\<rparr>, w'))"

definition buffered_Write :: "'w file_api \<Rightarrow> nat \<Rightarrow> string \<Rightarrow> buffered \<Rightarrow> 'w \<Rightarrow> goerr option \<times> buffered \<times> 'w" where
  "buffered_Write api h p b w =
     (if bw_err b \<noteq> None then (bw_err b, b, w)
      else let free = buffer_size - length (bw_data b)
      in if length p \<le> free then (None, b\<lparr>bw_data := bw_data b @ p\<rparr>, w)
         else if bw_data b = [] then write_through api h p b w
         else case Flush api h (b\<lparr>bw_data := bw_data b @ take free p\<rparr>) w of
                (Some e, b', w') \<Rightarrow> (Some e, b', w')
              | (None, b', w') \<Rightarrow> write_through api h (drop free p) b' w')"

section \<open>Records\<close>

record LedgerRecord =
  lr_LedgerVersion :: string
  lr_Sequence :: "64 word"
  lr_SessionID :: string
  lr_RecordType :: string
  lr_Payload :: string

definition ledger_Version :: string where
  "ledger_Version = ''cirewind.ledger/v1alpha1''"

text \<open>
  What the ledger uses of encoding/json: the text of a payload, the tree that decoding gives back, with the members of
  an object in the order in which the loop over the map visits them, and the text of a record.
\<close>

record 'p json_api =
  ja_marshal :: "'p \<Rightarrow> goerr + string"
  ja_unmarshal :: "string \<Rightarrow> goerr + json"
  ja_record :: "LedgerRecord \<Rightarrow> goerr + string"

definition forbidden_keys :: "string list" where
  "forbidden_keys =
     [''authorization'', ''authorizationHeader'', ''githubToken'', ''accessToken'', ''tokenValue'', ''cookie'', ''setCookie'',
      ''secretValue'', ''signedUrl'', ''signedURL'']"

definition prohibited :: "string \<Rightarrow> goerr" where
  "prohibited key = Errorf (''ledger payload contains prohibited field '' @ [CHR 0x22] @ key @ [CHR 0x22])"

fun walk_keys :: "json \<Rightarrow> goerr option" where
  "walk_keys (JObject members) =
     first_error (map (\<lambda>(key, child). if key \<in> set forbidden_keys then Some (prohibited key) else walk_keys child) members)"
| "walk_keys (JArray children) = first_error (map walk_keys children)"
| "walk_keys _ = None"

definition rejectSensitiveJSONKeys :: "'p json_api \<Rightarrow> string \<Rightarrow> goerr option" where
  "rejectSensitiveJSONKeys codec raw =
     (case ja_unmarshal codec raw of
        Inl e \<Rightarrow> Some (Wrapf ''inspect ledger payload'' e)
      | Inr tree \<Rightarrow> walk_keys tree)"

section \<open>The writer\<close>

record Writer =
  lw_file :: nat
  lw_buffer :: buffered
  lw_sessionID :: string
  lw_sequence :: "64 word"
  lw_closed :: bool

definition ledger_Create :: "'w file_api \<Rightarrow> string \<Rightarrow> string \<Rightarrow> 'w \<Rightarrow> (goerr + Writer) \<times> 'w" where
  "ledger_Create api path session w =
     (if session = [] then (Inl (Errorf ''ledger session ID is required''), w)
      else case fa_open api path w of
             (Inl e, w') \<Rightarrow> (Inl (Wrapf ''create evidence ledger'' e), w')
           | (Inr h, w') \<Rightarrow>
               (Inr \<lparr>lw_file = h, lw_buffer = \<lparr>bw_data = [], bw_err = None\<rparr>, lw_sessionID = session, lw_sequence = 0,
                  lw_closed = False\<rparr>, w'))"

definition next_record :: "Writer \<Rightarrow> string \<Rightarrow> string \<Rightarrow> LedgerRecord" where
  "next_record lw recordType raw =
     \<lparr>lr_LedgerVersion = ledger_Version, lr_Sequence = lw_sequence lw + 1, lr_SessionID = lw_sessionID lw,
      lr_RecordType = recordType, lr_Payload = raw\<rparr>"

text \<open>The record that Append is about to write, with its line, or the error that stops it before.\<close>

definition prepare :: "'p json_api \<Rightarrow> string \<Rightarrow> 'p \<Rightarrow> Writer \<Rightarrow> goerr + (LedgerRecord \<times> string)" where
  "prepare codec recordType payload lw =
     (if lw_closed lw then Inl (Errorf ''evidence ledger is closed'')
      else if recordType = [] then Inl (Errorf ''ledger record type is required'')
      else case ja_marshal codec payload of
        Inl e \<Rightarrow> Inl (Wrapf ''encode ledger payload'' e)
      | Inr raw \<Rightarrow>
          (case rejectSensitiveJSONKeys codec raw of
             Some e \<Rightarrow> Inl e
           | None \<Rightarrow>
               (case ja_record codec (next_record lw recordType raw) of
                  Inl e \<Rightarrow> Inl (Wrapf ''encode ledger record'' e)
                | Inr line \<Rightarrow> Inr (next_record lw recordType raw, line @ [CHR 0x0A]))))"

definition ledger_Append ::
    "'w file_api \<Rightarrow> 'p json_api \<Rightarrow> string \<Rightarrow> 'p \<Rightarrow> Writer \<Rightarrow> 'w \<Rightarrow> (goerr + LedgerRecord) \<times> Writer \<times> 'w" where
  "ledger_Append api codec recordType payload lw w =
     (case prepare codec recordType payload lw of
        Inl e \<Rightarrow> (Inl e, lw, w)
      | Inr (record, line) \<Rightarrow>
          (case buffered_Write api (lw_file lw) line (lw_buffer lw) w of
             (Some e, b, w') \<Rightarrow> (Inl (Wrapf ''append evidence ledger'' e), lw\<lparr>lw_buffer := b\<rparr>, w')
           | (None, b, w') \<Rightarrow> (Inr record, lw\<lparr>lw_buffer := b, lw_sequence := lw_sequence lw + 1\<rparr>, w')))"

definition ledger_Sync :: "'w file_api \<Rightarrow> Writer \<Rightarrow> 'w \<Rightarrow> goerr option \<times> Writer \<times> 'w" where
  "ledger_Sync api lw w =
     (if lw_closed lw then (Some (Errorf ''evidence ledger is closed''), lw, w)
      else case Flush api (lw_file lw) (lw_buffer lw) w of
             (Some e, b, w') \<Rightarrow> (Some (Wrapf ''flush evidence ledger'' e), lw\<lparr>lw_buffer := b\<rparr>, w')
           | (None, b, w') \<Rightarrow>
               (case fa_sync api (lw_file lw) w' of
                  (e, w'') \<Rightarrow> (wrap_error ''sync evidence ledger'' e, lw\<lparr>lw_buffer := b\<rparr>, w'')))"

text \<open>\<open>errors.Join\<close>: nil when every error is; the joined error is represented by its first.\<close>

definition join_errors :: "goerr option list \<Rightarrow> goerr option" where
  "join_errors es = first_error es"

definition ledger_Close :: "'w file_api \<Rightarrow> Writer \<Rightarrow> 'w \<Rightarrow> goerr option \<times> Writer \<times> 'w" where
  "ledger_Close api lw w =
     (if lw_closed lw then (None, lw, w)
      else case Flush api (lw_file lw) (lw_buffer lw) w of
             (flushErr, b, w1) \<Rightarrow>
               (case fa_sync api (lw_file lw) w1 of
                  (syncErr, w2) \<Rightarrow>
                    (case fa_close api (lw_file lw) w2 of
                       (closeErr, w3) \<Rightarrow>
                         (join_errors [flushErr, syncErr, closeErr], lw\<lparr>lw_buffer := b, lw_closed := True\<rparr>, w3))))"

section \<open>What the ledger promises\<close>

text \<open>The names of all members of a tree.\<close>

fun json_keys :: "json \<Rightarrow> string list" where
  "json_keys (JObject members) = concat (map (\<lambda>(key, child). key # json_keys child) members)"
| "json_keys (JArray children) = concat (map json_keys children)"
| "json_keys _ = []"

lemma walk_keys_None: "walk_keys t = None \<longleftrightarrow> set (json_keys t) \<inter> set forbidden_keys = {}"
proof (induction t rule: walk_keys.induct)
  case (1 members)
  then show ?case by (fastforce split: if_splits)
next
  case (2 children)
  then show ?case by auto
qed simp_all

text \<open>
  The abstract ledger is the list of the acknowledged records; its text is one line for each. The promise for one record:
  it is framed by this session, its payload is the encoding of a value that the client passed, the record could be encoded,
  and its payload has no forbidden name at any depth.
\<close>

definition line_of :: "'p json_api \<Rightarrow> LedgerRecord \<Rightarrow> string" where
  "line_of codec r = (case ja_record codec r of Inl e \<Rightarrow> [] | Inr s \<Rightarrow> s @ [CHR 0x0A])"

definition ledger_text :: "'p json_api \<Rightarrow> LedgerRecord list \<Rightarrow> string" where
  "ledger_text codec rs = concat (map (line_of codec) rs)"

definition record_ok :: "'p json_api \<Rightarrow> string \<Rightarrow> LedgerRecord \<Rightarrow> bool" where
  "record_ok codec session r \<longleftrightarrow>
     lr_LedgerVersion r = ledger_Version \<and> lr_SessionID r = session \<and> lr_RecordType r \<noteq> [] \<and>
     (\<exists>p. ja_marshal codec p = Inr (lr_Payload r)) \<and>
     (case ja_record codec r of Inr s \<Rightarrow> True | Inl e \<Rightarrow> False) \<and>
     (case ja_unmarshal codec (lr_Payload r) of
        Inr tree \<Rightarrow> set (json_keys tree) \<inter> set forbidden_keys = {} | Inl e \<Rightarrow> False)"

definition numbered :: "LedgerRecord list \<Rightarrow> bool" where
  "numbered rs \<longleftrightarrow> map lr_Sequence rs = map word_of_nat [1..<Suc (length rs)]"

text \<open>
  What the operating system promises of the file behind a descriptor: writing appends what was written, syncing and
  closing change nothing, and a file that was created is empty.
\<close>

definition appends :: "'w file_api \<Rightarrow> ('w \<Rightarrow> nat \<Rightarrow> string) \<Rightarrow> bool" where
  "appends api content \<longleftrightarrow>
     (\<forall>h p w. content (snd (fa_write api h p w)) h =
        content w h @ (case fst (fa_write api h p w) of None \<Rightarrow> p | Some (n, e) \<Rightarrow> take n p)) \<and>
     (\<forall>h w. content (snd (fa_sync api h w)) h = content w h) \<and>
     (\<forall>h w. content (snd (fa_close api h w)) h = content w h) \<and>
     (\<forall>path w. case fst (fa_open api path w) of Inr h \<Rightarrow> content (snd (fa_open api path w)) h = [] | Inl e \<Rightarrow> True)"

text \<open>The calls of a client; the third component collects the acknowledged records.\<close>

datatype 'p ledger_call = CallAppend string 'p | CallSync | CallClose

fun ledger_step ::
    "'w file_api \<Rightarrow> 'p json_api \<Rightarrow> 'p ledger_call \<Rightarrow> Writer \<times> 'w \<times> LedgerRecord list \<Rightarrow> Writer \<times> 'w \<times> LedgerRecord list" where
  "ledger_step api codec (CallAppend t p) (lw, w, rs) =
     (case ledger_Append api codec t p lw w of (Inr r, lw', w') \<Rightarrow> (lw', w', rs @ [r]) | (Inl e, lw', w') \<Rightarrow> (lw', w', rs))"
| "ledger_step api codec CallSync (lw, w, rs) = (case ledger_Sync api lw w of (e, lw', w') \<Rightarrow> (lw', w', rs))"
| "ledger_step api codec CallClose (lw, w, rs) = (case ledger_Close api lw w of (e, lw', w') \<Rightarrow> (lw', w', rs))"

text \<open>The file and the buffer of the writer hold the lines of the acknowledged records; after an error a beginning of them
  and of the line that was being written.\<close>

definition holds_text :: "('w \<Rightarrow> nat \<Rightarrow> string) \<Rightarrow> nat \<Rightarrow> buffered \<Rightarrow> 'w \<Rightarrow> string \<Rightarrow> bool" where
  "holds_text content h b w t \<longleftrightarrow>
     (if bw_err b = None then content w h @ bw_data b = t else prefix (content w h) t)"

lemma appends_write:
  assumes "appends api content" "fa_write api h p w = (r, w')"
  shows "content w' h = content w h @ (case r of None \<Rightarrow> p | Some (n, e) \<Rightarrow> take n p)"
  using assms unfolding appends_def by (metis fst_conv snd_conv)

lemma Flush_holds:
  assumes "appends api content" "holds_text content h b w t" "Flush api h b w = (e, b', w')"
  shows "holds_text content h b' w' t \<and> (e = None \<longleftrightarrow> bw_err b' = None) \<and> (e = None \<longrightarrow> content w' h = t \<and> bw_data b' = [])"
proof (cases "bw_err b \<noteq> None \<or> bw_data b = []")
  case True
  then show ?thesis using assms(2,3) by (auto simp: Flush_def holds_text_def)
next
  case False
  obtain r w1 where r: "fa_write api h (bw_data b) w = (r, w1)" by fastforce
  show ?thesis
  proof (cases r)
    case None
    then show ?thesis using False assms appends_write[OF assms(1) r] r by (auto simp: Flush_def holds_text_def)
  next
    case (Some f)
    then obtain n x where "r = Some (n, x)" by (cases f) auto
    moreover have "content w h @ take n (bw_data b) @ drop n (bw_data b) = t"
      using False assms(2) by (simp add: holds_text_def)
    ultimately show ?thesis using False assms(3) appends_write[OF assms(1) r] r
      by (auto simp: Flush_def holds_text_def take_is_prefix)
  qed
qed

lemma write_through_holds:
  assumes "appends api content" "bw_err b = None" "bw_data b = []" "write_through api h p b w = (e, b', w')"
  shows "holds_text content h b' w' (content w h @ p) \<and> (e = None \<longleftrightarrow> bw_err b' = None)"
proof (cases "length p \<le> buffer_size")
  case True
  then show ?thesis using assms by (auto simp: write_through_def holds_text_def)
next
  case False
  obtain r w1 where r: "fa_write api h p w = (r, w1)" by fastforce
  show ?thesis using False assms(2-4) appends_write[OF assms(1) r] r
    by (auto simp: write_through_def holds_text_def take_is_prefix split: option.splits)
qed

lemma buffered_Write_holds:
  assumes "appends api content" "holds_text content h b w t" "bw_err b = None" "buffered_Write api h p b w = (e, b', w')"
  shows "holds_text content h b' w' (t @ p) \<and> (e = None \<longleftrightarrow> bw_err b' = None)"
proof -
  let ?free = "buffer_size - length (bw_data b)"
  have t: "content w h @ bw_data b = t" using assms(2,3) by (simp add: holds_text_def)
  consider "length p \<le> ?free" | "\<not> length p \<le> ?free" "bw_data b = []" | "\<not> length p \<le> ?free" "bw_data b \<noteq> []" by blast
  then show ?thesis
  proof cases
    case 1
    then show ?thesis using assms(3,4) t by (auto simp: buffered_Write_def holds_text_def)
  next
    case 2
    then have "write_through api h p b w = (e, b', w')" using assms(3,4) by (simp add: buffered_Write_def)
    from write_through_holds[OF assms(1,3) 2(2) this] t 2(2) show ?thesis by simp
  next
    case 3
    let ?b = "b\<lparr>bw_data := bw_data b @ take ?free p\<rparr>"
    obtain f b1 w1 where f: "Flush api h ?b w = (f, b1, w1)" by (metis prod_cases3)
    have "holds_text content h ?b w (t @ take ?free p)" using assms(3) t by (simp add: holds_text_def)
    note fl = Flush_holds[OF assms(1) this f]
    show ?thesis
    proof (cases f)
      case None
      then have "write_through api h (drop ?free p) b1 w1 = (e, b', w')" using 3 assms(3,4) f by (simp add: buffered_Write_def)
      from write_through_holds[OF assms(1) _ _ this] fl None show ?thesis by simp
    next
      case (Some x)
      then have eq: "e = Some x" "b' = b1" "w' = w1" using 3 assms(3,4) f by (auto simp: buffered_Write_def)
      have "prefix (content w1 h) (t @ take ?free p)" using fl Some by (auto simp: holds_text_def)
      then have "prefix (content w1 h) ((t @ take ?free p) @ drop ?free p)" by (rule prefix_order.trans) (simp add: take_is_prefix)
      then show ?thesis using fl Some eq by (auto simp: holds_text_def)
    qed
  qed
qed

text \<open>A log that only grows: every call keeps the promise and the entries there are.\<close>

locale growing_log =
  fixes step :: "'c \<Rightarrow> 's \<Rightarrow> 's" and entries :: "'s \<Rightarrow> 'e list" and ok :: "'s \<Rightarrow> bool"
  assumes step_ok: "ok s \<Longrightarrow> ok (step c s)"
    and step_grows: "ok s \<Longrightarrow> prefix (entries s) (entries (step c s))"
begin

lemma run_ok: "ok s \<Longrightarrow> ok (fold step cs s)"
  by (induction cs arbitrary: s) (simp_all add: step_ok)

lemma run_grows: "ok s \<Longrightarrow> prefix (entries s) (entries (fold step cs s))"
proof (induction cs arbitrary: s)
  case (Cons c cs)
  then show ?case using step_ok[of s c] step_grows[of s c] Cons.IH[of "step c s"] by (simp, metis prefix_order.trans)
qed simp

end

definition ledger_state_ok ::
    "'w file_api \<Rightarrow> 'p json_api \<Rightarrow> ('w \<Rightarrow> nat \<Rightarrow> string) \<Rightarrow> nat \<Rightarrow> string \<Rightarrow> Writer \<times> 'w \<times> LedgerRecord list \<Rightarrow> bool" where
  "ledger_state_ok api codec content h session s \<longleftrightarrow>
     (case s of (lw, w, rs) \<Rightarrow>
        appends api content \<and> lw_file lw = h \<and> lw_sessionID lw = session \<and> lw_sequence lw = word_of_nat (length rs) \<and>
        numbered rs \<and> list_all (record_ok codec session) rs \<and>
        (if bw_err (lw_buffer lw) = None then content w h @ bw_data (lw_buffer lw) = ledger_text codec rs
         else \<exists>r. prefix (content w h) (ledger_text codec (rs @ [r]))))"

lemma prepare_Inr:
  assumes "prepare codec t p lw = Inr (r, line)"
  shows "record_ok codec (lw_sessionID lw) r \<and> lr_Sequence r = lw_sequence lw + 1 \<and> line = line_of codec r \<and> \<not> lw_closed lw"
  using assms
  by (auto simp: prepare_def record_ok_def next_record_def line_of_def rejectSensitiveJSONKeys_def walk_keys_None
      split: if_splits sum.splits option.splits)

lemma numbered_append: "numbered rs \<Longrightarrow> lr_Sequence r = word_of_nat (length rs) + 1 \<Longrightarrow> numbered (rs @ [r])"
  by (simp add: numbered_def add.commute)

lemma ledger_text_append [simp]: "ledger_text codec (rs @ [r]) = ledger_text codec rs @ line_of codec r"
  by (simp add: ledger_text_def)

lemma ledger_Append_ok:
  assumes "ledger_state_ok api codec content h session (lw, w, rs)" "ledger_Append api codec t p lw w = (res, lw', w')"
  shows "ledger_state_ok api codec content h session (lw', w', case res of Inr r \<Rightarrow> rs @ [r] | Inl e \<Rightarrow> rs)"
proof (cases "prepare codec t p lw")
  case (Inl e)
  then show ?thesis using assms by (auto simp: ledger_Append_def)
next
  case (Inr q)
  obtain r line where q: "prepare codec t p lw = Inr (r, line)" using Inr by (cases q) auto
  note pr = prepare_Inr[OF q]
  obtain e b w1 where wr: "buffered_Write api (lw_file lw) line (lw_buffer lw) w = (e, b, w1)" by (metis prod_cases3)
  have st: "appends api content" "lw_file lw = h" "lw_sessionID lw = session" "lw_sequence lw = word_of_nat (length rs)"
      "numbered rs" "list_all (record_ok codec session) rs" using assms(1) by (auto simp: ledger_state_ok_def)
  show ?thesis
  proof (cases "bw_err (lw_buffer lw)")
    case None
    have "holds_text content h (lw_buffer lw) w (ledger_text codec rs)"
      using assms(1) None by (simp add: ledger_state_ok_def holds_text_def)
    from buffered_Write_holds[OF st(1) this None] wr st(2) have
      h: "holds_text content h b w1 (ledger_text codec rs @ line)" "e = None \<longleftrightarrow> bw_err b = None" by auto
    show ?thesis
    proof (cases e)
      case None
      then have "res = Inr r" "lw' = lw\<lparr>lw_buffer := b, lw_sequence := lw_sequence lw + 1\<rparr>" "w' = w1"
        using assms(2) q wr by (auto simp: ledger_Append_def)
      then show ?thesis using st pr h None numbered_append[OF st(5), of r]
        by (simp add: ledger_state_ok_def holds_text_def add.commute)
    next
      case (Some x)
      then have "res = Inl (Wrapf ''append evidence ledger'' x)" "lw' = lw\<lparr>lw_buffer := b\<rparr>" "w' = w1"
        using assms(2) q wr by (auto simp: ledger_Append_def)
      then show ?thesis using st pr h Some by (auto simp: ledger_state_ok_def holds_text_def)
    qed
  next
    case (Some x)
    then have "e = Some x" "b = lw_buffer lw" "w1 = w" using wr by (auto simp: buffered_Write_def)
    then have "res = Inl (Wrapf ''append evidence ledger'' x)" "lw' = lw" "w' = w"
      using assms(2) q wr by (auto simp: ledger_Append_def)
    then show ?thesis using assms(1) by simp
  qed
qed

text \<open>Flushing keeps the promise; when it succeeds, the file holds the whole text.\<close>

lemma flush_ok:
  assumes "ledger_state_ok api codec content h session (lw, w, rs)" "Flush api h (lw_buffer lw) w = (e, b, w')"
  shows "ledger_state_ok api codec content h session (lw\<lparr>lw_buffer := b\<rparr>, w', rs) \<and>
    (e = None \<longrightarrow> content w' h = ledger_text codec rs)"
proof (cases "bw_err (lw_buffer lw)")
  case None
  have ap: "appends api content" using assms(1) by (simp add: ledger_state_ok_def)
  have "holds_text content h (lw_buffer lw) w (ledger_text codec rs)"
    using assms(1) None by (simp add: ledger_state_ok_def holds_text_def)
  from Flush_holds[OF ap this assms(2)] show ?thesis using assms(1)
    by (cases e) (auto simp: ledger_state_ok_def holds_text_def intro: prefix_prefix)
next
  case (Some x)
  then have "e = Some x" "b = lw_buffer lw" "w' = w" using assms(2) by (auto simp: Flush_def)
  then show ?thesis using assms(1) by simp
qed

lemma content_sync: "appends api content \<Longrightarrow> fa_sync api h w = (e, w') \<Longrightarrow> content w' h = content w h"
  unfolding appends_def by (metis snd_conv)

lemma content_close: "appends api content \<Longrightarrow> fa_close api h w = (e, w') \<Longrightarrow> content w' h = content w h"
  unfolding appends_def by (metis snd_conv)

lemma ledger_state_content:
  "ledger_state_ok api codec content h session (lw, w, rs) \<Longrightarrow> content w' h = content w h \<Longrightarrow>
   ledger_state_ok api codec content h session (lw, w', rs)"
  by (auto simp: ledger_state_ok_def)

lemma ledger_Sync_ok:
  assumes "ledger_state_ok api codec content h session (lw, w, rs)" "ledger_Sync api lw w = (e, lw', w')"
  shows "ledger_state_ok api codec content h session (lw', w', rs) \<and> (e = None \<longrightarrow> content w' h = ledger_text codec rs)"
proof (cases "lw_closed lw")
  case True
  then show ?thesis using assms by (auto simp: ledger_Sync_def)
next
  case False
  have h: "lw_file lw = h" "appends api content" using assms(1) by (auto simp: ledger_state_ok_def)
  obtain f b w1 where f: "Flush api h (lw_buffer lw) w = (f, b, w1)" by (metis prod_cases3)
  obtain g w2 where g: "fa_sync api h w1 = (g, w2)" by fastforce
  note fl = flush_ok[OF assms(1) f]
  show ?thesis using assms(2) False f g fl h content_sync[OF h(2) g] ledger_state_content[of api codec content h session _ w1 rs w2]
    by (cases f) (auto simp: ledger_Sync_def)
qed

lemma ledger_Close_ok:
  assumes "ledger_state_ok api codec content h session (lw, w, rs)" "ledger_Close api lw w = (e, lw', w')"
  shows "ledger_state_ok api codec content h session (lw', w', rs) \<and> lw_closed lw' \<and>
    (e = None \<and> \<not> lw_closed lw \<longrightarrow> content w' h = ledger_text codec rs)"
proof (cases "lw_closed lw")
  case True
  then show ?thesis using assms by (auto simp: ledger_Close_def)
next
  case False
  have h: "lw_file lw = h" "appends api content" using assms(1) by (auto simp: ledger_state_ok_def)
  obtain f b w1 where f: "Flush api h (lw_buffer lw) w = (f, b, w1)" by (metis prod_cases3)
  obtain g w2 where g: "fa_sync api h w1 = (g, w2)" by fastforce
  obtain k w3 where k: "fa_close api h w2 = (k, w3)" by fastforce
  note fl = flush_ok[OF assms(1) f]
  have res: "lw' = lw\<lparr>lw_buffer := b, lw_closed := True\<rparr>" "w' = w3" "e = join_errors [f, g, k]"
    using assms(2) False f g k h by (auto simp: ledger_Close_def)
  have c: "content w3 h = content w1 h" using content_sync[OF h(2) g] content_close[OF h(2) k] by simp
  have "ledger_state_ok api codec content h session (lw\<lparr>lw_buffer := b\<rparr>, w3, rs)"
    by (rule ledger_state_content[OF conjunct1[OF fl] c])
  then show ?thesis using res c fl by (auto simp: ledger_state_ok_def join_errors_def)
qed

lemma ledger_step_ok:
  "ledger_state_ok api codec content h session s \<Longrightarrow> ledger_state_ok api codec content h session (ledger_step api codec c s)"
proof -
  assume ok: "ledger_state_ok api codec content h session s"
  obtain lw w rs where s: "s = (lw, w, rs)" by (metis prod_cases3)
  show ?thesis
  proof (cases c)
    case (CallAppend t p)
    obtain res lw' w' where a: "ledger_Append api codec t p lw w = (res, lw', w')" by (metis prod_cases3)
    show ?thesis using ledger_Append_ok[OF ok[unfolded s] a] by (cases res) (simp_all add: s CallAppend a)
  next
    case CallSync
    obtain e lw' w' where a: "ledger_Sync api lw w = (e, lw', w')" by (metis prod_cases3)
    show ?thesis using ledger_Sync_ok[OF ok[unfolded s] a] by (simp add: s CallSync a)
  next
    case CallClose
    obtain e lw' w' where a: "ledger_Close api lw w = (e, lw', w')" by (metis prod_cases3)
    show ?thesis using ledger_Close_ok[OF ok[unfolded s] a] by (simp add: s CallClose a)
  qed
qed

lemma ledger_step_grows: "prefix (snd (snd s)) (snd (snd (ledger_step api codec c s)))"
  by (cases s; cases c) (auto split: prod.split sum.split)

interpretation ledger_log: growing_log "ledger_step api codec" "\<lambda>s. snd (snd s)" "ledger_state_ok api codec content h session"
  for api codec content h session
  by unfold_locales (auto simp: ledger_step_ok ledger_step_grows)

text \<open>A client's session: create, then any calls.\<close>

definition ledger_run ::
    "'w file_api \<Rightarrow> 'p json_api \<Rightarrow> 'p ledger_call list \<Rightarrow> Writer \<Rightarrow> 'w \<Rightarrow> Writer \<times> 'w \<times> LedgerRecord list" where
  "ledger_run api codec calls lw w = fold (ledger_step api codec) calls (lw, w, [])"

lemma created_ok:
  assumes "appends api content" "ledger_Create api path session w = (Inr lw, w')"
  shows "ledger_state_ok api codec content (lw_file lw) session (lw, w', [])"
proof -
  have "\<forall>path w. case fst (fa_open api path w) of Inr h \<Rightarrow> content (snd (fa_open api path w)) h = [] | Inl e \<Rightarrow> True"
    using assms(1) by (simp add: appends_def)
  then show ?thesis using assms(2) assms(1)
    by (auto simp: ledger_Create_def ledger_state_ok_def numbered_def ledger_text_def split: if_splits prod.splits sum.splits)
      (metis fst_conv snd_conv sum.case(2))
qed

lemma ledger_run_ok:
  assumes "appends api content" "ledger_Create api path session w = (Inr lw, w1)" "ledger_run api codec calls lw w1 = (lw', w', rs)"
  shows "ledger_state_ok api codec content (lw_file lw) session (lw', w', rs)"
  using ledger_log.run_ok[OF created_ok[OF assms(1,2)], of codec calls] assms(3) by (simp add: ledger_run_def)

text \<open>
  C27: Whatever a client calls and wherever the operating system fails, the acknowledged records are numbered from one, carry
  the session, and name no forbidden field, and the file holds a beginning of their lines and of one line more.
\<close>

theorem ledger_refines_log:
  assumes "appends api content" "ledger_Create api path session w = (Inr lw, w1)" "ledger_run api codec calls lw w1 = (lw', w', rs)"
  shows "numbered rs \<and> list_all (record_ok codec session) rs \<and>
    (\<exists>r. prefix (content w' (lw_file lw)) (ledger_text codec (rs @ [r])))"
proof -
  have ok: "ledger_state_ok api codec content (lw_file lw) session (lw', w', rs)" by (rule ledger_run_ok[OF assms])
  have "\<exists>r. prefix (content w' (lw_file lw)) (ledger_text codec (rs @ [r]))"
  proof (cases "bw_err (lw_buffer lw') = None")
    case True
    then have "content w' (lw_file lw) @ bw_data (lw_buffer lw') = ledger_text codec rs" using ok by (simp add: ledger_state_ok_def)
    then have "prefix (content w' (lw_file lw)) (ledger_text codec rs)" by (metis prefixI)
    then show ?thesis by (auto intro: prefix_order.trans)
  qed (use ok in \<open>auto simp: ledger_state_ok_def\<close>)
  then show ?thesis using ok by (simp add: ledger_state_ok_def)
qed

text \<open>Reading a ledger: every line, without its line feed, is parsed.\<close>

definition read_ledger :: "(string \<Rightarrow> LedgerRecord option) \<Rightarrow> string \<Rightarrow> LedgerRecord option list" where
  "read_ledger parse t = map parse (butlast (split_on CHR 0x0A t))"

text \<open>
  The documented behaviour of encoding/json for the records a ledger makes: the text of a record has no line feed, and
  parsing it gives the record back when its strings are valid UTF-8 (json replaces invalid bytes) and its payload is a text
  that json itself wrote (json compacts any other).
\<close>

definition faithful_record :: "'p json_api \<Rightarrow> LedgerRecord \<Rightarrow> bool" where
  "faithful_record codec r \<longleftrightarrow>
     ValidUTF8 (lr_LedgerVersion r) \<and> ValidUTF8 (lr_SessionID r) \<and> ValidUTF8 (lr_RecordType r) \<and>
     (\<exists>p. ja_marshal codec p = Inr (lr_Payload r))"

definition reads_back :: "'p json_api \<Rightarrow> (string \<Rightarrow> LedgerRecord option) \<Rightarrow> bool" where
  "reads_back codec parse \<longleftrightarrow>
     (\<forall>r s. faithful_record codec r \<and> ja_record codec r = Inr s \<longrightarrow> CHR 0x0A \<notin> set s \<and> parse s = Some r)"

lemma reads_backD:
  "reads_back codec parse \<Longrightarrow> faithful_record codec r \<Longrightarrow> ja_record codec r = Inr s \<Longrightarrow> CHR 0x0A \<notin> set s \<and> parse s = Some r"
  unfolding reads_back_def by blast

lemma ledger_Version_utf8: "ValidUTF8 ledger_Version"
  by (rule ValidUTF8_ascii) (simp add: ledger_Version_def byte_def)

lemma record_ok_faithful:
  "record_ok codec session r \<Longrightarrow> ValidUTF8 session \<Longrightarrow> ValidUTF8 (lr_RecordType r) \<Longrightarrow> faithful_record codec r"
  using ledger_Version_utf8 by (auto simp: record_ok_def faithful_record_def)

lemma read_ledger_text:
  assumes "reads_back codec parse" "list_all (faithful_record codec) rs" "list_all (record_ok codec session) rs"
  shows "read_ledger parse (ledger_text codec rs) = map Some rs"
  using assms(2,3)
proof (induction rs)
  case Nil
  then show ?case by (simp add: read_ledger_def ledger_text_def)
next
  case (Cons r rs)
  let ?t = "ledger_text codec rs"
  have ok: "faithful_record codec r" "record_ok codec session r" "list_all (faithful_record codec) rs"
    "list_all (record_ok codec session) rs" using Cons.prems by simp_all
  then obtain s where s: "ja_record codec r = Inr s" by (auto simp: record_ok_def split: sum.splits)
  then have p: "CHR 0x0A \<notin> set s" "parse s = Some r" using reads_backD[OF assms(1) ok(1) s] by blast+
  have "ledger_text codec (r # rs) = s @ CHR 0x0A # ?t" by (simp add: ledger_text_def line_of_def s)
  moreover have "split_on CHR 0x0A (s @ CHR 0x0A # ?t) = s # split_on CHR 0x0A ?t" by (rule split_on_append[OF p(1)])
  ultimately have "read_ledger parse (ledger_text codec (r # rs)) = parse s # read_ledger parse ?t"
    by (simp add: read_ledger_def)
  then show ?case using Cons.IH[OF ok(3,4)] p(2) by simp
qed

text \<open>The type of an acknowledged record is that of a call.\<close>

lemma ledger_Append_type: "ledger_Append api codec t p lw w = (Inr r, lw', w') \<Longrightarrow> lr_RecordType r = t"
  by (auto simp: ledger_Append_def prepare_def next_record_def split: prod.splits sum.splits if_splits option.splits)

lemma ledger_run_types:
  "set (map lr_RecordType (snd (snd (fold (ledger_step api codec) calls (lw, w, rs))))) \<subseteq>
   set (map lr_RecordType rs) \<union> {t. \<exists>p. CallAppend t p \<in> set calls}"
proof (induction calls arbitrary: lw w rs)
  case (Cons c calls)
  obtain lw' w' rs' where s: "ledger_step api codec c (lw, w, rs) = (lw', w', rs')" by (metis prod_cases3)
  have "rs' = rs \<or> (\<exists>t p r. c = CallAppend t p \<and> rs' = rs @ [r] \<and> lr_RecordType r = t)"
    using s by (cases c) (auto dest: ledger_Append_type split: prod.splits sum.splits)
  then show ?case using Cons.IH[of lw' w' rs'] s by (auto 4 3)
qed simp

text \<open>
  C28: After a Sync that succeeded, reading the file gives back exactly the acknowledged records, in their order; the same
  holds after the first Close when it succeeds. The session identifier and the record types of the calls are to be valid
  UTF-8: of others json writes something else than what \<open>Append\<close> acknowledged.
\<close>

theorem ledger_roundtrip:
  assumes "appends api content" "reads_back codec parse"
    and "ValidUTF8 session" "\<And>t p. CallAppend t p \<in> set calls \<Longrightarrow> ValidUTF8 t"
    and "ledger_Create api path session w = (Inr lw, w1)" "ledger_run api codec calls lw w1 = (lw2, w2, rs)"
    and "ledger_Sync api lw2 w2 = (None, lw3, w3) \<or> \<not> lw_closed lw2 \<and> ledger_Close api lw2 w2 = (None, lw3, w3)"
  shows "read_ledger parse (content w3 (lw_file lw)) = map Some rs"
proof -
  have ok: "ledger_state_ok api codec content (lw_file lw) session (lw2, w2, rs)" by (rule ledger_run_ok[OF assms(1,5,6)])
  have "content w3 (lw_file lw) = ledger_text codec rs"
    using ledger_Sync_ok[OF ok] ledger_Close_ok[OF ok] assms(7) by blast
  moreover have rs: "list_all (record_ok codec session) rs" using ok by (simp add: ledger_state_ok_def)
  moreover have "list_all (faithful_record codec) rs"
    unfolding list_all_iff
  proof
    fix r assume r: "r \<in> set rs"
    then have "lr_RecordType r \<in> {t. \<exists>p. CallAppend t p \<in> set calls}"
      using ledger_run_types[of api codec calls lw w1 "[]"] assms(6) by (auto simp: ledger_run_def)
    then show "faithful_record codec r" using r rs assms(3,4) by (auto simp: list_all_iff intro: record_ok_faithful)
  qed
  ultimately show ?thesis using read_ledger_text[OF assms(2)] by simp
qed

text \<open>
  A closed ledger stays as it is: appending and syncing fail, closing again succeeds, and neither the writer nor the
  file changes.
\<close>

theorem closed_ledger_is_final:
  "case ledger_Close api lw w of (e, lw', w') \<Rightarrow>
     ledger_Append api codec t p lw' w' = (Inl (Errorf ''evidence ledger is closed''), lw', w') \<and>
     ledger_Sync api lw' w' = (Some (Errorf ''evidence ledger is closed''), lw', w') \<and>
     ledger_Close api lw' w' = (None, lw', w')"
proof -
  obtain e lw' w' where c: "ledger_Close api lw w = (e, lw', w')" by (metis prod_cases3)
  then have "lw_closed lw'" by (auto simp: ledger_Close_def split: if_splits prod.splits)
  then show ?thesis using c by (simp add: ledger_Append_def prepare_def ledger_Sync_def ledger_Close_def)
qed

section \<open>A session on a sample file\<close>

text \<open>
  A disk with one file that never fails, and an encoder of records: the escaped fields, separated by slashes. A payload is
  its own text.
\<close>

definition sample_disk :: "string file_api" where
  "sample_disk = \<lparr>fa_open = (\<lambda>path w. (Inr 0, [])), fa_write = (\<lambda>h p w. (None, w @ p)), fa_sync = (\<lambda>h w. (None, w)),
     fa_close = (\<lambda>h w. (None, w))\<rparr>"

definition sample_ledger_record :: LedgerRecord where
  "sample_ledger_record = \<lparr>lr_LedgerVersion = ledger_Version, lr_Sequence = 1, lr_SessionID = ''s'', lr_RecordType = ''run'',
     lr_Payload = ''7''\<rparr>"

definition sample_encode :: "LedgerRecord \<Rightarrow> string" where
  "sample_encode r = join_with CHR ''/'' [PathEscape (lr_LedgerVersion r), show_nat (unat (lr_Sequence r)),
     PathEscape (lr_SessionID r), PathEscape (lr_RecordType r), PathEscape (lr_Payload r)]"

definition sample_codec :: "string json_api" where
  "sample_codec = \<lparr>ja_marshal = Inr, ja_unmarshal = (\<lambda>raw. Inr (JObject [(''id'', JNumber raw)])),
     ja_record = (\<lambda>r. Inr (sample_encode r))\<rparr>"

definition sample_parse :: "string \<Rightarrow> LedgerRecord option" where
  "sample_parse s =
     (case split_on CHR ''/'' s of
        [version, number, session, recordType, payload] \<Rightarrow>
          Some \<lparr>lr_LedgerVersion = the (PathUnescape version), lr_Sequence = word_of_nat (read_nat number),
            lr_SessionID = the (PathUnescape session), lr_RecordType = the (PathUnescape recordType),
            lr_Payload = the (PathUnescape payload)\<rparr>
      | _ \<Rightarrow> None)"

lemma sample_disk_appends: "appends sample_disk (\<lambda>w h. w)"
  by (simp add: appends_def sample_disk_def)

lemma show_nat_plain: "CHR ''/'' \<notin> set (show_nat n)" "CHR 0x0A \<notin> set (show_nat n)"
  using show_nat_digits[of "CHR ''/''" n] show_nat_digits[of "CHR 0x0A" n] by (auto simp: byte_def)

lemma PathEscape_no_line_feed: "CHR 0x0A \<notin> set (PathEscape s)"
proof -
  have hex: "upper_hex d \<noteq> CHR 0x0A" if "d < 16" for d
    using that unhex_upper_hex[OF that] by (auto simp: unhex_def byte_def split: if_splits)
  have "byte c div 16 < 16" "byte c mod 16 < 16" for c using byte_less[of c] by auto
  then have "upper_hex (byte c div 16) \<noteq> CHR 0x0A" "upper_hex (byte c mod 16) \<noteq> CHR 0x0A" for c
    using hex by blast+
  then have "CHR 0x0A \<notin> set (percent c)" for c by (simp add: percent_def eq_commute[of "CHR 0x0A"])
  moreover have "\<not> segment_safe CHR 0x0A" by (simp add: segment_safe_def unreserved_def byte_def)
  ultimately show ?thesis by (auto simp: PathEscape_def)
qed

lemma sample_parse_encode: "CHR 0x0A \<notin> set (sample_encode r) \<and> sample_parse (sample_encode r) = Some r"
proof
  show "CHR 0x0A \<notin> set (sample_encode r)" by (simp add: sample_encode_def PathEscape_no_line_feed show_nat_plain)
  have "split_on CHR ''/'' (sample_encode r) = [PathEscape (lr_LedgerVersion r), show_nat (unat (lr_Sequence r)),
     PathEscape (lr_SessionID r), PathEscape (lr_RecordType r), PathEscape (lr_Payload r)]"
    unfolding sample_encode_def join_with.simps
    by (simp only: split_on_append[OF PathEscape_no_slash] split_on_append[OF show_nat_plain(1)] split_on_single[OF PathEscape_no_slash])
  then show "sample_parse (sample_encode r) = Some r"
    by (simp add: sample_parse_def unescape_PathEscape read_show_nat)
qed

lemma sample_reads_back: "reads_back sample_codec sample_parse"
  using sample_parse_encode by (auto simp: reads_back_def sample_codec_def)

definition sample_writer :: "string \<Rightarrow> 64 word \<Rightarrow> Writer" where
  "sample_writer pending n = \<lparr>lw_file = 0, lw_buffer = \<lparr>bw_data = pending, bw_err = None\<rparr>, lw_sessionID = ''s'',
     lw_sequence = n, lw_closed = False\<rparr>"

lemma sample_created: "ledger_Create sample_disk ''ledger'' ''s'' [] = (Inr (sample_writer [] 0), [])"
  by (simp add: ledger_Create_def sample_disk_def sample_writer_def)

lemma sample_line: "sample_encode sample_ledger_record = ''cirewind.ledger%2Fv1alpha1/1/s/run/7''"
  by (simp add: sample_encode_def sample_ledger_record_def ledger_Version_def PathEscape_def segment_safe_def unreserved_def
      percent_def upper_hex_def byte_def show_nat.simps digit_char_def char_of_eq_iff)

lemma sample_appended:
  "ledger_run sample_disk sample_codec [CallAppend ''run'' ''7''] (sample_writer [] 0) [] =
     (sample_writer (''cirewind.ledger%2Fv1alpha1/1/s/run/7'' @ [CHR 0x0A]) 1, [], [sample_ledger_record])"
proof -
  have "next_record (sample_writer [] 0) ''run'' ''7'' = sample_ledger_record"
    by (simp add: next_record_def sample_writer_def sample_ledger_record_def)
  then have "prepare sample_codec ''run'' ''7'' (sample_writer [] 0) =
      Inr (sample_ledger_record, ''cirewind.ledger%2Fv1alpha1/1/s/run/7'' @ [CHR 0x0A])"
    by (simp add: prepare_def rejectSensitiveJSONKeys_def sample_codec_def sample_writer_def forbidden_keys_def sample_line
        first_error.simps)
  then show ?thesis
    by (simp add: ledger_run_def ledger_Append_def sample_writer_def buffered_Write_def buffer_size_def)
qed

lemma sample_synced:
  "ledger_Sync sample_disk (sample_writer (''cirewind.ledger%2Fv1alpha1/1/s/run/7'' @ [CHR 0x0A]) 1) [] =
     (None, sample_writer [] 1, ''cirewind.ledger%2Fv1alpha1/1/s/run/7'' @ [CHR 0x0A])"
  by (simp add: ledger_Sync_def Flush_def sample_writer_def sample_disk_def)

theorem ledger_refines_log_witness:
  "numbered [sample_ledger_record] \<and> list_all (record_ok sample_codec ''s'') [sample_ledger_record] \<and>
   (\<exists>r. prefix [] (ledger_text sample_codec ([sample_ledger_record] @ [r])))"
  by (rule ledger_refines_log[OF sample_disk_appends sample_created sample_appended])

theorem ledger_roundtrip_witness:
  "read_ledger sample_parse (''cirewind.ledger%2Fv1alpha1/1/s/run/7'' @ [CHR 0x0A]) = map Some [sample_ledger_record]"
  by (rule ledger_roundtrip[OF sample_disk_appends sample_reads_back _ _ sample_created sample_appended disjI1[OF sample_synced]])
     (auto intro!: ValidUTF8_ascii simp: byte_def)

end
