(* ===== verification/Logparse.thy ===== *)
theory Logparse
  imports Go_Strings Go_Utf8 Go_Time
begin

text \<open>
  The parser of runner logs (logparse/parser.go): which lines of a job log, written in part by the workflow under
  investigation, count as facts of the runner. \<open>time.Parse\<close> with RFC3339Nano is the parameter parse_time, the Unicode
  case mapping of \<open>strings.ToLower\<close> the parameter lower, the hexadecimal SHA-256 the parameter sha. The regular
  expressions are written out as functions on the bytes of a line.
\<close>

section \<open>Records\<close>

datatype EntryRole = RoleSetup | RoleActionStep | RoleRunStep | RoleUnknown | OtherRole string

datatype LogPhase = PhasePre | PhaseMain | PhasePost | OtherPhase string

datatype ObservationKind =
    ObservationResolution | ObservationDownloadAnnounced | ObservationPreparationComplete | ObservationPreparationFailed
  | ObservationConditionSkipped | ObservationLifecycleStarted | ObservationLifecycleCompleted
  | ObservationTokenPermission | ObservationRunnerMetadata

primrec ObservationKind_text :: "ObservationKind \<Rightarrow> string" where
  "ObservationKind_text ObservationResolution = ''RESOLUTION_OBSERVED''"
| "ObservationKind_text ObservationDownloadAnnounced = ''DOWNLOAD_ANNOUNCED''"
| "ObservationKind_text ObservationPreparationComplete = ''PREPARATION_COMPLETED''"
| "ObservationKind_text ObservationPreparationFailed = ''PREPARATION_FAILED''"
| "ObservationKind_text ObservationConditionSkipped = ''CONDITION_SKIPPED''"
| "ObservationKind_text ObservationLifecycleStarted = ''LIFECYCLE_STARTED''"
| "ObservationKind_text ObservationLifecycleCompleted = ''LIFECYCLE_COMPLETED''"
| "ObservationKind_text ObservationTokenPermission = ''TOKEN_PERMISSION''"
| "ObservationKind_text ObservationRunnerMetadata = ''RUNNER_METADATA''"

record ExecutionScope =
  xs_RepositoryID :: int
  xs_RunID :: int
  xs_RunAttempt :: int
  xs_JobID :: int
  xs_StepKey :: string

record SourceContext =
  sc_Scope :: ExecutionScope
  sc_Role :: EntryRole
  sc_LifecyclePhase :: LogPhase
  sc_ExpectedAction :: string
  sc_GitObjectAlgorithm :: string
  sc_APIStatus :: string
  sc_APIConclusion :: string
  sc_RunnerVersion :: string
  sc_Grammar :: string
  sc_LineOffset :: int
  sc_GrammarValidated :: bool

record LogGitObject =
  lg_Algorithm :: string
  lg_Value :: string

record LogDigest =
  ld_Subject :: string
  ld_Algorithm :: string
  ld_Value :: string

record LogAction =
  la_Owner :: string
  la_Repository :: string
  la_Subpath :: string
  la_Ref :: string
  la_Source :: LogGitObject
  la_Version :: string
  la_Digest :: LogDigest

record Observation =
  ob_Kind :: ObservationKind
  ob_Scope :: ExecutionScope
  ob_Action :: "LogAction option"
  ob_Phase :: LogPhase
  ob_Permission :: string
  ob_Access :: string
  ob_Attribute :: string
  ob_Value :: string
  ob_EventTime :: "gotime option"
  ob_LineStart :: int
  ob_LineEnd :: int
  ob_Grammar :: string
  ob_Derived :: bool
  ob_Inputs :: "nat list"

record ParseDiagnostic =
  pd_Code :: string
  pd_Line :: int
  pd_Error :: string

record ParseResult =
  pr_Observations :: "Observation list"
  pr_Diagnostics :: "ParseDiagnostic list"
  pr_Complete :: bool
  pr_ContentSHA256 :: string
  pr_ByteLength :: int

record lineRecord =
  ln_number :: int
  ln_time :: "gotime option"
  ln_text :: string

definition GrammarVersion :: string where
  "GrammarVersion = ''github-runner-control/v1alpha1''"

definition ConsolidatedGrammarVersion :: string where
  "ConsolidatedGrammarVersion = ''github-attempt-log-consolidated/v1alpha1''"

definition MaxLogLineBytes :: nat where
  "MaxLogLineBytes = 2 ^ 20"

definition baseObservation ::
    "ObservationKind \<Rightarrow> SourceContext \<Rightarrow> lineRecord \<Rightarrow> LogAction option \<Rightarrow> LogPhase \<Rightarrow> string \<Rightarrow> string \<Rightarrow> Observation" where
  "baseObservation kind source line action phase attribute val =
     \<lparr>ob_Kind = kind, ob_Scope = sc_Scope source, ob_Action = action, ob_Phase = phase, ob_Permission = attribute,
      ob_Access = val, ob_Attribute = attribute, ob_Value = val, ob_EventTime = ln_time line,
      ob_LineStart = ln_number line, ob_LineEnd = ln_number line,
      ob_Grammar = (if sc_Grammar source = [] then GrammarVersion else sc_Grammar source), ob_Derived = False, ob_Inputs = []\<rparr>"

definition observe :: "Observation list \<Rightarrow> ParseResult \<Rightarrow> ParseResult" where
  "observe obs r = r\<lparr>pr_Observations := pr_Observations r @ obs\<rparr>"

text \<open>A diagnostic always comes with Complete set to false.\<close>

definition diagnose :: "string \<Rightarrow> int \<Rightarrow> string \<Rightarrow> ParseResult \<Rightarrow> ParseResult" where
  "diagnose code line message r =
     r\<lparr>pr_Complete := False, pr_Diagnostics := pr_Diagnostics r @ [\<lparr>pd_Code = code, pd_Line = line, pd_Error = message\<rparr>]\<rparr>"

section \<open>Lines and their times\<close>

definition is_digit :: "char \<Rightarrow> bool" where
  "is_digit c \<longleftrightarrow> 0x30 \<le> byte c \<and> byte c \<le> 0x39"

definition parseRunnerTimestamp :: "(string \<Rightarrow> gotime option) \<Rightarrow> string \<Rightarrow> gotime option" where
  "parseRunnerTimestamp parse_time v =
     (case parse_time v of
        Some t \<Rightarrow> Some t
      | None \<Rightarrow>
          (case Cut CHR ''.'' v of
             None \<Rightarrow> None
           | Some (whole, rest) \<Rightarrow>
               let digits = takeWhile is_digit rest; zone = dropWhile is_digit rest
               in if length digits \<le> 9 \<or> zone = [] then None
                  else if zone \<noteq> ''Z'' \<and> \<not> (length zone = 6 \<and> (zone ! 0 = CHR ''+'' \<or> zone ! 0 = CHR ''-'') \<and> zone ! 3 = CHR '':'')
                  then None
                  else parse_time (whole @ ''.'' @ take 9 digits @ zone)))"

definition splitTimestamp :: "(string \<Rightarrow> gotime option) \<Rightarrow> string \<Rightarrow> gotime option \<times> string" where
  "splitTimestamp parse_time line =
     (case Cut CHR '' '' line of
        None \<Rightarrow> (None, line)
      | Some (first, rest) \<Rightarrow>
          if first = [] then (None, line)
          else (case parseRunnerTimestamp parse_time first of
                  None \<Rightarrow> (None, line)
                | Some t \<Rightarrow> (Some (UTC t), rest)))"

text \<open>
  \<open>bufio.Scanner\<close> over bytes in memory: the lines without their line feed and a carriage return before it, whether a line
  filled the buffer of MaxLogLineBytes, and how many bytes were read until then.
\<close>

definition drop_cr :: "string \<Rightarrow> string" where
  "drop_cr l = (if l \<noteq> [] \<and> last l = CHR 0x0D then butlast l else l)"

lemma tl_dropWhile_shorter: "body \<noteq> [] \<Longrightarrow> length (tl (dropWhile P body)) < length body"
  using length_dropWhile_le[of P body] by (cases body) auto

function scan_lines :: "string \<Rightarrow> string list \<times> bool \<times> nat" where
  "scan_lines body =
     (if body = [] then ([], False, 0)
      else let line = takeWhile (\<lambda>c. c \<noteq> CHR 0x0A) body; rest = dropWhile (\<lambda>c. c \<noteq> CHR 0x0A) body
      in if MaxLogLineBytes \<le> length line then ([], True, MaxLogLineBytes)
         else if rest = [] then ([drop_cr line], False, length line)
         else let (lines, long, n) = scan_lines (tl rest)
              in (drop_cr line # lines, long, Suc (length line) + n))"
  by pat_completeness auto
termination
  by (relation "measure length") (simp_all only: in_measure wf_measure tl_dropWhile_shorter not_False_eq_True)

declare scan_lines.simps [simp del]

definition byte_order_mark :: string where
  "byte_order_mark = encode_rune 0xFEFF"

definition TrimPrefix :: "string \<Rightarrow> string \<Rightarrow> string" where
  "TrimPrefix s p = (if HasPrefix s p then drop (length p) s else s)"

fun number_lines :: "(string \<Rightarrow> gotime option) \<Rightarrow> int \<Rightarrow> bool \<Rightarrow> string list \<Rightarrow> lineRecord list" where
  "number_lines parse_time n first [] = []"
| "number_lines parse_time n first (l # ls) =
     (let (t, rest) = splitTimestamp parse_time (if first then TrimPrefix l byte_order_mark else l)
      in \<lparr>ln_number = n, ln_time = t, ln_text = rest\<rparr> # number_lines parse_time (n + 1) False ls)"

text \<open>\<open>err.Error()\<close>.\<close>

fun goerr_string :: "goerr \<Rightarrow> string" where
  "goerr_string (Errorf s) = s"
| "goerr_string (Wrapf s e) = s @ '': '' @ goerr_string e"
| "goerr_string ContextCanceled = ''context canceled''"
| "goerr_string ContextDeadlineExceeded = ''context deadline exceeded''"

section \<open>Declarations and object identifiers\<close>

definition no_git :: LogGitObject where
  "no_git = \<lparr>lg_Algorithm = [], lg_Value = []\<rparr>"

definition no_digest :: LogDigest where
  "no_digest = \<lparr>ld_Subject = [], ld_Algorithm = [], ld_Value = []\<rparr>"

definition safe_segment :: "string \<Rightarrow> bool" where
  "safe_segment s \<longleftrightarrow>
     \<not> (s = [] \<or> s = ''.'' \<or> s = ''..'' \<or> ContainsAny s [CHR 0x5C, CHR 0x00] \<or> \<not> ValidUTF8 s)"

definition parseDeclaredAction :: "(string \<Rightarrow> string) \<Rightarrow> string \<Rightarrow> goerr + LogAction" where
  "parseDeclaredAction lower v =
     (case Cut CHR ''@'' (rev v) of
        None \<Rightarrow> Inl (Errorf ''Action declaration must contain repository and ref'')
      | Some (fer, htap) \<Rightarrow>
          if htap = [] \<or> fer = [] then Inl (Errorf ''Action declaration must contain repository and ref'')
          else let ref = rev fer; segments = split_on CHR ''/'' (rev htap)
          in if length segments < 2 \<or> segments ! 0 = [] \<or> segments ! 1 = [] \<or> ContainsAny ref [CHR 0x00, CHR 0x0D, CHR 0x0A]
             then Inl (Errorf ''malformed repository Action declaration'')
             else if \<not> list_all safe_segment segments then Inl (Errorf ''unsafe Action repository path'')
             else Inr \<lparr>la_Owner = lower (segments ! 0), la_Repository = lower (segments ! 1),
                       la_Subpath = join_with CHR ''/'' (drop 2 segments), la_Ref = ref, la_Source = no_git, la_Version = [],
                       la_Digest = no_digest\<rparr>)"

definition sameActionDeclaration :: "(string \<Rightarrow> string) \<Rightarrow> string \<Rightarrow> string \<Rightarrow> bool" where
  "sameActionDeclaration lower left right =
     (case (parseDeclaredAction lower left, parseDeclaredAction lower right) of
        (Inr a, Inr b) \<Rightarrow> la_Owner a = la_Owner b \<and> la_Repository a = la_Repository b \<and> la_Subpath a = la_Subpath b \<and> la_Ref a = la_Ref b
      | _ \<Rightarrow> False)"

definition log_validateOID :: "string \<Rightarrow> string \<Rightarrow> goerr option" where
  "log_validateOID algorithm v =
     (if algorithm = [] then
        first_error
          [require (length v = 40 \<or> length v = 64)
             (Errorf (''untyped Git object length '' @ show_nat (length v) @ '' is not a full SHA-1 or SHA-256 value'')),
           require (hex_decodes v) (Errorf ''Git object is not hexadecimal'')]
      else
        let want = (if algorithm = ''sha1'' then Some 40 else if algorithm = ''sha256'' then Some 64 else None)
        in case want of
             None \<Rightarrow> Some (Errorf ''repository Git object algorithm is unknown'')
           | Some n \<Rightarrow>
               first_error
                 [require (length v = n) (Errorf (''Git object length '' @ show_nat (length v) @ '' does not match '' @ algorithm)),
                  require (hex_decodes v) (Errorf ''Git object is not hexadecimal'')])"

definition parseResolvedAction :: "(string \<Rightarrow> string) \<Rightarrow> string \<Rightarrow> string \<Rightarrow> string \<Rightarrow> goerr + LogAction" where
  "parseResolvedAction lower declared oid algorithm =
     (case parseDeclaredAction lower declared of
        Inl e \<Rightarrow> Inl e
      | Inr action \<Rightarrow>
          (case log_validateOID algorithm (ToLower oid) of
             Some e \<Rightarrow> Inl e
           | None \<Rightarrow> Inr (action\<lparr>la_Source := \<lparr>lg_Algorithm = algorithm, lg_Value = ToLower oid\<rparr>\<rparr>)))"

section \<open>The grammar of control lines\<close>

text \<open>The white space of a regular expression, and the runs of characters the expressions allow.\<close>

definition re_space :: "char \<Rightarrow> bool" where
  "re_space c \<longleftrightarrow> byte c \<in> {0x09, 0x0A, 0x0C, 0x0D, 0x20}"

definition posix_space :: "char \<Rightarrow> bool" where
  "posix_space c \<longleftrightarrow> re_space c \<or> byte c = 0x0B"

definition letter_or_digit :: "char \<Rightarrow> bool" where
  "letter_or_digit c \<longleftrightarrow> is_digit c \<or> (0x41 \<le> byte c \<and> byte c \<le> 0x5A) \<or> (0x61 \<le> byte c \<and> byte c \<le> 0x7A)"

definition permission_char :: "char \<Rightarrow> bool" where
  "permission_char c \<longleftrightarrow> letter_or_digit c \<or> c = CHR ''_'' \<or> c = CHR ''-''"

definition group_open :: string where
  "group_open = ''##[group]''"

definition after_prefix :: "string \<Rightarrow> string \<Rightarrow> string option" where
  "after_prefix p s = (if HasPrefix s p then Some (drop (length p) s) else None)"

text \<open>The pattern of a mutable download: the declaration and the object.\<close>

definition match_download :: "string \<Rightarrow> (string \<times> string) option" where
  "match_download line =
     (case after_prefix ''Download action repository '' (TrimPrefix line group_open) of
        Some (q # rest) \<Rightarrow>
          if q \<noteq> CHR 0x27 then None
          else (case Cut CHR 0x27 rest of
                  Some (declared, tail) \<Rightarrow>
                    (case after_prefix '' (SHA:'' tail of
                       Some sha \<Rightarrow>
                         if declared \<noteq> [] \<and> sha \<noteq> [] \<and> last sha = CHR '')'' \<and> butlast sha \<noteq> [] \<and> list_all hex_digit (butlast sha)
                         then Some (declared, butlast sha) else None
                     | None \<Rightarrow> None)
                | None \<Rightarrow> None)
      | _ \<Rightarrow> None)"

definition match_immutable :: "string \<Rightarrow> string option" where
  "match_immutable line =
     (case after_prefix ''Download immutable action package '' (TrimPrefix line group_open) of
        Some (q # rest) \<Rightarrow>
          if q = CHR 0x27 \<and> length rest \<ge> 2 \<and> last rest = CHR 0x27 \<and> CHR 0x27 \<notin> set (butlast rest)
          then Some (butlast rest) else None
      | _ \<Rightarrow> None)"

definition match_run :: "string \<Rightarrow> string option" where
  "match_run line =
     (case after_prefix (group_open @ ''Run '') line of
        Some rest \<Rightarrow> if rest \<noteq> [] \<and> \<not> list_ex posix_space rest then Some rest else None
      | None \<Rightarrow> None)"

text \<open>White space is skipped but for a last character, which the rest of the pattern needs.\<close>

definition match_version :: "string \<Rightarrow> string option" where
  "match_version line =
     (case after_prefix ''Version:'' line of
        None \<Rightarrow> None
      | Some rest \<Rightarrow>
          let v = (if list_all re_space rest then drop (length rest - 1) rest else dropWhile re_space rest)
          in if v \<noteq> [] \<and> CHR 0x0A \<notin> set v then Some v else None)"

definition match_source :: "string \<Rightarrow> string option" where
  "match_source line =
     (case after_prefix ''Source commit SHA:'' line of
        None \<Rightarrow> None
      | Some rest \<Rightarrow>
          let v = dropWhile re_space rest in if v \<noteq> [] \<and> list_all hex_digit v then Some v else None)"

definition match_digest :: "string \<Rightarrow> (string \<times> string) option" where
  "match_digest line =
     (case after_prefix ''Digest:'' line of
        None \<Rightarrow> None
      | Some rest \<Rightarrow>
          (case Cut CHR '':'' (dropWhile re_space rest) of
             Some (algorithm, hex) \<Rightarrow>
               if algorithm \<noteq> [] \<and> list_all (\<lambda>c. is_digit c \<or> (0x61 \<le> byte c \<and> byte c \<le> 0x7A) \<or> c = CHR ''-'') algorithm \<and>
                  hex \<noteq> [] \<and> list_all hex_digit hex
               then Some (algorithm, hex) else None
           | None \<Rightarrow> None))"

definition match_permission :: "string \<Rightarrow> (string \<times> string) option" where
  "match_permission line =
     (case Cut CHR '':'' line of
        Some (name, rest) \<Rightarrow>
          let access = dropWhile re_space rest
          in if name \<noteq> [] \<and> list_all permission_char name \<and> access \<in> {''read'', ''write'', ''none''}
             then Some (name, access) else None
      | None \<Rightarrow> None)"

section \<open>The setup of a job\<close>

text \<open>The fields of an immutable package as they are found: version, source, algorithm and value of the digest.\<close>

type_synonym package_fields = "string \<times> string \<times> string \<times> string"

definition read_field :: "string \<Rightarrow> package_fields \<Rightarrow> package_fields" where
  "read_field line found =
     (case found of (version, source, algorithm, digest) \<Rightarrow>
        let v = (case match_version line of Some m \<Rightarrow> TrimSpace m | None \<Rightarrow> version);
            s = (case match_source line of Some m \<Rightarrow> ToLower m | None \<Rightarrow> source)
        in case match_digest line of
             Some (a, d) \<Rightarrow> (v, s, ToLower a, ToLower d)
           | None \<Rightarrow> (v, s, algorithm, digest))"

text \<open>The loop over the lines after the first; \<open>consumed\<close> counts the lines used so far.\<close>

fun package_loop :: "nat \<Rightarrow> lineRecord list \<Rightarrow> package_fields \<Rightarrow> package_fields \<times> nat" where
  "package_loop consumed [] found = (found, consumed)"
| "package_loop consumed (line # lines) found =
     (if 8 < consumed then (found, consumed)
      else let (v, s, a, d) = read_field (TrimSpace (ln_text line)) found
           in if v \<noteq> [] \<and> s \<noteq> [] \<and> d \<noteq> [] then ((v, s, a, d), consumed + 1)
              else package_loop (consumed + 1) lines (v, s, a, d))"

definition parseImmutable ::
    "(string \<Rightarrow> string) \<Rightarrow> lineRecord list \<Rightarrow> string \<Rightarrow> string \<Rightarrow> goerr + (LogAction \<times> nat)" where
  "parseImmutable lower lines declared algorithm =
     (case parseDeclaredAction lower declared of
        Inl e \<Rightarrow> Inl e
      | Inr action \<Rightarrow>
          (case package_loop 1 (tl lines) ([], [], [], []) of ((v, s, a, d), consumed) \<Rightarrow>
             if v = [] \<or> s = [] \<or> a \<noteq> ''sha256'' \<or> length d \<noteq> 64
             then Inl (Errorf ''immutable package fields are missing or malformed'')
             else (case log_validateOID algorithm s of
                     Some e \<Rightarrow> Inl e
                   | None \<Rightarrow>
                       Inr (action\<lparr>la_Source := \<lparr>lg_Algorithm = algorithm, lg_Value = s\<rparr>, la_Version := v,
                              la_Digest := \<lparr>ld_Subject = ''github-action-package'', ld_Algorithm = a, ld_Value = d\<rparr>\<rparr>,
                            consumed))))"

definition trim_quotes :: "string \<Rightarrow> string" where
  "trim_quotes s = rev (dropWhile (\<lambda>c. c = CHR 0x27) (rev (dropWhile (\<lambda>c. c = CHR 0x27) s)))"

definition runner_prefixes :: "(string \<times> string) list" where
  "runner_prefixes = [(''runner-version'', ''Current runner version:''), (''runner-image'', ''Image:''),
     (''runner-os'', ''Operating System:'')]"

definition parseRunnerMetadata :: "string \<Rightarrow> lineRecord \<Rightarrow> SourceContext \<Rightarrow> Observation list" where
  "parseRunnerMetadata t line source =
     List.map_filter
       (\<lambda>(label, p).
          let v = trim_quotes (TrimSpace (TrimPrefix t p))
          in if HasPrefix t p \<and> v \<noteq> []
             then Some (baseObservation ObservationRunnerMetadata source line None (OtherPhase []) label v) else None)
       runner_prefixes"

text \<open>The loop of the setup: the indexes of the announced downloads, whether an error was seen, the permission group.\<close>

record setup_state =
  ss_announced :: "nat list"
  ss_failed :: bool
  ss_group :: bool
  ss_result :: ParseResult

definition announce :: "Observation \<Rightarrow> setup_state \<Rightarrow> setup_state" where
  "announce obs st =
     (let r = observe [obs, obs\<lparr>ob_Kind := ObservationDownloadAnnounced\<rparr>] (ss_result st)
      in st\<lparr>ss_result := r, ss_announced := ss_announced st @ [length (pr_Observations r) - 1]\<rparr>)"

text \<open>One line: the new state and the number of further lines used up, or None where the loop stops.\<close>

definition setup_line ::
    "(string \<Rightarrow> string) \<Rightarrow> SourceContext \<Rightarrow> lineRecord \<Rightarrow> lineRecord list \<Rightarrow> setup_state \<Rightarrow> setup_state \<times> nat option" where
  "setup_line lower source line rest st0 =
     (let t = TrimSpace (ln_text line);
          st = (if HasPrefix t ''##[error]'' then st0\<lparr>ss_failed := True\<rparr> else st0)
      in if t = ''##[group]GITHUB_TOKEN Permissions'' then (st\<lparr>ss_group := True\<rparr>, Some 0)
         else if ss_group st then
           (if t = ''##[endgroup]'' then (st\<lparr>ss_group := False\<rparr>, Some 0)
            else case match_permission t of
                   Some (name, access) \<Rightarrow>
                     (st\<lparr>ss_result := observe [baseObservation ObservationTokenPermission source line None (OtherPhase [])
                          (ToLower name) access] (ss_result st)\<rparr>, Some 0)
                 | None \<Rightarrow> (st, Some 0))
         else if sc_Grammar source = ConsolidatedGrammarVersion \<and> HasPrefix t ''Uses: '' then (st, None)
         else case match_download t of
           Some (declared, oid) \<Rightarrow>
             (case parseResolvedAction lower declared oid (sc_GitObjectAlgorithm source) of
                Inl e \<Rightarrow> (st\<lparr>ss_result := diagnose ''MALFORMED_ACTION_RESOLUTION'' (ln_number line) (goerr_string e) (ss_result st)\<rparr>, Some 0)
              | Inr action \<Rightarrow>
                  (announce (baseObservation ObservationResolution source line (Some action) (OtherPhase []) [] []) st, Some 0))
         | None \<Rightarrow>
             (case match_immutable t of
                Some declared \<Rightarrow>
                  (case parseImmutable lower (line # rest) declared (sc_GitObjectAlgorithm source) of
                     Inl e \<Rightarrow>
                       (st\<lparr>ss_result := diagnose ''INCOMPLETE_IMMUTABLE_PACKAGE_GROUP'' (ln_number line) (goerr_string e) (ss_result st)\<rparr>, Some 0)
                   | Inr (action, consumed) \<Rightarrow>
                       (announce ((baseObservation ObservationResolution source line (Some action) (OtherPhase []) [] [])
                          \<lparr>ob_LineEnd := ln_number ((line # rest) ! (consumed - 1))\<rparr>) st, Some (consumed - 1)))
              | None \<Rightarrow> (st\<lparr>ss_result := observe (parseRunnerMetadata t line source) (ss_result st)\<rparr>, Some 0)))"

fun setup_loop :: "(string \<Rightarrow> string) \<Rightarrow> SourceContext \<Rightarrow> lineRecord list \<Rightarrow> setup_state \<Rightarrow> setup_state" where
  "setup_loop lower source [] st = st"
| "setup_loop lower source (line # rest) st =
     (case setup_line lower source line rest st of
        (st', None) \<Rightarrow> st'
      | (st', Some n) \<Rightarrow> setup_loop lower source (drop n rest) st')"

text \<open>The observation that the preparation of an announced action was completed, or failed.\<close>

definition conclude :: "bool \<Rightarrow> lineRecord list \<Rightarrow> Observation list \<Rightarrow> nat \<Rightarrow> Observation" where
  "conclude success lines obs i =
     (obs ! i)\<lparr>ob_Kind := (if success then ObservationPreparationComplete else ObservationPreparationFailed),
        ob_Derived := True, ob_Inputs := [i],
        ob_LineEnd := (if lines = [] then ob_LineEnd (obs ! i) else ln_number (last lines))\<rparr>"

definition parseSetup :: "(string \<Rightarrow> string) \<Rightarrow> lineRecord list \<Rightarrow> SourceContext \<Rightarrow> ParseResult \<Rightarrow> ParseResult" where
  "parseSetup lower lines source result =
     (let st = setup_loop lower source lines \<lparr>ss_announced = [], ss_failed = False, ss_group = False, ss_result = result\<rparr>;
          r = ss_result st;
          success = (pr_Complete r \<and> \<not> ss_failed st \<and> EqualFold (sc_APIConclusion source) ''success'');
          r' = observe (map (conclude success lines (pr_Observations r)) (ss_announced st)) r
      in if ss_announced st \<noteq> [] \<and> \<not> success then diagnose ''PREPARATION_COMPLETION_NOT_PROVEN'' 0 [] r' else r')"

section \<open>The lifecycle of an Action step\<close>

definition hasStructuralControl :: "string \<Rightarrow> bool" where
  "hasStructuralControl v = list_ex (\<lambda>r. r < 0x20 \<or> r = 0x7F) (rune_list v)"

definition detail_char :: "char \<Rightarrow> bool" where
  "detail_char c \<longleftrightarrow> letter_or_digit c \<or> c = CHR ''_'' \<or> c = CHR ''-'' \<or> c = CHR ''.''"

definition validActionDetailValue :: "string \<Rightarrow> bool" where
  "validActionDetailValue t =
     (if \<not> HasPrefix t ''  '' \<or> length t \<le> 2 \<or> \<not> ValidUTF8 t then False
      else case Cut CHR '':'' (drop 2 t) of
             None \<Rightarrow> False
           | Some (name, rest) \<Rightarrow> name \<noteq> [] \<and> list_all detail_char name)"

definition unsupported :: "int \<Rightarrow> string \<Rightarrow> ParseDiagnostic" where
  "unsupported line message = \<lparr>pd_Code = ''UNSUPPORTED_LOG_GRAMMAR'', pd_Line = line, pd_Error = message\<rparr>"

text \<open>
  The lines behind the opening line of a details group: the line that closes it, or why it is not the group of an Action.
  The section is empty, with or env.
\<close>

fun details_group :: "int \<Rightarrow> lineRecord list \<Rightarrow> string \<Rightarrow> bool \<Rightarrow> bool \<Rightarrow> ParseDiagnostic + lineRecord" where
  "details_group start [] sect seenWith seenEnv =
     Inl \<lparr>pd_Code = ''TRUNCATED_ACTION_DETAILS_GROUP'', pd_Line = start,
          pd_Error = ''repository Action details group has no closing runner record''\<rparr>"
| "details_group start (line # lines) sect seenWith seenEnv =
     (if ln_time line = None then Inl (unsupported (ln_number line) ''Action details record is not timestamped'')
      else if ln_text line = ''##[endgroup]'' then Inr line
      else if CHR 0x1B \<in> set (ln_text line) \<or> hasStructuralControl (ln_text line) then
        Inl \<lparr>pd_Code = ''SHELL_STEP_LOOKALIKE'', pd_Line = ln_number line,
             pd_Error = ''Action details group contains script-control output''\<rparr>
      else if ln_text line = ''with:'' then
        (if seenWith \<or> seenEnv
         then Inl (unsupported (ln_number line) ''Action details sections are duplicated or out of order'')
         else details_group start lines ''with'' True seenEnv)
      else if ln_text line = ''env:'' then
        (if seenEnv then Inl (unsupported (ln_number line) ''Action details env section is duplicated'')
         else details_group start lines ''env'' seenWith True)
      else if HasPrefix (ln_text line) ''shell:'' then
        Inl \<lparr>pd_Code = ''SHELL_STEP_LOOKALIKE'', pd_Line = ln_number line,
             pd_Error = ''ScriptHandler shell record is not repository Action lifecycle evidence''\<rparr>
      else if sect = [] \<or> \<not> validActionDetailValue (ln_text line) then
        Inl (unsupported (ln_number line) ''record is outside the pinned repository Action details grammar'')
      else details_group start lines sect seenWith seenEnv)"

definition validateRepositoryActionDetailsGroup :: "lineRecord \<Rightarrow> lineRecord list \<Rightarrow> ParseDiagnostic + lineRecord" where
  "validateRepositoryActionDetailsGroup line lines = details_group (ln_number line) lines [] False False"

definition fail_with :: "ParseDiagnostic \<Rightarrow> ParseResult \<Rightarrow> ParseResult" where
  "fail_with d r = r\<lparr>pr_Complete := False, pr_Diagnostics := pr_Diagnostics r @ [d]\<rparr>"

text \<open>The first line that is not blank decides; \<open>n\<close> is the number of observations made before.\<close>

definition lifecycle_frame ::
    "(string \<Rightarrow> string) \<Rightarrow> SourceContext \<Rightarrow> lineRecord \<Rightarrow> lineRecord list \<Rightarrow> nat \<Rightarrow> ParseDiagnostic + Observation list" where
  "lifecycle_frame lower source line rest n =
     (if ln_time line = None then Inl (unsupported (ln_number line) ''Action lifecycle frame is not timestamped'')
      else case match_run (ln_text line) of
        None \<Rightarrow> Inl (unsupported (ln_number line) ''first runner control record is not an Action lifecycle frame'')
      | Some declared \<Rightarrow>
          (case parseDeclaredAction lower declared of
             Inl e \<Rightarrow> Inl \<lparr>pd_Code = ''MALFORMED_ACTION_LIFECYCLE'', pd_Line = ln_number line, pd_Error = goerr_string e\<rparr>
           | Inr action \<Rightarrow>
               (case validateRepositoryActionDetailsGroup line rest of
                  Inl d \<Rightarrow> Inl d
                | Inr closing \<Rightarrow>
                    if sc_ExpectedAction source = [] \<or> \<not> sameActionDeclaration lower (sc_ExpectedAction source) declared
                    then Inl \<lparr>pd_Code = ''AMBIGUOUS_CORRELATION'', pd_Line = ln_number line,
                              pd_Error = ''lifecycle frame does not match trusted step declaration''\<rparr>
                    else
                      let started = baseObservation ObservationLifecycleStarted source line (Some action)
                            (sc_LifecyclePhase source) [] []
                      in Inr (started #
                           (if sc_APIConclusion source \<noteq> [] \<and> \<not> EqualFold (sc_APIStatus source) ''in_progress''
                            then [started\<lparr>ob_Kind := ObservationLifecycleCompleted, ob_Derived := True, ob_Inputs := [n],
                                   ob_LineEnd := ln_number closing\<rparr>]
                            else [])))))"

definition parseActionStep :: "(string \<Rightarrow> string) \<Rightarrow> lineRecord list \<Rightarrow> SourceContext \<Rightarrow> ParseResult \<Rightarrow> ParseResult" where
  "parseActionStep lower lines source result =
     (if EqualFold (sc_APIConclusion source) ''skipped'' then
        observe [baseObservation ObservationConditionSkipped source \<lparr>ln_number = 0, ln_time = None, ln_text = []\<rparr> None
          (sc_LifecyclePhase source) [] []] result
      else case dropWhile (\<lambda>line. TrimSpace (ln_text line) = []) lines of
        [] \<Rightarrow> diagnose ''MISSING_LIFECYCLE_FRAME'' 0 [] result
      | line # rest \<Rightarrow>
          (case lifecycle_frame lower source line rest (length (pr_Observations result)) of
             Inl d \<Rightarrow> fail_with d result
           | Inr obs \<Rightarrow> observe obs result))"

section \<open>The parser\<close>

definition complete_scope :: "ExecutionScope \<Rightarrow> bool" where
  "complete_scope s \<longleftrightarrow> \<not> (xs_RepositoryID s \<le> 0 \<or> xs_RunID s \<le> 0 \<or> xs_RunAttempt s \<le> 0 \<or> xs_JobID s \<le> 0)"

definition parse_role ::
    "(string \<Rightarrow> string) \<Rightarrow> SourceContext \<Rightarrow> lineRecord list \<Rightarrow> ParseResult \<Rightarrow> ParseResult" where
  "parse_role lower source lines result =
     (if \<not> sc_GrammarValidated source \<and> (sc_Role source = RoleSetup \<or> sc_Role source = RoleActionStep)
      then diagnose ''UNSUPPORTED_LOG_GRAMMAR'' 0 ''runner grammar was not validated'' result
      else case sc_Role source of
             RoleSetup \<Rightarrow> parseSetup lower lines source result
           | RoleActionStep \<Rightarrow> parseActionStep lower lines source result
           | RoleRunStep \<Rightarrow> result
           | RoleUnknown \<Rightarrow> result
           | OtherRole r \<Rightarrow> diagnose ''UNSUPPORTED_LOG_GRAMMAR'' 0 ''unknown structural entry role'' result)"

text \<open>
  Parse on bytes in memory. \<open>ctx_err k\<close> is the error of the context when the line after the first k is read; the first
  such error ends the parse with the result so far, which is empty.
\<close>

definition Parse ::
    "(string \<Rightarrow> gotime option) \<Rightarrow> (string \<Rightarrow> string) \<Rightarrow> (string \<Rightarrow> string) \<Rightarrow> (nat \<Rightarrow> goerr option) \<Rightarrow> string \<Rightarrow> SourceContext \<Rightarrow>
     ParseResult \<times> goerr option" where
  "Parse parse_time lower sha ctx_err body source =
     (let empty_result = \<lparr>pr_Observations = [], pr_Diagnostics = [], pr_Complete = True, pr_ContentSHA256 = [], pr_ByteLength = 0\<rparr>
      in if \<not> complete_scope (sc_Scope source) then (empty_result, Some (Errorf ''complete execution scope is required''))
         else if sc_LineOffset source < 0 then (empty_result, Some (Errorf ''source line offset cannot be negative''))
         else let (texts, long, consumed) = scan_lines body
              in case first_error (map ctx_err [0..<length texts]) of
                   Some e \<Rightarrow> (empty_result, Some e)
                 | None \<Rightarrow>
                     let lines = number_lines parse_time (sc_LineOffset source + 1) True texts;
                         scanned = (if long then diagnose ''TRUNCATED_OR_OVERSIZE_LOG'' 0 ''bufio.Scanner: token too long'' empty_result
                                    else empty_result)
                     in (parse_role lower source lines (scanned\<lparr>pr_ByteLength := int consumed,
                           pr_ContentSHA256 := sha (take consumed body)\<rparr>), None))"

definition SortObservations :: "Observation list \<Rightarrow> Observation list" where
  "SortObservations obs =
     sort_key (\<lambda>ob. (xs_RepositoryID (ob_Scope ob), xs_RunID (ob_Scope ob), xs_RunAttempt (ob_Scope ob), xs_JobID (ob_Scope ob),
       xs_StepKey (ob_Scope ob), ob_LineStart ob, ObservationKind_text (ob_Kind ob))) obs"

section \<open>What a setup log can claim\<close>

definition group_opened :: "lineRecord list \<Rightarrow> bool" where
  "group_opened before \<longleftrightarrow>
     (\<exists>xs l ys. before = xs @ l # ys \<and> TrimSpace (ln_text l) = ''##[group]GITHUB_TOKEN Permissions'' \<and>
        list_all (\<lambda>k. TrimSpace (ln_text k) \<noteq> ''##[endgroup]'') ys)"

lemma group_opened_now: "TrimSpace (ln_text l) = ''##[group]GITHUB_TOKEN Permissions'' \<Longrightarrow> group_opened (before @ [l])"
  unfolding group_opened_def by (intro exI[of _ before] exI[of _ l] exI[of _ "[]"]) simp

lemma group_opened_later:
  "group_opened before \<Longrightarrow> TrimSpace (ln_text l) \<noteq> ''##[endgroup]'' \<Longrightarrow> group_opened (before @ [l])"
  unfolding group_opened_def by (elim exE conjE, rename_tac xs k ys, rule_tac x=xs in exI, rule_tac x=k in exI, rule_tac x="ys @ [l]" in exI) simp

text \<open>An Action named with an object of full width, in the format of the repository where that is known.\<close>

definition pinned_action :: "SourceContext \<Rightarrow> LogAction option \<Rightarrow> bool" where
  "pinned_action source action \<longleftrightarrow>
     (case action of
        None \<Rightarrow> False
      | Some a \<Rightarrow> lg_Algorithm (la_Source a) = sc_GitObjectAlgorithm source \<and>
          log_validateOID (lg_Algorithm (la_Source a)) (lg_Value (la_Source a)) = None)"

definition permission_at :: "lineRecord list \<Rightarrow> lineRecord \<Rightarrow> Observation \<Rightarrow> bool" where
  "permission_at before line ob \<longleftrightarrow>
     group_opened before \<and>
     (case match_permission (TrimSpace (ln_text line)) of
        None \<Rightarrow> False
      | Some (name, access) \<Rightarrow> ob_Permission ob = ToLower name \<and> ob_Access ob = access)"

text \<open>What an observation of the setup rests on: one line of the log, and what that line must be.\<close>

definition setup_fact :: "SourceContext \<Rightarrow> lineRecord list \<Rightarrow> Observation \<Rightarrow> bool" where
  "setup_fact source lines ob \<longleftrightarrow>
     ob_Scope ob = sc_Scope source \<and> \<not> ob_Derived ob \<and>
     (\<exists>before line after. lines = before @ line # after \<and> ob_LineStart ob = ln_number line \<and> ob_EventTime ob = ln_time line \<and>
        (ob_Kind ob = ObservationTokenPermission \<and> permission_at before line ob \<or>
         ob_Kind ob = ObservationRunnerMetadata \<and> ob_Action ob = None \<or>
         ob_Kind ob \<in> {ObservationResolution, ObservationDownloadAnnounced} \<and> pinned_action source (ob_Action ob)))"

definition setup_inv :: "SourceContext \<Rightarrow> lineRecord list \<Rightarrow> lineRecord list \<Rightarrow> setup_state \<Rightarrow> bool" where
  "setup_inv source lines before st \<longleftrightarrow>
     (ss_group st \<longrightarrow> group_opened before) \<and>
     list_all (setup_fact source lines) (pr_Observations (ss_result st)) \<and>
     list_all (\<lambda>i. i < length (pr_Observations (ss_result st)) \<and>
        ob_Kind (pr_Observations (ss_result st) ! i) = ObservationDownloadAnnounced) (ss_announced st)"

lemma parseResolvedAction_pinned:
  "parseResolvedAction lower declared oid (sc_GitObjectAlgorithm source) = Inr a \<Longrightarrow> pinned_action source (Some a)"
  by (auto simp: parseResolvedAction_def pinned_action_def split: sum.splits option.splits)

lemma parseImmutable_pinned:
  "parseImmutable lower lines declared (sc_GitObjectAlgorithm source) = Inr (a, n) \<Longrightarrow> pinned_action source (Some a)"
  by (auto simp: parseImmutable_def pinned_action_def split: sum.splits option.splits prod.splits if_splits)

lemma setup_inv_observe:
  assumes "setup_inv source lines before st" "list_all (setup_fact source lines) obs"
    and "pr_Observations (ss_result st') = pr_Observations (ss_result st) @ obs" "ss_announced st' = ss_announced st"
    and "ss_group st' \<longrightarrow> group_opened before'"
  shows "setup_inv source lines before' st'"
  using assms by (auto simp: setup_inv_def list_all_iff nth_append)

lemma setup_inv_announce:
  assumes "setup_inv source lines before st" "setup_fact source lines ob" "ob_Kind ob = ObservationResolution"
    and "\<not> ss_group st"
  shows "setup_inv source lines before' (announce ob st)"
proof -
  have "setup_fact source lines (ob\<lparr>ob_Kind := ObservationDownloadAnnounced\<rparr>)"
    using assms(2,3) by (auto simp: setup_fact_def)
  then show ?thesis using assms by (auto simp: setup_inv_def announce_def observe_def list_all_iff nth_append)
qed

lemma setup_factI:
  assumes "lines = before @ line # after" "ob_Scope ob = sc_Scope source" "\<not> ob_Derived ob"
    "ob_LineStart ob = ln_number line" "ob_EventTime ob = ln_time line"
    "ob_Kind ob = ObservationTokenPermission \<and> permission_at before line ob \<or>
     ob_Kind ob = ObservationRunnerMetadata \<and> ob_Action ob = None \<or>
     ob_Kind ob \<in> {ObservationResolution, ObservationDownloadAnnounced} \<and> pinned_action source (ob_Action ob)"
  shows "setup_fact source lines ob"
  unfolding setup_fact_def using assms by blast

lemma base_fact:
  assumes "lines = before @ line # after" "kind = ObservationResolution \<and> pinned_action source action"
  shows "setup_fact source lines ((baseObservation kind source line action phase a v)\<lparr>ob_LineEnd := e\<rparr>)"
  by (rule setup_factI[OF assms(1)]) (use assms(2) in \<open>simp_all add: baseObservation_def\<close>)

lemma metadata_facts:
  "lines = before @ line # after \<Longrightarrow> list_all (setup_fact source lines) (parseRunnerMetadata t line source)"
  unfolding parseRunnerMetadata_def runner_prefixes_def
  by (auto simp: map_filter_def Let_def setup_fact_def baseObservation_def)

lemma setup_line_inv:
  assumes lines: "lines = before @ line # rest" and inv: "setup_inv source lines before st"
    and step: "setup_line lower source line rest st = (st', nx)"
  shows "setup_inv source lines (before @ line # take (case nx of None \<Rightarrow> 0 | Some n \<Rightarrow> n) rest) st'"
proof -
  let ?t = "TrimSpace (ln_text line)"
  define st1 where "st1 = (if HasPrefix ?t ''##[error]'' then st\<lparr>ss_failed := True\<rparr> else st)"
  have st1: "setup_inv source lines before st1" "ss_group st1 = ss_group st" using inv by (auto simp: st1_def setup_inv_def)
  note step' = step[unfolded setup_line_def Let_def, folded st1_def]
  consider (header) "?t = ''##[group]GITHUB_TOKEN Permissions''"
    | (inside) "?t \<noteq> ''##[group]GITHUB_TOKEN Permissions''" "ss_group st1"
    | (outside) "?t \<noteq> ''##[group]GITHUB_TOKEN Permissions''" "\<not> ss_group st1" by blast
  then show ?thesis
  proof cases
    case header
    then have "st' = st1\<lparr>ss_group := True\<rparr>" "nx = Some 0" using step' by auto
    then show ?thesis using st1 group_opened_now[OF header, of before] by (simp add: setup_inv_def)
  next
    case inside
    have op: "group_opened before" using st1(1) inside(2) by (simp add: setup_inv_def)
    show ?thesis
    proof (cases "?t = ''##[endgroup]''")
      case True
      then have "st' = st1\<lparr>ss_group := False\<rparr>" using step' inside by auto
      then show ?thesis using st1 by (simp add: setup_inv_def)
    next
      case False
      then have nxt: "nx = Some 0" using step' inside by (auto split: option.splits)
      have op': "group_opened (before @ [line])" by (rule group_opened_later[OF op False])
      show ?thesis
      proof (cases "match_permission ?t")
        case None
        then have "st' = st1" using step' inside False by simp
        then show ?thesis using st1 nxt op' by (simp add: setup_inv_def)
      next
        case (Some m)
        then obtain n a where m: "match_permission ?t = Some (n, a)" by (cases m) auto
        let ?o = "baseObservation ObservationTokenPermission source line None (OtherPhase []) (ToLower n) a"
        have "setup_fact source lines ?o"
          by (rule setup_factI[OF lines]) (use op m in \<open>simp_all add: baseObservation_def permission_at_def\<close>)
        moreover have "st' = st1\<lparr>ss_result := observe [?o] (ss_result st1)\<rparr>" using step' inside False m by auto
        ultimately show ?thesis using op' nxt
          by (intro setup_inv_observe[OF st1(1), of "[?o]"]) (simp_all add: observe_def)
      qed
    qed
  next
    case outside
    have quiet: "setup_inv source lines b st'" if "ss_result st' = ss_result st1 \<or> (\<exists>c l e. ss_result st' = diagnose c l e (ss_result st1))"
        "ss_announced st' = ss_announced st1" "ss_group st' = ss_group st1" for b
      using that st1 outside(2) by (auto simp: setup_inv_def diagnose_def)
    have told: "setup_inv source lines b (announce ob st1)" if "setup_fact source lines ob" "ob_Kind ob = ObservationResolution" for b ob
      by (rule setup_inv_announce[OF st1(1) that outside(2)])
    consider (stop) "sc_Grammar source = ConsolidatedGrammarVersion \<and> HasPrefix ?t ''Uses: ''"
      | (down) d where "\<not> (sc_Grammar source = ConsolidatedGrammarVersion \<and> HasPrefix ?t ''Uses: '')" "match_download ?t = Some d"
      | (pack) d where "\<not> (sc_Grammar source = ConsolidatedGrammarVersion \<and> HasPrefix ?t ''Uses: '')" "match_download ?t = None"
          "match_immutable ?t = Some d"
      | (other) "\<not> (sc_Grammar source = ConsolidatedGrammarVersion \<and> HasPrefix ?t ''Uses: '')" "match_download ?t = None"
          "match_immutable ?t = None" by blast
    then show ?thesis
    proof cases
      case stop
      then show ?thesis using step' outside quiet by auto
    next
      case down
      obtain declared oid where d: "match_download ?t = Some (declared, oid)" using down(2) by (cases d) auto
      show ?thesis
      proof (cases "parseResolvedAction lower declared oid (sc_GitObjectAlgorithm source)")
        case (Inl e)
        then have "st' = st1\<lparr>ss_result := diagnose ''MALFORMED_ACTION_RESOLUTION'' (ln_number line) (goerr_string e) (ss_result st1)\<rparr>"
          using step' outside down(1) d by auto
        then show ?thesis by (intro quiet) auto
      next
        case (Inr action)
        let ?o = "baseObservation ObservationResolution source line (Some action) (OtherPhase []) [] []"
        have "setup_fact source lines ?o"
          by (rule setup_factI[OF lines]) (use parseResolvedAction_pinned[OF Inr] in \<open>simp_all add: baseObservation_def\<close>)
        moreover have "st' = announce ?o st1" using step' outside down(1) d Inr by auto
        ultimately show ?thesis using told by (simp add: baseObservation_def)
      qed
    next
      case pack
      show ?thesis
      proof (cases "parseImmutable lower (line # rest) d (sc_GitObjectAlgorithm source)")
        case (Inl e)
        then have "st' = st1\<lparr>ss_result := diagnose ''INCOMPLETE_IMMUTABLE_PACKAGE_GROUP'' (ln_number line) (goerr_string e) (ss_result st1)\<rparr>"
          using step' outside pack by auto
        then show ?thesis by (intro quiet) auto
      next
        case (Inr r)
        then obtain action consumed where r: "parseImmutable lower (line # rest) d (sc_GitObjectAlgorithm source) = Inr (action, consumed)"
          by (cases r) auto
        let ?o = "(baseObservation ObservationResolution source line (Some action) (OtherPhase []) [] [])
            \<lparr>ob_LineEnd := ln_number ((line # rest) ! (consumed - 1))\<rparr>"
        have "setup_fact source lines ?o" by (rule base_fact[OF lines]) (simp add: parseImmutable_pinned[OF r])
        moreover have "st' = announce ?o st1" using step' outside pack r by auto
        ultimately show ?thesis using told by (simp add: baseObservation_def)
      qed
    next
      case other
      then have eq: "st' = st1\<lparr>ss_result := observe (parseRunnerMetadata ?t line source) (ss_result st1)\<rparr>" using step' outside by auto
      show ?thesis unfolding eq
        by (rule setup_inv_observe[OF st1(1) metadata_facts[OF lines]]) (use outside in \<open>simp_all add: observe_def\<close>)
    qed
  qed
qed

lemma setup_loop_inv:
  "lines = before @ rest \<Longrightarrow> setup_inv source lines before st \<Longrightarrow>
   \<exists>b. setup_inv source lines b (setup_loop lower source rest st)"
proof (induction lower source rest st arbitrary: before rule: setup_loop.induct)
  case (1 lower source st)
  then show ?case by auto
next
  case (2 lower source line rest st)
  obtain st' nx where step: "setup_line lower source line rest st = (st', nx)" by fastforce
  note inv = setup_line_inv[OF 2(2,3) step]
  show ?case
  proof (cases nx)
    case None
    then show ?thesis using inv step by auto
  next
    case (Some n)
    have "lines = (before @ line # take n rest) @ drop n rest" using 2(2) by simp
    from 2(1)[OF step[symmetric] Some this] inv Some show ?thesis by (simp add: step)
  qed
qed

definition no_result :: "ParseResult \<Rightarrow> bool" where
  "no_result r \<longleftrightarrow> pr_Observations r = []"

lemma setup_loop_start:
  assumes "no_result r"
  shows "\<exists>b. setup_inv source lines b
    (setup_loop lower source lines \<lparr>ss_announced = [], ss_failed = False, ss_group = False, ss_result = r\<rparr>)"
  by (rule setup_loop_inv[of lines "[]"]) (use assms in \<open>simp_all add: setup_inv_def no_result_def\<close>)

section \<open>What a step log can claim\<close>

definition detail_line :: "lineRecord \<Rightarrow> bool" where
  "detail_line l \<longleftrightarrow>
     ln_time l \<noteq> None \<and> CHR 0x1B \<notin> set (ln_text l) \<and> \<not> hasStructuralControl (ln_text l) \<and> \<not> HasPrefix (ln_text l) ''shell:'' \<and>
     (ln_text l = ''with:'' \<or> ln_text l = ''env:'' \<or> validActionDetailValue (ln_text l))"

lemma details_group_Inr:
  "details_group start lines sect sw se = Inr closing \<Longrightarrow>
   \<exists>inner after. lines = inner @ closing # after \<and> list_all detail_line inner \<and> ln_text closing = ''##[endgroup]''"
proof (induction start lines sect sw se rule: details_group.induct)
  case (2 start line lines sect sw se)
  show ?case
  proof (cases "ln_text line = ''##[endgroup]'' \<and> ln_time line \<noteq> None")
    case True
    then have "closing = line" using "2.prems" by auto
    then show ?thesis using True by (intro exI[of _ "[]"] exI[of _ lines]) simp
  next
    case False
    have plain: "\<not> HasPrefix ''with:'' ''shell:''" "\<not> HasPrefix ''env:'' ''shell:''" by (simp_all add: HasPrefix_def)
    have "detail_line line" using "2.prems" False plain by (auto simp: detail_line_def split: if_splits)
    moreover have "\<exists>inner after. lines = inner @ closing # after \<and> list_all detail_line inner \<and> ln_text closing = ''##[endgroup]''"
      using "2.prems" "2.IH" False by (auto split: if_splits)
    ultimately obtain inner after where "detail_line line" "lines = inner @ closing # after" "list_all detail_line inner"
        "ln_text closing = ''##[endgroup]''" by blast
    then show ?thesis by (intro exI[of _ "line # inner"] exI[of _ after]) simp
  qed
qed simp

text \<open>
  What a lifecycle observation rests on: the first line that is not blank opens the group of the expected Action, and the
  group closes without a line that a script could have printed.
\<close>

definition lifecycle_fact :: "(string \<Rightarrow> string) \<Rightarrow> SourceContext \<Rightarrow> lineRecord list \<Rightarrow> Observation \<Rightarrow> bool" where
  "lifecycle_fact lower source lines ob \<longleftrightarrow>
     ob_Scope ob = sc_Scope source \<and> ob_Phase ob = sc_LifecyclePhase source \<and>
     (ob_Kind ob = ObservationConditionSkipped \<and> EqualFold (sc_APIConclusion source) ''skipped'' \<or>
      ob_Kind ob \<in> {ObservationLifecycleStarted, ObservationLifecycleCompleted} \<and>
      (\<exists>before line inner closing after declared action.
         lines = before @ line # inner @ closing # after \<and> list_all (\<lambda>l. TrimSpace (ln_text l) = []) before \<and>
         ln_time line \<noteq> None \<and> match_run (ln_text line) = Some declared \<and>
         sameActionDeclaration lower (sc_ExpectedAction source) declared \<and>
         parseDeclaredAction lower declared = Inr action \<and> ob_Action ob = Some action \<and>
         list_all detail_line inner \<and> ln_text closing = ''##[endgroup]'' \<and> ob_LineStart ob = ln_number line))"

lemma lifecycle_frame_facts:
  assumes "lifecycle_frame lower source line rest n = Inr obs" "lines = before @ line # rest"
    "list_all (\<lambda>l. TrimSpace (ln_text l) = []) before"
  shows "list_all (lifecycle_fact lower source lines) obs"
proof -
  obtain declared action closing where f: "ln_time line \<noteq> None" "match_run (ln_text line) = Some declared"
      "parseDeclaredAction lower declared = Inr action" "validateRepositoryActionDetailsGroup line rest = Inr closing"
      "sameActionDeclaration lower (sc_ExpectedAction source) declared"
    using assms(1) by (auto simp: lifecycle_frame_def split: if_splits option.splits sum.splits)
  obtain inner after where g: "rest = inner @ closing # after" "list_all detail_line inner" "ln_text closing = ''##[endgroup]''"
    using details_group_Inr f(4) unfolding validateRepositoryActionDetailsGroup_def by blast
  have fact: "lifecycle_fact lower source lines ob"
    if "ob_Action ob = Some action" "ob_LineStart ob = ln_number line" "ob_Scope ob = sc_Scope source"
      "ob_Phase ob = sc_LifecyclePhase source" "ob_Kind ob \<in> {ObservationLifecycleStarted, ObservationLifecycleCompleted}" for ob
    unfolding lifecycle_fact_def using assms(2,3) f g that by blast
  have "obs = (let started = baseObservation ObservationLifecycleStarted source line (Some action) (sc_LifecyclePhase source) [] []
               in started # (if sc_APIConclusion source \<noteq> [] \<and> \<not> EqualFold (sc_APIStatus source) ''in_progress''
                    then [started\<lparr>ob_Kind := ObservationLifecycleCompleted, ob_Derived := True, ob_Inputs := [n],
                           ob_LineEnd := ln_number closing\<rparr>] else []))"
    using assms(1) f by (auto simp: lifecycle_frame_def Let_def split: if_splits)
  then show ?thesis by (auto simp: baseObservation_def Let_def intro!: fact)
qed

lemma parseActionStep_facts:
  assumes "no_result r"
  shows "list_all (lifecycle_fact lower source lines) (pr_Observations (parseActionStep lower lines source r))"
proof (cases "EqualFold (sc_APIConclusion source) ''skipped''")
  case True
  then show ?thesis using assms by (simp add: parseActionStep_def observe_def no_result_def lifecycle_fact_def baseObservation_def)
next
  case False
  let ?blank = "\<lambda>l. TrimSpace (ln_text l) = []"
  show ?thesis
  proof (cases "dropWhile ?blank lines")
    case Nil
    have "parseActionStep lower lines source r = diagnose ''MISSING_LIFECYCLE_FRAME'' 0 [] r"
      by (simp only: parseActionStep_def Nil False if_False list.case)
    then show ?thesis using assms by (simp add: diagnose_def no_result_def)
  next
    case (Cons line rest)
    have "lines = takeWhile ?blank lines @ line # rest" by (metis Cons takeWhile_dropWhile_id)
    moreover have "list_all ?blank (takeWhile ?blank lines)" by (auto simp: list_all_iff dest: set_takeWhileD)
    ultimately have facts: "lifecycle_frame lower source line rest n = Inr obs \<Longrightarrow> list_all (lifecycle_fact lower source lines) obs" for n obs
      using lifecycle_frame_facts by blast
    show ?thesis using assms False Cons facts
      by (auto simp: parseActionStep_def no_result_def fail_with_def observe_def split: sum.split)
  qed
qed

section \<open>The parser as a whole\<close>

text \<open>The conclusion drawn from an announced download.\<close>

definition preparation_fact :: "SourceContext \<Rightarrow> ParseResult \<Rightarrow> Observation \<Rightarrow> bool" where
  "preparation_fact source r ob \<longleftrightarrow>
     ob_Derived ob \<and> ob_Kind ob \<in> {ObservationPreparationComplete, ObservationPreparationFailed} \<and>
     (\<exists>i. ob_Inputs ob = [i] \<and> i < length (pr_Observations r) \<and> ob_Kind (pr_Observations r ! i) = ObservationDownloadAnnounced \<and>
        ob_Action ob = ob_Action (pr_Observations r ! i) \<and> ob_Scope ob = ob_Scope (pr_Observations r ! i)) \<and>
     (if ob_Kind ob = ObservationPreparationComplete then pr_Complete r \<and> EqualFold (sc_APIConclusion source) ''success'' else \<not> pr_Complete r)"

lemma parseSetup_facts:
  assumes "no_result r0"
  shows "list_all (\<lambda>ob. setup_fact source lines ob \<or> preparation_fact source (parseSetup lower lines source r0) ob)
    (pr_Observations (parseSetup lower lines source r0))"
proof -
  define st where "st = setup_loop lower source lines \<lparr>ss_announced = [], ss_failed = False, ss_group = False, ss_result = r0\<rparr>"
  define obs where "obs = pr_Observations (ss_result st)"
  define success where "success = (pr_Complete (ss_result st) \<and> \<not> ss_failed st \<and> EqualFold (sc_APIConclusion source) ''success'')"
  define r where "r = parseSetup lower lines source r0"
  obtain b where "setup_inv source lines b st" using setup_loop_start[OF assms] unfolding st_def by blast
  then have inv: "list_all (setup_fact source lines) obs"
      "list_all (\<lambda>i. i < length obs \<and> ob_Kind (obs ! i) = ObservationDownloadAnnounced) (ss_announced st)"
    by (simp_all add: setup_inv_def obs_def)
  have r_obs: "pr_Observations r = obs @ map (conclude success lines obs) (ss_announced st)"
    and r_complete: "pr_Complete r \<longleftrightarrow> pr_Complete (ss_result st) \<and> (ss_announced st = [] \<or> success)"
    by (auto simp: r_def parseSetup_def Let_def st_def[symmetric] obs_def success_def observe_def diagnose_def)
  have "preparation_fact source r (conclude success lines obs i)" if "i \<in> set (ss_announced st)" for i
  proof -
    have "i < length obs" "ob_Kind (obs ! i) = ObservationDownloadAnnounced" using inv(2) that by (auto simp: list_all_iff)
    moreover have "ss_announced st \<noteq> []" using that by auto
    ultimately show ?thesis using r_complete
      by (auto simp: preparation_fact_def conclude_def r_obs nth_append success_def)
  qed
  then show ?thesis using inv(1) by (simp add: r_def[symmetric] r_obs list_all_iff) blast
qed

definition log_lines :: "(string \<Rightarrow> gotime option) \<Rightarrow> string \<Rightarrow> SourceContext \<Rightarrow> lineRecord list" where
  "log_lines parse_time body source = number_lines parse_time (sc_LineOffset source + 1) True (fst (scan_lines body))"

definition log_fact :: "(string \<Rightarrow> string) \<Rightarrow> SourceContext \<Rightarrow> lineRecord list \<Rightarrow> ParseResult \<Rightarrow> Observation \<Rightarrow> bool" where
  "log_fact lower source lines r ob \<longleftrightarrow>
     sc_GrammarValidated source \<and>
     (case sc_Role source of
        RoleSetup \<Rightarrow> setup_fact source lines ob \<or> preparation_fact source r ob
      | RoleActionStep \<Rightarrow> lifecycle_fact lower source lines ob
      | _ \<Rightarrow> False)"

lemma parse_role_facts:
  "no_result r \<Longrightarrow>
   list_all (log_fact lower source lines (parse_role lower source lines r)) (pr_Observations (parse_role lower source lines r))"
  using parseSetup_facts[of r source lines lower] parseActionStep_facts[of r lower source lines]
  by (auto simp: parse_role_def log_fact_def no_result_def diagnose_def list_all_iff split: EntryRole.splits)

text \<open>
  C23: Every fact of a log is grounded: a permission is a line of an open permission group, a resolution names an object of full
  width, a completed preparation belongs to an announced download of a complete log whose job succeeded, and a lifecycle
  rests on the group of the expected Action, printed before anything else. The output of scripts, and a log whose
  grammar was not validated, yield no fact at all.
\<close>

theorem log_facts_grounded:
  "case Parse parse_time lower sha ctx_err body source of (r, e) \<Rightarrow>
     list_all (log_fact lower source (log_lines parse_time body source) r) (pr_Observations r)"
proof -
  obtain texts long n where s: "scan_lines body = (texts, long, n)" by (metis prod_cases3)
  show ?thesis using parse_role_facts
    by (auto simp: Parse_def Let_def s log_lines_def no_result_def diagnose_def split: option.split)
qed

text \<open>A result is complete exactly when it has no diagnostic, and the parser of a role keeps what was measured before.\<close>

definition keeps :: "ParseResult \<Rightarrow> ParseResult \<Rightarrow> bool" where
  "keeps r r' \<longleftrightarrow>
     ((pr_Complete r \<longleftrightarrow> pr_Diagnostics r = []) \<longrightarrow> (pr_Complete r' \<longleftrightarrow> pr_Diagnostics r' = [])) \<and>
     (pr_Complete r' \<longrightarrow> pr_Complete r) \<and> pr_ContentSHA256 r' = pr_ContentSHA256 r \<and> pr_ByteLength r' = pr_ByteLength r"

lemma keeps_simps [simp]:
  "keeps r r" "keeps r (observe obs r)" "keeps r (diagnose c l e r)" "keeps r (fail_with d r)"
  by (simp_all add: keeps_def observe_def diagnose_def fail_with_def)

lemma keeps_trans: "keeps r s \<Longrightarrow> keeps s t \<Longrightarrow> keeps r t"
  unfolding keeps_def by metis

lemma keeps_step: "keeps r s \<Longrightarrow> keeps r (diagnose c l e s)" "keeps r s \<Longrightarrow> keeps r (observe obs s)"
  by (auto intro: keeps_trans)

lemma setup_line_keeps: "keeps (ss_result st) (ss_result (fst (setup_line lower source line rest st)))"
proof -
  define st1 where "st1 = (if HasPrefix (TrimSpace (ln_text line)) ''##[error]'' then st\<lparr>ss_failed := True\<rparr> else st)"
  have "ss_result st1 = ss_result st" by (simp add: st1_def)
  then show ?thesis unfolding setup_line_def Let_def st1_def[symmetric] announce_def
    by (simp add: keeps_step split: option.split sum.split prod.split)
qed

lemma setup_loop_keeps: "keeps (ss_result st) (ss_result (setup_loop lower source lines st))"
proof (induction lower source lines st rule: setup_loop.induct)
  case (2 lower source line rest st)
  obtain st' nx where step: "setup_line lower source line rest st = (st', nx)" by fastforce
  have k: "keeps (ss_result st) (ss_result st')" using setup_line_keeps[of st lower source line rest] step by simp
  show ?case using k 2(1)[OF step[symmetric]] keeps_trans by (cases nx) (auto simp: step)
qed simp

lemma parse_role_keeps: "keeps r (parse_role lower source lines r)"
proof -
  let ?s = "setup_loop lower source lines \<lparr>ss_announced = [], ss_failed = False, ss_group = False, ss_result = r\<rparr>"
  have s: "keeps r (ss_result ?s)"
    using setup_loop_keeps[of "\<lparr>ss_announced = [], ss_failed = False, ss_group = False, ss_result = r\<rparr>" lower source lines] by simp
  have "keeps r (parseSetup lower lines source r)"
    unfolding parseSetup_def Let_def using s by (simp add: keeps_step)
  moreover have "keeps r (parseActionStep lower lines source r)"
    unfolding parseActionStep_def by (auto split: list.split sum.split)
  ultimately show ?thesis by (auto simp: parse_role_def split: EntryRole.split)
qed

lemma scan_lines_consumed:
  "scan_lines body = (texts, long, n) \<Longrightarrow> n \<le> length body \<and> (\<not> long \<longrightarrow> n = length body)"
proof (induction body arbitrary: texts n rule: scan_lines.induct)
  case (1 body)
  let ?line = "takeWhile (\<lambda>c. c \<noteq> CHR 0x0A) body" and ?rest = "dropWhile (\<lambda>c. c \<noteq> CHR 0x0A) body"
  have len: "length body = length ?line + length ?rest" by (metis length_append takeWhile_dropWhile_id)
  consider "body = []" | "body \<noteq> []" "MaxLogLineBytes \<le> length ?line"
    | "body \<noteq> []" "\<not> MaxLogLineBytes \<le> length ?line" "?rest = []"
    | "body \<noteq> []" "\<not> MaxLogLineBytes \<le> length ?line" "?rest \<noteq> []" by blast
  then show ?case
  proof cases
    case 4
    obtain ls lg m where r: "scan_lines (tl ?rest) = (ls, lg, m)" by (metis prod_cases3)
    have "scan_lines body = (drop_cr ?line # ls, lg, Suc (length ?line) + m)"
      by (subst scan_lines.simps) (simp only: 4 r Let_def if_False prod.case)
    then have eq: "long = lg" "n = Suc (length ?line) + m" using "1.prems" by auto
    have "length ?rest = Suc (length (tl ?rest))" using 4(3) by (cases ?rest) auto
    then show ?thesis using "1.IH"[OF 4(1) refl refl 4(2,3)] r eq len by auto
  next
    case 1
    then show ?thesis using "1.prems" by (simp add: scan_lines.simps)
  next
    case 2
    then have "scan_lines body = ([], True, MaxLogLineBytes)" by (subst scan_lines.simps) (simp only: Let_def if_False if_True)
    then show ?thesis using "1.prems" 2 len by simp
  next
    case 3
    then have "scan_lines body = ([drop_cr ?line], False, length ?line)"
      by (subst scan_lines.simps) (simp only: Let_def if_False if_True simp_thms)
    then show ?thesis using "1.prems" len 3(3) by simp
  qed
qed

text \<open>
  C24: A parse that was not cancelled is complete exactly when it reports nothing, and then its digest and length are those of
  the whole log.
\<close>

theorem complete_parse_covers_log:
  "case Parse parse_time lower sha ctx_err body source of (r, e) \<Rightarrow>
     (case e of
        Some x \<Rightarrow> pr_Observations r = []
      | None \<Rightarrow>
          if pr_Complete r then pr_Diagnostics r = [] \<and> pr_ContentSHA256 r = sha body \<and> pr_ByteLength r = int (length body)
          else pr_Diagnostics r \<noteq> [])"
proof -
  obtain texts long n where s: "scan_lines body = (texts, long, n)" by (metis prod_cases3)
  note c = scan_lines_consumed[OF s]
  define lines where "lines = number_lines parse_time (sc_LineOffset source + 1) True texts"
  define r0 where "r0 = \<lparr>pr_Observations = [], pr_Diagnostics = [], pr_Complete = True, pr_ContentSHA256 = [], pr_ByteLength = 0\<rparr>"
  define r1 where "r1 = (if long then diagnose ''TRUNCATED_OR_OVERSIZE_LOG'' 0 ''bufio.Scanner: token too long'' r0 else r0)
      \<lparr>pr_ByteLength := int n, pr_ContentSHA256 := sha (take n body)\<rparr>"
  have k: "keeps r1 (parse_role lower source lines r1)" by (rule parse_role_keeps)
  have "pr_Complete r1 \<longleftrightarrow> pr_Diagnostics r1 = []" by (simp add: r1_def r0_def diagnose_def)
  moreover have "pr_Complete r1 \<longrightarrow> pr_ContentSHA256 r1 = sha body \<and> pr_ByteLength r1 = int (length body)"
    using c by (simp add: r1_def r0_def diagnose_def)
  ultimately have "if pr_Complete (parse_role lower source lines r1)
      then pr_Diagnostics (parse_role lower source lines r1) = [] \<and> pr_ContentSHA256 (parse_role lower source lines r1) = sha body \<and>
        pr_ByteLength (parse_role lower source lines r1) = int (length body)
      else pr_Diagnostics (parse_role lower source lines r1) \<noteq> []"
    using k by (simp add: keeps_def)
  moreover have "Parse parse_time lower sha ctx_err body source \<in>
      {(parse_role lower source lines r1, None)} \<union> {(r0, Some e) |e. True}"
    unfolding Parse_def Let_def s prod.case r0_def[symmetric] lines_def[symmetric] r1_def[symmetric]
    by (auto split: option.split)
  moreover have "pr_Observations r0 = []" by (simp add: r0_def)
  ultimately show ?thesis by auto
qed

section \<open>Two weaknesses of the setup parser\<close>

lemma TrimSpace_plain:
  assumes "list_all (\<lambda>c. byte c < 0x80) s" "s \<noteq> []" "\<not> unicode_IsSpace (byte (hd s))" "\<not> unicode_IsSpace (byte (last s))"
  shows "TrimSpace s = s"
proof -
  have p: "pieces s = map (\<lambda>c. (byte c, [c])) s" using assms(1) by (intro pieces_ascii) (simp add: list_all_iff)
  obtain c t where c: "s = c # t" using assms(2) by (cases s) auto
  have "pieces s = (byte c, [c]) # map (\<lambda>c. (byte c, [c])) t" using p c by simp
  then have d: "dropWhile (unicode_IsSpace \<circ> fst) (pieces s) = pieces s" using assms(3) c by simp
  obtain u where u: "rev s = last s # u" using assms(2) by (metis append_butlast_last_id rev_eq_Cons_iff rev_rev_ident)
  have "rev (pieces s) = (byte (last s), [last s]) # map (\<lambda>c. (byte c, [c])) u" by (simp only: p rev_map u list.map)
  then have "dropWhile (unicode_IsSpace \<circ> fst) (rev (pieces s)) = rev (pieces s)" using assms(4) by simp
  then show ?thesis unfolding TrimSpace_def TrimFunc_def trim_pieces_def d by simp
qed

definition plain_line :: "int \<Rightarrow> string \<Rightarrow> lineRecord" where
  "plain_line n t = \<lparr>ln_number = n, ln_time = None, ln_text = t\<rparr>"

definition sample_log_scope :: ExecutionScope where
  "sample_log_scope = \<lparr>xs_RepositoryID = 1, xs_RunID = 1, xs_RunAttempt = 1, xs_JobID = 1, xs_StepKey = []\<rparr>"

definition sample_setup :: SourceContext where
  "sample_setup = \<lparr>sc_Scope = sample_log_scope, sc_Role = RoleSetup, sc_LifecyclePhase = OtherPhase [], sc_ExpectedAction = [],
     sc_GitObjectAlgorithm = ''sha1'', sc_APIStatus = ''completed'', sc_APIConclusion = ''success'', sc_RunnerVersion = [],
     sc_Grammar = [], sc_LineOffset = 0, sc_GrammarValidated = True\<rparr>"

definition fresh_result :: ParseResult where
  "fresh_result = \<lparr>pr_Observations = [], pr_Diagnostics = [], pr_Complete = True, pr_ContentSHA256 = [], pr_ByteLength = 0\<rparr>"

lemma setup_loop_inside:
  "ss_group st \<Longrightarrow> list_all (\<lambda>l. TrimSpace (ln_text l) \<noteq> ''##[endgroup]'') lines \<Longrightarrow>
   ss_announced (setup_loop lower source lines st) = ss_announced st \<and>
   pr_Complete (ss_result (setup_loop lower source lines st)) = pr_Complete (ss_result st) \<and>
   (\<exists>obs. pr_Observations (ss_result (setup_loop lower source lines st)) = pr_Observations (ss_result st) @ obs \<and>
      list_all (\<lambda>ob. ob_Kind ob = ObservationTokenPermission) obs)"
proof (induction lines arbitrary: st)
  case (Cons line rest)
  obtain st' nx where step: "setup_line lower source line rest st = (st', nx)" by fastforce
  have s: "nx = Some 0" "ss_group st'" "ss_announced st' = ss_announced st" "pr_Complete (ss_result st') = pr_Complete (ss_result st)"
      "\<exists>obs. pr_Observations (ss_result st') = pr_Observations (ss_result st) @ obs \<and>
         list_all (\<lambda>ob. ob_Kind ob = ObservationTokenPermission) obs"
    using step Cons.prems by (auto simp: setup_line_def Let_def observe_def baseObservation_def split: if_splits option.splits)
  show ?case using Cons.IH[OF s(2)] Cons.prems(2) s step by (fastforce simp: list_all_iff)
qed simp

text \<open>
  C26: A permission group that is not closed hides every download behind it, and the result still counts as complete.
\<close>

theorem unclosed_permission_group_hides_downloads:
  assumes "TrimSpace (ln_text header) = ''##[group]GITHUB_TOKEN Permissions''"
    and "list_all (\<lambda>l. TrimSpace (ln_text l) \<noteq> ''##[endgroup]'') lines"
  shows "pr_Complete (parseSetup lower (header # lines) source fresh_result) \<and>
    list_all (\<lambda>ob. ob_Kind ob = ObservationTokenPermission) (pr_Observations (parseSetup lower (header # lines) source fresh_result))"
proof -
  define st where "st = \<lparr>ss_announced = [], ss_failed = False, ss_group = True, ss_result = fresh_result\<rparr>"
  have "setup_line lower source header lines \<lparr>ss_announced = [], ss_failed = False, ss_group = False, ss_result = fresh_result\<rparr>
      = (st, Some 0)"
    using assms(1) by (simp add: setup_line_def Let_def st_def HasPrefix_def)
  then have eq: "setup_loop lower source (header # lines) \<lparr>ss_announced = [], ss_failed = False, ss_group = False, ss_result = fresh_result\<rparr>
      = setup_loop lower source lines st" by simp
  have "ss_announced (setup_loop lower source lines st) = []" "pr_Complete (ss_result (setup_loop lower source lines st))"
      "list_all (\<lambda>ob. ob_Kind ob = ObservationTokenPermission) (pr_Observations (ss_result (setup_loop lower source lines st)))"
    using setup_loop_inside[of st lines lower source] assms(2) by (auto simp: st_def fresh_result_def)
  then show ?thesis unfolding parseSetup_def Let_def eq by (simp add: observe_def)
qed

text \<open>The sample lines.\<close>

definition package_line :: "string \<Rightarrow> string" where
  "package_line declared = ''Download immutable action package '' @ [CHR 0x27] @ declared @ [CHR 0x27]"

lemmas plain_bytes = TrimSpace_plain byte_def unicode_IsSpace_def

lemma trim_samples:
  "TrimSpace ''##[group]GITHUB_TOKEN Permissions'' = ''##[group]GITHUB_TOKEN Permissions''"
  "TrimSpace (package_line ''a/b@v1'') = package_line ''a/b@v1''"
  "TrimSpace (package_line ''c/d@v2'') = package_line ''c/d@v2''"
  "TrimSpace ''Version: 1'' = ''Version: 1''" "TrimSpace ''Version: 2'' = ''Version: 2''"
  "TrimSpace ''1'' = ''1''" "TrimSpace ''2'' = ''2''"
  "TrimSpace ''##[error]failed'' = ''##[error]failed''"
  by (simp_all add: plain_bytes package_line_def)

theorem unclosed_permission_group_hides_downloads_witness:
  "pr_Complete (parseSetup id [plain_line 1 ''##[group]GITHUB_TOKEN Permissions'', plain_line 2 (package_line ''a/b@v1'')]
     sample_setup fresh_result) \<and>
   list_all (\<lambda>ob. ob_Kind ob = ObservationTokenPermission) (pr_Observations (parseSetup id
     [plain_line 1 ''##[group]GITHUB_TOKEN Permissions'', plain_line 2 (package_line ''a/b@v1'')] sample_setup fresh_result))"
  by (rule unclosed_permission_group_hides_downloads) (simp_all add: plain_line_def trim_samples, simp add: package_line_def)

lemma after_prefix_append: "after_prefix p (p @ r) = Some r"
  by (simp add: after_prefix_def HasPrefix_def)

lemma hex_run: "list_all hex_digit v \<Longrightarrow> dropWhile re_space v = v"
  by (cases v) (auto simp: hex_digit_def lower_hex_digit_def re_space_def)

lemma re_space_blank: "re_space CHR '' ''" and re_space_letter: "\<not> re_space CHR ''s''"
  by (simp_all add: re_space_def byte_def)

lemma source_line: "v \<noteq> [] \<Longrightarrow> list_all hex_digit v \<Longrightarrow> match_source (''Source commit SHA: '' @ v) = Some v"
  using after_prefix_append[of "''Source commit SHA:''" "CHR '' '' # v"]
  by (simp add: match_source_def re_space_blank hex_run)

lemma digest_line: "v \<noteq> [] \<Longrightarrow> list_all hex_digit v \<Longrightarrow> match_digest (''Digest: sha256:'' @ v) = Some (''sha256'', v)"
  using after_prefix_append[of "''Digest:''" "'' sha256:'' @ v"]
  by (simp add: match_digest_def re_space_blank re_space_letter byte_def is_digit_def)

lemma other_lines:
  "match_version ''##[error]failed'' = None" "match_source ''##[error]failed'' = None" "match_digest ''##[error]failed'' = None"
  "match_version (package_line d) = None" "match_source (package_line d) = None" "match_digest (package_line d) = None"
  "match_source ''Version: 1'' = None" "match_digest ''Version: 1'' = None" "match_version ''Version: 1'' = Some ''1''"
  "match_source ''Version: 2'' = None" "match_digest ''Version: 2'' = None" "match_version ''Version: 2'' = Some ''2''"
  "match_version (''Source commit SHA: '' @ v) = None" "match_digest (''Source commit SHA: '' @ v) = None"
  "match_version (''Digest: sha256:'' @ v) = None" "match_source (''Digest: sha256:'' @ v) = None"
  by (simp_all add: match_version_def match_source_def match_digest_def after_prefix_def HasPrefix_def package_line_def
      re_space_def byte_def)

lemma match_package: "match_download (package_line d) = None"
  "d \<noteq> [] \<Longrightarrow> CHR 0x27 \<notin> set d \<Longrightarrow> match_immutable (package_line d) = Some d"
  using after_prefix_append[of "''Download immutable action package ''" "[CHR 0x27] @ d @ [CHR 0x27]"]
  by (simp_all add: match_download_def match_immutable_def package_line_def TrimPrefix_def HasPrefix_def group_open_def after_prefix_def)
    (cases d; simp add: butlast_append)

text \<open>The patterns of the three fields exclude each other, and a package line is none of them.\<close>

lemma field_patterns_disjoint:
  "match_version t = Some v \<Longrightarrow> match_source t = None \<and> match_digest t = None"
  "match_source t = Some s \<Longrightarrow> match_version t = None \<and> match_digest t = None"
  "match_digest t = Some d \<Longrightarrow> match_version t = None \<and> match_source t = None"
  by (cases t; auto simp: match_version_def match_source_def match_digest_def after_prefix_def HasPrefix_def split: if_splits)+

lemma package_line_fields:
  "match_version (package_line d) = None" "match_source (package_line d) = None" "match_digest (package_line d) = None"
  by (simp_all add: match_version_def match_source_def match_digest_def after_prefix_def HasPrefix_def package_line_def)

text \<open>Lines that name neither an object nor a digest: they may be anything else, also an error.\<close>

definition pins_nothing :: "lineRecord \<Rightarrow> bool" where
  "pins_nothing line \<longleftrightarrow> match_source (TrimSpace (ln_text line)) = None \<and> match_digest (TrimSpace (ln_text line)) = None"

lemma package_loop_over:
  "list_all pins_nothing own \<Longrightarrow> k + length own \<le> 9 \<Longrightarrow>
   \<exists>v'. package_loop k (own @ behind) (v, [], [], []) = package_loop (k + length own) behind (v', [], [], [])"
proof (induction own arbitrary: k v)
  case (Cons line own)
  obtain v' where "read_field (TrimSpace (ln_text line)) (v, [], [], []) = (v', [], [], [])"
    using Cons.prems(1) by (auto simp: read_field_def pins_nothing_def Let_def)
  then show ?case using Cons.IH[of "Suc k" v'] Cons.prems by simp
qed auto

text \<open>The four lines of a package that does have its fields.\<close>

definition package_lines :: "lineRecord list \<Rightarrow> string \<Rightarrow> string \<Rightarrow> string \<Rightarrow> string \<Rightarrow> bool" where
  "package_lines ls declared version object digest \<longleftrightarrow>
     (\<exists>a b c d algorithm. ls = [a, b, c, d] \<and> TrimSpace (ln_text a) = package_line declared \<and>
        map_option TrimSpace (match_version (TrimSpace (ln_text b))) = Some version \<and> version \<noteq> [] \<and>
        match_source (TrimSpace (ln_text c)) = Some object \<and>
        match_digest (TrimSpace (ln_text d)) = Some (algorithm, digest) \<and> ToLower algorithm = ''sha256'' \<and> length digest = 64)"

lemma borrowed_fields:
  assumes "list_all pins_nothing own" and "length own \<le> 4" and "package_lines other declared version object digest"
  shows "package_loop 1 (own @ other @ later) ([], [], [], []) =
     ((version, ToLower object, ''sha256'', ToLower digest), length own + 5)"
proof -
  obtain a b c d algorithm m where ls: "other = [a, b, c, d]" "TrimSpace (ln_text a) = package_line declared"
      "match_version (TrimSpace (ln_text b)) = Some m" "TrimSpace m = version" "version \<noteq> []"
      "match_source (TrimSpace (ln_text c)) = Some object"
      "match_digest (TrimSpace (ln_text d)) = Some (algorithm, digest)" "ToLower algorithm = ''sha256''" "length digest = 64"
    using assms(3) by (auto simp: package_lines_def)
  note dis = field_patterns_disjoint[of "TrimSpace (ln_text b)"] field_patterns_disjoint[of "TrimSpace (ln_text c)"]
    field_patterns_disjoint[of "TrimSpace (ln_text d)"]
  obtain v' where v': "package_loop 1 (own @ other @ later) ([], [], [], []) =
      package_loop (1 + length own) (other @ later) (v', [], [], [])"
    using package_loop_over[OF assms(1), of 1 "other @ later" "[]"] assms(2) by auto
  have "object \<noteq> []" using ls(6) by (auto simp: match_source_def Let_def split: option.splits if_splits)
  then have "ToLower object \<noteq> []" "ToLower digest \<noteq> []" using ls(9) by (auto simp: ToLower_def)
  moreover have "read_field (TrimSpace (ln_text a)) f = f" for f
    by (cases f) (simp add: read_field_def ls(2) package_line_fields)
  moreover have "read_field (TrimSpace (ln_text b)) (x, [], [], []) = (version, [], [], [])" for x
    using dis(1)[OF ls(3)] by (simp add: read_field_def ls(3,4))
  moreover have "read_field (TrimSpace (ln_text c)) (x, [], [], []) = (x, ToLower object, [], [])" for x
    using dis(5)[OF ls(6)] by (simp add: read_field_def ls(6))
  moreover have "read_field (TrimSpace (ln_text d)) (x, y, [], []) = (x, y, ''sha256'', ToLower digest)" for x y
    using dis(9)[OF ls(7)] by (simp add: read_field_def ls(7,8))
  ultimately show ?thesis using assms(2) ls(5) by (simp only: v', simp add: ls(1))
qed

definition seen :: "Observation \<Rightarrow> ObservationKind \<times> (string \<times> string \<times> string) option" where
  "seen ob = (ob_Kind ob, map_option (\<lambda>a. (la_Owner a, la_Version a, lg_Value (la_Source a))) (ob_Action ob))"

definition borrowed_observation :: "SourceContext \<Rightarrow> lineRecord \<Rightarrow> lineRecord \<Rightarrow> LogAction \<Rightarrow> string \<Rightarrow> string \<Rightarrow> string \<Rightarrow> Observation" where
  "borrowed_observation source first closing action version object digest =
     (baseObservation ObservationResolution source first
        (Some (action\<lparr>la_Source := \<lparr>lg_Algorithm = sc_GitObjectAlgorithm source, lg_Value = ToLower object\<rparr>, la_Version := version,
           la_Digest := \<lparr>ld_Subject = ''github-action-package'', ld_Algorithm = ''sha256'', ld_Value = ToLower digest\<rparr>\<rparr>))
        (OtherPhase []) [] [])\<lparr>ob_LineEnd := ln_number closing\<rparr>"

lemma borrowed_step:
  assumes "TrimSpace (ln_text first) = package_line declared" and "declared \<noteq> []" and "CHR 0x27 \<notin> set declared"
    and "parseDeclaredAction lower declared = Inr action"
    and "list_all pins_nothing own" and "length own \<le> 4" and "package_lines other declared2 version object digest"
    and "log_validateOID (sc_GitObjectAlgorithm source) (ToLower object) = None" and "\<not> ss_group st"
  shows "setup_loop lower source (first # own @ other @ later) st = setup_loop lower source later
     (announce (borrowed_observation source first (last other) action version object digest) st)"
proof -
  have len: "version \<noteq> []" "length digest = 64" "length other = 4" using assms(7) by (auto simp: package_lines_def)
  have "ToLower object \<noteq> []" using assms(8) by (auto simp: log_validateOID_def Let_def require_def split: if_splits)
  then have imm: "parseImmutable lower (first # own @ other @ later) declared (sc_GitObjectAlgorithm source) =
      Inr (action\<lparr>la_Source := \<lparr>lg_Algorithm = sc_GitObjectAlgorithm source, lg_Value = ToLower object\<rparr>, la_Version := version,
           la_Digest := \<lparr>ld_Subject = ''github-action-package'', ld_Algorithm = ''sha256'', ld_Value = ToLower digest\<rparr>\<rparr>, length own + 5)"
    using len assms(8) by (simp add: parseImmutable_def assms(4) borrowed_fields[OF assms(5-7), unfolded One_nat_def] ToLower_def)
  have p: "\<not> HasPrefix (package_line declared) ''##[error]''" "package_line declared \<noteq> ''##[group]GITHUB_TOKEN Permissions''"
    "\<not> HasPrefix (package_line declared) ''Uses: ''"
    by (simp_all add: package_line_def HasPrefix_def)
  have close: "(first # own @ other @ later) ! (length own + 4) = last other" "drop (length own + 4) (own @ other @ later) = later"
    using assms(7) by (auto simp: package_lines_def nth_append)
  show ?thesis using close assms(9)
    by (simp add: setup_line_def assms(1) p match_package(1) match_package(2)[OF assms(2,3)] imm borrowed_observation_def)
qed

text \<open>
  C25: The fields of an immutable package are looked for beyond its own lines.  When fewer than five lines follow a
  package line, none of which names an object or a digest, and then the lines of another package come, the first package
  is announced with version, object and digest of the second.  The second one gives no observation, and none of the lines
  between them is looked at again, so that an error among them does not fail the preparation: with a successful conclusion
  the first package counts as completely prepared, in a complete result.
\<close>

theorem immutable_package_borrows_next:
  assumes "TrimSpace (ln_text first) = package_line declared" and "declared \<noteq> []" and "CHR 0x27 \<notin> set declared"
    and "parseDeclaredAction lower declared = Inr action"
    and "list_all pins_nothing own" and "length own \<le> 4" and "package_lines other declared2 version object digest"
    and "log_validateOID (sc_GitObjectAlgorithm source) (ToLower object) = None"
  shows "(\<not> ss_group st \<longrightarrow> setup_loop lower source (first # own @ other @ later) st = setup_loop lower source later
        (announce (borrowed_observation source first (last other) action version object digest) st)) \<and>
    (EqualFold (sc_APIConclusion source) ''success'' \<longrightarrow>
      map seen (pr_Observations (parseSetup lower (first # own @ other) source fresh_result)) =
        map (\<lambda>k. (k, Some (la_Owner action, version, ToLower object)))
          [ObservationResolution, ObservationDownloadAnnounced, ObservationPreparationComplete] \<and>
      pr_Complete (parseSetup lower (first # own @ other) source fresh_result))"
proof -
  define ob where "ob = borrowed_observation source first (last other) action version object digest"
  define st0 where "st0 = \<lparr>ss_announced = [], ss_failed = False, ss_group = False, ss_result = fresh_result\<rparr>"
  have run: "setup_loop lower source (first # own @ other) st0 = announce ob st0"
    using borrowed_step[OF assms, of st0 "[]"] by (simp add: st0_def ob_def)
  have "seen ob = (ObservationResolution, Some (la_Owner action, version, ToLower object))"
    by (simp add: seen_def ob_def borrowed_observation_def baseObservation_def)
  then have "map seen (pr_Observations (parseSetup lower (first # own @ other) source fresh_result)) =
        map (\<lambda>k. (k, Some (la_Owner action, version, ToLower object)))
          [ObservationResolution, ObservationDownloadAnnounced, ObservationPreparationComplete] \<and>
      pr_Complete (parseSetup lower (first # own @ other) source fresh_result)"
    if "EqualFold (sc_APIConclusion source) ''success''"
    using that unfolding parseSetup_def st0_def[symmetric] run
    by (auto simp: announce_def observe_def st0_def fresh_result_def conclude_def seen_def Let_def)
  then show ?thesis using borrowed_step[OF assms] by blast
qed

text \<open>A log of two packages, the first without an object and a digest, with an error between them.\<close>

definition borrowing_own :: "lineRecord list" where
  "borrowing_own = [plain_line 2 ''Version: 1'', plain_line 3 ''##[error]failed'']"

definition borrowing_next :: "lineRecord list" where
  "borrowing_next =
     [plain_line 4 (package_line ''c/d@v2''), plain_line 5 ''Version: 2'',
      plain_line 6 (''Source commit SHA: '' @ replicate 40 CHR ''e''), plain_line 7 (''Digest: sha256:'' @ replicate 64 CHR ''f'')]"

lemma borrowing_next_lines: "package_lines borrowing_next ''c/d@v2'' ''2'' (replicate 40 CHR ''e'') (replicate 64 CHR ''f'')"
proof -
  define oid dig where "oid = replicate 40 CHR ''e''" and "dig = replicate 64 CHR ''f''"
  have hex: "list_all hex_digit oid" "list_all hex_digit dig" "oid \<noteq> []" "dig \<noteq> []"
    by (simp_all add: oid_def dig_def list_all_iff hex_digit_def lower_hex_digit_def byte_def)
  have low: "ToLower ''sha256'' = ''sha256''" by (simp add: ToLower_def lower_byte_def byte_def)
  have trim: "TrimSpace (''Source commit SHA: '' @ oid) = ''Source commit SHA: '' @ oid"
    "TrimSpace (''Digest: sha256:'' @ dig) = ''Digest: sha256:'' @ dig"
    by (rule TrimSpace_plain; simp add: oid_def dig_def byte_def unicode_IsSpace_def list_all_iff)+
  have "length dig = 64" by (simp add: dig_def)
  then show ?thesis unfolding package_lines_def borrowing_next_def oid_def[symmetric] dig_def[symmetric]
    by (simp add: plain_line_def trim trim_samples other_lines source_line[OF hex(3,1)] digest_line[OF hex(4,2)] low del: append.simps)
qed

lemma parsed_declaration:
  "parseDeclaredAction id ''a/b@v1'' = Inr \<lparr>la_Owner = ''a'', la_Repository = ''b'', la_Subpath = [], la_Ref = ''v1'',
     la_Source = no_git, la_Version = [], la_Digest = no_digest\<rparr>"
  by (simp add: parseDeclaredAction_def ContainsAny_def safe_segment_def ValidUTF8_ascii byte_def)

theorem immutable_package_borrows_next_witness:
  "map seen (pr_Observations (parseSetup id (plain_line 1 (package_line ''a/b@v1'') # borrowing_own @ borrowing_next) sample_setup fresh_result)) =
     map (\<lambda>k. (k, Some (''a'', ''2'', replicate 40 CHR ''e'')))
       [ObservationResolution, ObservationDownloadAnnounced, ObservationPreparationComplete]"
proof -
  have "list_all pins_nothing borrowing_own" "length borrowing_own \<le> 4"
    by (simp_all add: borrowing_own_def pins_nothing_def plain_line_def trim_samples other_lines)
  moreover have "log_validateOID (sc_GitObjectAlgorithm sample_setup) (ToLower (replicate 40 CHR ''e'')) = None"
    by (simp add: log_validateOID_def hex_decodes_def list_all_iff hex_digit_def lower_hex_digit_def byte_def sample_setup_def
        ToLower_def lower_byte_def)
  moreover have "EqualFold (sc_APIConclusion sample_setup) ''success''" by (simp add: sample_setup_def EqualFold_def)
  ultimately show ?thesis
    using immutable_package_borrows_next[OF _ _ _ parsed_declaration _ _ borrowing_next_lines, of "plain_line 1 (package_line ''a/b@v1'')"
        borrowing_own sample_setup]
    by (simp add: plain_line_def trim_samples ToLower_def lower_byte_def byte_def)
qed

end
