(* ===== verification/Spec2Isabelle.thy ===== *)
theory Spec2Isabelle
  imports Match_Derive Github_Git Literal_Automaton Evidence_Ids Exposure Sanitize Ledger Logparse
begin

text \<open>
  CIRewind reconstructs which GitHub Actions runs of a watched set executed a compromised
  dependency. Its answers are findings; the strongest of them, NO_MATCH_CONFIRMED, exonerates a run
  and is only as good as the coverage behind it. This library models the part of the program
  that decides what may be concluded, and the part that collects what the conclusion rests on.

  The program's parts and the theories that model them (paths are under src/internal):

  \<^item> Prelude: lemma collections, list and option lemmas, Go errors as goerr option (None is nil) with
    first_error for a sequence of guarded returns, slices that may be nil, words and wrap-around.
  \<^item> Go_Text, Go_Time, Go_Strings: what the source uses of Go's standard library, written out:
    trimming, case mapping, path cleaning, UTF-8, decimal and hexadecimal text, instants, the
    signed 64-bit wrap-around wrap64, ParseInt, strings.Cut, url.PathEscape and url.Values.
  \<^item> Model_Enums (model/enums.go): the closed vocabularies. An enumeration is a datatype with
    the source's constants and one constructor for every other text; X_Valid is its Valid method.
  \<^item> Model_Ids (model/ids.go): identifiers, digests, Git objects, workflow paths, canonical keys.
  \<^item> Model_Time (model/time.go): event times, event intervals and collection windows.
  \<^item> Model_Coverage (model/coverage.go): coverage units, assessments, evidence gaps and
    ReconcileCoverage, which refuses a plan that was not fully assessed.
  \<^item> Model_Finding (model/finding.go, model/runtime.go, the rest of model/coverage.go):
    propositions, subjects, findings, their normal form and validation, ValidateFindingCoverage.
  \<^item> Match_Derive (match/derive.go): the precedence rules that turn a candidate into a decision,
    and ValidateEvidenceSupport, the contract the decision is later held to.
  \<^item> Collect_Window (collect/coverage.go, collect/window.go): enumeration of a time window by recursive
    halving under an explicit budget, and the plan of an incremental archive.
  \<^item> Collect_Attempts (collect/attempts.go): the snapshot of a run with its attempts and jobs, quarantine of
    contradictory jobs and repeated passes until the run is stable.
  \<^item> Github_Types, Github_Url, Github_Client (githubapi/types.go, errors.go, pagination.go, client.go): transport records,
    error classes, validation of URLs and of the Link header, classification of an answer,
    delays, the retry loop and the redirect loop.
  \<^item> Github_Endpoints, Github_Git (githubapi/endpoints.go, git_tags.go, git_commits.go, git_peel.go):
    routes, page loops and the peeling of annotated tags.
  \<^item> Literal_Automaton (literalmatch/automaton.go): the Aho-Corasick automaton of a set of literals and the
    stream matcher with its byte limit. Following failure links is partial_function (option); the exactness theorem says
    that it returns.
  \<^item> Go_Utf8, Go_Rfc3339: encoding of runes and the RFC 3339 text of an instant, with their injectivity.
  \<^item> Evidence_Json (evidence/canonical.go): Go values as encoding/json sees them and the canonical writer.
  \<^item> Evidence_Objects, Evidence_Ids (evidence/evidence.go, ids.go, factory.go): evidence objects, their validation and the
    content-addressed identifiers. The locale content_address is the contract of a constructor of
    identifiers, content_identity extends it; both are interpreted on the constructors of the source.
  \<^item> Exposure (exposure/exposure.go): what may be said of credentials, runners and resources of an affected step.
  \<^item> Sanitize (sanitize/text.go): hostile text for a terminal, a document, a box of fixed width and a spreadsheet.
  \<^item> Ledger (ledger/ledger.go): the append-only evidence ledger over a buffered file that may fail at any call. The locale
    growing_log is the contract of a log that only grows; it is interpreted on the calls of the writer.
  \<^item> Logparse (logparse/parser.go): the grammar of the control records of a runner in a log that scripts write to as
    well. Each regular expression of the source is a function match_*.

  How they interact: Github_Endpoints drives Github_Client page by page and its listings are the
  collector functions that Collect_Attempts and Collect_Window are given; the gaps those return become
  the coverage assessments of Model_Coverage; Match_Derive reads the
  evidence kinds and yields the state that Model_Finding validates against the coverage.
  The locale counted_listing of Github_Endpoints states the contract of a counted page loop
  and is interpreted on the run listing and the job listing of the source.

  State and effects: a struct is a record, its fields with a prefix where two structs
  share a name. A method is a function of its receiver. The outside world (network,
  clock, sleeping, cancellation) is a type variable 'w threaded through the
  functions of an API record, so every property holds for every behaviour of the
  other side. Functions of the standard library that parse foreign formats (url.Parse,
  http.ParseTime, JSON decoding) and the SHA-256 digest are arguments. A map the source only looks up is an
  association list.

  What the lemmas show, by group:

  \<^item> model: a finding that validates has resolvable references and the support its state claims; NO_MATCH_CONFIRMED
    is incompatible with an open unit or a material gap; reconciliation partitions the planned units and every
    counter is exact; normal forms are accepted and sorted.
  \<^item> match: Derive's decisions and the exact inputs on which its own contract refuses them.
  \<^item> collect: without a gap the enumeration covers the window and finds every run once, in order, within
    a number of requests bounded by the budget; the bundles of a snapshot name its run and attempt, a stable snapshot
    accounts for every attempt, and each attempt is read once.
  \<^item> githubapi: every request goes to the scheme and host of the configured base URL (the base path is not part of the
    statement), and one call of the client sends at most three requests more than it may make attempts;
    retry delays, with the jitter, are bounded by the configured maximum, but for an overflow of Retry-After; listings are complete or say that they are truncated; a
    peeled tag comes with the whole chain of objects that leads to its commit.
  \<^item> literalmatch: a stream search reports exactly the occurrences of the literals in the bytes it was given.
  \<^item> evidence: equal canonical text means equal JSON, so an identifier stands for what its preimage names, short of a
    collision of the digest; the theorems name the two preimages that would collide.

  \<^item> exposure, sanitize, ledger, logparse: a stated exposure cites exactly the non-blank evidence of the one source it is about;
    text for a terminal or a document has only runes of an explicit list (it is not searched for secrets), is bounded, is
    sanitized once and for all, and leaves out whole escape sequences; wrapped lines are complete, but for the placeholder of
    an empty text; a ledger holds the acknowledged records however the file fails, and reads back when its names are valid
    UTF-8; a fact read from a log rests on the lines the runner prints. Two theorems show logs the setup parser misreads.

  Bounds and fuel: recursive halving recurses with the depth that remains (MaxDepth of the source);
  page loops recurse on the source's page limit; the retry loop on MaxAttempts; redirects
  on the source's constant; stabilization on MaxPasses; tag peeling on its depth limit. These are the
  bounds the source has, so no fuel is added and none can run out before the code stops.
  Durations and delays are integers reduced by wrap64 where the source computes them.
\<close>

text \<open>
  Not modelled, and why: the analysis over the archive and what feeds it (analyze, archive, livecollect, incident, resolve,
  graph, the scanner of literalmatch, the framing of whole-job logs), which the parts above were modelled before; rendering (report, graph/svg.go, samplesite), persistence through SQL (store,
  archive/persist.go) and the file system (casefile, casegen), YAML parsing through a third-party package (workflow,
  incident/parser.go), release and laboratory tooling (releaseartifact, releasetool, publiclab, packreview), flag
  parsing (cli). PROJECT.json lists each with its status.
\<close>

end
